(* ===== verification/Prelude.thy ===== *)
theory Prelude
  imports Main "HOL-Library.Word" "HOL-Library.AList"
begin

text \<open>
  What the components share: the names of Go's machine types, slices of byte sequences,
  the big-endian codecs of \<^verbatim>\<open>encoding/binary\<close>, \<^verbatim>\<open>io.ReadFull\<close> on a reader that is the
  list of the bytes still to come, and the sum type of fallible operations.

  A Go array of \<open>k\<close> bytes (\<^verbatim>\<open>[4]byte\<close>, \<^verbatim>\<open>uuid.UUID\<close> = \<^verbatim>\<open>[16]byte\<close>, \<^verbatim>\<open>[32]byte\<close>) is a word of
  \<open>8 * k\<close> bits, read big-endian: copying the array into a buffer and storing the word with
  \<^verbatim>\<open>binary.BigEndian.PutUint\<close> write the same bytes, comparing two arrays with
  \<^verbatim>\<open>bytes.Compare\<close> is comparing the two words, and no side condition on a length is needed.
\<close>

unbundle bit_operations_syntax

type_synonym byte = "8 word"
type_synonym bytes = "byte list"
type_synonym uint16 = "16 word"
type_synonym uint32 = "32 word"
type_synonym uint64 = "64 word"
type_synonym uuid = "128 word"
type_synonym sha256 = "256 word"

named_theorems codec \<open>lengths and round trips of the encoders\<close>

subsection \<open>Slices\<close>

definition slice :: "'a list \<Rightarrow> nat \<Rightarrow> nat \<Rightarrow> 'a list" where
  "slice xs i j = take (j - i) (drop i xs)"

lemma length_slice [simp]: "length (slice xs i j) = min (j - i) (length xs - i)"
  by (simp add: slice_def)

lemma slice_append_left: "j \<le> length xs \<Longrightarrow> slice (xs @ ys) i j = slice xs i j"
  by (cases "i \<le> length xs") (auto simp: slice_def)

lemma slice_append_right:
  "length xs \<le> i \<Longrightarrow> slice (xs @ ys) i j = slice ys (i - length xs) (j - length xs)"
  by (simp add: slice_def)

lemma slice_full: "length xs \<le> j \<Longrightarrow> slice xs 0 j = xs"
  by (simp add: slice_def)

lemma slice_take: "j \<le> k \<Longrightarrow> slice (take k xs) i j = slice xs i j"
  by (simp add: slice_def drop_take min_def)

lemma slice_slice: "i + b \<le> j \<Longrightarrow> slice (slice xs i j) a b = slice xs (i + a) (i + b)"
  by (simp add: slice_def drop_take min_def add.commute [of i a])

lemma slice_concat: "i \<le> j \<Longrightarrow> j \<le> k \<Longrightarrow> slice xs i j @ slice xs j k = slice xs i k"
proof -
  assume "i \<le> j" and "j \<le> k"
  then have "k - i = (j - i) + (k - j)" and "drop j xs = drop (j - i) (drop i xs)"
    by simp_all
  then show ?thesis
    by (simp only: slice_def take_add)
qed

lemma slice_concat3:
  "i \<le> j \<Longrightarrow> j \<le> k \<Longrightarrow> slice xs i j @ slice xs j k @ ys = slice xs i k @ ys"
  by (metis append_assoc slice_concat)

lemmas slice_simps = slice_append_left slice_append_right slice_full

subsection \<open>Big-endian integers\<close>

fun be_bytes :: "nat \<Rightarrow> nat \<Rightarrow> bytes" where
  "be_bytes 0 n = []"
| "be_bytes (Suc k) n = be_bytes k (n div 256) @ [word_of_nat (n mod 256)]"

definition be_val :: "bytes \<Rightarrow> nat" where
  "be_val bs = foldl (\<lambda>acc b. acc * 256 + unat b) 0 bs"

definition PutUint :: "'a::len word \<Rightarrow> bytes" where
  "PutUint w = be_bytes (LENGTH('a) div 8) (unat w)"

definition Uint :: "bytes \<Rightarrow> 'a::len word" where
  "Uint bs = word_of_nat (be_val bs)"

lemma length_be_bytes [simp]: "length (be_bytes k n) = k"
  by (induction k arbitrary: n) auto

lemma be_val_Nil [simp]: "be_val [] = 0"
  by (simp add: be_val_def)

lemma be_val_snoc [simp]: "be_val (bs @ [b]) = be_val bs * 256 + unat b"
  by (simp add: be_val_def)

lemma unat_byte_of_nat: "unat (word_of_nat (n mod 256) :: byte) = n mod 256"
  by (simp add: unat_of_nat)

lemma unat_byte_less: "unat (b :: byte) < 256"
  using unsigned_less [of b] by simp

lemma be_val_be_bytes: "be_val (be_bytes k n) = n mod 256 ^ k"
proof (induction k arbitrary: n)
  case 0
  then show ?case by simp
next
  case (Suc k)
  have "be_val (be_bytes (Suc k) n) = (n div 256) mod 256 ^ k * 256 + n mod 256"
    by (simp add: Suc unat_byte_of_nat)
  also have "\<dots> = n mod (256 * 256 ^ k)"
    by (simp add: mod_mult2_eq algebra_simps)
  finally show ?case by simp
qed

lemma be_val_less: "be_val bs < 256 ^ length bs"
proof (induction bs rule: rev_induct)
  case Nil
  then show ?case by simp
next
  case (snoc b bs)
  note unat_byte_less [of b]
  with snoc show ?case
    by (simp add: algebra_simps)
qed

lemma be_bytes_be_val: "length bs = k \<Longrightarrow> be_bytes k (be_val bs) = bs"
proof (induction bs arbitrary: k rule: rev_induct)
  case Nil
  then show ?case by simp
next
  case (snoc b bs)
  note unat_byte_less [of b]
  with snoc show ?case
    by auto
qed

lemma byte_width_pow:
  assumes "8 dvd LENGTH('a::len)"
  shows "(256::nat) ^ (LENGTH('a) div 8) = 2 ^ LENGTH('a)"
proof -
  have "(256::nat) = 2 ^ 8" by simp
  then have "(256::nat) ^ (LENGTH('a) div 8) = 2 ^ (8 * (LENGTH('a) div 8))"
    by (simp only: power_mult)
  with assms show ?thesis by simp
qed

lemma length_PutUint [simp, codec]: "length (PutUint (w :: 'a::len word)) = LENGTH('a) div 8"
  by (simp add: PutUint_def)

lemma Uint_PutUint [simp, codec]:
  "8 dvd LENGTH('a::len) \<Longrightarrow> (Uint (PutUint (w :: 'a word)) :: 'a word) = w"
  by (simp add: PutUint_def Uint_def be_val_be_bytes byte_width_pow unsigned_less)

lemma PutUint_Uint:
  assumes "8 dvd LENGTH('a::len)" and "length bs = LENGTH('a) div 8"
  shows "PutUint (Uint bs :: 'a word) = bs"
proof -
  have "be_val bs < 2 ^ LENGTH('a)"
    using be_val_less [of bs] assms by (simp add: byte_width_pow)
  then show ?thesis
    using assms by (simp add: PutUint_def Uint_def unat_of_nat be_bytes_be_val)
qed

lemma be_bytes_0: "be_bytes k 0 = replicate k 0"
  by (induction k) (simp_all add: replicate_append_same)

lemma PutUint_0: "PutUint (0 :: 'a::len word) = replicate (LENGTH('a) div 8) 0"
  by (simp add: PutUint_def be_bytes_0)

lemma PutUint_inject:
  "8 dvd LENGTH('a::len) \<Longrightarrow> PutUint (v :: 'a word) = PutUint w \<longleftrightarrow> v = w"
  by (metis Uint_PutUint)

subsection \<open>Readers and results\<close>

datatype 'b read = ReadEOF | ReadShort "'b list" | ReadOk "'b list" "'b list"

definition ReadFull :: "nat \<Rightarrow> bytes \<Rightarrow> byte read" where
  \<comment> \<open>\<open>io.ReadFull(r, buf)\<close> with \<open>n = len(buf)\<close>: io.EOF, io.ErrUnexpectedEOF with what was read,
      or the bytes read and the reader that is left\<close>
  "ReadFull n r =
     (if n \<le> length r then ReadOk (take n r) (drop n r)
      else if r = [] then ReadEOF
      else ReadShort r)"

lemma ReadFull_append [simp]: "length xs = n \<Longrightarrow> ReadFull n (xs @ ys) = ReadOk xs ys"
  by (simp add: ReadFull_def)

lemma ReadFull_Nil [simp]: "0 < n \<Longrightarrow> ReadFull n [] = ReadEOF"
  by (simp add: ReadFull_def)

lemma ReadFull_OkD: "ReadFull n r = ReadOk xs ys \<Longrightarrow> r = xs @ ys \<and> length xs = n"
  by (auto simp: ReadFull_def split: if_splits)

lemma ReadFull_ShortD: "ReadFull n r = ReadShort xs \<Longrightarrow> xs = r \<and> r \<noteq> [] \<and> length r < n"
  by (auto simp: ReadFull_def split: if_splits)

lemma ReadFull_EOFD: "ReadFull n r = ReadEOF \<Longrightarrow> r = [] \<and> 0 < n"
  by (cases n) (auto simp: ReadFull_def split: if_splits)

subsection \<open>Errors\<close>

text \<open>
  The sentinel errors of the modelled packages. An error wrapped with \<^verbatim>\<open>fmt.Errorf("...: %w", err)\<close>
  is the error it wraps, which is what \<^verbatim>\<open>errors.Is\<close> sees; \<open>ErrIO\<close> is any failure of the operating
  system other than a missing file, \<open>Panic\<close> a run-time panic, \<open>ErrMsg\<close> an error the source makes from a text, \<open>ErrJoin\<close> the
  result of \<^verbatim>\<open>errors.Join\<close> on a non-empty list.
\<close>

datatype error =
    ErrEOF
  | ErrInvalidSegmentMagic | ErrUnsupportedSegmentVersion | ErrInvalidSegmentHeaderLength
  | ErrTruncatedSegmentHeader | ErrUnversionedSegment
  | ErrCorruptedRecord | ErrChecksumMismatch | ErrTruncatedRecord
  | ErrNotExist | ErrIO
  | ErrUnexpectedEOF | ErrPackSlotsFull | ErrPackClosed
  | Panic string
  | ErrMsg string
  | ErrJoin "error list"

definition andThen :: "(error + 'a) \<times> 's \<Rightarrow> ('a \<Rightarrow> 's \<Rightarrow> (error + 'b) \<times> 's) \<Rightarrow> (error + 'b) \<times> 's" where
  \<comment> \<open>a call followed by \<open>if err != nil { return err }\<close>\<close>
  "andThen r k = (case r of (Inl e, s) \<Rightarrow> (Inl e, s) | (Inr x, s) \<Rightarrow> k x s)"

lemma andThen_simps [simp]:
  "andThen (Inl e, s) k = (Inl e, s)"
  "andThen (Inr x, s) k = k x s"
  by (simp_all add: andThen_def)

lemma andThen_InrD:
  "andThen r k = (Inr y, s') \<Longrightarrow> \<exists>x s. r = (Inr x, s) \<and> k x s = (Inr y, s')"
  by (auto simp: andThen_def split: sum.splits prod.splits)

definition Join :: "error list \<Rightarrow> error option" where
  "Join errs = (if errs = [] then None else Some (ErrJoin errs))"

lemma Join_eq_None [simp]: "Join errs = None \<longleftrightarrow> errs = []"
  by (simp add: Join_def)

lemma Join_Nil [simp]: "Join [] = None"
  by simp

end
