(* ===== verification/WalHeader.thy ===== *)
theory WalHeader
  imports Prelude
begin

text \<open>
  \<^verbatim>\<open>pkg/wal/header.go\<close>: the 16-byte header at the start of every WAL segment file, its encoder,
  and \<^verbatim>\<open>ReadSegmentHeader\<close>, which validates it and leaves the reader at the first record. The
  reader (an \<^verbatim>\<open>io.ReadSeeker\<close> at offset 0) is the whole content of the file; the result carries
  the bytes from the position the code seeks to.
\<close>

definition SegmentMagicBytes :: uint32 where
  "SegmentMagicBytes = 0x4F46574C" \<comment> \<open>OFWL\<close>

definition ClientMagicBytes :: uint32 where
  "ClientMagicBytes = 0x57414C43" \<comment> \<open>WALC\<close>

definition LogMagicBytes :: uint32 where
  "LogMagicBytes = 0x57414C4C" \<comment> \<open>WALL\<close>

definition SegmentVersion :: uint16 where
  "SegmentVersion = 1"

definition SegmentHeaderSize :: nat where
  "SegmentHeaderSize = 16"

record SegmentHeader =
  Magic :: uint32
  Version :: uint16
  HeaderLength :: uint16
  Reserved :: uint64

definition SegmentHeader_Encode :: "SegmentHeader \<Rightarrow> bytes" where
  "SegmentHeader_Encode h =
     PutUint (Magic h) @ PutUint (Version h) @ PutUint (HeaderLength h) @ PutUint (Reserved h)"

definition DefaultSegmentHeader :: SegmentHeader where
  "DefaultSegmentHeader =
     \<lparr>Magic = SegmentMagicBytes, Version = SegmentVersion,
      HeaderLength = of_nat SegmentHeaderSize, Reserved = 0\<rparr>"

definition ZeroSegmentHeader :: SegmentHeader where
  "ZeroSegmentHeader = \<lparr>Magic = 0, Version = 0, HeaderLength = 0, Reserved = 0\<rparr>"

definition read_header_fields ::
    "bytes \<Rightarrow> bool \<Rightarrow> bytes \<Rightarrow> error + (SegmentHeader \<times> nat \<times> bytes)" where
  \<comment> \<open>the part of ReadSegmentHeader after the read: \<open>got\<close> is what was read, at most 16 bytes\<close>
  "read_header_fields data acceptUnversioned got =
     (let n = length got;
          buf = got @ replicate (SegmentHeaderSize - n) 0;
          magic = Uint (slice buf 0 4) :: uint32
      in if magic = SegmentMagicBytes then
           (if n < SegmentHeaderSize then Inl ErrTruncatedSegmentHeader
            else let ver = Uint (slice buf 4 6) :: uint16
            in if ver > SegmentVersion then Inl ErrUnsupportedSegmentVersion
            else let hdrLen = Uint (slice buf 6 8) :: uint16
            in if hdrLen < 8 then Inl ErrInvalidSegmentHeaderLength
            else let reserved = Uint (slice buf 8 16) :: uint64;
                     r = (if unat hdrLen \<noteq> n then drop (unat hdrLen) data else drop n data)
            in Inr (\<lparr>Magic = magic, Version = ver, HeaderLength = hdrLen, Reserved = reserved\<rparr>,
                    unat hdrLen, r))
         else if magic = ClientMagicBytes \<or> magic = LogMagicBytes then
           (if acceptUnversioned then Inr (ZeroSegmentHeader, 0, data)
            else Inl ErrUnversionedSegment)
         else Inl ErrInvalidSegmentMagic)"

definition ReadSegmentHeader :: "bytes \<Rightarrow> bool \<Rightarrow> error + (SegmentHeader \<times> nat \<times> bytes)" where
  "ReadSegmentHeader data acceptUnversioned =
     (case ReadFull SegmentHeaderSize data of
        ReadEOF \<Rightarrow> Inl ErrEOF
      | ReadShort got \<Rightarrow>
          (if length got < 4 then Inl ErrTruncatedSegmentHeader
           else read_header_fields data acceptUnversioned got)
      | ReadOk got rest \<Rightarrow> read_header_fields data acceptUnversioned got)"

subsection \<open>Lemmas\<close>

lemmas header_consts = SegmentHeaderSize_def SegmentVersion_def

lemma length_SegmentHeader_Encode [simp, codec]: "length (SegmentHeader_Encode h) = 16"
  by (simp add: SegmentHeader_Encode_def)

lemma SegmentHeader_Encode_neq_Nil [simp]: "SegmentHeader_Encode h \<noteq> []"
  using length_SegmentHeader_Encode [of h] by (intro notI) simp

lemma SegmentHeader_slices:
  "slice (SegmentHeader_Encode h) 0 4 = PutUint (Magic h)"
  "slice (SegmentHeader_Encode h) 4 6 = PutUint (Version h)"
  "slice (SegmentHeader_Encode h) 6 8 = PutUint (HeaderLength h)"
  "slice (SegmentHeader_Encode h) 8 16 = PutUint (Reserved h)"
  by (simp_all add: SegmentHeader_Encode_def slice_simps)

lemma ReadSegmentHeader_Encode:
  assumes "Magic h = SegmentMagicBytes" and "Version h \<le> SegmentVersion" and "8 \<le> HeaderLength h"
  shows "ReadSegmentHeader (SegmentHeader_Encode h @ rest) acc =
           Inr (h, unat (HeaderLength h),
                drop (unat (HeaderLength h)) (SegmentHeader_Encode h @ rest))"
  using assms
  by (auto simp: ReadSegmentHeader_def read_header_fields_def SegmentHeaderSize_def
      SegmentHeader_slices Let_def)

lemma ReadSegmentHeader_Default [simp]:
  "ReadSegmentHeader (SegmentHeader_Encode DefaultSegmentHeader @ rest) acc =
     Inr (DefaultSegmentHeader, 16, rest)"
  by (subst ReadSegmentHeader_Encode)
    (simp_all add: DefaultSegmentHeader_def SegmentHeaderSize_def)

lemma ReadSegmentHeader_Nil [simp]: "ReadSegmentHeader [] acc = Inl ErrEOF"
  by (simp add: ReadSegmentHeader_def SegmentHeaderSize_def)

lemma ReadSegmentHeader_torn:
  assumes "0 < k" and "k < 16" and "Magic h = SegmentMagicBytes"
  shows "ReadSegmentHeader (take k (SegmentHeader_Encode h)) acc = Inl ErrTruncatedSegmentHeader"
proof -
  let ?got = "take k (SegmentHeader_Encode h)"
  have rf: "ReadFull 16 ?got = ReadShort ?got"
    using assms by (auto simp: ReadFull_def)
  show ?thesis
  proof (cases "k < 4")
    case True
    then show ?thesis by (simp add: ReadSegmentHeader_def SegmentHeaderSize_def rf)
  next
    case False
    then have "slice (?got @ replicate (16 - k) 0) 0 4 = slice (SegmentHeader_Encode h) 0 4"
      using assms by (simp add: slice_def min_def)
    with False assms show ?thesis
      by (simp add: ReadSegmentHeader_def read_header_fields_def SegmentHeaderSize_def rf
          SegmentHeader_slices min_def)
  qed
qed

end
