(* ===== verification/Crc32c.thy ===== *)
theory Crc32c
  imports Prelude
begin

text \<open>
  The CRC32C of \<^verbatim>\<open>hash/crc32\<close> with the table of \<^verbatim>\<open>crc32.MakeTable(crc32.Castagnoli)\<close>, as the
  WAL uses it (\<^verbatim>\<open>pkg/wal/record.go\<close>): a table-driven loop over bytes. The lemmas show that a
  table step is eight steps of the bitwise register, that both are injective, and that no two
  inputs that differ only inside a window of four bytes have the same checksum.
\<close>

definition crc_poly :: uint32 where
  "crc_poly = 0x82F63B78"

definition crc_bit :: "uint32 \<Rightarrow> uint32" where
  "crc_bit x = (if bit x 0 then drop_bit 1 x XOR crc_poly else drop_bit 1 x)"

definition CastagnoliTable :: "byte \<Rightarrow> uint32" where
  "CastagnoliTable i = (crc_bit ^^ 8) (ucast i)"

definition crc_step :: "uint32 \<Rightarrow> byte \<Rightarrow> uint32" where
  "crc_step crc v = CastagnoliTable (ucast crc XOR v) XOR drop_bit 8 crc"

definition crc_update :: "uint32 \<Rightarrow> bytes \<Rightarrow> uint32" where
  \<comment> \<open>\<open>h.Write(p)\<close> on a digest whose sum is \<open>crc\<close>\<close>
  "crc_update crc p = NOT (foldl crc_step (NOT crc) p)"

subsection \<open>The bitwise register\<close>

lemma bit_crc_poly_31: "bit crc_poly 31"
  by (simp add: crc_poly_def)

lemma bit_crc_bit_31: "bit (crc_bit x) 31 = bit x 0"
  by (auto simp: crc_bit_def bit_xor_iff bit_drop_bit_eq bit_crc_poly_31 dest: bit_imp_le_length)

lemma crc_bit_xor: "crc_bit (x XOR y) = crc_bit x XOR crc_bit y"
  by (rule bit_word_eqI) (auto simp: crc_bit_def bit_xor_iff bit_drop_bit_eq)

lemma crc_bit_0 [simp]: "crc_bit 0 = 0"
  by (simp add: crc_bit_def)

lemma drop_bit_1_bit_0_inject:
  fixes x y :: "'a::len word"
  assumes "drop_bit 1 x = drop_bit 1 y" and "bit x 0 = bit y 0"
  shows "x = y"
proof (rule bit_word_eqI)
  fix n
  show "bit x n = bit y n"
  proof (cases n)
    case 0
    with assms(2) show ?thesis by simp
  next
    case (Suc m)
    from assms(1) have "bit (drop_bit 1 x) m = bit (drop_bit 1 y) m" by simp
    with Suc show ?thesis by (simp add: bit_drop_bit_eq)
  qed
qed

lemma xor_right_cancel: "(x :: 'a::len word) XOR z = y XOR z \<longleftrightarrow> x = y"
  by (metis xor.right_neutral xor_self_eq xor.assoc)

lemma crc_bit_inject: "crc_bit x = crc_bit y \<longleftrightarrow> x = y"
proof
  assume eq: "crc_bit x = crc_bit y"
  then have b: "bit x 0 = bit y 0"
    by (metis bit_crc_bit_31)
  with eq have "drop_bit 1 x = drop_bit 1 y"
    by (simp add: crc_bit_def xor_right_cancel split: if_splits)
  then show "x = y"
    using b by (rule drop_bit_1_bit_0_inject)
qed simp

lemma crc_bits_xor: "(crc_bit ^^ n) (x XOR y) = (crc_bit ^^ n) x XOR (crc_bit ^^ n) y"
  by (induction n) (simp_all add: crc_bit_xor)

lemma crc_bits_inject: "(crc_bit ^^ n) x = (crc_bit ^^ n) y \<longleftrightarrow> x = y"
  by (induction n) (simp_all add: crc_bit_inject)

lemma crc_bits_drop:
  \<comment> \<open>with the low \<open>n\<close> bits clear the register only shifts\<close>
  "take_bit n x = 0 \<Longrightarrow> (crc_bit ^^ n) x = drop_bit n x"
proof (induction n)
  case 0
  then show ?case by simp
next
  case (Suc n)
  have "take_bit n (take_bit (Suc n) x) = 0" and "bit (take_bit (Suc n) x) n = False"
    using Suc.prems by simp_all
  then have "take_bit n x = 0" and "\<not> bit x n"
    by (simp_all add: bit_take_bit_iff)
  with Suc.IH show ?case
    by (simp add: crc_bit_def bit_drop_bit_eq drop_bit_drop_bit)
qed

subsection \<open>The table step\<close>

lemma crc_step_bits: "crc_step crc v = (crc_bit ^^ 8) (crc XOR ucast v)"
proof -
  let ?x = "crc XOR ucast v"
  let ?lo = "ucast (ucast crc XOR v :: byte) :: uint32"
  let ?hi = "push_bit 8 (drop_bit 8 crc)"
  have x: "?x = ?lo XOR ?hi"
    by (rule bit_word_eqI)
      (auto simp: bit_xor_iff bit_unsigned_iff bit_push_bit_iff bit_drop_bit_eq
        dest: bit_imp_le_length)
  have "(crc_bit ^^ 8) ?hi = drop_bit 8 ?hi"
    by (rule crc_bits_drop) (simp add: take_bit_push_bit)
  also have "\<dots> = drop_bit 8 crc"
    by (rule bit_word_eqI) (auto simp: bit_push_bit_iff bit_drop_bit_eq dest: bit_imp_le_length)
  finally show ?thesis
    by (simp only: x crc_bits_xor crc_step_def CastagnoliTable_def)
qed

lemma crc_step_inject_state: "crc_step s b = crc_step t b \<longleftrightarrow> s = t"
proof -
  have "crc_step s b = crc_step t b \<longleftrightarrow> s XOR ucast b = t XOR ucast b"
    by (simp only: crc_step_bits crc_bits_inject)
  also have "\<dots> \<longleftrightarrow> s = t"
    by (rule xor_right_cancel)
  finally show ?thesis .
qed

lemma crc_fold_inject_state: "foldl crc_step s p = foldl crc_step t p \<longleftrightarrow> s = t"
  by (induction p arbitrary: s t) (simp_all add: crc_step_inject_state)

subsection \<open>Bursts of at most four bytes\<close>

fun le_word :: "bytes \<Rightarrow> uint32" where
  "le_word [] = 0"
| "le_word (b # bs) = ucast b XOR push_bit 8 (le_word bs)"

lemma le_word_bits: "bit (le_word bs) n \<Longrightarrow> n < 8 * length bs"
proof (induction bs arbitrary: n)
  case Nil
  then show ?case by simp
next
  case (Cons b bs)
  from Cons.prems have "bit b n \<or> (8 \<le> n \<and> bit (le_word bs) (n - 8))"
    by (auto simp: bit_xor_iff bit_unsigned_iff bit_push_bit_iff)
  then show ?case
  proof
    assume "bit b n"
    then show ?thesis using bit_imp_le_length [of b n] by simp
  next
    assume "8 \<le> n \<and> bit (le_word bs) (n - 8)"
    then show ?thesis using Cons.IH [of "n - 8"] by simp
  qed
qed

lemma drop_push_le_word: "length bs \<le> 3 \<Longrightarrow> drop_bit 8 (push_bit 8 (le_word bs)) = le_word bs"
  by (rule bit_word_eqI) (auto simp: bit_push_bit_iff bit_drop_bit_eq dest: le_word_bits)

lemma crc_fold_le_word:
  "length bs \<le> 4 \<Longrightarrow> foldl crc_step s bs = (crc_bit ^^ (8 * length bs)) (s XOR le_word bs)"
proof (induction bs arbitrary: s)
  case Nil
  then show ?case by simp
next
  case (Cons b bs)
  let ?k = "8 * length bs"
  have "(crc_bit ^^ 8) (push_bit 8 (le_word bs)) = drop_bit 8 (push_bit 8 (le_word bs))"
    by (rule crc_bits_drop) (simp add: take_bit_push_bit)
  with Cons.prems have lw: "(crc_bit ^^ 8) (push_bit 8 (le_word bs)) = le_word bs"
    by (simp add: drop_push_le_word)
  have "foldl crc_step s (b # bs) = (crc_bit ^^ ?k) (crc_step s b XOR le_word bs)"
    using Cons by simp
  also have "crc_step s b XOR le_word bs
      = (crc_bit ^^ 8) (s XOR ucast b XOR push_bit 8 (le_word bs))"
    by (simp only: crc_step_bits crc_bits_xor lw xor.assoc)
  also have "(crc_bit ^^ ?k) \<dots> = (crc_bit ^^ (?k + 8)) (s XOR ucast b XOR push_bit 8 (le_word bs))"
    by (simp only: funpow_add o_apply)
  also have "?k + 8 = 8 * length (b # bs)" by simp
  finally show ?case
    by (simp only: le_word.simps xor.assoc)
qed

lemma le_word_inject:
  "length u = length v \<Longrightarrow> length u \<le> 4 \<Longrightarrow> le_word u = le_word v \<Longrightarrow> u = v"
proof (induction u v rule: list_induct2)
  case Nil
  then show ?case by simp
next
  case (Cons b bs c cs)
  have lo: "take_bit 8 (le_word (d # ds)) = ucast d" for d ds
    by (rule bit_word_eqI)
      (auto simp: bit_take_bit_iff bit_xor_iff bit_unsigned_iff bit_push_bit_iff
        dest: bit_imp_le_length)
  have uc: "ucast b = (ucast c :: uint32)"
    using Cons.prems(2) lo [of b bs] lo [of c cs] by simp
  have "b = c"
  proof (rule bit_word_eqI)
    fix n
    assume "n < LENGTH(8)"
    moreover have "bit (ucast b :: uint32) n = bit (ucast c :: uint32) n"
      using uc by simp
    ultimately show "bit b n = bit c n"
      by (simp add: bit_unsigned_iff)
  qed
  with Cons.prems(2) have "push_bit 8 (le_word bs) = push_bit 8 (le_word cs)"
    by (simp add: xor.commute [of "ucast c"] xor_right_cancel)
  then have "drop_bit 8 (push_bit 8 (le_word bs)) = drop_bit 8 (push_bit 8 (le_word cs))"
    by (rule arg_cong)
  moreover have "length bs \<le> 3" and "length cs \<le> 3"
    using Cons.prems(1) Cons.hyps by simp_all
  ultimately have "le_word bs = le_word cs"
    by (simp only: drop_push_le_word)
  with Cons \<open>b = c\<close> show ?case by simp
qed

theorem crc_burst_detected:
  assumes "length u = length v" and "length u \<le> 4" and "u \<noteq> v"
  shows "crc_update 0 (xs @ u @ ys) \<noteq> crc_update 0 (xs @ v @ ys)"
proof
  assume "crc_update 0 (xs @ u @ ys) = crc_update 0 (xs @ v @ ys)"
  then have "foldl crc_step (foldl crc_step (NOT 0) xs) u = foldl crc_step (foldl crc_step (NOT 0) xs) v"
    by (simp add: crc_update_def crc_fold_inject_state)
  with assms have "le_word u = le_word v"
    by (simp add: crc_fold_le_word crc_bits_inject xor.commute [of "foldl crc_step _ _"]
        xor_right_cancel)
  with assms show False
    using le_word_inject by blast
qed

lemma crc_update_append: "crc_update (crc_update c xs) ys = crc_update c (xs @ ys)"
  by (simp add: crc_update_def)

end
