(* ===== verification/WalRecord.thy ===== *)
theory WalRecord
  imports WalHeader Crc32c
begin

text \<open>
  \<^verbatim>\<open>pkg/wal/record.go\<close>: the two record formats of the WAL, \<^verbatim>\<open>ClientRecord\<close> (written by a client to
  its own segments) and \<^verbatim>\<open>LogRecord\<close> (written by the buffer service, with the position it
  assigned), their checksums, encoders and decoders. A decoder returns the record and the
  reader that is left. The lemmas give the codec laws of both formats: decoding inverts
  encoding, accepts nothing else, reports every proper prefix of an encoded record as
  truncated, and reports a burst of at most four changed bytes.
\<close>

definition ClientHeaderSize :: nat where
  "ClientHeaderSize = 36"

definition LogHeaderSize :: nat where
  "LogHeaderSize = 44"

record ClientRecord =
  crStreamID :: uuid
  crStreamSeq :: uint64
  crPayload :: bytes
  crCRC32C :: uint32

record LogRecord =
  Position :: uint64
  StreamID :: uuid
  StreamSeq :: uint64
  Payload :: bytes
  CRC32C :: uint32

text \<open>\<^verbatim>\<open>uint32(len(payload))\<close>: the length field wraps for payloads of 4 GiB and more.\<close>

definition len32 :: "bytes \<Rightarrow> uint32" where
  "len32 p = word_of_nat (length p)"

subsection \<open>Client records\<close>

definition ClientRecord_ComputeCRC32C :: "ClientRecord \<Rightarrow> uint32" where
  "ClientRecord_ComputeCRC32C r =
     (let hdr = PutUint ClientMagicBytes @ PutUint (crStreamID r) @ PutUint (crStreamSeq r) @
                PutUint (len32 (crPayload r)) @ PutUint (0 :: uint32)
      in crc_update (crc_update 0 hdr) (crPayload r))"

definition ClientRecord_Encode :: "ClientRecord \<Rightarrow> bytes \<times> ClientRecord" where
  \<comment> \<open>the encoding, and the record with the checksum the call stores in it\<close>
  "ClientRecord_Encode r =
     (let r = r\<lparr>crCRC32C := ClientRecord_ComputeCRC32C r\<rparr>
      in (PutUint ClientMagicBytes @ PutUint (crStreamID r) @ PutUint (crStreamSeq r) @
          PutUint (len32 (crPayload r)) @ PutUint (crCRC32C r) @ crPayload r, r))"

definition DecodeClientRecord :: "bytes \<Rightarrow> error + (ClientRecord \<times> bytes)" where
  "DecodeClientRecord r =
     (case ReadFull ClientHeaderSize r of
        ReadEOF \<Rightarrow> Inl ErrEOF
      | ReadShort _ \<Rightarrow> Inl ErrTruncatedRecord
      | ReadOk hdr r1 \<Rightarrow>
          (if Uint (slice hdr 0 4) \<noteq> ClientMagicBytes then Inl ErrCorruptedRecord
           else let streamID = Uint (slice hdr 4 20) :: uuid;
                    streamSeq = Uint (slice hdr 20 28) :: uint64;
                    len = Uint (slice hdr 28 32) :: uint32;
                    expectedCRC = Uint (slice hdr 32 36) :: uint32
           in case (if 0 < len then ReadFull (unat len) r1 else ReadOk [] r1) of
                ReadEOF \<Rightarrow> Inl ErrTruncatedRecord
              | ReadShort _ \<Rightarrow> Inl ErrTruncatedRecord
              | ReadOk payload r2 \<Rightarrow>
                  (let rec = \<lparr>crStreamID = streamID, crStreamSeq = streamSeq,
                              crPayload = payload, crCRC32C = expectedCRC\<rparr>
                   in if ClientRecord_ComputeCRC32C rec \<noteq> expectedCRC
                      then Inl ErrChecksumMismatch else Inr (rec, r2))))"

record AppendRecord =
  apStreamSeq :: uint64
  apPayload :: bytes
  apCrc32C :: uint32

definition ToAppendProto :: "ClientRecord \<Rightarrow> AppendRecord \<times> ClientRecord" where
  "ToAppendProto r =
     (let r = (if crCRC32C r = 0 then r\<lparr>crCRC32C := ClientRecord_ComputeCRC32C r\<rparr> else r)
      in (\<lparr>apStreamSeq = crStreamSeq r, apPayload = crPayload r, apCrc32C = crCRC32C r\<rparr>, r))"

subsection \<open>Log records\<close>

definition LogRecord_ComputeCRC32C :: "LogRecord \<Rightarrow> uint32" where
  "LogRecord_ComputeCRC32C r =
     (let hdr = PutUint LogMagicBytes @ PutUint (Position r) @ PutUint (StreamID r) @
                PutUint (StreamSeq r) @ PutUint (len32 (Payload r)) @ PutUint (0 :: uint32)
      in crc_update (crc_update 0 hdr) (Payload r))"

definition log_crc :: "LogRecord \<Rightarrow> uint32" where
  \<comment> \<open>the checksum Encode and ToProto write: the stored one, computed when it is 0\<close>
  "log_crc r = (if CRC32C r = 0 then LogRecord_ComputeCRC32C r else CRC32C r)"

definition LogRecord_Encode :: "LogRecord \<Rightarrow> bytes" where
  "LogRecord_Encode r =
     PutUint LogMagicBytes @ PutUint (Position r) @ PutUint (StreamID r) @ PutUint (StreamSeq r) @
     PutUint (len32 (Payload r)) @ PutUint (log_crc r) @ Payload r"

definition DecodeLogRecord :: "bytes \<Rightarrow> error + (LogRecord \<times> bytes)" where
  "DecodeLogRecord r =
     (case ReadFull LogHeaderSize r of
        ReadEOF \<Rightarrow> Inl ErrEOF
      | ReadShort _ \<Rightarrow> Inl ErrTruncatedRecord
      | ReadOk hdr r1 \<Rightarrow>
          (if Uint (slice hdr 0 4) \<noteq> LogMagicBytes then Inl ErrCorruptedRecord
           else let position = Uint (slice hdr 4 12) :: uint64;
                    streamID = Uint (slice hdr 12 28) :: uuid;
                    streamSeq = Uint (slice hdr 28 36) :: uint64;
                    len = Uint (slice hdr 36 40) :: uint32;
                    expectedCRC = Uint (slice hdr 40 44) :: uint32
           in case (if 0 < len then ReadFull (unat len) r1 else ReadOk [] r1) of
                ReadEOF \<Rightarrow> Inl ErrTruncatedRecord
              | ReadShort _ \<Rightarrow> Inl ErrTruncatedRecord
              | ReadOk payload r2 \<Rightarrow>
                  (let rec = \<lparr>Position = position, StreamID = streamID, StreamSeq = streamSeq,
                              Payload = payload, CRC32C = expectedCRC\<rparr>
                   in if LogRecord_ComputeCRC32C rec \<noteq> expectedCRC
                      then Inl ErrChecksumMismatch else Inr (rec, r2))))"

text \<open>The wire form of a log record: a \<^verbatim>\<open>pb.LogRecord\<close>, whose stream id is a byte string.\<close>

record pb_LogRecord =
  pbPosition :: uint64
  pbStreamId :: bytes
  pbStreamSeq :: uint64
  pbPayload :: bytes
  pbCrc32C :: uint32

definition LogRecord_ToProto :: "LogRecord \<Rightarrow> pb_LogRecord" where
  "LogRecord_ToProto r =
     \<lparr>pbPosition = Position r, pbStreamId = PutUint (StreamID r), pbStreamSeq = StreamSeq r,
      pbPayload = Payload r, pbCrc32C = log_crc r\<rparr>"

definition FromProto :: "pb_LogRecord option \<Rightarrow> error + LogRecord" where
  "FromProto p =
     (case p of
        None \<Rightarrow> Inl (ErrMsg ''nil protobuf record'')
      | Some p \<Rightarrow>
          (if length (pbStreamId p) \<noteq> 16 then Inl (ErrMsg ''invalid stream_id length'')
           else let rec = \<lparr>Position = pbPosition p, StreamID = Uint (pbStreamId p),
                           StreamSeq = pbStreamSeq p, Payload = pbPayload p,
                           CRC32C = pbCrc32C p\<rparr>
                in Inr (if CRC32C rec = 0 then rec\<lparr>CRC32C := LogRecord_ComputeCRC32C rec\<rparr> else rec)))"

subsection \<open>Codec laws\<close>

lemmas header_sizes = ClientHeaderSize_def LogHeaderSize_def

lemma unat_len32 [simp]: "length p < 2 ^ 32 \<Longrightarrow> unat (len32 p) = length p"
  by (simp add: len32_def unat_of_nat)

lemma len32_pos_iff: "length p < 2 ^ 32 \<Longrightarrow> 0 < len32 p \<longleftrightarrow> p \<noteq> []"
  by (simp add: word_less_nat_alt)

definition read_payload :: "uint32 \<Rightarrow> bytes \<Rightarrow> byte read" where
  "read_payload len r = (if 0 < len then ReadFull (unat len) r else ReadOk [] r)"

lemma read_payload_append:
  "length p < 2 ^ 32 \<Longrightarrow> read_payload (len32 p) (p @ rest) = ReadOk p rest"
  by (simp add: read_payload_def len32_pos_iff)

lemma read_payload_short:
  "length p < 2 ^ 32 \<Longrightarrow> k < length p \<Longrightarrow>
     read_payload (len32 p) (take k p) = (if k = 0 then ReadEOF else ReadShort (take k p))"
  by (auto simp: read_payload_def len32_pos_iff ReadFull_def)

lemma read_payload_OkD:
  "read_payload len r = ReadOk p rest \<Longrightarrow> r = p @ rest \<and> len32 p = len \<and> length p < 2 ^ 32"
  by (auto simp: read_payload_def len32_def word_gt_0 unsigned_less dest!: ReadFull_OkD
      split: if_splits) (use unsigned_less [of len] in simp)

definition client_header :: "ClientRecord \<Rightarrow> bytes" where
  "client_header r =
     PutUint ClientMagicBytes @ PutUint (crStreamID r) @ PutUint (crStreamSeq r) @
     PutUint (len32 (crPayload r)) @ PutUint (crCRC32C r)"

definition log_header :: "LogRecord \<Rightarrow> bytes" where
  "log_header r =
     PutUint LogMagicBytes @ PutUint (Position r) @ PutUint (StreamID r) @ PutUint (StreamSeq r) @
     PutUint (len32 (Payload r)) @ PutUint (CRC32C r)"

lemma length_client_header [simp]: "length (client_header r) = 36"
  by (simp add: client_header_def)

lemma length_log_header [simp]: "length (log_header r) = 44"
  by (simp add: log_header_def)

lemma record_headers_neq_Nil [simp]: "client_header r \<noteq> []" "log_header l \<noteq> []"
  using length_client_header [of r] length_log_header [of l] by fastforce+

lemma client_header_slices:
  "slice (client_header r) 0 4 = PutUint ClientMagicBytes"
  "slice (client_header r) 4 20 = PutUint (crStreamID r)"
  "slice (client_header r) 20 28 = PutUint (crStreamSeq r)"
  "slice (client_header r) 28 32 = PutUint (len32 (crPayload r))"
  "slice (client_header r) 32 36 = PutUint (crCRC32C r)"
  by (simp_all add: client_header_def slice_simps)

lemma log_header_slices:
  "slice (log_header r) 0 4 = PutUint LogMagicBytes"
  "slice (log_header r) 4 12 = PutUint (Position r)"
  "slice (log_header r) 12 28 = PutUint (StreamID r)"
  "slice (log_header r) 28 36 = PutUint (StreamSeq r)"
  "slice (log_header r) 36 40 = PutUint (len32 (Payload r))"
  "slice (log_header r) 40 44 = PutUint (CRC32C r)"
  by (simp_all add: log_header_def slice_simps)

text \<open>The records the formats can carry: a payload below 4 GiB and the checksum of the record.\<close>

definition client_ok :: "ClientRecord \<Rightarrow> bool" where
  "client_ok r \<longleftrightarrow> length (crPayload r) < 2 ^ 32 \<and> crCRC32C r = ClientRecord_ComputeCRC32C r"

definition log_ok :: "LogRecord \<Rightarrow> bool" where
  "log_ok r \<longleftrightarrow> length (Payload r) < 2 ^ 32 \<and> CRC32C r = LogRecord_ComputeCRC32C r"

definition client_enc :: "ClientRecord \<Rightarrow> bytes" where
  "client_enc r = fst (ClientRecord_Encode r)"

lemma client_enc_header: "client_ok r \<Longrightarrow> client_enc r = client_header r @ crPayload r"
  by (simp add: client_enc_def ClientRecord_Encode_def client_header_def client_ok_def Let_def)

lemma log_enc_header: "log_ok r \<Longrightarrow> LogRecord_Encode r = log_header r @ Payload r"
  by (simp add: LogRecord_Encode_def log_header_def log_ok_def log_crc_def)

lemma length_client_enc [codec]: "length (client_enc r) = 36 + length (crPayload r)"
  by (simp add: client_enc_def ClientRecord_Encode_def Let_def)

lemma length_log_enc [codec]: "length (LogRecord_Encode r) = 44 + length (Payload r)"
  by (simp add: LogRecord_Encode_def)

lemma DecodeClientRecord_Nil [simp]: "DecodeClientRecord [] = Inl ErrEOF"
  by (simp add: DecodeClientRecord_def header_sizes)

lemma DecodeLogRecord_Nil [simp]: "DecodeLogRecord [] = Inl ErrEOF"
  by (simp add: DecodeLogRecord_def header_sizes)

lemma client_crc_image:
  "ClientRecord_ComputeCRC32C r =
     crc_update 0 (slice (client_header r) 0 32 @ replicate 4 0 @ crPayload r)"
  by (simp add: ClientRecord_ComputeCRC32C_def client_header_def crc_update_append slice_def PutUint_0)

lemma log_crc_image:
  "LogRecord_ComputeCRC32C r =
     crc_update 0 (slice (log_header r) 0 40 @ replicate 4 0 @ Payload r)"
  by (simp add: LogRecord_ComputeCRC32C_def log_header_def crc_update_append slice_def PutUint_0)

lemma client_header_of_slices:
  assumes "length hdr = 36" and "Uint (slice hdr 0 4) = ClientMagicBytes"
    and "len32 payload = Uint (slice hdr 28 32)"
  shows "client_header \<lparr>crStreamID = Uint (slice hdr 4 20), crStreamSeq = Uint (slice hdr 20 28),
           crPayload = payload, crCRC32C = Uint (slice hdr 32 36)\<rparr> = hdr"
  using assms(1)
  by (simp add: client_header_def assms(2) [symmetric] assms(3) PutUint_Uint slice_concat slice_full
      flip: append_assoc)

lemma log_header_of_slices:
  assumes "length hdr = 44" and "Uint (slice hdr 0 4) = LogMagicBytes"
    and "len32 payload = Uint (slice hdr 36 40)"
  shows "log_header \<lparr>Position = Uint (slice hdr 4 12), StreamID = Uint (slice hdr 12 28),
           StreamSeq = Uint (slice hdr 28 36), Payload = payload,
           CRC32C = Uint (slice hdr 40 44)\<rparr> = hdr"
  using assms(1)
  by (simp add: log_header_def assms(2) [symmetric] assms(3) PutUint_Uint slice_concat slice_full
      flip: append_assoc)

text \<open>
  What a decoder does with a well-formed header followed by as many bytes as its length field
  says: the only test left is the checksum, computed over the very bytes read.
\<close>

lemma DecodeClientRecord_bytes:
  assumes "length hdr = 36" and "Uint (slice hdr 0 4) = ClientMagicBytes"
    and "length payload < 2 ^ 32" and "len32 payload = Uint (slice hdr 28 32)"
  shows "DecodeClientRecord (hdr @ payload @ rest) =
     (let rec = \<lparr>crStreamID = Uint (slice hdr 4 20), crStreamSeq = Uint (slice hdr 20 28),
                 crPayload = payload, crCRC32C = Uint (slice hdr 32 36)\<rparr>
      in if crc_update 0 (slice hdr 0 32 @ replicate 4 0 @ payload) \<noteq> Uint (slice hdr 32 36)
         then Inl ErrChecksumMismatch else Inr (rec, rest))"
proof -
  let ?rec = "\<lparr>crStreamID = Uint (slice hdr 4 20), crStreamSeq = Uint (slice hdr 20 28),
               crPayload = payload, crCRC32C = Uint (slice hdr 32 36)\<rparr>"
  have "client_header ?rec = hdr"
    using assms by (intro client_header_of_slices) simp_all
  then have crc: "ClientRecord_ComputeCRC32C ?rec = crc_update 0 (slice hdr 0 32 @ replicate 4 0 @ payload)"
    by (simp add: client_crc_image)
  have pay: "read_payload (Uint (slice hdr 28 32)) (payload @ rest) = ReadOk payload rest"
    using read_payload_append [OF assms(3), of rest] by (simp only: assms(4))
  show ?thesis
    using assms(1,2) crc pay
    by (simp add: DecodeClientRecord_def header_sizes Let_def flip: read_payload_def)
qed

lemma DecodeLogRecord_bytes:
  assumes "length hdr = 44" and "Uint (slice hdr 0 4) = LogMagicBytes"
    and "length payload < 2 ^ 32" and "len32 payload = Uint (slice hdr 36 40)"
  shows "DecodeLogRecord (hdr @ payload @ rest) =
     (let rec = \<lparr>Position = Uint (slice hdr 4 12), StreamID = Uint (slice hdr 12 28),
                 StreamSeq = Uint (slice hdr 28 36), Payload = payload,
                 CRC32C = Uint (slice hdr 40 44)\<rparr>
      in if crc_update 0 (slice hdr 0 40 @ replicate 4 0 @ payload) \<noteq> Uint (slice hdr 40 44)
         then Inl ErrChecksumMismatch else Inr (rec, rest))"
proof -
  let ?rec = "\<lparr>Position = Uint (slice hdr 4 12), StreamID = Uint (slice hdr 12 28),
               StreamSeq = Uint (slice hdr 28 36), Payload = payload,
               CRC32C = Uint (slice hdr 40 44)\<rparr>"
  have "log_header ?rec = hdr"
    using assms by (intro log_header_of_slices) simp_all
  then have crc: "LogRecord_ComputeCRC32C ?rec = crc_update 0 (slice hdr 0 40 @ replicate 4 0 @ payload)"
    by (simp add: log_crc_image)
  have pay: "read_payload (Uint (slice hdr 36 40)) (payload @ rest) = ReadOk payload rest"
    using read_payload_append [OF assms(3), of rest] by (simp only: assms(4))
  show ?thesis
    using assms(1,2) crc pay
    by (simp add: DecodeLogRecord_def header_sizes Let_def flip: read_payload_def)
qed

lemma DecodeClientRecord_client_enc:
  assumes "client_ok r"
  shows "DecodeClientRecord (client_enc r @ rest) = Inr (r, rest)"
proof -
  have "DecodeClientRecord (client_header r @ crPayload r @ rest) = Inr (r, rest)"
    by (subst DecodeClientRecord_bytes)
      (use assms in \<open>simp_all add: client_header_slices client_ok_def Let_def
        flip: client_crc_image\<close>)
  with assms show ?thesis by (simp add: client_enc_header)
qed

lemma DecodeLogRecord_Encode:
  assumes "log_ok r"
  shows "DecodeLogRecord (LogRecord_Encode r @ rest) = Inr (r, rest)"
proof -
  have "DecodeLogRecord (log_header r @ Payload r @ rest) = Inr (r, rest)"
    by (subst DecodeLogRecord_bytes)
      (use assms in \<open>simp_all add: log_header_slices log_ok_def Let_def flip: log_crc_image\<close>)
  with assms show ?thesis by (simp add: log_enc_header)
qed

lemma DecodeClientRecord_sound:
  assumes "DecodeClientRecord bs = Inr (r, rest)"
  shows "client_ok r \<and> bs = client_enc r @ rest"
proof -
  from assms obtain hdr r1 where hdr: "ReadFull 36 bs = ReadOk hdr r1"
    and magic: "Uint (slice hdr 0 4) = ClientMagicBytes"
    by (auto simp: DecodeClientRecord_def header_sizes split: read.splits if_splits)
  with assms obtain p where p: "read_payload (Uint (slice hdr 28 32)) r1 = ReadOk p rest"
    and r: "r = \<lparr>crStreamID = Uint (slice hdr 4 20), crStreamSeq = Uint (slice hdr 20 28),
                 crPayload = p, crCRC32C = Uint (slice hdr 32 36)\<rparr>"
    and crc: "ClientRecord_ComputeCRC32C r = Uint (slice hdr 32 36)"
    by (auto simp: DecodeClientRecord_def header_sizes Let_def read_payload_def
        split: read.splits if_splits)
  from hdr p have "bs = hdr @ p @ rest" and "length hdr = 36"
    and len: "len32 p = Uint (slice hdr 28 32)" and "length p < 2 ^ 32"
    by (auto dest!: ReadFull_OkD read_payload_OkD)
  moreover have "client_header r = hdr"
    using calculation magic r by (simp add: client_header_of_slices)
  moreover have "client_ok r"
    using calculation crc r by (simp add: client_ok_def)
  ultimately show ?thesis
    using r by (simp add: client_enc_header)
qed

lemma DecodeLogRecord_sound:
  assumes "DecodeLogRecord bs = Inr (r, rest)"
  shows "log_ok r \<and> bs = LogRecord_Encode r @ rest"
proof -
  from assms obtain hdr r1 where hdr: "ReadFull 44 bs = ReadOk hdr r1"
    and magic: "Uint (slice hdr 0 4) = LogMagicBytes"
    by (auto simp: DecodeLogRecord_def header_sizes split: read.splits if_splits)
  with assms obtain p where p: "read_payload (Uint (slice hdr 36 40)) r1 = ReadOk p rest"
    and r: "r = \<lparr>Position = Uint (slice hdr 4 12), StreamID = Uint (slice hdr 12 28),
                 StreamSeq = Uint (slice hdr 28 36), Payload = p,
                 CRC32C = Uint (slice hdr 40 44)\<rparr>"
    and crc: "LogRecord_ComputeCRC32C r = Uint (slice hdr 40 44)"
    by (auto simp: DecodeLogRecord_def header_sizes Let_def read_payload_def
        split: read.splits if_splits)
  from hdr p have "bs = hdr @ p @ rest" and "length hdr = 44"
    and len: "len32 p = Uint (slice hdr 36 40)" and "length p < 2 ^ 32"
    by (auto dest!: ReadFull_OkD read_payload_OkD)
  moreover have "log_header r = hdr"
    using calculation magic r by (simp add: log_header_of_slices)
  moreover have "log_ok r"
    using calculation crc r by (simp add: log_ok_def)
  ultimately show ?thesis
    using r by (simp add: log_enc_header)
qed

subsection \<open>Torn and corrupted records\<close>

lemma DecodeClientRecord_error:
  "DecodeClientRecord bs = Inl e \<Longrightarrow>
     e = ErrEOF \<and> bs = [] \<or> e = ErrTruncatedRecord \<or> e = ErrChecksumMismatch \<or> e = ErrCorruptedRecord"
  by (auto simp: DecodeClientRecord_def header_sizes Let_def ReadFull_def
      split: read.splits if_splits)

lemma DecodeLogRecord_error:
  "DecodeLogRecord bs = Inl e \<Longrightarrow>
     e = ErrEOF \<and> bs = [] \<or> e = ErrTruncatedRecord \<or> e = ErrChecksumMismatch \<or> e = ErrCorruptedRecord"
  by (auto simp: DecodeLogRecord_def header_sizes Let_def ReadFull_def
      split: read.splits if_splits)

lemma DecodeClientRecord_torn:
  assumes "client_ok r" and "0 < k" and "k < length (client_enc r)"
  shows "DecodeClientRecord (take k (client_enc r)) = Inl ErrTruncatedRecord"
proof (cases "k < 36")
  case True
  then have "ReadFull 36 (take k (client_header r @ crPayload r)) =
      ReadShort (take k (client_header r @ crPayload r))"
    using assms(2) length_client_header [of r] by (auto simp: ReadFull_def)
  with assms(1) show ?thesis
    by (simp add: DecodeClientRecord_def header_sizes client_enc_header)
next
  case False
  let ?p = "crPayload r"
  from assms(1,3) have p: "length ?p < 2 ^ 32" "k - 36 < length ?p"
    using False by (simp_all add: client_ok_def length_client_enc)
  have "read_payload (len32 ?p) (take (k - 36) ?p) =
      (if k - 36 = 0 then ReadEOF else ReadShort (take (k - 36) ?p))"
    using p by (rule read_payload_short)
  with False assms(1) show ?thesis
    by (simp add: DecodeClientRecord_def header_sizes client_enc_header client_header_slices Let_def
        take_append flip: read_payload_def)
qed

lemma DecodeLogRecord_torn:
  assumes "log_ok r" and "0 < k" and "k < length (LogRecord_Encode r)"
  shows "DecodeLogRecord (take k (LogRecord_Encode r)) = Inl ErrTruncatedRecord"
proof (cases "k < 44")
  case True
  then have "ReadFull 44 (take k (log_header r @ Payload r)) =
      ReadShort (take k (log_header r @ Payload r))"
    using assms(2) length_log_header [of r] by (auto simp: ReadFull_def)
  with assms(1) show ?thesis
    by (simp add: DecodeLogRecord_def header_sizes log_enc_header)
next
  case False
  let ?p = "Payload r"
  from assms(1,3) have p: "length ?p < 2 ^ 32" "k - 44 < length ?p"
    using False by (simp_all add: log_ok_def length_log_enc)
  have "read_payload (len32 ?p) (take (k - 44) ?p) =
      (if k - 44 = 0 then ReadEOF else ReadShort (take (k - 44) ?p))"
    using p by (rule read_payload_short)
  with False assms(1) show ?thesis
    by (simp add: DecodeLogRecord_def header_sizes log_enc_header log_header_slices Let_def
        take_append flip: read_payload_def)
qed

lemma slice_outside_window:
  \<comment> \<open>a slice that does not meet the window where two byte sequences differ\<close>
  assumes "length u = length v" and "j \<le> length pre \<or> length pre + length u \<le> i"
  shows "slice (pre @ u @ post) i j = slice (pre @ v @ post) i j"
proof (cases "j \<le> length pre")
  case True
  then show ?thesis by (simp add: slice_append_left)
next
  case False
  with assms have "length pre + length u \<le> i" by simp
  with assms(1) show ?thesis by (simp add: slice_append_right)
qed

lemma log_burst_image:
  \<comment> \<open>the bytes the checksum covers, with the window inside the header or inside the payload\<close>
  assumes "length u = length v" "length u \<le> 4" "u \<noteq> v"
    and "length pre + length u \<le> 40 \<or> 44 \<le> length pre"
  shows "crc_update 0 (slice (pre @ u @ post) 0 40 @ replicate 4 0 @ drop 44 (pre @ u @ post)) \<noteq>
         crc_update 0 (slice (pre @ v @ post) 0 40 @ replicate 4 0 @ drop 44 (pre @ v @ post))"
proof (cases "44 \<le> length pre")
  case True
  then have "slice (pre @ w @ post) 0 40 @ replicate 4 0 @ drop 44 (pre @ w @ post) =
      (slice pre 0 40 @ replicate 4 0 @ drop 44 pre) @ w @ post" for w
    by (simp add: slice_append_left)
  then show ?thesis
    by (simp only: crc_burst_detected [OF assms(1-3)] not_False_eq_True)
next
  case False
  with assms have le: "length pre + length u \<le> 40" by simp
  have img: "slice (pre @ w @ post) 0 40 @ replicate 4 0 @ drop 44 (pre @ w @ post) =
      pre @ w @ (take (40 - (length pre + length u)) post @ replicate 4 0 @
                 drop (44 - (length pre + length u)) post)"
    if "length w = length u" for w
    using le that by (simp add: slice_def)
  show ?thesis
    by (simp only: img [OF refl] img [OF assms(1) [symmetric]] crc_burst_detected [OF assms(1-3)]
        not_False_eq_True)
qed

lemma log_burst_detected:
  assumes ok: "log_ok r" and enc: "LogRecord_Encode r = pre @ u @ post"
    and burst: "length u = length v" "length u \<le> 4" "u \<noteq> v"
    and window: "4 \<le> length pre \<and> length pre + length u \<le> 36 \<or> 40 \<le> length pre \<and>
      (length pre + length u \<le> 44 \<or> 44 \<le> length pre)"
  shows "DecodeLogRecord (pre @ v @ post @ rest) = Inl ErrChecksumMismatch"
proof -
  define old where "old = pre @ u @ post"
  define new where "new = pre @ v @ post"
  let ?hdr = "take 44 new" and ?pay = "drop 44 new"
  have old: "old = log_header r @ Payload r"
    using enc log_enc_header [OF ok] by (simp add: old_def)
  have len: "length new = 44 + length (Payload r)"
    using length_log_enc [of r] enc burst(1) by (simp add: new_def)
  have same: "slice new i j = slice (log_header r) i j"
    if "j \<le> length pre \<or> length pre + length u \<le> i" "j \<le> 44" for i j
  proof -
    have "slice new i j = slice old i j"
      using slice_outside_window [OF burst(1) that(1)] by (simp add: old_def new_def)
    also have "\<dots> = slice (log_header r) i j"
      using that(2) by (simp add: old slice_append_left)
    finally show ?thesis .
  qed
  have image: "LogRecord_ComputeCRC32C r = crc_update 0 (slice old 0 40 @ replicate 4 0 @ drop 44 old)"
    by (simp add: log_crc_image old slice_append_left)
  have crc: "crc_update 0 (slice new 0 40 @ replicate 4 0 @ ?pay) \<noteq> Uint (slice new 40 44)"
  proof (cases "40 \<le> length pre \<and> length pre + length u \<le> 44")
    case True
    with burst(1) have le: "40 \<le> length pre" "length pre \<le> 44"
      "length u \<le> 44 - length pre" "length v \<le> 44 - length pre"
      by linarith+
    have "slice new 0 40 @ replicate 4 0 @ drop 44 new = slice old 0 40 @ replicate 4 0 @ drop 44 old"
      using le burst(1) by (simp add: old_def new_def slice_append_left)
    moreover have "slice new 40 44 \<noteq> slice old 40 44"
    proof -
      have "slice (pre @ w @ post) 40 44 = drop 40 pre @ w @ take (44 - length pre - length w) post"
        if "length w \<le> 44 - length pre" for w
        using le(1,2) that by (simp add: slice_def)
      with le burst show ?thesis by (simp add: old_def new_def)
    qed
    moreover have "slice old 40 44 = PutUint (CRC32C r)"
      by (simp add: old slice_append_left log_header_slices)
    ultimately show ?thesis
      using ok len image PutUint_Uint [of "slice new 40 44", where 'a = 32]
      by (auto simp: log_ok_def)
  next
    case False
    with window have "4 \<le> length pre \<and> length pre + length u \<le> 36 \<or> 44 \<le> length pre" by blast
    then have "slice new 40 44 = PutUint (CRC32C r)"
      by (subst same) (auto simp: log_header_slices)
    moreover have "crc_update 0 (slice new 0 40 @ replicate 4 0 @ ?pay) \<noteq> LogRecord_ComputeCRC32C r"
      unfolding image old_def new_def
      by (rule not_sym, rule log_burst_image [OF burst]) (use window False in auto)
    ultimately show ?thesis using ok by (simp add: log_ok_def)
  qed
  have "slice new 36 40 = PutUint (len32 (Payload r))"
    using window by (subst same) (auto simp: log_header_slices)
  then have "len32 ?pay = Uint (slice ?hdr 36 40)"
    using len by (simp add: slice_take len32_def)
  moreover have "slice new 0 4 = PutUint LogMagicBytes"
    using window by (subst same) (auto simp: log_header_slices)
  then have "Uint (slice ?hdr 0 4) = LogMagicBytes"
    by (simp add: slice_take)
  moreover have "length ?hdr = 44" and "length ?pay < 2 ^ 32"
    using len ok by (simp_all add: log_ok_def)
  ultimately have "DecodeLogRecord (?hdr @ ?pay @ rest) = Inl ErrChecksumMismatch"
    using crc by (simp add: DecodeLogRecord_bytes slice_take)
  moreover have "?hdr @ ?pay @ rest = pre @ v @ post @ rest"
    by (metis append_assoc append_take_drop_id new_def)
  ultimately show ?thesis by (simp only:)
qed

end
