(* ===== verification/GoStd.thy ===== *)
theory GoStd
  imports Prelude "HOL-Library.List_Lexorder" "HOL-Library.Char_ord"
begin

text \<open>
  What the sources use of \<^verbatim>\<open>strings\<close>, \<^verbatim>\<open>strconv\<close>, \<^verbatim>\<open>fmt\<close>, \<^verbatim>\<open>path/filepath\<close> and \<^verbatim>\<open>sort\<close>. Strings
  are lists of bytes (\<open>char\<close>), ordered lexicographically as Go orders them, so \<^verbatim>\<open>sort.Strings\<close>
  is \<open>sort\<close>. The lemmas show that a zero-padded number parses back, that padded numbers sort
  as numbers, and that \<^verbatim>\<open>sort.Search\<close> finds the least index of a monotone predicate.
\<close>

subsection \<open>strings\<close>

definition HasPrefix :: "string \<Rightarrow> string \<Rightarrow> bool" where
  "HasPrefix s p \<longleftrightarrow> take (length p) s = p"

definition HasSuffix :: "string \<Rightarrow> string \<Rightarrow> bool" where
  "HasSuffix s p \<longleftrightarrow> length p \<le> length s \<and> drop (length s - length p) s = p"

definition TrimPrefix :: "string \<Rightarrow> string \<Rightarrow> string" where
  "TrimPrefix s p = (if HasPrefix s p then drop (length p) s else s)"

definition TrimSuffix :: "string \<Rightarrow> string \<Rightarrow> string" where
  "TrimSuffix s p = (if HasSuffix s p then take (length s - length p) s else s)"

fun Index :: "string \<Rightarrow> string \<Rightarrow> nat option" where
  "Index [] p = (if p = [] then Some 0 else None)"
| "Index (c # s) p = (if HasPrefix (c # s) p then Some 0 else map_option Suc (Index s p))"

definition Contains :: "string \<Rightarrow> string \<Rightarrow> bool" where
  "Contains s p \<longleftrightarrow> Index s p \<noteq> None"

definition string_bytes :: "string \<Rightarrow> bytes" where
  "string_bytes s = map of_char s"

lemma Index_le: "Index s p = Some i \<Longrightarrow> i \<le> length s"
  by (induction s p arbitrary: i rule: Index.induct) (auto split: if_splits)

function Split :: "string \<Rightarrow> string \<Rightarrow> string list" where
  \<comment> \<open>\<open>strings.Split(s, sep)\<close> for a non-empty separator\<close>
  "Split s sep =
     (case Index s sep of
        None \<Rightarrow> [s]
      | Some i \<Rightarrow> (if sep = [] \<or> s = [] then [s] else take i s # Split (drop (i + length sep) s) sep))"
  by pat_completeness auto
termination
  by (relation "measure (\<lambda>(s, sep). length s)") auto

declare Split.simps [simp del]

subsection \<open>path/filepath\<close>

definition Base :: "string \<Rightarrow> string" where
  "Base p =
     (if p = [] then ''.''
      else let s = rev (dropWhile (\<lambda>c. c = CHR ''/'') (rev p))
           in if s = [] then ''/'' else rev (takeWhile (\<lambda>c. c \<noteq> CHR ''/'') (rev s)))"

definition PathJoin :: "string \<Rightarrow> string \<Rightarrow> string" where
  \<comment> \<open>\<open>filepath.Join(dir, name)\<close> for a clean directory and a name without separators\<close>
  "PathJoin dir name = dir @ ''/'' @ name"

lemma PathJoin_inject [simp]: "PathJoin d a = PathJoin d b \<longleftrightarrow> a = b"
  by (simp add: PathJoin_def)

lemma Base_PathJoin:
  assumes "n \<noteq> []" "CHR ''/'' \<notin> set n"
  shows "Base (PathJoin d n) = n"
proof -
  have "dropWhile (\<lambda>c. c = CHR ''/'') (rev (PathJoin d n)) = rev (PathJoin d n)"
    using assms by (cases n rule: rev_cases) (auto simp: PathJoin_def)
  moreover have "takeWhile (\<lambda>c. c \<noteq> CHR ''/'') (rev n @ CHR ''/'' # rev d) = rev n"
    using assms(2) by (subst takeWhile_append2) auto
  ultimately show ?thesis
    by (simp add: Base_def PathJoin_def Let_def)
qed

subsection \<open>Decimal numbers\<close>

definition digit :: "nat \<Rightarrow> char" where
  "digit n = char_of (48 + n)"

fun dec :: "nat \<Rightarrow> string" where
  "dec n = (if n < 10 then [digit n] else dec (n div 10) @ [digit (n mod 10)])"

declare dec.simps [simp del]

definition pad0 :: "nat \<Rightarrow> string \<Rightarrow> string" where
  \<comment> \<open>the padding of \<open>%0wd\<close>\<close>
  "pad0 w s = replicate (w - length s) (CHR ''0'') @ s"

definition is_digit :: "char \<Rightarrow> bool" where
  "is_digit c \<longleftrightarrow> 48 \<le> (of_char c :: nat) \<and> (of_char c :: nat) \<le> 57"

definition digit_val :: "char \<Rightarrow> nat" where
  "digit_val c = of_char c - 48"

definition dval :: "string \<Rightarrow> nat" where
  "dval s = foldl (\<lambda>acc c. acc * 10 + digit_val c) 0 s"

definition ParseUint :: "string \<Rightarrow> error + uint64" where
  \<comment> \<open>\<open>strconv.ParseUint(s, 10, 64)\<close>\<close>
  "ParseUint s =
     (if s = [] \<or> \<not> list_all is_digit s then Inl (ErrMsg ''invalid syntax'')
      else if 2 ^ 64 \<le> dval s then Inl (ErrMsg ''value out of range'')
      else Inr (word_of_nat (dval s)))"

lemma of_char_digit: "n < 10 \<Longrightarrow> (of_char (digit n) :: nat) = 48 + n"
  by (simp add: digit_def)

lemma is_digit_digit [simp]: "n < 10 \<Longrightarrow> is_digit (digit n)"
  by (simp add: is_digit_def of_char_digit)

lemma digit_val_digit [simp]: "n < 10 \<Longrightarrow> digit_val (digit n) = n"
  by (simp add: digit_val_def of_char_digit)

lemma dval_Nil [simp]: "dval [] = 0"
  by (simp add: dval_def)

lemma dval_snoc [simp]: "dval (s @ [c]) = dval s * 10 + digit_val c"
  by (simp add: dval_def)

lemma dval_dec [simp]: "dval (dec n) = n"
proof (induction n rule: dec.induct)
  case (1 n)
  show ?case
  proof (cases "n < 10")
    case True
    have "dval [digit n] = n"
      using dval_snoc [of "[]" "digit n"] True by simp
    with True show ?thesis by (subst dec.simps) simp
  next
    case False
    with "1.IH" show ?thesis by (subst dec.simps) simp
  qed
qed

lemma dec_digits: "list_all is_digit (dec n)"
proof (induction n rule: dec.induct)
  case (1 n)
  then show ?case by (subst dec.simps) simp
qed

lemma dec_neq_Nil [simp]: "dec n \<noteq> []"
  by (subst dec.simps) simp

lemma length_dec: "n < 10 ^ w \<Longrightarrow> 0 < w \<Longrightarrow> length (dec n) \<le> w"
proof (induction n arbitrary: w rule: dec.induct)
  case (1 n)
  show ?case
  proof (cases "n < 10")
    case True
    with "1.prems" show ?thesis by (subst dec.simps) simp
  next
    case False
    then obtain w' where w': "w = Suc w'" "0 < w'"
      using "1.prems" by (cases w; cases "w - 1") auto
    then have "n div 10 < 10 ^ w'"
      using "1.prems" by auto
    with "1.IH" [OF False this w'(2)] False w' show ?thesis by (subst dec.simps) simp
  qed
qed

lemma dval_Cons: "dval (c # s) = digit_val c * 10 ^ length s + dval s"
proof (induction s rule: rev_induct)
  case Nil
  then show ?case using dval_snoc [of "[]" c] by simp
next
  case (snoc d s)
  have "dval (c # s @ [d]) = dval ((c # s) @ [d])" by simp
  then show ?case using snoc by (simp del: append_Cons add: algebra_simps)
qed

lemma pad0_digits: "list_all is_digit (pad0 w (dec n))"
proof -
  have "is_digit (CHR ''0'')" by (simp add: is_digit_def)
  then show ?thesis using dec_digits [of n] by (auto simp: pad0_def list_all_iff)
qed

lemma dval_pad0 [simp]: "dval (pad0 w s) = dval s"
proof -
  have "dval (replicate k (CHR ''0'') @ s) = dval s" for k
    by (induction k) (simp_all add: dval_Cons digit_val_def)
  then show ?thesis by (simp add: pad0_def)
qed

lemma length_pad0: "n < 10 ^ w \<Longrightarrow> 0 < w \<Longrightarrow> length (pad0 w (dec n)) = w"
  using length_dec [of n w] by (simp add: pad0_def)

lemma ParseUint_pad0: "n < 2 ^ 64 \<Longrightarrow> ParseUint (pad0 w (dec n)) = Inr (word_of_nat n)"
  by (simp add: ParseUint_def pad0_digits) (simp add: pad0_def)

subsection \<open>Padded numbers sort as numbers\<close>

lemma digit_val_less: "is_digit c \<Longrightarrow> digit_val c < 10"
  unfolding is_digit_def digit_val_def by linarith

lemma dval_less: "list_all is_digit s \<Longrightarrow> dval s < 10 ^ length s"
proof (induction s)
  case Nil
  then show ?case by simp
next
  case (Cons c s)
  then have "digit_val c * 10 ^ length s \<le> 9 * 10 ^ length s" and "dval s < 10 ^ length s"
    using digit_val_less [of c] by simp_all
  then have "digit_val c * 10 ^ length s + dval s < 10 * 10 ^ length s" by linarith
  then show ?case by (simp add: dval_Cons)
qed

lemma digit_less_iff: "is_digit c \<Longrightarrow> is_digit d \<Longrightarrow> c < d \<longleftrightarrow> digit_val c < digit_val d"
  by (auto simp: is_digit_def digit_val_def less_char_def)

lemma digit_eq_iff: "is_digit c \<Longrightarrow> is_digit d \<Longrightarrow> c = d \<longleftrightarrow> digit_val c = digit_val d"
  by (metis digit_less_iff linorder_cases nat_neq_iff)

lemma digits_less_iff:
  "length s = length t \<Longrightarrow> list_all is_digit s \<Longrightarrow> list_all is_digit t \<Longrightarrow>
     s < t \<longleftrightarrow> dval s < dval t"
proof (induction s t rule: list_induct2)
  case Nil
  then show ?case by simp
next
  case (Cons c s d t)
  let ?k = "10 ^ length t"
  have s: "dval s < ?k" and t: "dval t < ?k"
    using Cons dval_less [of s] dval_less [of t] by simp_all
  have "digit_val c * ?k + dval s < digit_val d * ?k + dval t \<longleftrightarrow>
      digit_val c < digit_val d \<or> digit_val c = digit_val d \<and> dval s < dval t"
  proof (cases "digit_val c = digit_val d")
    case False
    have "a * ?k + x < b * ?k + y" if "a < b" "x < ?k" for a b x y :: nat
    proof -
      have "a * ?k + x < Suc a * ?k" using that(2) by simp
      also have "\<dots> \<le> b * ?k" using that(1) by (intro mult_le_mono1) simp
      finally show ?thesis by simp
    qed
    with False s t show ?thesis
      by (metis linorder_neqE_nat less_asym)
  qed simp
  then show ?case
    using Cons by (simp add: dval_Cons digit_less_iff digit_eq_iff)
qed

lemma pad0_less_iff:
  assumes "n < 10 ^ w" "m < 10 ^ w" "0 < w"
  shows "pad0 w (dec n) < pad0 w (dec m) \<longleftrightarrow> n < m"
  using digits_less_iff [of "pad0 w (dec n)" "pad0 w (dec m)"] assms
  by (simp add: length_pad0 pad0_digits)

lemma append_less_iff: "(p @ s :: string) < p @ t \<longleftrightarrow> s < t"
  by (induction p) simp_all

lemma less_append_same_length:
  "length s = length t \<Longrightarrow> (s @ u :: string) < t @ v \<longleftrightarrow> s < t \<or> s = t \<and> u < v"
  by (induction s t rule: list_induct2) auto

subsection \<open>sort.Search\<close>

function search_loop :: "(nat \<Rightarrow> bool) \<Rightarrow> nat \<Rightarrow> nat \<Rightarrow> nat" where
  "search_loop f i j =
     (if i < j then
        (let h = (i + j) div 2 in if \<not> f h then search_loop f (h + 1) j else search_loop f i h)
      else i)"
  by pat_completeness auto
termination
  by (relation "measure (\<lambda>(f, i, j). j - i)") auto

declare search_loop.simps [simp del]

definition Search :: "nat \<Rightarrow> (nat \<Rightarrow> bool) \<Rightarrow> nat" where
  "Search n f = search_loop f 0 n"

lemma search_loop_spec:
  assumes "\<And>a b. a \<le> b \<Longrightarrow> b < n \<Longrightarrow> f a \<Longrightarrow> f b"
    and "i \<le> j" "j \<le> n" "\<And>k. k < i \<Longrightarrow> \<not> f k" "\<And>k. j \<le> k \<Longrightarrow> k < n \<Longrightarrow> f k"
    and "r = search_loop f i j"
  shows "r \<le> n \<and> (\<forall>k. k < r \<longrightarrow> \<not> f k) \<and> (\<forall>k. r \<le> k \<longrightarrow> k < n \<longrightarrow> f k)"
  using assms
proof (induction f i j rule: search_loop.induct)
  case (1 f i j)
  show ?case
  proof (cases "i < j")
    case False
    then have "search_loop f i j = i" by (simp add: search_loop.simps [of f i j])
    with False have "r = i" and "i = j"
      using "1.prems"(2,6) by simp_all
    with "1.prems" show ?thesis by auto
  next
    case True
    define h where "h = (i + j) div 2"
    from True have h: "i \<le> h" "h < j" by (auto simp: h_def)
    show ?thesis
    proof (cases "f h")
      case f: True
      show ?thesis
      proof (rule "1.IH"(2) [OF True h_def])
        show "r = search_loop f i h"
          using True f "1.prems"(6) by (simp add: search_loop.simps [of f i j] flip: h_def)
        show "f k" if "h \<le> k" "k < n" for k
          by (rule "1.prems"(1) [OF that f])
        show "h \<le> n" using h "1.prems"(3) by simp
      qed (use f h(1) in simp, fact "1.prems"(1), fact h(1), fact "1.prems"(4))
    next
      case f: False
      show ?thesis
      proof (rule "1.IH"(1) [OF True h_def f])
        show "r = search_loop f (h + 1) j"
          using True f "1.prems"(6) by (simp add: search_loop.simps [of f i j] flip: h_def)
        show "\<not> f k" if "k < h + 1" for k
        proof
          assume "f k"
          then have "f h"
            using "1.prems"(1) [of k h] that h "1.prems"(3) by simp
          with f show False by simp
        qed
        show "h + 1 \<le> j" using h by simp
      qed (fact "1.prems"(1), fact "1.prems"(3), fact "1.prems"(5))
    qed
  qed
qed

lemma Search_spec:
  assumes "\<And>a b. a \<le> b \<Longrightarrow> b < n \<Longrightarrow> f a \<Longrightarrow> f b"
  shows "Search n f \<le> n \<and> (\<forall>k. k < Search n f \<longrightarrow> \<not> f k) \<and>
    (\<forall>k. Search n f \<le> k \<longrightarrow> k < n \<longrightarrow> f k)"
  by (rule search_loop_spec [where i = 0 and j = n]) (use assms in \<open>auto simp: Search_def\<close>)

end
