(* ===== verification/WalNames.thy ===== *)
theory WalNames
  imports GoStd
begin

text \<open>
  \<^verbatim>\<open>pkg/wal/segment.go\<close>, last part: the names of the aggregated segment objects and of the
  per-stream files (\<^verbatim>\<open>ParseSegmentPath\<close>, \<^verbatim>\<open>ParseStreamPath\<close>, \<^verbatim>\<open>FormatStreamFileName\<close>,
  \<^verbatim>\<open>FormatStreamObjectKey\<close>). Formatting and parsing are inverse, and the order of the names is
  the order of the sequence numbers. The text of a UUID comes from \<^verbatim>\<open>google/uuid\<close>, which is not
  part of the sources, so it is an argument.
\<close>

definition ParseSegmentPath :: "string \<Rightarrow> error + (uint64 \<times> uint64)" where
  "ParseSegmentPath p =
     (case Split (TrimSuffix (Base p) ''.wal'') ''-'' of
        [a, b] \<Rightarrow>
          (case ParseUint a of
             Inl _ \<Rightarrow> Inl (ErrMsg ''invalid first position'')
           | Inr firstPos \<Rightarrow>
               (case ParseUint b of
                  Inl _ \<Rightarrow> Inl (ErrMsg ''invalid last position'')
                | Inr lastPos \<Rightarrow> Inr (firstPos, lastPos)))
      | _ \<Rightarrow> Inl (ErrMsg ''invalid segment filename''))"

definition ParseStreamPath :: "string \<Rightarrow> error + (uint64 \<times> uint64 \<times> bool)" where
  "ParseStreamPath p =
     (let clean = TrimPrefix (TrimPrefix p ''./'') ''/''
      in if HasPrefix clean ''streams/wal/'' \<or> clean = ''streams/wal'' then
           Inl (ErrMsg ''reserved prefix streams/wal'')
         else if \<not> HasSuffix (Base p) ''.wal'' then Inl (ErrMsg ''invalid stream file extension'')
         else
           (let stem = TrimSuffix (Base p) ''.wal'';
                stem = (case Index stem ''from'' of Some idx \<Rightarrow> drop idx stem | None \<Rightarrow> stem)
            in if \<not> HasPrefix stem ''from'' then Inl (ErrMsg ''invalid stream file format'')
               else
                 (let stem = TrimPrefix stem ''from''
                  in if Contains stem ''-to'' then
                       (case Split stem ''-to'' of
                          [a, b] \<Rightarrow>
                            (case ParseUint a of
                               Inl _ \<Rightarrow> Inl (ErrMsg ''invalid from sequence'')
                             | Inr from_ \<Rightarrow>
                                 (case ParseUint b of
                                    Inl _ \<Rightarrow> Inl (ErrMsg ''invalid to sequence'')
                                  | Inr to \<Rightarrow> Inr (from_, to, True)))
                        | _ \<Rightarrow> Inl (ErrMsg ''invalid sealed stream file format''))
                     else
                       (case ParseUint stem of
                          Inl _ \<Rightarrow> Inl (ErrMsg ''invalid from sequence'')
                        | Inr from_ \<Rightarrow> Inr (from_, 0, False)))))"

definition FormatStreamFileName :: "uint64 \<Rightarrow> uint64 \<Rightarrow> bool \<Rightarrow> string" where
  "FormatStreamFileName fromSeq toSeq isSealed =
     (if isSealed
      then ''from'' @ pad0 20 (dec (unat fromSeq)) @ ''-to'' @ pad0 20 (dec (unat toSeq)) @ ''.wal''
      else ''from'' @ pad0 20 (dec (unat fromSeq)) @ ''.wal'')"

definition FormatStreamObjectKey :: "(uuid \<Rightarrow> string) \<Rightarrow> uuid \<Rightarrow> uint64 \<Rightarrow> uint64 \<Rightarrow> string" where
  \<comment> \<open>the first argument is \<open>uuid.UUID.String\<close>\<close>
  "FormatStreamObjectKey uuid_String streamID fromSeq toSeq =
     ''streams/'' @ uuid_String streamID @ ''/from'' @ pad0 20 (dec (unat fromSeq)) @ ''-to'' @
     pad0 20 (dec (unat toSeq)) @ ''.wal''"

subsection \<open>Formatting and parsing are inverse\<close>

lemma digits_no_char:
  "\<not> is_digit c \<Longrightarrow> c \<notin> set (pad0 w (dec n))"
  using pad0_digits [of w n] by (auto simp: list_all_iff)

lemma no_digit [simp]: "\<not> is_digit (CHR ''/'')" "\<not> is_digit (CHR ''-'')"
  by (simp_all add: is_digit_def)

lemma TrimSuffix_append [simp]: "TrimSuffix (s @ x) x = s"
  by (simp add: TrimSuffix_def HasSuffix_def)

lemma HasSuffix_append_same [simp]: "HasSuffix (s @ x) x"
  by (simp add: HasSuffix_def)

lemma TrimPrefix_append [simp]: "TrimPrefix (x @ s) x = s"
  by (simp add: TrimPrefix_def HasPrefix_def)

lemma HasPrefix_append_same [simp]: "HasPrefix (x @ s) x"
  by (simp add: HasPrefix_def)

lemma Index_prefix: "p \<noteq> [] \<Longrightarrow> Index (p @ s) p = Some 0"
  by (cases p) (simp_all add: HasPrefix_def)

lemma Index_None: "c \<notin> set s \<Longrightarrow> Index s (c # p) = None"
  by (induction s) (auto simp: HasPrefix_def)

lemma Index_skip: "c \<notin> set s \<Longrightarrow> Index (s @ c # p @ r) (c # p) = Some (length s)"
  by (induction s) (auto simp: HasPrefix_def)

lemma Split_one:
  assumes "c \<notin> set a" "c \<notin> set b"
  shows "Split (a @ c # p @ b) (c # p) = [a, b]"
  using assms by (subst Split.simps) (simp add: Index_skip Split.simps [of b] Index_None)

lemma ParseUint_uint64: "ParseUint (pad0 w (dec (unat (q :: uint64)))) = Inr q"
  using unsigned_less [of q] by (subst ParseUint_pad0) simp_all

definition reserved_path :: "string \<Rightarrow> bool" where
  "reserved_path p \<longleftrightarrow>
     (let clean = TrimPrefix (TrimPrefix p ''./'') ''/''
      in HasPrefix clean ''streams/wal/'' \<or> clean = ''streams/wal'')"

definition stream_stem :: "uint64 \<Rightarrow> uint64 \<Rightarrow> bool \<Rightarrow> string" where
  "stream_stem fromSeq toSeq isSealed =
     pad0 20 (dec (unat fromSeq)) @ (if isSealed then ''-to'' @ pad0 20 (dec (unat toSeq)) else [])"

lemma FormatStreamFileName_stem:
  "FormatStreamFileName fromSeq toSeq isSealed = (''from'' @ stream_stem fromSeq toSeq isSealed) @ ''.wal''"
  by (simp add: FormatStreamFileName_def stream_stem_def)

lemma ParseStreamPath_name:
  assumes "\<not> reserved_path p" "Base p = FormatStreamFileName fromSeq toSeq isSealed"
  shows "ParseStreamPath p = Inr (fromSeq, if isSealed then toSeq else 0, isSealed)"
proof -
  let ?stem = "stream_stem fromSeq toSeq isSealed"
  have idx: "Index (''from'' @ ?stem) ''from'' = Some 0" by (rule Index_prefix) simp
  have pre: "HasPrefix (''from'' @ ?stem) ''from''" "TrimPrefix (''from'' @ ?stem) ''from'' = ?stem"
    by (rule HasPrefix_append_same, rule TrimPrefix_append)
  have "ParseStreamPath p =
     (if Contains ?stem ''-to'' then
        (case Split ?stem ''-to'' of
           [a, b] \<Rightarrow>
             (case ParseUint a of
                Inl _ \<Rightarrow> Inl (ErrMsg ''invalid from sequence'')
              | Inr from_ \<Rightarrow>
                  (case ParseUint b of
                     Inl _ \<Rightarrow> Inl (ErrMsg ''invalid to sequence'')
                   | Inr to \<Rightarrow> Inr (from_, to, True)))
         | _ \<Rightarrow> Inl (ErrMsg ''invalid sealed stream file format''))
      else
        (case ParseUint ?stem of
           Inl _ \<Rightarrow> Inl (ErrMsg ''invalid from sequence'')
         | Inr from_ \<Rightarrow> Inr (from_, 0, False)))"
    using assms(1) unfolding ParseStreamPath_def assms(2) FormatStreamFileName_stem Let_def
      TrimSuffix_append reserved_path_def
    by (simp only: idx pre HasSuffix_append_same option.case drop0 simp_thms if_False not_False_eq_True if_True)
  moreover have "Contains ?stem ''-to'' = isSealed"
    using Index_skip [OF digits_no_char, of "CHR ''-''" 20 "unat fromSeq" "''to''"]
      Index_None [OF digits_no_char, of "CHR ''-''" 20 "unat fromSeq" "''to''"]
    by (simp add: Contains_def stream_stem_def)
  moreover have "Split ?stem ''-to'' = [pad0 20 (dec (unat fromSeq)), pad0 20 (dec (unat toSeq))]" if isSealed
    using that Split_one [of "CHR ''-''" "pad0 20 (dec (unat fromSeq))" "pad0 20 (dec (unat toSeq))" "''to''"]
    by (simp add: stream_stem_def digits_no_char)
  ultimately show ?thesis
    by (simp add: ParseUint_uint64) (simp add: stream_stem_def ParseUint_uint64)
qed

lemma stream_name_no_slash: "CHR ''/'' \<notin> set (FormatStreamFileName a b c)"
  using digits_no_char [of "CHR ''/''"] by (simp add: FormatStreamFileName_def)

lemma FormatStreamObjectKey_eq:
  "FormatStreamObjectKey u i a b = PathJoin (''streams/'' @ u i) (FormatStreamFileName a b True)"
  by (simp add: FormatStreamObjectKey_def PathJoin_def FormatStreamFileName_def)

lemma stream_key_not_reserved:
  assumes "CHR ''/'' \<notin> set u" "u \<noteq> ''wal''"
  shows "\<not> reserved_path (PathJoin (''streams/'' @ u) n)"
proof -
  have "TrimPrefix (TrimPrefix (PathJoin (''streams/'' @ u) n) ''./'') ''/'' = PathJoin (''streams/'' @ u) n"
    by (simp add: TrimPrefix_def HasPrefix_def PathJoin_def)
  moreover have "take 4 (u @ ''/'' @ n) \<noteq> ''wal/''"
  proof
    assume *: "take 4 (u @ ''/'' @ n) = ''wal/''"
    have "length u \<le> 3 \<or> 4 \<le> length u" by linarith
    then show False
    proof
      assume "4 \<le> length u"
      with * have "take 4 u = ''wal/''" by simp
      with assms(1) show False by (metis in_set_takeD list.set_intros(1) list.set_intros(2))
    next
      assume "length u \<le> 3"
      with * assms show False
        by (auto simp: le_Suc_eq numeral_eq_Suc length_Suc_conv)
    qed
  qed
  moreover have "u @ CHR ''/'' # n \<noteq> ''wal''"
  proof
    assume "u @ CHR ''/'' # n = ''wal''"
    then have "CHR ''/'' \<in> set ''wal''" by (metis in_set_conv_decomp)
    then show False by simp
  qed
  ultimately show ?thesis
    by (simp add: reserved_path_def HasPrefix_def PathJoin_def numeral_eq_Suc)
qed

lemma FormatStreamFileName_less_iff:
  "FormatStreamFileName a b True < FormatStreamFileName a' b' True \<longleftrightarrow> a < a' \<or> a = a' \<and> b < b'"
proof -
  let ?D = "\<lambda>q :: uint64. pad0 20 (dec (unat q))"
  have small: "unat (q :: uint64) < 10 ^ 20" for q
    using unsigned_less [of q, where 'a = nat] by simp
  have len: "length (?D q) = length (?D q')" for q q'
    using small by (simp add: length_pad0)
  have less: "?D q < ?D q' \<longleftrightarrow> q < q'" for q q'
    using small by (simp add: pad0_less_iff word_less_nat_alt)
  have eq: "?D q = ?D q' \<longleftrightarrow> q = q'" for q q'
    using less [of q q'] less [of q' q] by (metis less_irrefl linorder_neqE)
  show ?thesis
    unfolding FormatStreamFileName_def if_True append_less_iff
      less_append_same_length [OF len] less eq by simp
qed

lemma ParseSegmentPath_name:
  assumes "Base p = pad0 w (dec (unat a)) @ ''-'' @ pad0 w' (dec (unat b)) @ ''.wal''"
  shows "ParseSegmentPath p = Inr (a, b)"
proof -
  have "TrimSuffix (Base p) ''.wal'' = pad0 w (dec (unat a)) @ CHR ''-'' # [] @ pad0 w' (dec (unat b))"
    unfolding assms using TrimSuffix_append [of "pad0 w (dec (unat a)) @ ''-'' @ pad0 w' (dec (unat b))" "''.wal''"]
    by simp
  then show ?thesis
    using Split_one [of "CHR ''-''" "pad0 w (dec (unat a))" "pad0 w' (dec (unat b))" "[]"]
    by (simp add: ParseSegmentPath_def digits_no_char ParseUint_uint64)
qed

subsection \<open>Properties\<close>

text \<open>C13: The names of stream files read back. Parsing the object key or the path of a file named by
  \<^verbatim>\<open>FormatStreamFileName\<close> returns the sequence numbers it was named with, provided the text of the
  UUID has no slash and is not the reserved \<open>wal\<close>.\<close>

theorem stream_name_roundtrip:
  assumes "CHR ''/'' \<notin> set (uuid_String i)" "uuid_String i \<noteq> ''wal''"
  shows "ParseStreamPath (FormatStreamObjectKey uuid_String i a b) = Inr (a, b, True) \<and>
    ParseStreamPath (PathJoin (''streams/'' @ uuid_String i) (FormatStreamFileName a b isSealed)) =
      Inr (a, if isSealed then b else 0, isSealed)"
proof -
  have base: "Base (PathJoin d (FormatStreamFileName a b c)) = FormatStreamFileName a b c" for d c
    by (rule Base_PathJoin) (simp add: FormatStreamFileName_def, rule stream_name_no_slash)
  note res = stream_key_not_reserved [OF assms]
  show ?thesis
    using ParseStreamPath_name [OF res base] by (simp add: FormatStreamObjectKey_eq)
qed

theorem stream_name_roundtrip_witness:
  "ParseStreamPath (FormatStreamObjectKey (\<lambda>_. ''0b1f'') 5 7 9) = Inr (7, 9, True)"
  using stream_name_roundtrip [of "\<lambda>_. ''0b1f''" 5 7 9 True] by simp

text \<open>The file names of a stream sort like its sequence numbers, for every 64-bit number, so that
  a sorted listing is in stream order.\<close>

theorem stream_name_order:
  "FormatStreamFileName a b True < FormatStreamFileName a' b' True \<longleftrightarrow> a < a' \<or> a = a' \<and> b < b'"
  by (rule FormatStreamFileName_less_iff)

end
