(* ===== verification/FileSystem.thy ===== *)
theory FileSystem
  imports GoStd
begin

text \<open>
  The operating system as the sources use it through \<^verbatim>\<open>os\<close>: files by path, each with its
  content and the length of the prefix that a \<^verbatim>\<open>Sync\<close> has made durable, a clock for
  \<^verbatim>\<open>time.Now\<close>, and a script of the faults that the next calls meet. Every call takes the head
  of the script: \<open>NoFault\<close> (also when the script is empty) lets it do its work, any other entry
  makes it return \<open>ErrIO\<close>; a write that meets \<open>Short n\<close> leaves \<open>n\<close> bytes behind. A theorem
  about an arbitrary state therefore holds for every pattern of failures.

  A directory is the set of the paths below it, so \<^verbatim>\<open>os.MkdirAll\<close> changes nothing and a missing
  directory lists like an empty one. An open file is its path. After a crash every path is
  still there, and the bytes beyond the durable prefix are cut at any length.
\<close>

datatype fault = NoFault | Fail | Short nat

record ofile =
  fdata :: bytes
  synced :: nat

record fs =
  files :: "(string \<times> ofile) list"
  faults :: "fault list"
  clock :: nat

definition pop_fault :: "fs \<Rightarrow> fault \<times> fs" where
  "pop_fault s = (case faults s of [] \<Rightarrow> (NoFault, s) | f # fs \<Rightarrow> (f, s\<lparr>faults := fs\<rparr>))"

definition get_file :: "string \<Rightarrow> fs \<Rightarrow> ofile option" where
  "get_file p s = map_of (files s) p"

definition set_file :: "string \<Rightarrow> ofile \<Rightarrow> fs \<Rightarrow> fs" where
  "set_file p f s = s\<lparr>files := AList.update p f (files s)\<rparr>"

definition del_file :: "string \<Rightarrow> fs \<Rightarrow> fs" where
  "del_file p s = s\<lparr>files := AList.delete p (files s)\<rparr>"

definition time_Now :: "fs \<Rightarrow> nat \<times> fs" where
  "time_Now s = (clock s, s\<lparr>clock := Suc (clock s)\<rparr>)"

subsection \<open>Directories\<close>

definition dir_entry :: "string \<Rightarrow> string \<Rightarrow> (string \<times> bool) list" where
  \<comment> \<open>what a path contributes to the listing of \<open>dir\<close>: a name, and whether it is a directory\<close>
  "dir_entry dir p =
     (if HasPrefix p (PathJoin dir '''') then
        (let r = TrimPrefix p (PathJoin dir '''')
         in if CHR ''/'' \<in> set r then [(takeWhile (\<lambda>c. c \<noteq> CHR ''/'') r, True)] else [(r, False)])
      else [])"

definition dir_list :: "string \<Rightarrow> fs \<Rightarrow> (string \<times> bool) list" where
  "dir_list dir s =
     sort_key fst (remdups (concat (map (dir_entry dir) (map fst (files s)))))"

definition os_ReadDir :: "string \<Rightarrow> fs \<Rightarrow> (error + (string \<times> bool) list) \<times> fs" where
  "os_ReadDir dir s =
     (case pop_fault s of
        (NoFault, s) \<Rightarrow> (Inr (dir_list dir s), s)
      | (_, s) \<Rightarrow> (Inl ErrIO, s))"

definition os_MkdirAll :: "string \<Rightarrow> fs \<Rightarrow> error option \<times> fs" where
  "os_MkdirAll dir s =
     (case pop_fault s of (NoFault, s) \<Rightarrow> (None, s) | (_, s) \<Rightarrow> (Some ErrIO, s))"

subsection \<open>Files\<close>

definition os_Open :: "string \<Rightarrow> fs \<Rightarrow> (error + bytes) \<times> fs" where
  \<comment> \<open>\<open>os.Open\<close> and \<open>os.OpenFile(path, os.O_RDWR)\<close>: the content a reader of the file will see\<close>
  "os_Open p s =
     (case pop_fault s of
        (NoFault, s) \<Rightarrow>
          (case get_file p s of None \<Rightarrow> (Inl ErrNotExist, s) | Some f \<Rightarrow> (Inr (fdata f), s))
      | (_, s) \<Rightarrow> (Inl ErrIO, s))"

definition os_OpenAppend :: "string \<Rightarrow> fs \<Rightarrow> error option \<times> fs" where
  \<comment> \<open>\<open>os.OpenFile(path, os.O_CREATE|os.O_WRONLY|os.O_APPEND)\<close>\<close>
  "os_OpenAppend p s =
     (case pop_fault s of
        (NoFault, s) \<Rightarrow>
          (case get_file p s of
             None \<Rightarrow> (None, set_file p \<lparr>fdata = [], synced = 0\<rparr> s)
           | Some f \<Rightarrow> (None, s))
      | (_, s) \<Rightarrow> (Some ErrIO, s))"

definition append_file :: "string \<Rightarrow> bytes \<Rightarrow> fs \<Rightarrow> fs" where
  "append_file p d s =
     (case get_file p s of
        None \<Rightarrow> s
      | Some f \<Rightarrow> set_file p (f\<lparr>fdata := fdata f @ d\<rparr>) s)"

definition file_Write :: "string \<Rightarrow> bytes \<Rightarrow> fs \<Rightarrow> error option \<times> fs" where
  "file_Write p d s =
     (case pop_fault s of
        (NoFault, s) \<Rightarrow> (None, append_file p d s)
      | (Fail, s) \<Rightarrow> (Some ErrIO, s)
      | (Short n, s) \<Rightarrow> (Some ErrIO, append_file p (take n d) s))"

definition file_Sync :: "string \<Rightarrow> fs \<Rightarrow> error option \<times> fs" where
  "file_Sync p s =
     (case pop_fault s of
        (NoFault, s) \<Rightarrow>
          (case get_file p s of
             None \<Rightarrow> (None, s)
           | Some f \<Rightarrow> (None, set_file p (f\<lparr>synced := length (fdata f)\<rparr>) s))
      | (_, s) \<Rightarrow> (Some ErrIO, s))"

definition file_Close :: "string \<Rightarrow> fs \<Rightarrow> error option \<times> fs" where
  "file_Close p s =
     (case pop_fault s of (NoFault, s) \<Rightarrow> (None, s) | (_, s) \<Rightarrow> (Some ErrIO, s))"

definition file_Truncate :: "string \<Rightarrow> nat \<Rightarrow> fs \<Rightarrow> error option \<times> fs" where
  \<comment> \<open>the callers never truncate beyond the end\<close>
  "file_Truncate p n s =
     (case pop_fault s of
        (NoFault, s) \<Rightarrow>
          (case get_file p s of
             None \<Rightarrow> (None, s)
           | Some f \<Rightarrow> (None, set_file p \<lparr>fdata = take n (fdata f), synced = min n (synced f)\<rparr> s))
      | (_, s) \<Rightarrow> (Some ErrIO, s))"

definition os_Remove :: "string \<Rightarrow> fs \<Rightarrow> error option \<times> fs" where
  "os_Remove p s =
     (case pop_fault s of
        (NoFault, s) \<Rightarrow>
          (case get_file p s of None \<Rightarrow> (Some ErrNotExist, s) | Some f \<Rightarrow> (None, del_file p s))
      | (_, s) \<Rightarrow> (Some ErrIO, s))"

definition os_Rename :: "string \<Rightarrow> string \<Rightarrow> fs \<Rightarrow> error option \<times> fs" where
  "os_Rename a b s =
     (case pop_fault s of
        (NoFault, s) \<Rightarrow>
          (case get_file a s of
             None \<Rightarrow> (Some ErrNotExist, s)
           | Some f \<Rightarrow> (None, set_file b f (del_file a s)))
      | (_, s) \<Rightarrow> (Some ErrIO, s))"

definition os_WriteFile :: "string \<Rightarrow> bytes \<Rightarrow> fs \<Rightarrow> error option \<times> fs" where
  "os_WriteFile p d s =
     (case pop_fault s of
        (NoFault, s) \<Rightarrow> (None, set_file p \<lparr>fdata = d, synced = 0\<rparr> s)
      | (Fail, s) \<Rightarrow> (Some ErrIO, s)
      | (Short n, s) \<Rightarrow> (Some ErrIO, set_file p \<lparr>fdata = take n d, synced = 0\<rparr> s))"

definition os_Stat_size :: "string \<Rightarrow> fs \<Rightarrow> (error + nat) \<times> fs" where
  "os_Stat_size p s =
     (case pop_fault s of
        (NoFault, s) \<Rightarrow>
          (case get_file p s of
             None \<Rightarrow> (Inl ErrNotExist, s) | Some f \<Rightarrow> (Inr (length (fdata f)), s))
      | (_, s) \<Rightarrow> (Inl ErrIO, s))"

subsection \<open>Crashes\<close>

definition crash_file :: "nat \<Rightarrow> ofile \<Rightarrow> ofile" where
  "crash_file k f = (let d = take (max k (synced f)) (fdata f) in \<lparr>fdata = d, synced = length d\<rparr>)"

definition crash :: "(string \<Rightarrow> nat) \<Rightarrow> fs \<Rightarrow> fs" where
  \<comment> \<open>\<open>keep p\<close> is how many bytes of \<open>p\<close> happened to reach the disk beyond what was synced\<close>
  "crash keep s = s\<lparr>files := map (\<lambda>(p, f). (p, crash_file (keep p) f)) (files s)\<rparr>"

subsection \<open>Lemmas\<close>

named_theorems os_defs \<open>the definitions of the operations of the file system\<close>

lemmas [os_defs] = os_ReadDir_def os_MkdirAll_def os_Open_def os_OpenAppend_def file_Write_def
  file_Sync_def file_Close_def file_Truncate_def os_Remove_def os_Rename_def os_WriteFile_def
  os_Stat_size_def

lemma get_set_file [simp]: "get_file p (set_file q f s) = (if p = q then Some f else get_file p s)"
  by (simp add: get_file_def set_file_def update_conv')

lemma get_del_file [simp]: "get_file p (del_file q s) = (if p = q then None else get_file p s)"
  by (simp add: get_file_def del_file_def delete_conv')

lemma get_file_faults [simp]: "get_file p (s\<lparr>faults := x\<rparr>) = get_file p s"
  by (simp add: get_file_def)

lemma get_file_clock [simp]: "get_file p (s\<lparr>clock := x\<rparr>) = get_file p s"
  by (simp add: get_file_def)

lemma faults_set_file [simp]: "faults (set_file p f s) = faults s"
  by (simp add: set_file_def)

lemma faults_del_file [simp]: "faults (del_file p s) = faults s"
  by (simp add: del_file_def)

lemma get_append_file [simp]:
  "get_file p (append_file q d s) =
     (if p = q then map_option (\<lambda>f. f\<lparr>fdata := fdata f @ d\<rparr>) (get_file p s) else get_file p s)"
  by (auto simp: append_file_def split: option.splits)

lemma get_file_crash: "get_file p (crash keep s) = map_option (crash_file (keep p)) (get_file p s)"
proof -
  have "map_of (map (\<lambda>(p, f). (p, crash_file (keep p) f)) fs) p =
      map_option (crash_file (keep p)) (map_of fs p)" for fs
    by (induction fs) auto
  then show ?thesis by (simp add: get_file_def crash_def)
qed

lemma pop_fault_get_file: "pop_fault s = (x, s') \<Longrightarrow> get_file p s' = get_file p s"
  by (auto simp: pop_fault_def split: list.splits)

text \<open>
  A call that succeeds did its work; a call that fails left every file as it was, except a
  write that was cut short.
\<close>

definition no_short :: "fs \<Rightarrow> bool" where
  "no_short s \<longleftrightarrow> list_all (\<lambda>f. f = NoFault \<or> f = Fail) (faults s)"

definition same_files :: "fs \<Rightarrow> fs \<Rightarrow> bool" where
  "same_files s s' \<longleftrightarrow> (\<forall>p. get_file p s' = get_file p s)"

lemma same_files_refl [simp]: "same_files s s"
  by (simp add: same_files_def)

lemma same_files_trans [trans]: "same_files a b \<Longrightarrow> same_files b c \<Longrightarrow> same_files a c"
  by (simp add: same_files_def)

lemma same_files_get: "same_files s s' \<Longrightarrow> get_file p s' = get_file p s"
  by (simp add: same_files_def)

lemmas fault_cases = list.splits fault.splits option.splits

lemma file_Write_OkD:
  "file_Write p d s = (None, s') \<Longrightarrow> get_file q s' = get_file q (append_file p d s)"
  by (auto simp: file_Write_def pop_fault_def split: fault_cases)

lemma file_Write_ErrD:
  "file_Write p d s = (Some e, s') \<Longrightarrow> no_short s \<Longrightarrow> same_files s s'"
  by (auto simp: file_Write_def pop_fault_def no_short_def same_files_def split: fault_cases)

lemma file_Sync_OkD:
  "file_Sync p s = (None, s') \<Longrightarrow>
     get_file q s' = (if q = p then map_option (\<lambda>f. f\<lparr>synced := length (fdata f)\<rparr>) (get_file p s)
                      else get_file q s)"
  by (auto simp: file_Sync_def pop_fault_def split: fault_cases if_splits)

lemma file_Sync_ErrD: "file_Sync p s = (Some e, s') \<Longrightarrow> same_files s s'"
  by (auto simp: file_Sync_def pop_fault_def same_files_def split: fault_cases)

lemma file_Close_same: "file_Close p s = (e, s') \<Longrightarrow> same_files s s'"
  by (auto simp: file_Close_def pop_fault_def same_files_def split: fault_cases)

lemma os_Open_same: "os_Open p s = (x, s') \<Longrightarrow> same_files s s'"
  by (auto simp: os_Open_def pop_fault_def same_files_def split: fault_cases)

lemma os_Open_OkD: "os_Open p s = (Inr d, s') \<Longrightarrow> \<exists>f. get_file p s = Some f \<and> fdata f = d"
  by (auto simp: os_Open_def pop_fault_def split: fault_cases)

lemma os_OpenAppend_OkD:
  "os_OpenAppend p s = (None, s') \<Longrightarrow>
     get_file q s' = (if q = p \<and> get_file p s = None then Some \<lparr>fdata = [], synced = 0\<rparr> else get_file q s)"
  by (auto simp: os_OpenAppend_def pop_fault_def split: fault_cases if_splits)

lemma os_OpenAppend_ErrD: "os_OpenAppend p s = (Some e, s') \<Longrightarrow> same_files s s'"
  by (auto simp: os_OpenAppend_def pop_fault_def same_files_def split: fault_cases)

lemma file_Truncate_OkD:
  "file_Truncate p n s = (None, s') \<Longrightarrow>
     get_file q s' = (if q = p then map_option (\<lambda>f. \<lparr>fdata = take n (fdata f), synced = min n (synced f)\<rparr>)
                                      (get_file p s) else get_file q s)"
  by (auto simp: file_Truncate_def pop_fault_def split: fault_cases if_splits)

lemma os_Remove_OkD:
  "os_Remove p s = (None, s') \<Longrightarrow> get_file q s' = (if q = p then None else get_file q s)"
  by (auto simp: os_Remove_def pop_fault_def split: fault_cases if_splits)

lemma os_Remove_ErrD:
  "os_Remove p s = (Some e, s') \<Longrightarrow> same_files s s' \<and> (e = ErrNotExist \<longrightarrow> get_file p s = None)"
  by (auto simp: os_Remove_def pop_fault_def same_files_def split: fault_cases if_splits)

text \<open>Without faults every call succeeds.\<close>

lemma pop_fault_clean [simp]: "faults s = [] \<Longrightarrow> pop_fault s = (NoFault, s)"
  by (simp add: pop_fault_def)

lemma faults_clean_append [simp]: "faults (append_file p d s) = faults s"
  by (simp add: append_file_def split: option.splits)

lemma faults_crash [simp]: "faults (crash keep s) = faults s"
  by (simp add: crash_def)

subsection \<open>The listing of a directory\<close>

lemma files_get_file: "p \<in> set (map fst (files s)) \<longleftrightarrow> get_file p s \<noteq> None"
  by (simp add: get_file_def map_of_eq_None_iff)

lemma dir_entry_file:
  "(n, False) \<in> set (dir_entry d p) \<longleftrightarrow> p = PathJoin d n \<and> CHR ''/'' \<notin> set n"
proof -
  have "HasPrefix p (PathJoin d []) \<longleftrightarrow> (\<exists>m. p = PathJoin d m)"
    by (auto simp: HasPrefix_def PathJoin_def) (metis append_take_drop_id append.assoc append_Cons append_Nil)
  then show ?thesis
    by (auto simp: dir_entry_def TrimPrefix_def Let_def) (auto simp: PathJoin_def HasPrefix_def)
qed

lemma dir_list_file:
  "(n, False) \<in> set (dir_list d s) \<longleftrightarrow> CHR ''/'' \<notin> set n \<and> get_file (PathJoin d n) s \<noteq> None"
proof -
  have "(n, False) \<in> set (dir_list d s) \<longleftrightarrow>
      (\<exists>p \<in> set (map fst (files s)). (n, False) \<in> set (dir_entry d p))"
    by (simp add: dir_list_def)
  also have "\<dots> \<longleftrightarrow> CHR ''/'' \<notin> set n \<and> PathJoin d n \<in> set (map fst (files s))"
    unfolding dir_entry_file by blast
  finally show ?thesis unfolding files_get_file .
qed

lemma distinct_dir_list: "distinct (dir_list d s)"
  by (simp add: dir_list_def distinct_sort)

end
