(* ===== verification/WalScan.thy ===== *)
theory WalScan
  imports WalRecord FileSystem
begin

text \<open>
  \<^verbatim>\<open>pkg/wal/segment.go\<close>, first part: \<^verbatim>\<open>SegmentMeta\<close> and the recovery scan of one segment file
  (\<^verbatim>\<open>ScanClientSegmentFile\<close>, \<^verbatim>\<open>ScanLogSegmentFile\<close>). The two functions of the source differ only
  in the decoder, the size of the record header and the sequence number they read, so the model
  has the body once, over these three. The locale \<open>record_codec\<close> states what a scan needs of a
  record format; both formats of \<^verbatim>\<open>record.go\<close> are interpretations.
\<close>

record SegmentMeta =
  Path :: string
  FirstSeq :: uint64
  LastSeq :: uint64
  Size :: nat
  RecordCount :: nat

subsection \<open>The loop over the records of a file\<close>

function decode_loop :: "(bytes \<Rightarrow> error + ('r \<times> bytes)) \<Rightarrow> bytes \<Rightarrow> 'r list \<times> error" where
  \<comment> \<open>decode until the first error; a decoder that consumes nothing would spin\<close>
  "decode_loop decoder r =
     (case decoder r of
        Inl e \<Rightarrow> ([], e)
      | Inr (rec, r') \<Rightarrow>
          (if length r' < length r
           then (let (recs, e) = decode_loop decoder r' in (rec # recs, e))
           else ([rec], ErrMsg ''no progress'')))"
  by pat_completeness auto
termination
  by (relation "measure (\<lambda>(decoder, r). length r)") auto

declare decode_loop.simps [simp del]

definition is_torn :: "error \<Rightarrow> bool" where
  "is_torn e \<longleftrightarrow> e = ErrTruncatedRecord \<or> e = ErrChecksumMismatch \<or> e = ErrCorruptedRecord"

definition backupCorruptedSegment :: "string \<Rightarrow> fs \<Rightarrow> fs" where
  "backupCorruptedSegment path s =
     (let (ts, s) = time_Now s;
          recoverPath = path @ ''.'' @ dec ts @ ''.recover''
      in case os_Open path s of
           (Inl _, s) \<Rightarrow> s
         | (Inr d, s) \<Rightarrow> snd (os_WriteFile recoverPath d s))"

definition CloseWithErr :: "string \<Rightarrow> (error + 'a) \<times> fs \<Rightarrow> (error + 'a) \<times> fs" where
  \<comment> \<open>\<open>defer errutil.CloseWithErr(f, &err)\<close>\<close>
  "CloseWithErr path res =
     (case file_Close path (snd res) of
        (None, s) \<Rightarrow> (fst res, s)
      | (Some ce, s) \<Rightarrow> (case fst res of Inl e \<Rightarrow> (Inl e, s) | Inr _ \<Rightarrow> (Inl ce, s)))"

definition scan_meta :: "string \<Rightarrow> ('r \<Rightarrow> uint64) \<Rightarrow> nat \<Rightarrow> 'r list \<Rightarrow> SegmentMeta" where
  "scan_meta path seqOf validOffset recs =
     \<lparr>Path = path,
      FirstSeq = (if recs = [] then 0 else seqOf (hd recs)),
      LastSeq = (if recs = [] then 0 else seqOf (last recs)),
      Size = validOffset, RecordCount = length recs\<rparr>"

definition scan_segment_file ::
    "(bytes \<Rightarrow> error + ('r \<times> bytes)) \<Rightarrow> ('r \<Rightarrow> nat) \<Rightarrow> ('r \<Rightarrow> uint64) \<Rightarrow> string \<Rightarrow> bool \<Rightarrow> fs \<Rightarrow>
     (error + ('r list \<times> SegmentMeta)) \<times> fs" where
  "scan_segment_file decoder recSize seqOf path acceptUnversioned s =
     (case os_Open path s of
        (Inl e, s) \<Rightarrow> (Inl e, s)
      | (Inr data, s) \<Rightarrow> CloseWithErr path
          (case ReadSegmentHeader data acceptUnversioned of
             Inl e \<Rightarrow> (if e = ErrEOF then Inr ([], scan_meta path seqOf 0 []) else Inl e, s)
           | Inr (_, hdrOffset, r) \<Rightarrow>
               (let (recs, e) = decode_loop decoder r;
                    validOffset = hdrOffset + sum_list (map recSize recs);
                    result = Inr (recs, scan_meta path seqOf validOffset recs)
                in if e = ErrEOF then (result, s)
                   else if is_torn e then
                     (case file_Truncate path validOffset (backupCorruptedSegment path s) of
                        (Some te, s) \<Rightarrow> (Inl te, s)
                      | (None, s) \<Rightarrow>
                          (case file_Sync path s of
                             (Some se, s) \<Rightarrow> (Inl se, s)
                           | (None, s) \<Rightarrow> (result, s)))
                   else (Inl e, s))))"

definition client_size :: "ClientRecord \<Rightarrow> nat" where
  "client_size r = ClientHeaderSize + length (crPayload r)"

definition log_size :: "LogRecord \<Rightarrow> nat" where
  "log_size r = LogHeaderSize + length (Payload r)"

definition ScanClientSegmentFile ::
    "string \<Rightarrow> bool \<Rightarrow> fs \<Rightarrow> (error + (ClientRecord list \<times> SegmentMeta)) \<times> fs" where
  "ScanClientSegmentFile = scan_segment_file DecodeClientRecord client_size crStreamSeq"

definition ScanLogSegmentFile ::
    "string \<Rightarrow> bool \<Rightarrow> fs \<Rightarrow> (error + (LogRecord list \<times> SegmentMeta)) \<times> fs" where
  "ScanLogSegmentFile = scan_segment_file DecodeLogRecord log_size Position"

subsection \<open>What a scan needs of a record format\<close>

locale record_codec =
  fixes enc :: "'r \<Rightarrow> bytes"
    and decoder :: "bytes \<Rightarrow> error + ('r \<times> bytes)"
    and rec_ok :: "'r \<Rightarrow> bool"
    and rec_size :: "'r \<Rightarrow> nat"
  assumes decode_Nil: "decoder [] = Inl ErrEOF"
    and decode_enc: "rec_ok r \<Longrightarrow> decoder (enc r @ rest) = Inr (r, rest)"
    and decode_sound: "decoder bs = Inr (r, rest) \<Longrightarrow> rec_ok r \<and> bs = enc r @ rest"
    and decode_torn: "rec_ok r \<Longrightarrow> 0 < k \<Longrightarrow> k < length (enc r) \<Longrightarrow>
      decoder (take k (enc r)) = Inl ErrTruncatedRecord"
    and decode_error: "decoder bs = Inl e \<Longrightarrow> e = ErrEOF \<and> bs = [] \<or> is_torn e"
    and length_enc: "length (enc r) = rec_size r"
    and rec_size_pos: "0 < rec_size r"
begin

definition enc_all :: "'r list \<Rightarrow> bytes" where
  "enc_all rs = concat (map enc rs)"

lemma enc_all_simps [simp]:
  "enc_all [] = []" "enc_all (r # rs) = enc r @ enc_all rs" "enc_all (rs @ rs') = enc_all rs @ enc_all rs'"
  by (simp_all add: enc_all_def)

lemma length_enc_all: "length (enc_all rs) = sum_list (map rec_size rs)"
  by (induction rs) (simp_all add: length_enc)

lemma decode_loop_Cons:
  "rec_ok r \<Longrightarrow>
     decode_loop decoder (enc r @ rest) = (r # fst (decode_loop decoder rest), snd (decode_loop decoder rest))"
  using rec_size_pos [of r] length_enc [of r]
  by (subst decode_loop.simps) (auto simp: decode_enc split: prod.splits)

lemma decode_loop_enc_all:
  "list_all rec_ok rs \<Longrightarrow>
     decode_loop decoder (enc_all rs @ rest) =
       (rs @ fst (decode_loop decoder rest), snd (decode_loop decoder rest))"
  by (induction rs) (simp_all add: decode_loop_Cons)

lemma decode_loop_Nil [simp]: "decode_loop decoder [] = ([], ErrEOF)"
  by (subst decode_loop.simps) (simp add: decode_Nil)

lemma decode_loop_torn:
  assumes "rec_ok r" "0 < k" "k < length (enc r)"
  shows "decode_loop decoder (take k (enc r)) = ([], ErrTruncatedRecord)"
  by (subst decode_loop.simps) (simp add: decode_torn [OF assms])

text \<open>
  The scan of a file cut at any byte returns a prefix of what was written, every record that is
  complete before the cut among it, and ends with a torn record or at the end of the file.
\<close>

lemma decode_loop_cut:
  assumes "list_all rec_ok rs"
  shows "\<exists>n \<le> length rs. fst (decode_loop decoder (take k (enc_all rs))) = take n rs \<and>
    snd (decode_loop decoder (take k (enc_all rs))) \<in> {ErrEOF, ErrTruncatedRecord} \<and>
    (\<forall>m \<le> length rs. length (enc_all (take m rs)) \<le> k \<longrightarrow> m \<le> n) \<and>
    length (enc_all (take n rs)) \<le> k"
  using assms
proof (induction rs arbitrary: k)
  case Nil
  then show ?case by simp
next
  case (Cons r rs)
  have r: "rec_ok r" and pos: "0 < length (enc r)"
    using Cons.prems rec_size_pos [of r] by (simp_all add: length_enc)
  show ?case
  proof (cases "length (enc r) \<le> k")
    case True
    define k' where "k' = k - length (enc r)"
    from Cons obtain n where n: "n \<le> length rs"
      "fst (decode_loop decoder (take k' (enc_all rs))) = take n rs"
      "snd (decode_loop decoder (take k' (enc_all rs))) \<in> {ErrEOF, ErrTruncatedRecord}"
      "\<forall>m \<le> length rs. length (enc_all (take m rs)) \<le> k' \<longrightarrow> m \<le> n"
      "length (enc_all (take n rs)) \<le> k'"
      by auto
    have "take k (enc_all (r # rs)) = enc r @ take k' (enc_all rs)"
      using True by (simp add: k'_def)
    then have dl: "decode_loop decoder (take k (enc_all (r # rs))) =
        (r # take n rs, snd (decode_loop decoder (take k' (enc_all rs))))"
      using r n(2) by (simp add: decode_loop_Cons)
    have "m \<le> Suc n" if "m \<le> length (r # rs)" "length (enc_all (take m (r # rs))) \<le> k" for m
      using that n(4) True by (cases m) (auto simp: k'_def)
    moreover have "length (enc_all (take (Suc n) (r # rs))) \<le> k"
      using n(5) True by (simp add: k'_def)
    ultimately show ?thesis
      using dl n(1,3) by (intro exI [of _ "Suc n"]) auto
  next
    case False
    then have "take k (enc_all (r # rs)) = take k (enc r)" by simp
    moreover have "decode_loop decoder (take k (enc r)) =
        ([], if k = 0 then ErrEOF else ErrTruncatedRecord)"
      using decode_loop_torn [OF r] False by simp
    moreover have "m = 0" if "m \<le> length (r # rs)" "length (enc_all (take m (r # rs))) \<le> k" for m
      using that False by (cases m) auto
    ultimately show ?thesis
      by (intro exI [of _ 0]) (auto split: if_splits)
  qed
qed

lemma decode_loop_sound:
  "list_all rec_ok (fst (decode_loop decoder bs)) \<and>
   (\<exists>rest. bs = enc_all (fst (decode_loop decoder bs)) @ rest \<and>
      (snd (decode_loop decoder bs) = ErrEOF \<and> rest = [] \<or> is_torn (snd (decode_loop decoder bs))))"
proof (induction "length bs" arbitrary: bs rule: less_induct)
  case less
  show ?case
  proof (cases "decoder bs")
    case (Inl e)
    then have "decode_loop decoder bs = ([], e)" by (subst decode_loop.simps) simp
    with decode_error [OF Inl] show ?thesis by auto
  next
    case (Inr x)
    then obtain r rest where x: "decoder bs = Inr (r, rest)" by (cases x) auto
    then have r: "rec_ok r" "bs = enc r @ rest" using decode_sound by auto
    moreover have "length rest < length bs"
      using r rec_size_pos [of r] length_enc [of r] by simp
    ultimately show ?thesis
      using less [of rest] by (auto simp: decode_loop_Cons)
  qed
qed

end

interpretation client_codec: record_codec client_enc DecodeClientRecord client_ok client_size
  by unfold_locales
    (use DecodeClientRecord_sound DecodeClientRecord_error in
      \<open>simp_all add: DecodeClientRecord_Nil DecodeClientRecord_client_enc DecodeClientRecord_torn
        length_client_enc client_size_def header_sizes is_torn_def\<close>)

interpretation log_codec: record_codec LogRecord_Encode DecodeLogRecord log_ok log_size
  by unfold_locales
    (use DecodeLogRecord_sound DecodeLogRecord_error in
      \<open>simp_all add: DecodeLogRecord_Nil DecodeLogRecord_Encode DecodeLogRecord_torn
        length_log_enc log_size_def header_sizes is_torn_def\<close>)

end
