(* ===== verification/WalSegment.thy ===== *)
theory WalSegment
  imports WalScan
begin

text \<open>
  \<^verbatim>\<open>pkg/wal/segment.go\<close>, second part: \<^verbatim>\<open>ClientSegmentStore\<close> and \<^verbatim>\<open>LogSegmentStore\<close>, the rotating
  segment files of a stream on the local disk. The two structs have the same fields and most of
  their methods the same body, so the model has one record and one body per method, and the
  method of each struct is its instance. A method is one critical section of the store's mutex.

  \<^verbatim>\<open>activeMeta\<close> and the elements of \<^verbatim>\<open>segments\<close> are shared pointers in the source: an append
  updates the list's element through \<^verbatim>\<open>activeMeta\<close>, and the deletions compare pointers. The
  model keeps the structs in a heap \<open>metas\<close> and the addresses in \<open>segments\<close> and \<open>activeMeta\<close>.
\<close>

definition DefaultMaxSegmentSize :: int where "DefaultMaxSegmentSize = 64 * 1024 * 1024"

definition DefaultMaxRetainedBytes :: int where "DefaultMaxRetainedBytes = 256 * 1024 * 1024"

record SegmentStore =
  dir :: string
  maxSegmentSize :: int
  filePrefix :: string
  acceptUnversioned :: bool
  noFsync :: bool
  activeFile :: "string option"
  activeMeta :: "nat option"
  segments :: "nat list"
  metas :: "nat \<Rightarrow> SegmentMeta"
  nextMeta :: nat

type_synonym ClientSegmentStore = SegmentStore
type_synonym LogSegmentStore = SegmentStore

definition ZeroMeta :: SegmentMeta where
  "ZeroMeta = \<lparr>Path = '''', FirstSeq = 0, LastSeq = 0, Size = 0, RecordCount = 0\<rparr>"

definition push_segment :: "SegmentMeta \<Rightarrow> SegmentStore \<Rightarrow> SegmentStore" where
  \<comment> \<open>allocate the struct and append its address to \<open>segments\<close>\<close>
  "push_segment meta st =
     st\<lparr>segments := segments st @ [nextMeta st], metas := (metas st)(nextMeta st := meta),
        nextMeta := Suc (nextMeta st)\<rparr>"

definition active_meta :: "SegmentStore \<Rightarrow> SegmentMeta" where
  "active_meta st = (case activeMeta st of Some p \<Rightarrow> metas st p | None \<Rightarrow> ZeroMeta)"

definition segment_metas :: "SegmentStore \<Rightarrow> SegmentMeta list" where
  "segment_metas st = map (metas st) (segments st)"

subsection \<open>Opening a store\<close>

definition segmentFilename :: "SegmentStore \<Rightarrow> uint64 \<Rightarrow> string" where
  "segmentFilename st firstSeq =
     PathJoin (dir st) (filePrefix st @ ''-'' @ pad0 19 (dec (unat firstSeq)) @ ''.wal'')"

definition wal_files :: "string \<Rightarrow> string \<Rightarrow> (string \<times> bool) list \<Rightarrow> string list" where
  "wal_files d prefix entries =
     sort (map (\<lambda>(n, _). PathJoin d n)
       (filter (\<lambda>(n, isDir). \<not> isDir \<and> HasPrefix n (prefix @ ''-'') \<and> HasSuffix n ''.wal'') entries))"

fun open_segments ::
    "(string \<Rightarrow> fs \<Rightarrow> (error + ('r list \<times> SegmentMeta)) \<times> fs) \<Rightarrow> string list \<Rightarrow>
     SegmentStore \<Rightarrow> 'r list \<Rightarrow> error list \<Rightarrow> fs \<Rightarrow> (error + (SegmentStore \<times> 'r list)) \<times> fs" where
  "open_segments scan [] st allRecords removeErrs s =
     (case Join removeErrs of Some e \<Rightarrow> (Inl e, s) | None \<Rightarrow> (Inr (st, allRecords), s))"
| "open_segments scan (f # walFiles) st allRecords removeErrs s =
     (case scan f s of
        (Inl e, s) \<Rightarrow> (Inl e, s)
      | (Inr (records, meta), s) \<Rightarrow>
          (if RecordCount meta > 0 then
             open_segments scan walFiles (push_segment meta st) (allRecords @ records) removeErrs s
           else
             (case os_Remove f s of
                (None, s) \<Rightarrow> open_segments scan walFiles st allRecords removeErrs s
              | (Some e, s) \<Rightarrow>
                  open_segments scan walFiles st allRecords
                    (if e = ErrNotExist then removeErrs else removeErrs @ [e]) s)))"

definition new_segment_store ::
    "(string \<Rightarrow> bool \<Rightarrow> fs \<Rightarrow> (error + ('r list \<times> SegmentMeta)) \<times> fs) \<Rightarrow> string \<Rightarrow>
     string \<Rightarrow> string \<Rightarrow> int \<Rightarrow> bool \<Rightarrow> bool \<Rightarrow> fs \<Rightarrow> (error + (SegmentStore \<times> 'r list)) \<times> fs" where
  "new_segment_store scan defaultPrefix d prefix maxSize acc nofsync s =
     (let maxSize = (if maxSize \<le> 0 then DefaultMaxSegmentSize else maxSize);
          prefix = (if prefix = '''' then defaultPrefix else prefix)
      in case os_MkdirAll d s of
           (Some e, s) \<Rightarrow> (Inl e, s)
         | (None, s) \<Rightarrow>
             (case os_ReadDir d s of
                (Inl e, s) \<Rightarrow> (Inl e, s)
              | (Inr entries, s) \<Rightarrow>
                  open_segments (\<lambda>f. scan f acc) (wal_files d prefix entries)
                    \<lparr>dir = d, maxSegmentSize = maxSize, filePrefix = prefix, acceptUnversioned = acc,
                     noFsync = nofsync, activeFile = None, activeMeta = None, segments = [],
                     metas = (\<lambda>_. ZeroMeta), nextMeta = 0\<rparr> [] [] s))"

definition NewClientSegmentStore ::
    "string \<Rightarrow> string \<Rightarrow> int \<Rightarrow> bool \<Rightarrow> bool \<Rightarrow> fs \<Rightarrow>
     (error + (ClientSegmentStore \<times> ClientRecord list)) \<times> fs" where
  "NewClientSegmentStore = new_segment_store ScanClientSegmentFile ''stream''"

definition NewLogSegmentStore ::
    "string \<Rightarrow> string \<Rightarrow> int \<Rightarrow> bool \<Rightarrow> bool \<Rightarrow> fs \<Rightarrow>
     (error + (LogSegmentStore \<times> LogRecord list)) \<times> fs" where
  "NewLogSegmentStore = new_segment_store ScanLogSegmentFile ''log''"

subsection \<open>Appending\<close>

definition sync_close :: "string \<Rightarrow> fs \<Rightarrow> error option \<times> fs" where
  \<comment> \<open>\<open>errors.Join(f.Sync(), f.Close())\<close>\<close>
  "sync_close f s =
     (let (syncErr, s) = file_Sync f s; (closeErr, s) = file_Close f s
      in (Join (case_option [] (\<lambda>e. [e]) syncErr @ case_option [] (\<lambda>e. [e]) closeErr), s))"

definition close_active :: "SegmentStore \<Rightarrow> fs \<Rightarrow> error option \<times> SegmentStore \<times> fs" where
  "close_active st s =
     (case activeFile st of
        None \<Rightarrow> (None, st, s)
      | Some f \<Rightarrow> (let (e, s) = sync_close f s in (e, st\<lparr>activeFile := None\<rparr>, s)))"

definition rotateLocked :: "uint64 \<Rightarrow> SegmentStore \<Rightarrow> fs \<Rightarrow> error option \<times> SegmentStore \<times> fs" where
  "rotateLocked firstSeq st s =
     (case close_active st s of
        (Some e, st, s) \<Rightarrow> (Some e, st, s)
      | (None, st, s) \<Rightarrow>
          (let path = segmentFilename st firstSeq
           in case os_OpenAppend path s of
                (Some e, s) \<Rightarrow> (Some e, st, s)
              | (None, s) \<Rightarrow>
                  (let hdr = SegmentHeader_Encode DefaultSegmentHeader
                   in case file_Write path hdr s of
                        (Some e, s) \<Rightarrow> (Some e, st, snd (file_Close path s))
                      | (None, s) \<Rightarrow>
                          (None,
                           (push_segment \<lparr>Path = path, FirstSeq = firstSeq, LastSeq = firstSeq,
                                          Size = length hdr, RecordCount = 0\<rparr> st)
                             \<lparr>activeFile := Some path, activeMeta := Some (nextMeta st)\<rparr>, s))))"

definition note_record :: "uint64 \<Rightarrow> nat \<Rightarrow> SegmentMeta \<Rightarrow> SegmentMeta" where
  "note_record seqn recordLen m =
     m\<lparr>FirstSeq := (if RecordCount m = 0 then seqn else FirstSeq m), LastSeq := seqn,
       Size := Size m + recordLen, RecordCount := Suc (RecordCount m)\<rparr>"

definition must_rotate :: "nat \<Rightarrow> SegmentStore \<Rightarrow> bool" where
  "must_rotate recordLen st \<longleftrightarrow>
     activeFile st = None \<or>
     int (Size (active_meta st)) + int recordLen > maxSegmentSize st \<and> RecordCount (active_meta st) > 0"

definition write_active ::
    "bytes \<Rightarrow> uint64 \<Rightarrow> SegmentStore \<Rightarrow> fs \<Rightarrow> error option \<times> SegmentStore \<times> fs" where
  "write_active encoded seqn st s =
     (case (activeFile st, activeMeta st) of
        (Some f, Some p) \<Rightarrow>
          (case file_Write f encoded s of
             (Some e, s) \<Rightarrow> (Some e, st, s)
           | (None, s) \<Rightarrow>
               (None, st\<lparr>metas := (metas st)(p := note_record seqn (length encoded) (metas st p))\<rparr>, s))
      | _ \<Rightarrow> (Some (ErrMsg ''nil pointer dereference''), st, s))"

definition append_encoded ::
    "bytes \<Rightarrow> uint64 \<Rightarrow> SegmentStore \<Rightarrow> fs \<Rightarrow> error option \<times> SegmentStore \<times> fs" where
  "append_encoded encoded seqn st s =
     (case (if must_rotate (length encoded) st then rotateLocked seqn st s else (None, st, s)) of
        (Some e, st, s) \<Rightarrow> (Some e, st, s)
      | (None, st, s) \<Rightarrow> write_active encoded seqn st s)"

definition sync_active :: "SegmentStore \<Rightarrow> fs \<Rightarrow> error option \<times> fs" where
  "sync_active st s =
     (case activeFile st of
        Some f \<Rightarrow> (if noFsync st then (None, s) else file_Sync f s)
      | None \<Rightarrow> (None, s))"

definition ClientSegmentStore_Append ::
    "ClientRecord \<Rightarrow> ClientSegmentStore \<Rightarrow> fs \<Rightarrow>
     error option \<times> ClientRecord \<times> ClientSegmentStore \<times> fs" where
  \<comment> \<open>\<open>Encode\<close> also stores the checksum in the caller's record\<close>
  "ClientSegmentStore_Append rec st s =
     (let (encoded, rec) = ClientRecord_Encode rec;
          (e, st, s) = append_encoded encoded (crStreamSeq rec) st s
      in (e, rec, st, s))"

definition ClientSegmentStore_Sync ::
    "ClientSegmentStore \<Rightarrow> fs \<Rightarrow> error option \<times> fs" where
  "ClientSegmentStore_Sync = sync_active"

definition ClientSegmentStore_rotateLocked ::
    "uint64 \<Rightarrow> ClientSegmentStore \<Rightarrow> fs \<Rightarrow> error option \<times> ClientSegmentStore \<times> fs" where
  "ClientSegmentStore_rotateLocked = rotateLocked"

definition LogSegmentStore_rotateLocked ::
    "uint64 \<Rightarrow> LogSegmentStore \<Rightarrow> fs \<Rightarrow> error option \<times> LogSegmentStore \<times> fs" where
  "LogSegmentStore_rotateLocked = rotateLocked"

fun append_records ::
    "LogRecord list \<Rightarrow> LogSegmentStore \<Rightarrow> fs \<Rightarrow> error option \<times> LogSegmentStore \<times> fs" where
  "append_records [] st s = (None, st, s)"
| "append_records (r # rs) st s =
     (case append_encoded (LogRecord_Encode r) (Position r) st s of
        (Some e, st, s) \<Rightarrow> (Some e, st, s)
      | (None, st, s) \<Rightarrow> append_records rs st s)"

definition AppendBatch ::
    "LogRecord list \<Rightarrow> LogSegmentStore \<Rightarrow> fs \<Rightarrow> error option \<times> LogSegmentStore \<times> fs" where
  "AppendBatch records st s =
     (if records = [] then (None, st, s)
      else case append_records records st s of
             (Some e, st, s) \<Rightarrow> (Some e, st, s)
           | (None, st, s) \<Rightarrow> (let (e, s) = sync_active st s in (e, st, s)))"

definition close_store :: "SegmentStore \<Rightarrow> fs \<Rightarrow> error option \<times> SegmentStore \<times> fs" where
  "close_store = close_active"

definition ClientSegmentStore_Close ::
    "ClientSegmentStore \<Rightarrow> fs \<Rightarrow> error option \<times> ClientSegmentStore \<times> fs" where
  "ClientSegmentStore_Close = close_store"

definition LogSegmentStore_Close ::
    "LogSegmentStore \<Rightarrow> fs \<Rightarrow> error option \<times> LogSegmentStore \<times> fs" where
  "LogSegmentStore_Close = close_store"

subsection \<open>Removing records\<close>

definition opt_list :: "'a option \<Rightarrow> 'a list" where
  "opt_list x = (case x of None \<Rightarrow> [] | Some y \<Rightarrow> [y])"

definition remove_file :: "string \<Rightarrow> fs \<Rightarrow> error option \<times> fs" where
  \<comment> \<open>\<open>err := os.Remove(path); err != nil && !os.IsNotExist(err)\<close>\<close>
  "remove_file path s =
     (case os_Remove path s of
        (None, s) \<Rightarrow> (None, s)
      | (Some e, s) \<Rightarrow> (if e = ErrNotExist then None else Some e, s))"

definition truncate_segment ::
    "(bytes \<Rightarrow> error + ('r \<times> bytes)) \<Rightarrow> ('r \<Rightarrow> nat) \<Rightarrow> ('r \<Rightarrow> uint64) \<Rightarrow> bool \<Rightarrow> uint64 \<Rightarrow>
     SegmentMeta \<Rightarrow> fs \<Rightarrow> bool \<times> error list \<times> SegmentMeta \<times> fs" where
  \<comment> \<open>whether the segment stays in the list, the errors, the updated struct\<close>
  "truncate_segment decoder recSize seqOf acc maxSeq seg s =
     (if FirstSeq seg > maxSeq then
        (let (re, s) = remove_file (Path seg) s in (re \<noteq> None, opt_list re, seg, s))
      else if LastSeq seg \<le> maxSeq then (True, [], seg, s)
      else case os_Open (Path seg) s of
        (Inl e, s) \<Rightarrow> (if e = ErrNotExist then (False, [], seg, s) else (True, [e], seg, s))
      | (Inr data, s) \<Rightarrow>
          (case ReadSegmentHeader data acc of
             Inl e \<Rightarrow> (True, [e], seg, snd (file_Close (Path seg) s))
           | Inr (_, hdrOffset, r) \<Rightarrow>
               (let valid = takeWhile (\<lambda>rec. \<not> seqOf rec > maxSeq) (fst (decode_loop decoder r));
                    validOffset = hdrOffset + sum_list (map recSize valid)
                in if valid = [] then
                     (let (ce, s) = file_Close (Path seg) s; (re, s) = remove_file (Path seg) s
                      in (re \<noteq> None, opt_list ce @ opt_list re, seg, s))
                   else
                     (case file_Truncate (Path seg) validOffset s of
                        (Some e, s) \<Rightarrow> (True, [e], seg, snd (file_Close (Path seg) s))
                      | (None, s) \<Rightarrow>
                          (case sync_close (Path seg) s of
                             (Some e, s) \<Rightarrow> (True, [e], seg, s)
                           | (None, s) \<Rightarrow>
                               (True, [],
                                seg\<lparr>Size := validOffset, RecordCount := length valid,
                                    FirstSeq := seqOf (hd valid), LastSeq := seqOf (last valid)\<rparr>,
                                s))))))"

fun truncate_segments ::
    "(SegmentMeta \<Rightarrow> fs \<Rightarrow> bool \<times> error list \<times> SegmentMeta \<times> fs) \<Rightarrow> nat list \<Rightarrow> (nat \<Rightarrow> SegmentMeta) \<Rightarrow>
     fs \<Rightarrow> nat list \<times> error list \<times> (nat \<Rightarrow> SegmentMeta) \<times> fs" where
  "truncate_segments tr [] ms s = ([], [], ms, s)"
| "truncate_segments tr (p # ps) ms s =
     (let (keep, es, seg, s) = tr (ms p) s;
          (remaining, errs, ms, s) = truncate_segments tr ps (ms(p := seg)) s
      in (if keep then p # remaining else remaining, es @ errs, ms, s))"

definition truncate_after ::
    "(bytes \<Rightarrow> error + ('r \<times> bytes)) \<Rightarrow> ('r \<Rightarrow> nat) \<Rightarrow> ('r \<Rightarrow> uint64) \<Rightarrow> uint64 \<Rightarrow>
     SegmentStore \<Rightarrow> fs \<Rightarrow> error option \<times> SegmentStore \<times> fs" where
  "truncate_after decoder recSize seqOf maxSeq st s =
     (let (ce, st, s) =
            (if activeFile st = None then (None, st, s)
             else let (e, st, s) = close_active st s in (e, st\<lparr>activeMeta := None\<rparr>, s));
          (remaining, errs, ms, s) =
            truncate_segments (truncate_segment decoder recSize seqOf (acceptUnversioned st) maxSeq)
              (segments st) (metas st) s
      in (Join (opt_list ce @ errs), st\<lparr>segments := remaining, metas := ms\<rparr>, s))"

definition TruncateAfter ::
    "uint64 \<Rightarrow> ClientSegmentStore \<Rightarrow> fs \<Rightarrow> error option \<times> ClientSegmentStore \<times> fs" where
  "TruncateAfter = truncate_after DecodeClientRecord client_size crStreamSeq"

fun delete_acked ::
    "uint64 \<Rightarrow> nat list \<Rightarrow> SegmentStore \<Rightarrow> fs \<Rightarrow> nat list \<times> fs" where
  "delete_acked s3AckedSeq [] st s = ([], s)"
| "delete_acked s3AckedSeq (p # ps) st s =
     (let seg = metas st p;
          (keep, s) =
            (if activeMeta st = Some p then (True, s)
             else if LastSeq seg \<le> s3AckedSeq \<and> RecordCount seg > 0 then
               (let (e, s) = remove_file (Path seg) s in (e \<noteq> None, s))
             else (True, s));
          (remaining, s) = delete_acked s3AckedSeq ps st s
      in (if keep then p # remaining else remaining, s))"

definition DeleteSegmentsBeforeS3Ack ::
    "uint64 \<Rightarrow> ClientSegmentStore \<Rightarrow> fs \<Rightarrow> error option \<times> ClientSegmentStore \<times> fs" where
  "DeleteSegmentsBeforeS3Ack s3AckedSeq st s =
     (let (remaining, s) = delete_acked s3AckedSeq (segments st) st s
      in (None, st\<lparr>segments := remaining\<rparr>, s))"

fun delete_through ::
    "uint64 \<Rightarrow> int \<Rightarrow> int \<Rightarrow> nat list \<Rightarrow> SegmentStore \<Rightarrow> fs \<Rightarrow> nat list \<times> fs" where
  "delete_through flushedPosition maxRetainedBytes totalBytes [] st s = ([], s)"
| "delete_through flushedPosition maxRetainedBytes totalBytes (p # ps) st s =
     (let seg = metas st p
      in if activeMeta st = Some p \<or> LastSeq seg > flushedPosition \<or> totalBytes \<le> maxRetainedBytes then
           (let (remaining, s) = delete_through flushedPosition maxRetainedBytes totalBytes ps st s
            in (p # remaining, s))
         else (case remove_file (Path seg) s of
             (Some e, s) \<Rightarrow>
               (let (remaining, s) = delete_through flushedPosition maxRetainedBytes totalBytes ps st s
                in (p # remaining, s))
           | (None, s) \<Rightarrow>
               delete_through flushedPosition maxRetainedBytes (totalBytes - int (Size seg)) ps st s))"

definition total_bytes :: "SegmentStore \<Rightarrow> int" where
  "total_bytes st = int (sum_list (map Size (segment_metas st)))"

definition DeleteSegmentsThrough ::
    "uint64 \<Rightarrow> int \<Rightarrow> LogSegmentStore \<Rightarrow> fs \<Rightarrow> error option \<times> LogSegmentStore \<times> fs" where
  "DeleteSegmentsThrough flushedPosition maxRetainedBytes st s =
     (if total_bytes st \<le> maxRetainedBytes then (None, st, s)
      else let (remaining, s) =
             delete_through flushedPosition maxRetainedBytes (total_bytes st) (segments st) st s
           in (None, st\<lparr>segments := remaining\<rparr>, s))"

subsection \<open>Reading\<close>

fun visit :: "uint64 \<Rightarrow> (LogRecord \<Rightarrow> 'c \<Rightarrow> error option \<times> 'c) \<Rightarrow> LogRecord list \<Rightarrow> 'c \<Rightarrow> error option \<times> 'c"
  where
  "visit position fn [] c = (None, c)"
| "visit position fn (r # rs) c =
     (if Position r \<ge> position then
        (case fn r c of (Some e, c) \<Rightarrow> (Some e, c) | (None, c) \<Rightarrow> visit position fn rs c)
      else visit position fn rs c)"

definition read_segment ::
    "uint64 \<Rightarrow> (LogRecord \<Rightarrow> 'c \<Rightarrow> error option \<times> 'c) \<Rightarrow> bool \<Rightarrow> string \<Rightarrow> 'c \<Rightarrow> fs \<Rightarrow>
     error option \<times> 'c \<times> fs" where
  "read_segment position fn acc path c s =
     (case os_Open path s of
        (Inl e, s) \<Rightarrow> (if e = ErrNotExist then None else Some e, c, s)
      | (Inr data, s) \<Rightarrow>
          (let (_, s) = file_Close path s
           in case ReadSegmentHeader data acc of
                Inl e \<Rightarrow> (if e = ErrEOF then None else Some e, c, s)
              | Inr (_, _, r) \<Rightarrow>
                  (let (recs, de) = decode_loop DecodeLogRecord r
                   in case visit position fn recs c of
                        (Some e, c) \<Rightarrow> (Some e, c, s)
                      | (None, c) \<Rightarrow>
                          (if de = ErrEOF \<or> de = ErrTruncatedRecord then None else Some de, c, s))))"

fun read_segments ::
    "uint64 \<Rightarrow> (LogRecord \<Rightarrow> 'c \<Rightarrow> error option \<times> 'c) \<Rightarrow> bool \<Rightarrow> string list \<Rightarrow> 'c \<Rightarrow> fs \<Rightarrow>
     error option \<times> 'c \<times> fs" where
  "read_segments position fn acc [] c s = (None, c, s)"
| "read_segments position fn acc (path # paths) c s =
     (case read_segment position fn acc path c s of
        (Some e, c, s) \<Rightarrow> (Some e, c, s)
      | (None, c, s) \<Rightarrow> read_segments position fn acc paths c s)"

definition ReadFrom ::
    "uint64 \<Rightarrow> (LogRecord \<Rightarrow> 'c \<Rightarrow> error option \<times> 'c) \<Rightarrow> LogSegmentStore \<Rightarrow> 'c \<Rightarrow> fs \<Rightarrow>
     error option \<times> 'c \<times> fs" where
  "ReadFrom position fn st c s =
     (if segments st = [] then (None, c, s)
      else let segs = segment_metas st;
               idx = Search (length segs) (\<lambda>i. FirstSeq (segs ! i) > position);
               startIdx = (if idx > 0 then idx - 1 else 0)
           in read_segments position fn (acceptUnversioned st) (map Path (drop startIdx segs)) c s)"

end
