(* ===== verification/WalStore.thy ===== *)
theory WalStore
  imports WalSegment
begin

text \<open>
  What the segment stores of \<^verbatim>\<open>pkg/wal/segment.go\<close> promise. The state of a store with its files
  stands for a list of records, split into segments (\<open>store_ok st s rss\<close>): the file of each
  segment holds the header and the encoding of its records, the \<^verbatim>\<open>SegmentMeta\<close> of each segment
  describes its file, names and sequence numbers ascend, and the directory lists exactly the
  files of the segments. The lemmas show how each method acts on the list of records.
  Everything is proved once, in the locale \<open>segment_codec\<close>, for any record format.
\<close>

definition segment_header :: bytes where
  "segment_header = SegmentHeader_Encode DefaultSegmentHeader"

lemma length_segment_header [simp]: "length segment_header = 16"
  by (simp add: segment_header_def SegmentHeader_Encode_def)

lemma segment_header_neq_Nil [simp]: "segment_header \<noteq> []"
  using length_segment_header by (metis length_0_conv zero_neq_numeral)

definition seg_ok :: "('r \<Rightarrow> bytes) \<Rightarrow> ('r \<Rightarrow> bool) \<Rightarrow> ('r \<Rightarrow> uint64) \<Rightarrow> fs \<Rightarrow> SegmentMeta \<Rightarrow> 'r list \<Rightarrow> bool" where
  "seg_ok enc rec_ok seqOf s m rs \<longleftrightarrow>
     (case get_file (Path m) s of
        None \<Rightarrow> False
      | Some f \<Rightarrow> fdata f = segment_header @ concat (map enc rs)) \<and>
     list_all rec_ok rs \<and>
     Size m = length segment_header + length (concat (map enc rs)) \<and>
     RecordCount m = length rs \<and>
     (if rs = [] then LastSeq m = FirstSeq m
      else FirstSeq m = seqOf (hd rs) \<and> LastSeq m = seqOf (last rs)) \<and>
     sorted_wrt (\<lambda>a b. seqOf a < seqOf b) rs"

definition seq_limit :: nat where
  \<comment> \<open>the names hold 19 digits\<close>
  "seq_limit = 10 ^ 19"

definition metas_ok :: "SegmentStore \<Rightarrow> SegmentMeta list \<Rightarrow> bool" where
  "metas_ok st ms \<longleftrightarrow>
     sorted_wrt (\<lambda>m m'. LastSeq m < FirstSeq m') ms \<and>
     sorted_wrt (\<lambda>m m'. Path m < Path m') ms \<and>
     list_all (\<lambda>m. Path m \<le> segmentFilename st (FirstSeq m) \<and> unat (LastSeq m) < seq_limit) ms"

definition active_ok :: "SegmentStore \<Rightarrow> bool" where
  "active_ok st \<longleftrightarrow>
     (case activeFile st of
        None \<Rightarrow> True
      | Some f \<Rightarrow> segments st \<noteq> [] \<and> activeMeta st = Some (last (segments st)) \<and>
          Path (metas st (last (segments st))) = f)"

definition nonempty_file :: "fs \<Rightarrow> string \<Rightarrow> bool" where
  "nonempty_file s p = (case get_file p s of Some f \<Rightarrow> fdata f \<noteq> [] | None \<Rightarrow> False)"

definition wal_listing :: "string \<Rightarrow> string \<Rightarrow> fs \<Rightarrow> string list" where
  \<comment> \<open>a file whose header could not be written stays behind empty\<close>
  "wal_listing d prefix s = filter (nonempty_file s) (wal_files d prefix (dir_list d s))"

definition store_ok ::
    "('r \<Rightarrow> bytes) \<Rightarrow> ('r \<Rightarrow> bool) \<Rightarrow> ('r \<Rightarrow> uint64) \<Rightarrow> SegmentStore \<Rightarrow> fs \<Rightarrow> 'r list list \<Rightarrow> bool" where
  "store_ok enc rec_ok seqOf st s rss \<longleftrightarrow>
     list_all2 (seg_ok enc rec_ok seqOf s) (segment_metas st) rss \<and>
     metas_ok st (segment_metas st) \<and>
     wal_listing (dir st) (filePrefix st) s = map Path (segment_metas st) \<and>
     list_all (\<lambda>p. p < nextMeta st) (segments st) \<and>
     CHR ''/'' \<notin> set (filePrefix st) \<and>
     active_ok st"

subsection \<open>File names\<close>

definition is_wal_name :: "string \<Rightarrow> string \<Rightarrow> bool" where
  "is_wal_name prefix n \<longleftrightarrow> CHR ''/'' \<notin> set n \<and> HasPrefix n (prefix @ ''-'') \<and> HasSuffix n ''.wal''"

lemma set_wal_files:
  "p \<in> set (wal_files d prefix (dir_list d s)) \<longleftrightarrow>
     (\<exists>n. p = PathJoin d n \<and> is_wal_name prefix n \<and> get_file p s \<noteq> None)"
proof -
  have "p \<in> set (wal_files d prefix (dir_list d s)) \<longleftrightarrow>
      (\<exists>n. p = PathJoin d n \<and> HasPrefix n (prefix @ ''-'') \<and> HasSuffix n ''.wal'' \<and> (n, False) \<in> set (dir_list d s))"
    by (auto simp: wal_files_def image_iff)
  then show ?thesis
    unfolding dir_list_file is_wal_name_def by blast
qed

lemma sorted_wal_files: "sorted (wal_files d prefix es)"
  by (simp add: wal_files_def)

lemma distinct_wal_files: "distinct (wal_files d prefix (dir_list d s))"
  unfolding wal_files_def distinct_sort distinct_map
  by (auto intro!: distinct_filter distinct_dir_list inj_onI)

lemma set_wal_listing:
  "p \<in> set (wal_listing d prefix s) \<longleftrightarrow>
     (\<exists>n. p = PathJoin d n \<and> is_wal_name prefix n \<and> nonempty_file s p)"
  by (auto simp: wal_listing_def set_wal_files nonempty_file_def split: option.splits)

lemma strict_sorted_wal_listing: "sorted_wrt (<) (wal_listing d prefix s)"
  by (simp add: wal_listing_def sorted_wrt_filter strict_sorted_iff sorted_wal_files distinct_wal_files)

lemma wal_listing_eqI:
  assumes "sorted_wrt (<) ps" "set ps = set (wal_listing d prefix s)"
  shows "wal_listing d prefix s = ps"
  using assms strict_sorted_wal_listing
  by (metis sorted_distinct_set_unique strict_sorted_iff)

lemma wal_listing_cong:
  assumes "\<And>n. is_wal_name prefix n \<Longrightarrow> nonempty_file s' (PathJoin d n) = nonempty_file s (PathJoin d n)"
  shows "wal_listing d prefix s' = wal_listing d prefix s"
proof (rule wal_listing_eqI)
  show "set (wal_listing d prefix s) = set (wal_listing d prefix s')"
    unfolding set_wal_listing set_eq_iff using assms by metis
qed (rule strict_sorted_wal_listing)

definition segment_name :: "string \<Rightarrow> uint64 \<Rightarrow> string" where
  "segment_name prefix q = prefix @ ''-'' @ pad0 19 (dec (unat q)) @ ''.wal''"

lemma segmentFilename_eq: "segmentFilename st q = PathJoin (dir st) (segment_name (filePrefix st) q)"
  by (simp add: segmentFilename_def segment_name_def)

lemma is_digit_slash: "list_all is_digit ds \<Longrightarrow> CHR ''/'' \<notin> set ds"
  by (auto simp: list_all_iff is_digit_def)

lemma is_wal_name_segment_name:
  "CHR ''/'' \<notin> set prefix \<Longrightarrow> is_wal_name prefix (segment_name prefix q)"
  using is_digit_slash [OF pad0_digits [of 19 "unat q"]]
  by (simp add: is_wal_name_def segment_name_def HasPrefix_def HasSuffix_def)

lemma segmentFilename_less:
  assumes "unat a < seq_limit" "unat b < seq_limit"
  shows "segmentFilename st a < segmentFilename st b \<longleftrightarrow> a < b"
proof -
  have "length (pad0 19 (dec (unat a))) = length (pad0 19 (dec (unat b)))"
    using assms by (simp add: length_pad0 seq_limit_def)
  then have "segmentFilename st a < segmentFilename st b \<longleftrightarrow> pad0 19 (dec (unat a)) < pad0 19 (dec (unat b))"
    unfolding segmentFilename_eq segment_name_def PathJoin_def
    by (simp only: append_less_iff less_append_same_length) simp
  also have "\<dots> \<longleftrightarrow> a < b"
    using assms by (simp add: pad0_less_iff seq_limit_def word_less_nat_alt)
  finally show ?thesis .
qed

lemma segmentFilename_cong:
  "dir st' = dir st \<Longrightarrow> filePrefix st' = filePrefix st \<Longrightarrow> segmentFilename st' q = segmentFilename st q"
  by (simp add: segmentFilename_def)

subsection \<open>Lists of segments\<close>

lemma segment_metas_push:
  assumes "list_all (\<lambda>p. p < nextMeta st) (segments st)"
  shows "segment_metas (push_segment m st) = segment_metas st @ [m]"
  using assms by (auto simp: segment_metas_def push_segment_def list_all_iff)

lemma segment_metas_cong:
  "segments st' = segments st \<Longrightarrow> metas st' = metas st \<Longrightarrow> segment_metas st' = segment_metas st"
  by (simp add: segment_metas_def)

lemma metas_ok_cong:
  "dir st' = dir st \<Longrightarrow> filePrefix st' = filePrefix st \<Longrightarrow> metas_ok st' ms = metas_ok st ms"
  by (simp add: metas_ok_def segmentFilename_def)

lemma distinct_segments: "metas_ok st (segment_metas st) \<Longrightarrow> distinct (segments st)"
proof -
  assume "metas_ok st (segment_metas st)"
  then have "sorted_wrt (<) (map Path (segment_metas st))"
    by (simp add: metas_ok_def sorted_wrt_map)
  then have "distinct (map (\<lambda>p. Path (metas st p)) (segments st))"
    by (simp add: strict_sorted_iff segment_metas_def comp_def)
  then show ?thesis by (simp add: distinct_map)
qed

lemma segment_metas_update_last:
  assumes "segments st = ps @ [p]" "distinct (segments st)"
  shows "map ((metas st)(p := m)) (segments st) = map (metas st) ps @ [m]"
  using assms by auto

lemma seg_ok_cong:
  "get_file (Path m) s' = get_file (Path m) s \<Longrightarrow>
     seg_ok enc rec_ok seqOf s' m rs = seg_ok enc rec_ok seqOf s m rs"
  by (simp add: seg_ok_def)

lemma segs_ok_cong:
  assumes "\<And>m. m \<in> set ms \<Longrightarrow> get_file (Path m) s' = get_file (Path m) s"
  shows "list_all2 (seg_ok enc rec_ok seqOf s') ms rss = list_all2 (seg_ok enc rec_ok seqOf s) ms rss"
  using assms seg_ok_cong [of _ s' s enc rec_ok seqOf]
  by (intro list.rel_cong_simp) (simp_all add: simp_implies_def)

subsection \<open>Appending\<close>

definition next_ok :: "uint64 \<Rightarrow> SegmentStore \<Rightarrow> bool" where
  \<comment> \<open>a record with this sequence number may follow: it is above every record; a segment that was
      opened for it and is still empty may carry its number\<close>
  "next_ok q st \<longleftrightarrow>
     unat q < seq_limit \<and>
     list_all (\<lambda>p. LastSeq (metas st p) < q \<or>
         activeFile st \<noteq> None \<and> activeMeta st = Some p \<and> RecordCount (metas st p) = 0 \<and>
         LastSeq (metas st p) \<le> q) (segments st)"

definition same_config :: "SegmentStore \<Rightarrow> SegmentStore \<Rightarrow> bool" where
  "same_config st st' \<longleftrightarrow>
     dir st' = dir st \<and> filePrefix st' = filePrefix st \<and> maxSegmentSize st' = maxSegmentSize st \<and>
     acceptUnversioned st' = acceptUnversioned st \<and> noFsync st' = noFsync st"

lemma same_config_trans: "same_config a b \<Longrightarrow> same_config b c \<Longrightarrow> same_config a c"
  by (simp add: same_config_def)

lemma sync_close_same_data:
  assumes "sync_close f s = (e, s')"
  shows "(get_file p s' = None) = (get_file p s = None)"
    and "get_file p s = Some x \<Longrightarrow> \<exists>x'. get_file p s' = Some x' \<and> fdata x' = fdata x \<and>
       (synced x' = synced x \<or> synced x' = length (fdata x)) \<and>
       (e = None \<longrightarrow> p = f \<longrightarrow> synced x' = length (fdata x)) \<and> (p \<noteq> f \<longrightarrow> x' = x)"
  using assms
  by (auto simp: sync_close_def file_Sync_def file_Close_def pop_fault_def Join_def
      split: fault_cases if_splits prod.splits)

lemma seg_ok_same_data:
  assumes "seg_ok enc rec_ok seqOf s m rs"
    and "\<And>x. get_file (Path m) s = Some x \<Longrightarrow> \<exists>x'. get_file (Path m) s' = Some x' \<and> fdata x' = fdata x"
  shows "seg_ok enc rec_ok seqOf s' m rs"
proof -
  from assms(1) obtain x where x: "get_file (Path m) s = Some x"
    by (auto simp: seg_ok_def split: option.splits)
  with assms show ?thesis by (fastforce simp: seg_ok_def)
qed

lemma store_ok_same_data:
  assumes ok: "store_ok enc rec_ok seqOf st s rss"
    and none: "\<And>p. get_file p s = None \<Longrightarrow> get_file p s' = None"
    and data: "\<And>p x. get_file p s = Some x \<Longrightarrow> \<exists>x'. get_file p s' = Some x' \<and> fdata x' = fdata x"
  shows "store_ok enc rec_ok seqOf st s' rss"
proof -
  have "list_all2 (seg_ok enc rec_ok seqOf s') (segment_metas st) rss"
    using ok data seg_ok_same_data [of enc rec_ok seqOf s _ _ s']
    by (auto simp: store_ok_def elim!: list_all2_mono)
  moreover have "nonempty_file s' p = nonempty_file s p" for p
    using none [of p] data [of p] by (cases "get_file p s") (auto simp: nonempty_file_def)
  then have "wal_listing (dir st) (filePrefix st) s' = wal_listing (dir st) (filePrefix st) s"
    by (rule wal_listing_cong)
  ultimately show ?thesis using ok by (simp add: store_ok_def)
qed

lemma seg_ok_FirstSeq_le:
  "seg_ok enc rec_ok seqOf s m rs \<Longrightarrow> FirstSeq m \<le> LastSeq m"
  by (cases rs) (auto simp: seg_ok_def less_imp_le split: if_splits)

lemma seg_ok_le_LastSeq:
  assumes "seg_ok enc rec_ok seqOf s m rs" "x \<in> set rs"
  shows "FirstSeq m \<le> seqOf x \<and> seqOf x \<le> LastSeq m"
proof -
  from assms obtain i where i: "i < length rs" "x = rs ! i" by (auto simp: in_set_conv_nth)
  have "sorted_wrt (\<lambda>a b. seqOf a < seqOf b) rs" and ne: "rs \<noteq> []"
    using assms by (auto simp: seg_ok_def)
  then have "0 < i \<Longrightarrow> seqOf (rs ! 0) < seqOf x"
    and "i < length rs - 1 \<Longrightarrow> seqOf x < seqOf (rs ! (length rs - 1))"
    using i by (auto simp: sorted_wrt_iff_nth_less)
  then have "i = 0 \<or> seqOf (rs ! 0) < seqOf x" "i = length rs - 1 \<or> seqOf x < seqOf (rs ! (length rs - 1))"
    using i by force+
  with i ne assms(1) show ?thesis
    by (auto simp: seg_ok_def hd_conv_nth last_conv_nth)
qed

lemma store_ok_seg:
  "store_ok enc rec_ok seqOf st s rss \<Longrightarrow> m \<in> set (segment_metas st) \<Longrightarrow>
     \<exists>rs. seg_ok enc rec_ok seqOf s m rs \<and> rs \<in> set rss"
  by (metis in_set_conv_nth list_all2_conv_all_nth store_ok_def)

lemma paths_below:
  assumes ok: "store_ok enc rec_ok seqOf st s rss"
    and q: "unat q < seq_limit" "LastSeq m < q" and m: "m \<in> set (segment_metas st)"
  shows "Path m < segmentFilename st q"
proof -
  have "FirstSeq m \<le> LastSeq m"
    using store_ok_seg [OF ok m] seg_ok_FirstSeq_le by blast
  then have "FirstSeq m < q" "unat (FirstSeq m) < seq_limit"
    using q by (auto simp: word_less_nat_alt word_le_nat_alt)
  then have "segmentFilename st (FirstSeq m) < segmentFilename st q"
    using q(1) by (simp add: segmentFilename_less)
  moreover have "Path m \<le> segmentFilename st (FirstSeq m)"
    using ok m by (auto simp: store_ok_def metas_ok_def list_all_iff)
  ultimately show ?thesis by simp
qed

lemma store_ok_same_files:
  "store_ok enc rec_ok seqOf st s rss \<Longrightarrow> same_files s s' \<Longrightarrow> store_ok enc rec_ok seqOf st s' rss"
  by (rule store_ok_same_data) (auto simp: same_files_def)

lemma store_ok_closed:
  "store_ok enc rec_ok seqOf st s rss \<Longrightarrow> store_ok enc rec_ok seqOf (st\<lparr>activeFile := None\<rparr>) s rss"
  by (simp add: store_ok_def active_ok_def segment_metas_def metas_ok_def segmentFilename_def)

lemma close_active_ok:
  assumes "close_active st s = (e, st', s')" "store_ok enc rec_ok seqOf st s rss"
  shows "store_ok enc rec_ok seqOf st' s' rss \<and> activeFile st' = None \<and> segments st' = segments st \<and>
    metas st' = metas st \<and> nextMeta st' = nextMeta st \<and> same_config st st'"
proof (cases "activeFile st")
  case None
  with assms show ?thesis by (simp add: close_active_def same_config_def)
next
  case (Some f)
  with assms(1) have sc: "sync_close f s = (e, s')" and st': "st' = st\<lparr>activeFile := None\<rparr>"
    by (auto simp: close_active_def split: prod.splits)
  have "store_ok enc rec_ok seqOf st s' rss"
    by (rule store_ok_same_data [OF assms(2)])
      (use sync_close_same_data [OF sc] in \<open>blast+\<close>)
  then show ?thesis
    using st' by (simp add: store_ok_closed same_config_def)
qed

lemma rotate_push_ok:
  assumes ok: "store_ok enc rec_ok seqOf st s rss"
    and q: "unat q < seq_limit" "list_all (\<lambda>m. LastSeq m < q) (segment_metas st)"
    and path: "path = segmentFilename st q"
    and s': "\<And>p. p \<noteq> path \<Longrightarrow> get_file p s' = get_file p s"
      "get_file path s' = Some f" "fdata f = segment_header"
    and m: "m = \<lparr>Path = path, FirstSeq = q, LastSeq = q, Size = length segment_header, RecordCount = 0\<rparr>"
    and st': "st' = (push_segment m st)\<lparr>activeFile := Some path, activeMeta := Some (nextMeta st)\<rparr>"
  shows "store_ok enc rec_ok seqOf st' s' (rss @ [[]])"
proof -
  let ?ms = "segment_metas st"
  have ms': "segment_metas st' = ?ms @ [m]"
    using ok segment_metas_push [of st m]
    by (simp add: st' store_ok_def segment_metas_def)
  have below: "Path m' < path \<and> LastSeq m' < q" if "m' \<in> set ?ms" for m'
    using paths_below [OF ok q(1) _ that] q(2) that by (auto simp: path list_all_iff)
  have keep: "get_file (Path m') s' = get_file (Path m') s" if "m' \<in> set ?ms" for m'
    using below [OF that] by (intro s'(1)) auto
  have cfg: "dir st' = dir st" "filePrefix st' = filePrefix st"
    by (simp_all add: st' push_segment_def)
  have "metas_ok st' (?ms @ [m])"
    using ok q(1) below
    by (auto simp: store_ok_def metas_ok_def sorted_wrt_append m segmentFilename_cong [OF cfg] path)
  moreover have "list_all2 (seg_ok enc rec_ok seqOf s') (?ms @ [m]) (rss @ [[]])"
  proof (rule list_all2_appendI)
    show "list_all2 (seg_ok enc rec_ok seqOf s') ?ms rss"
      using ok by (subst segs_ok_cong [of _ s' s]) (simp_all add: store_ok_def keep)
  qed (simp add: seg_ok_def m s'(2,3))
  moreover have "wal_listing (dir st) (filePrefix st) s' = map Path (?ms @ [m])"
  proof (rule wal_listing_eqI)
    show "sorted_wrt (<) (map Path (?ms @ [m]))"
      using \<open>metas_ok st' (?ms @ [m])\<close> by (simp only: metas_ok_def sorted_wrt_map)
    have "is_wal_name (filePrefix st) (segment_name (filePrefix st) q)"
      using ok by (simp add: store_ok_def is_wal_name_segment_name)
    moreover have "nonempty_file s' p = (p = path \<or> nonempty_file s p)" for p
      using s' by (cases "p = path") (auto simp: nonempty_file_def segment_header_neq_Nil)
    ultimately have "set (wal_listing (dir st) (filePrefix st) s') =
        insert path (set (wal_listing (dir st) (filePrefix st) s))"
      unfolding set_eq_iff set_wal_listing insert_iff path segmentFilename_eq by blast
    then show "set (map Path (?ms @ [m])) = set (wal_listing (dir st) (filePrefix st) s')"
      using ok by (simp add: store_ok_def m)
  qed
  moreover have "active_ok st'"
    by (simp add: active_ok_def st' push_segment_def m)
  ultimately show ?thesis
    using ok unfolding store_ok_def ms' cfg by (auto simp: st' push_segment_def list_all_iff)
qed

lemma rotateLocked_ok:
  assumes rot: "rotateLocked q st s = (None, st', s')"
    and ok: "store_ok enc rec_ok seqOf st s rss"
    and q: "unat q < seq_limit" "list_all (\<lambda>m. LastSeq m < q) (segment_metas st)"
  shows "store_ok enc rec_ok seqOf st' s' (rss @ [[]]) \<and> same_config st st' \<and>
    activeFile st' \<noteq> None \<and> next_ok q st'"
proof -
  from rot obtain st1 s1 where c: "close_active st s = (None, st1, s1)"
    by (auto simp: rotateLocked_def split: prod.splits option.splits)
  note c_ok = close_active_ok [OF c ok]
  define path where "path = segmentFilename st1 q"
  from rot c obtain s2 where o: "os_OpenAppend path s1 = (None, s2)"
    and w: "file_Write path segment_header s2 = (None, s')"
    and st': "st' = (push_segment \<lparr>Path = path, FirstSeq = q, LastSeq = q,
      Size = length segment_header, RecordCount = 0\<rparr> st1)\<lparr>activeFile := Some path, activeMeta := Some (nextMeta st1)\<rparr>"
    unfolding path_def segment_header_def
    by (auto simp: rotateLocked_def Let_def split: prod.splits option.splits)
  have ms: "segment_metas st1 = segment_metas st"
    using c_ok by (simp add: segment_metas_def)
  have fresh: "fdata f = []" if "get_file path s1 = Some f" for f
  proof (rule ccontr)
    assume "fdata f \<noteq> []"
    with that have "nonempty_file s1 path" by (simp add: nonempty_file_def)
    moreover have "is_wal_name (filePrefix st1) (segment_name (filePrefix st1) q)"
      using c_ok by (simp add: store_ok_def is_wal_name_segment_name)
    ultimately have "path \<in> set (wal_listing (dir st1) (filePrefix st1) s1)"
      unfolding set_wal_listing path_def segmentFilename_eq by blast
    then obtain m where "m \<in> set (segment_metas st1)" "Path m = path"
      using c_ok by (auto simp: store_ok_def)
    then show False
      using paths_below [of enc rec_ok seqOf st1 s1 rss q m] c_ok q ms by (auto simp: path_def list_all_iff)
  qed
  define f where "f = (case get_file path s1 of Some f \<Rightarrow> f\<lparr>fdata := segment_header\<rparr>
      | None \<Rightarrow> \<lparr>fdata = segment_header, synced = 0\<rparr>)"
  have "store_ok enc rec_ok seqOf st' s' (rss @ [[]])"
  proof (rule rotate_push_ok [OF _ q(1) _ path_def _ _ _ refl st'])
    show "get_file p s' = get_file p s1" if "p \<noteq> path" for p
      using that file_Write_OkD [OF w] os_OpenAppend_OkD [OF o] by simp
    show "get_file path s' = Some f"
      using file_Write_OkD [OF w] os_OpenAppend_OkD [OF o] fresh
      by (auto simp: f_def split: option.splits)
    show "fdata f = segment_header"
      by (simp add: f_def split: option.splits)
  qed (use c_ok q ms in auto)
  moreover have "next_ok q st'"
  proof -
    have "list_all (\<lambda>p. p < nextMeta st1 \<and> LastSeq (metas st1 p) < q) (segments st1)"
      using q(2) c_ok unfolding ms [symmetric] by (auto simp: list_all_iff segment_metas_def store_ok_def)
    then show ?thesis
      using q(1) by (auto simp: next_ok_def st' push_segment_def list_all_iff)
  qed
  ultimately show ?thesis
    using c_ok by (auto simp: st' push_segment_def same_config_def)
qed

lemma write_active_ok:
  assumes w: "write_active (enc r) (seqOf r) st s = (None, st', s')"
    and ok: "store_ok enc rec_ok seqOf st s rss" and r: "rec_ok r" and nx: "next_ok (seqOf r) st"
  shows "\<exists>rss0 rs. rss = rss0 @ [rs] \<and> store_ok enc rec_ok seqOf st' s' (rss0 @ [rs @ [r]]) \<and>
    same_config st st' \<and> activeFile st' = activeFile st \<and>
    list_all (\<lambda>m. LastSeq m \<le> seqOf r) (segment_metas st')"
proof -
  from w obtain f p s1 where f: "activeFile st = Some f" and p: "activeMeta st = Some p"
    and fw: "file_Write f (enc r) s = (None, s')"
    and st': "st' = st\<lparr>metas := (metas st)(p := note_record (seqOf r) (length (enc r)) (metas st p))\<rparr>"
    by (auto simp: write_active_def split: option.splits prod.splits)
  define m where "m = metas st p"
  define m' where "m' = note_record (seqOf r) (length (enc r)) m"
  from ok f p have last: "segments st \<noteq> []" "last (segments st) = p" "Path m = f"
    by (auto simp: store_ok_def active_ok_def m_def)
  define ps where "ps = butlast (segments st)"
  have segs: "segments st = ps @ [p]"
    using last by (metis append_butlast_last_id ps_def)
  define ms where "ms = map (metas st) ps"
  have ms: "segment_metas st = ms @ [m]"
    by (simp add: segment_metas_def segs ms_def m_def)
  have "distinct (segments st)"
    using ok by (intro distinct_segments) (simp add: store_ok_def)
  then have ms': "segment_metas st' = ms @ [m']"
    using segment_metas_update_last [OF segs] by (simp add: segment_metas_def st' m'_def m_def ms_def)
  from ok obtain rss0 rs where rss: "rss = rss0 @ [rs]"
    and old: "list_all2 (seg_ok enc rec_ok seqOf s) ms rss0" "seg_ok enc rec_ok seqOf s m rs"
    by (auto simp: store_ok_def ms list_all2_append1 list_all2_Cons1)
  have metas: "metas_ok st (ms @ [m])" using ok by (simp add: store_ok_def ms)
  have other: "Path x \<noteq> f \<and> LastSeq x < FirstSeq m" if "x \<in> set ms" for x
    using metas that last(3) by (auto simp: metas_ok_def sorted_wrt_append)
  from nx have q: "unat (seqOf r) < seq_limit" by (simp add: next_ok_def)
  have after: "LastSeq m < seqOf r \<or> rs = [] \<and> FirstSeq m \<le> seqOf r"
    using nx old(2) segs by (auto simp: next_ok_def m_def seg_ok_def)
  have m': "Path m' = f" "LastSeq m' = seqOf r" "FirstSeq m' = (if rs = [] then seqOf r else FirstSeq m)"
    using old(2) last(3) by (auto simp: m'_def note_record_def seg_ok_def)
  have First: "FirstSeq m \<le> FirstSeq m'"
    using after seg_ok_FirstSeq_le [OF old(2)] by (auto simp: m'(3))
  have "unat (FirstSeq m) < seq_limit \<and> unat (FirstSeq m') < seq_limit"
    using after q seg_ok_FirstSeq_le [OF old(2)] by (auto simp: m'(3) word_less_nat_alt word_le_nat_alt)
  then have "segmentFilename st (FirstSeq m) \<le> segmentFilename st (FirstSeq m')"
    using First by (metis leD leI segmentFilename_less)
  moreover have above: "LastSeq x < FirstSeq m'" if "x \<in> set ms" for x
    using other [OF that] First by (blast intro: less_le_trans)
  ultimately have "metas_ok st' (ms @ [m'])"
    using metas q m'(1,2) last(3)
    by (auto simp: metas_ok_def sorted_wrt_append segmentFilename_def st' intro: order_trans)
  moreover have "list_all2 (seg_ok enc rec_ok seqOf s') (ms @ [m']) (rss0 @ [rs @ [r]])"
  proof (rule list_all2_appendI)
    show "list_all2 (seg_ok enc rec_ok seqOf s') ms rss0"
      using old(1) other file_Write_OkD [OF fw] by (subst segs_ok_cong [of _ s' s]) auto
    have "\<forall>x \<in> set rs. seqOf x < seqOf r"
      using after seg_ok_le_LastSeq [OF old(2)] by fastforce
    then have "seg_ok enc rec_ok seqOf s' m' (rs @ [r])"
      using old(2) file_Write_OkD [OF fw, of f] r m'
      by (auto simp: seg_ok_def m'_def note_record_def sorted_wrt_append split: option.splits)
    then show "list_all2 (seg_ok enc rec_ok seqOf s') [m'] [rs @ [r]]" by simp
  qed
  moreover have "nonempty_file s' x = nonempty_file s x" for x
    using file_Write_OkD [OF fw, of x] old(2) last(3)
    by (cases "get_file x s") (auto simp: nonempty_file_def seg_ok_def split: option.splits)
  then have "wal_listing (dir st) (filePrefix st) s' = map Path (ms @ [m'])"
    using ok by (subst wal_listing_cong [of _ s' _ s]) (auto simp: store_ok_def ms m' last(3))
  moreover have "active_ok st'"
    using f p segs m' by (simp add: active_ok_def st' flip: m_def m'_def)
  ultimately have "store_ok enc rec_ok seqOf st' s' (rss0 @ [rs @ [r]])"
    using ok unfolding store_ok_def ms' by (simp add: st')
  moreover have "FirstSeq m' \<le> seqOf r"
    using after seg_ok_FirstSeq_le [OF old(2)] by (auto simp: m'(3))
  then have "list_all (\<lambda>m. LastSeq m \<le> seqOf r) (segment_metas st')"
    unfolding ms' using above m'(2) by (force simp: list_all_iff)
  ultimately show ?thesis
    using rss by (auto simp: st' same_config_def)
qed

lemma next_ok_rotate:
  "next_ok q st \<Longrightarrow> must_rotate n st \<Longrightarrow> list_all (\<lambda>m. LastSeq m < q) (segment_metas st)"
  by (auto simp: next_ok_def must_rotate_def segment_metas_def list_all_iff active_meta_def)

lemma append_encoded_ok:
  assumes a: "append_encoded (enc r) (seqOf r) st s = (None, st', s')"
    and ok: "store_ok enc rec_ok seqOf st s rss" and r: "rec_ok r" and nx: "next_ok (seqOf r) st"
  shows "\<exists>rss'. store_ok enc rec_ok seqOf st' s' rss' \<and> concat rss' = concat rss @ [r] \<and>
    same_config st st' \<and> activeFile st' \<noteq> None \<and>
    list_all (\<lambda>m. LastSeq m \<le> seqOf r) (segment_metas st')"
proof (cases "must_rotate (length (enc r)) st")
  case False
  with a have "write_active (enc r) (seqOf r) st s = (None, st', s')"
    by (simp add: append_encoded_def)
  from write_active_ok [OF this ok r nx] False show ?thesis
    by (auto simp: must_rotate_def)
next
  case True
  with a obtain st1 s1 where rot: "rotateLocked (seqOf r) st s = (None, st1, s1)"
    and w: "write_active (enc r) (seqOf r) st1 s1 = (None, st', s')"
    by (auto simp: append_encoded_def split: prod.splits option.splits)
  have q: "unat (seqOf r) < seq_limit" using nx by (simp add: next_ok_def)
  note below = next_ok_rotate [OF nx True]
  note rot_ok = rotateLocked_ok [OF rot ok q below]
  from write_active_ok [of enc r seqOf st1 s1 st' s'] w r rot_ok obtain rss0 rs where
    "rss @ [[]] = rss0 @ [rs]" "store_ok enc rec_ok seqOf st' s' (rss0 @ [rs @ [r]])"
    "same_config st1 st'" "activeFile st' = activeFile st1"
    "list_all (\<lambda>m. LastSeq m \<le> seqOf r) (segment_metas st')"
    by blast
  with rot_ok show ?thesis
    by (intro exI [of _ "rss @ [[r]]"]) (auto intro: same_config_trans)
qed

lemma next_okI:
  "list_all (\<lambda>m. LastSeq m < q) (segment_metas st) \<Longrightarrow> unat q < seq_limit \<Longrightarrow> next_ok q st"
  by (simp add: next_ok_def segment_metas_def list_all_iff)

text \<open>An append that fails leaves the records alone, unless the write was cut short.\<close>

lemma no_short_pop: "pop_fault s = (x, s') \<Longrightarrow> no_short s \<Longrightarrow> no_short s'"
  by (auto simp: pop_fault_def no_short_def split: list.splits)

lemma no_short_close_active: "close_active st s = (e, st', s') \<Longrightarrow> no_short s \<Longrightarrow> no_short s'"
  by (auto simp: close_active_def sync_close_def file_Sync_def file_Close_def pop_fault_def no_short_def
      split: fault_cases prod.splits)

lemma no_short_OpenAppend: "os_OpenAppend p s = (e, s') \<Longrightarrow> no_short s \<Longrightarrow> no_short s'"
  by (auto simp: os_OpenAppend_def pop_fault_def no_short_def split: fault_cases)

lemma store_ok_empty_file:
  assumes ok: "store_ok enc rec_ok seqOf st s rss"
    and s': "\<And>q. get_file q s' = (if q = p \<and> get_file p s = None then Some \<lparr>fdata = [], synced = 0\<rparr> else get_file q s)"
  shows "store_ok enc rec_ok seqOf st s' rss"
proof -
  have "seg_ok enc rec_ok seqOf s' m rs" if "seg_ok enc rec_ok seqOf s m rs" for m rs
    by (rule seg_ok_same_data [OF that]) (auto simp: s')
  then have "list_all2 (seg_ok enc rec_ok seqOf s') (segment_metas st) rss"
    using ok by (auto simp: store_ok_def elim!: list_all2_mono)
  moreover have "wal_listing (dir st) (filePrefix st) s' = wal_listing (dir st) (filePrefix st) s"
    by (rule wal_listing_cong) (simp add: nonempty_file_def s')
  ultimately show ?thesis using ok by (simp add: store_ok_def)
qed

lemma no_short_rotate: "rotateLocked q st s = (e, st', s') \<Longrightarrow> no_short s \<Longrightarrow> no_short s'"
  by (auto simp: rotateLocked_def Let_def os_defs pop_fault_def no_short_def
      split: fault_cases prod.splits dest!: no_short_close_active)

lemma rotateLocked_err:
  assumes rot: "rotateLocked q st s = (Some e, st', s')"
    and ok: "store_ok enc rec_ok seqOf st s rss" and ns: "no_short s"
  shows "store_ok enc rec_ok seqOf st' s' rss \<and> same_config st st'"
proof -
  obtain e1 st1 s1 where c: "close_active st s = (e1, st1, s1)" by (cases "close_active st s")
  note c_ok = close_active_ok [OF c ok]
  show ?thesis
  proof (cases e1)
    case (Some x)
    with rot c c_ok show ?thesis by (simp add: rotateLocked_def)
  next
    case None
    obtain e2 s2 where o: "os_OpenAppend (segmentFilename st1 q) s1 = (e2, s2)"
      by (cases "os_OpenAppend (segmentFilename st1 q) s1")
    have ns2: "no_short s2"
      using no_short_OpenAppend [OF o] no_short_close_active [OF c ns] by simp
    show ?thesis
    proof (cases e2)
      case (Some x)
      with None rot c o have "st' = st1" "s' = s2" by (simp_all add: rotateLocked_def Let_def)
      with c_ok Some o store_ok_same_files [OF _ os_OpenAppend_ErrD] show ?thesis by blast
    next
      case e2: None
      then have ok2: "store_ok enc rec_ok seqOf st1 s2 rss"
        using c_ok o by (auto intro: store_ok_empty_file os_OpenAppend_OkD)
      from None e2 rot c o obtain s3 where st': "st' = st1"
        and w: "\<exists>x. file_Write (segmentFilename st1 q) segment_header s2 = (Some x, s3)"
        and s': "s' = snd (file_Close (segmentFilename st1 q) s3)"
        by (auto simp: rotateLocked_def Let_def segment_header_def split: option.splits prod.splits)
      have "same_files s2 s3" using w file_Write_ErrD ns2 by blast
      moreover have "same_files s3 s'"
        unfolding s' by (metis file_Close_same prod.collapse)
      ultimately show ?thesis
        using ok2 c_ok st' store_ok_same_files same_files_trans by blast
    qed
  qed
qed

lemma append_encoded_err:
  assumes a: "append_encoded (enc r) (seqOf r) st s = (Some e, st', s')"
    and ok: "store_ok enc rec_ok seqOf st s rss" and r: "rec_ok r" and nx: "next_ok (seqOf r) st"
    and ns: "no_short s"
  shows "\<exists>rss'. store_ok enc rec_ok seqOf st' s' rss' \<and> concat rss' = concat rss \<and> same_config st st'"
proof -
  have wr: "store_ok enc rec_ok seqOf st' s' rss1 \<and> st' = st1"
    if "write_active (enc r) (seqOf r) st1 s1 = (Some e, st', s')"
      "store_ok enc rec_ok seqOf st1 s1 rss1" "no_short s1" for st1 s1 rss1
    using that store_ok_same_files [of enc rec_ok seqOf st1 s1 rss1 s'] file_Write_ErrD
    by (auto simp: write_active_def split: option.splits prod.splits)
  show ?thesis
  proof (cases "must_rotate (length (enc r)) st")
    case False
    with a have "write_active (enc r) (seqOf r) st s = (Some e, st', s')"
      by (simp add: append_encoded_def)
    from wr [OF this ok ns] show ?thesis by (auto simp: same_config_def)
  next
    case True
    obtain e1 st1 s1 where rot: "rotateLocked (seqOf r) st s = (e1, st1, s1)"
      by (cases "rotateLocked (seqOf r) st s")
    show ?thesis
    proof (cases e1)
      case (Some x)
      with rot a True have "st' = st1" "s' = s1" by (simp_all add: append_encoded_def)
      with rotateLocked_err [OF _ ok ns] rot Some show ?thesis by blast
    next
      case None
      with rot a True have w: "write_active (enc r) (seqOf r) st1 s1 = (Some e, st', s')"
        by (simp add: append_encoded_def)
      have below: "list_all (\<lambda>m. LastSeq m < seqOf r) (segment_metas st)"
        using next_ok_rotate [OF nx] True .
      from rotateLocked_ok [OF _ ok _ below] rot None nx
      have "store_ok enc rec_ok seqOf st1 s1 (rss @ [[]]) \<and> same_config st st1"
        by (simp add: next_ok_def)
      moreover have "no_short s1" using no_short_rotate [OF rot ns] .
      ultimately show ?thesis using wr [OF w, of "rss @ [[]]"] by auto
    qed
  qed
qed

text \<open>Without faults an append succeeds.\<close>

lemma rotateLocked_clean:
  assumes "faults s = []"
  shows "\<exists>st' s'. rotateLocked q st s = (None, st', s') \<and> faults s' = [] \<and>
    activeFile st' \<noteq> None \<and> activeMeta st' \<noteq> None"
  using assms
  by (auto simp: rotateLocked_def close_active_def sync_close_def os_defs Join_def Let_def
      split: option.splits)

lemma append_encoded_clean:
  assumes "faults s = []" "active_ok st"
  shows "\<exists>st' s'. append_encoded d q st s = (None, st', s') \<and> faults s' = []"
proof (cases "must_rotate (length d) st")
  case True
  with rotateLocked_clean [OF assms(1), of q st] show ?thesis
    by (auto simp: append_encoded_def write_active_def os_defs)
next
  case False
  with assms show ?thesis
    by (auto simp: append_encoded_def write_active_def os_defs must_rotate_def active_ok_def)
qed

end
