(* ===== verification/WalStoreOps.thy ===== *)
theory WalStoreOps
  imports WalStore
begin

text \<open>
  The methods of \<^verbatim>\<open>pkg/wal/segment.go\<close> that remove and read records, on the list of records a
  store stands for: \<^verbatim>\<open>DeleteSegmentsBeforeS3Ack\<close> and \<^verbatim>\<open>DeleteSegmentsThrough\<close> drop whole segments
  and never a record above the given position, \<^verbatim>\<open>TruncateAfter\<close> keeps exactly the records up to
  the given sequence number, \<^verbatim>\<open>ReadFrom\<close> visits exactly the records from the given position on.
\<close>

subsection \<open>Dropping segments\<close>

definition keep_lists :: "('a \<Rightarrow> bool) \<Rightarrow> 'a list \<Rightarrow> 'b list \<Rightarrow> 'b list" where
  "keep_lists P ps xs = map snd (filter (P \<circ> fst) (zip ps xs))"

lemma keep_lists_simps [simp]:
  "keep_lists P [] xs = []"
  "keep_lists P (p # ps) (x # xs) = (if P p then x # keep_lists P ps xs else keep_lists P ps xs)"
  by (simp_all add: keep_lists_def)

lemma filter_concat_keep_lists:
  assumes "list_all2 (\<lambda>p x. P p \<or> filter Q x = []) ps xs"
  shows "filter Q (concat (keep_lists P ps xs)) = filter Q (concat xs)"
  using assms by (induction rule: list_all2_induct) auto

lemma list_all2_keep_lists:
  assumes "list_all2 R ps xs" "\<And>p x. p \<in> set ps \<Longrightarrow> P p \<Longrightarrow> R p x \<Longrightarrow> R' p x"
  shows "list_all2 R' (filter P ps) (keep_lists P ps xs)"
  using assms by (induction rule: list_all2_induct) auto

lemma set_keep_lists: "set (concat (keep_lists P ps xs)) \<subseteq> set (concat xs)"
  by (auto simp: keep_lists_def dest: set_zip_rightD)

lemma metas_ok_filter:
  assumes "metas_ok st (map f ps)"
  shows "metas_ok st (map f (filter P ps))"
  using assms by (auto simp: metas_ok_def sorted_wrt_map sorted_wrt_filter list_all_iff)

lemma distinct_paths:
  assumes "metas_ok st (segment_metas st)"
  shows "distinct (map (\<lambda>p. Path (metas st p)) (segments st))"
proof -
  have "sorted_wrt (<) (map Path (segment_metas st))"
    using assms by (simp add: metas_ok_def sorted_wrt_map)
  then show ?thesis
    by (simp add: strict_sorted_iff segment_metas_def comp_def)
qed

lemma last_filter: "xs \<noteq> [] \<Longrightarrow> P (last xs) \<Longrightarrow> filter P xs \<noteq> [] \<and> last (filter P xs) = last xs"
  by (cases xs rule: rev_cases) auto

definition dropped :: "(nat \<Rightarrow> bool) \<Rightarrow> nat list \<Rightarrow> (nat \<Rightarrow> SegmentMeta) \<Rightarrow> string \<Rightarrow> bool" where
  "dropped P ps ms q \<longleftrightarrow> (\<exists>p \<in> set ps. \<not> P p \<and> q = Path (ms p))"

lemma store_ok_filter:
  assumes ok: "store_ok enc rec_ok seqOf st s rss"
    and s': "\<And>q. get_file q s' = (if dropped P (segments st) (metas st) q then None else get_file q s)"
    and act: "\<And>p. activeFile st \<noteq> None \<Longrightarrow> activeMeta st = Some p \<Longrightarrow> P p"
  shows "store_ok enc rec_ok seqOf (st\<lparr>segments := filter P (segments st)\<rparr>) s'
    (keep_lists P (segments st) rss)"
proof -
  let ?ps = "segments st" and ?st = "st\<lparr>segments := filter P (segments st)\<rparr>"
  have ms: "metas_ok st (map (metas st) ?ps)"
    using ok by (simp add: store_ok_def segment_metas_def)
  note inj = distinct_paths [OF ms [folded segment_metas_def]]
  have kept: "get_file (Path (metas st p)) s' = get_file (Path (metas st p)) s" if "p \<in> set ?ps" "P p" for p
    using that inj by (auto simp: s' dropped_def distinct_map inj_on_def)
  have "list_all2 (\<lambda>p. seg_ok enc rec_ok seqOf s (metas st p)) ?ps rss"
    using ok by (simp add: store_ok_def segment_metas_def list.rel_map)
  then have "list_all2 (\<lambda>p. seg_ok enc rec_ok seqOf s' (metas st p)) (filter P ?ps) (keep_lists P ?ps rss)"
    by (rule list_all2_keep_lists) (simp add: seg_ok_cong [OF kept])
  moreover have "wal_listing (dir st) (filePrefix st) s' = map Path (map (metas st) (filter P ?ps))"
  proof (rule wal_listing_eqI)
    show "sorted_wrt (<) (map Path (map (metas st) (filter P ?ps)))"
      using metas_ok_filter [OF ms] by (simp only: metas_ok_def sorted_wrt_map)
    have "nonempty_file s' q \<longleftrightarrow> nonempty_file s q \<and> \<not> dropped P ?ps (metas st) q" for q
      by (simp add: nonempty_file_def s')
    then have "set (wal_listing (dir st) (filePrefix st) s') =
        {q \<in> set (wal_listing (dir st) (filePrefix st) s). \<not> dropped P ?ps (metas st) q}"
      unfolding set_eq_iff set_wal_listing mem_Collect_eq by blast
    also have "\<dots> = {q \<in> set (map (\<lambda>p. Path (metas st p)) ?ps). \<not> dropped P ?ps (metas st) q}"
      using ok by (simp add: store_ok_def segment_metas_def comp_def)
    also have "\<dots> = set (map Path (map (metas st) (filter P ?ps)))"
      using inj by (auto simp: dropped_def distinct_map inj_on_def)
    finally show "set (map Path (map (metas st) (filter P ?ps))) = set (wal_listing (dir st) (filePrefix st) s')" ..
  qed
  moreover have "active_ok ?st"
  proof (cases "activeFile st")
    case (Some f)
    with ok have a: "?ps \<noteq> []" "activeMeta st = Some (last ?ps)" "Path (metas st (last ?ps)) = f"
      by (auto simp: store_ok_def active_ok_def)
    then have "filter P ?ps \<noteq> [] \<and> last (filter P ?ps) = last ?ps"
      using act [of "last ?ps"] Some by (intro last_filter) simp_all
    with a Some show ?thesis by (simp add: active_ok_def)
  qed (simp add: active_ok_def)
  ultimately show ?thesis
    using ok metas_ok_filter [OF ms]
    by (auto simp: store_ok_def segment_metas_def list.rel_map list_all_iff metas_ok_def segmentFilename_def)
qed

lemma remove_file_OkD:
  "remove_file p s = (None, s') \<Longrightarrow> get_file q s' = (if q = p then None else get_file q s)"
  by (auto simp: remove_file_def os_Remove_OkD same_files_get dest: os_Remove_ErrD
      split: prod.splits option.splits if_splits)

lemma remove_file_ErrD: "remove_file p s = (Some e, s') \<Longrightarrow> same_files s s'"
  by (auto simp: remove_file_def dest!: os_Remove_ErrD split: prod.splits option.splits if_splits)

lemma delete_acked_filter:
  assumes "delete_acked ack ps st s = (remaining, s')"
    and "distinct (map (\<lambda>p. Path (metas st p)) ps)"
  shows "\<exists>P. remaining = filter P ps \<and>
    (\<forall>p. \<not> P p \<longrightarrow> activeMeta st \<noteq> Some p \<and> LastSeq (metas st p) \<le> ack) \<and>
    (\<forall>q. get_file q s' = (if dropped P ps (metas st) q then None else get_file q s))"
  using assms
proof (induction ps arbitrary: s remaining)
  case Nil
  then show ?case by (intro exI [of _ "\<lambda>_. True"]) (simp add: dropped_def)
next
  case (Cons p ps)
  let ?seg = "metas st p"
  obtain keep s1 where k: "(if activeMeta st = Some p then (True, s)
      else if LastSeq ?seg \<le> ack \<and> RecordCount ?seg > 0 then
        (let (e, s) = remove_file (Path ?seg) s in (e \<noteq> None, s))
      else (True, s)) = (keep, s1)"
    by fastforce
  obtain rem where d: "delete_acked ack ps st s1 = (rem, s')" and r: "remaining = (if keep then p # rem else rem)"
    using Cons.prems(1) k by (auto simp: Let_def split: prod.splits)
  from Cons.IH [OF d] Cons.prems(2) obtain P where P: "rem = filter P ps"
    "\<forall>p. \<not> P p \<longrightarrow> activeMeta st \<noteq> Some p \<and> LastSeq (metas st p) \<le> ack"
    "\<forall>q. get_file q s' = (if dropped P ps (metas st) q then None else get_file q s1)"
    by auto
  have p: "p \<notin> set ps" "Path ?seg \<notin> (\<lambda>p. Path (metas st p)) ` set ps"
    using Cons.prems(2) by auto
  have keep: "keep \<or> activeMeta st \<noteq> Some p \<and> LastSeq ?seg \<le> ack"
    using k by (auto split: if_splits)
  have s1: "get_file q s1 = (if \<not> keep \<and> q = Path ?seg then None else get_file q s)" for q
    using k by (auto split: if_splits prod.splits simp: remove_file_OkD
        dest: remove_file_ErrD [THEN same_files_get])
  show ?case
  proof (intro exI [of _ "P(p := keep)"] conjI allI impI)
    show "remaining = filter (P(p := keep)) (p # ps)"
      using p(1) by (auto simp: r P(1) intro!: filter_cong split: if_splits)
    show "activeMeta st \<noteq> Some x" "LastSeq (metas st x) \<le> ack" if "\<not> (P(p := keep)) x" for x
      using that keep P(2) by (auto split: if_splits)
    fix q
    have "dropped (P(p := keep)) (p # ps) (metas st) q \<longleftrightarrow> \<not> keep \<and> q = Path ?seg \<or> dropped P ps (metas st) q"
      using p(1) by (auto simp: dropped_def)
    then show "get_file q s' = (if dropped (P(p := keep)) (p # ps) (metas st) q then None else get_file q s)"
      using P(3) s1 by simp
  qed
qed

lemma filter_store_records:
  assumes ok: "store_ok enc rec_ok seqOf st s rss"
    and P: "\<And>p. \<not> P p \<Longrightarrow> LastSeq (metas st p) \<le> ack"
  shows "filter (\<lambda>r. ack < seqOf r) (concat (keep_lists P (segments st) rss)) =
    filter (\<lambda>r. ack < seqOf r) (concat rss)"
proof (rule filter_concat_keep_lists)
  have "list_all2 (\<lambda>p. seg_ok enc rec_ok seqOf s (metas st p)) (segments st) rss"
    using ok by (simp add: store_ok_def segment_metas_def list.rel_map)
  then show "list_all2 (\<lambda>p rs. P p \<or> filter (\<lambda>r. ack < seqOf r) rs = []) (segments st) rss"
  proof (rule list_all2_mono)
    fix p rs assume seg: "seg_ok enc rec_ok seqOf s (metas st p) rs"
    show "P p \<or> filter (\<lambda>r. ack < seqOf r) rs = []"
      using P [of p] seg_ok_le_LastSeq [OF seg] by (fastforce simp: filter_empty_conv)
  qed
qed

lemma DeleteSegmentsBeforeS3Ack_ok:
  assumes d: "DeleteSegmentsBeforeS3Ack ack st s = (e, st', s')"
    and ok: "store_ok enc rec_ok seqOf st s rss"
  shows "\<exists>rss'. e = None \<and> store_ok enc rec_ok seqOf st' s' rss' \<and> set (concat rss') \<subseteq> set (concat rss) \<and>
    filter (\<lambda>r. ack < seqOf r) (concat rss') = filter (\<lambda>r. ack < seqOf r) (concat rss) \<and>
    same_config st st' \<and> activeFile st' = activeFile st"
proof -
  from d obtain remaining where del: "delete_acked ack (segments st) st s = (remaining, s')"
    and st': "e = None" "st' = st\<lparr>segments := remaining\<rparr>"
    by (auto simp: DeleteSegmentsBeforeS3Ack_def split: prod.splits)
  have "metas_ok st (segment_metas st)" using ok by (simp add: store_ok_def)
  from delete_acked_filter [OF del distinct_paths [OF this]] obtain P where P: "remaining = filter P (segments st)"
    "\<forall>p. \<not> P p \<longrightarrow> activeMeta st \<noteq> Some p \<and> LastSeq (metas st p) \<le> ack"
    "\<forall>q. get_file q s' = (if dropped P (segments st) (metas st) q then None else get_file q s)"
    by blast
  then have "store_ok enc rec_ok seqOf st' s' (keep_lists P (segments st) rss)"
    unfolding st' P(1) by (intro store_ok_filter [OF ok]) auto
  with P st' filter_store_records [OF ok, of P ack] show ?thesis
    by (intro exI [of _ "keep_lists P (segments st) rss"])
      (auto simp: same_config_def simp del: set_concat intro: set_keep_lists [THEN subsetD])
qed

lemma delete_through_filter:
  assumes "delete_through pos mx tot ps st s = (remaining, s')"
    and "distinct (map (\<lambda>p. Path (metas st p)) ps)"
  shows "\<exists>P. remaining = filter P ps \<and>
    (\<forall>p. \<not> P p \<longrightarrow> activeMeta st \<noteq> Some p \<and> LastSeq (metas st p) \<le> pos) \<and>
    (\<forall>q. get_file q s' = (if dropped P ps (metas st) q then None else get_file q s))"
  using assms
proof (induction ps arbitrary: s remaining tot)
  case Nil
  then show ?case by (intro exI [of _ "\<lambda>_. True"]) (simp add: dropped_def)
next
  case (Cons p ps)
  let ?seg = "metas st p"
  obtain keep s1 total1 rem where d: "delete_through pos mx total1 ps st s1 = (rem, s')"
    and r: "remaining = (if keep then p # rem else rem)"
    and keep: "keep \<or> activeMeta st \<noteq> Some p \<and> LastSeq ?seg \<le> pos"
    and s1: "\<forall>q. get_file q s1 = (if \<not> keep \<and> q = Path ?seg then None else get_file q s)"
  proof (cases "activeMeta st = Some p \<or> LastSeq ?seg > pos \<or> tot \<le> mx")
    case True
    with Cons.prems(1) show ?thesis by (intro that [of tot s "tl remaining" True]) (auto split: prod.splits)
  next
    case keep: False
    obtain e s1 where rm: "remove_file (Path ?seg) s = (e, s1)" by (cases "remove_file (Path ?seg) s")
    show ?thesis
    proof (cases e)
      case None
      with keep rm Cons.prems(1) remove_file_OkD [of "Path ?seg" s s1] show ?thesis
        by (intro that [of "tot - int (Size ?seg)" s1 remaining False]) auto
    next
      case (Some x)
      with keep rm Cons.prems(1) remove_file_ErrD [of "Path ?seg" s x s1] show ?thesis
        by (intro that [of tot s1 "tl remaining" True]) (auto split: prod.splits simp: same_files_def)
    qed
  qed
  from Cons.IH [OF d] Cons.prems(2) obtain P where P: "rem = filter P ps"
    "\<forall>p. \<not> P p \<longrightarrow> activeMeta st \<noteq> Some p \<and> LastSeq (metas st p) \<le> pos"
    "\<forall>q. get_file q s' = (if dropped P ps (metas st) q then None else get_file q s1)"
    by auto
  have p: "p \<notin> set ps" using Cons.prems(2) by auto
  show ?case
  proof (intro exI [of _ "P(p := keep)"] conjI allI impI)
    show "remaining = filter (P(p := keep)) (p # ps)"
      using p by (auto simp: r P(1) intro!: filter_cong split: if_splits)
    show "activeMeta st \<noteq> Some x" "LastSeq (metas st x) \<le> pos" if "\<not> (P(p := keep)) x" for x
      using that keep P(2) by (auto split: if_splits)
    fix q
    have "dropped (P(p := keep)) (p # ps) (metas st) q \<longleftrightarrow> \<not> keep \<and> q = Path ?seg \<or> dropped P ps (metas st) q"
      using p by (auto simp: dropped_def)
    then show "get_file q s' = (if dropped (P(p := keep)) (p # ps) (metas st) q then None else get_file q s)"
      using P(3) s1 by simp
  qed
qed

lemma DeleteSegmentsThrough_ok:
  assumes d: "DeleteSegmentsThrough pos mx st s = (e, st', s')"
    and ok: "store_ok enc rec_ok seqOf st s rss"
  shows "\<exists>rss'. e = None \<and> store_ok enc rec_ok seqOf st' s' rss' \<and> set (concat rss') \<subseteq> set (concat rss) \<and>
    filter (\<lambda>r. pos < seqOf r) (concat rss') = filter (\<lambda>r. pos < seqOf r) (concat rss) \<and>
    same_config st st' \<and> activeFile st' = activeFile st"
proof (cases "total_bytes st \<le> mx")
  case True
  with d ok show ?thesis by (auto simp: DeleteSegmentsThrough_def same_config_def)
next
  case False
  with d obtain remaining where del: "delete_through pos mx (total_bytes st) (segments st) st s = (remaining, s')"
    and st': "e = None" "st' = st\<lparr>segments := remaining\<rparr>"
    by (auto simp: DeleteSegmentsThrough_def split: prod.splits)
  have "metas_ok st (segment_metas st)" using ok by (simp add: store_ok_def)
  from delete_through_filter [OF del distinct_paths [OF this]] obtain P where P: "remaining = filter P (segments st)"
    "\<forall>p. \<not> P p \<longrightarrow> activeMeta st \<noteq> Some p \<and> LastSeq (metas st p) \<le> pos"
    "\<forall>q. get_file q s' = (if dropped P (segments st) (metas st) q then None else get_file q s)"
    by blast
  then have "store_ok enc rec_ok seqOf st' s' (keep_lists P (segments st) rss)"
    unfolding st' P(1) by (intro store_ok_filter [OF ok]) auto
  with P st' filter_store_records [OF ok, of P pos] show ?thesis
    by (intro exI [of _ "keep_lists P (segments st) rss"])
      (auto simp: same_config_def simp del: set_concat intro: set_keep_lists [THEN subsetD])
qed

lemma delete_through_within: "tot \<le> mx \<Longrightarrow> delete_through pos mx tot ps st s = (ps, s)"
  by (induction ps) simp_all

lemma remove_file_clean:
  "faults s = [] \<Longrightarrow> \<exists>s'. remove_file p s = (None, s') \<and> faults s' = []"
  by (auto simp: remove_file_def os_Remove_def split: option.splits)

lemma delete_through_retention:
  assumes "faults s = []" "delete_through pos mx tot ps st s = (remaining, s')"
  shows "tot - int (sum_list (map (\<lambda>p. Size (metas st p)) ps)) +
      int (sum_list (map (\<lambda>p. Size (metas st p)) remaining)) \<le> mx \<or>
    (\<forall>p \<in> set remaining. activeMeta st = Some p \<or> LastSeq (metas st p) > pos)"
  using assms
proof (induction ps arbitrary: s tot remaining)
  case Nil
  then show ?case by simp
next
  case (Cons p ps)
  show ?case
  proof (cases "tot \<le> mx")
    case True
    with Cons.prems(2) delete_through_within [of tot mx pos "p # ps" st s] show ?thesis by simp
  next
    case over: False
    show ?thesis
    proof (cases "activeMeta st = Some p \<or> LastSeq (metas st p) > pos")
      case True
      with Cons.prems(2) obtain rem where "delete_through pos mx tot ps st s = (rem, s')" "remaining = p # rem"
        by (auto split: prod.splits)
      with Cons.IH [OF Cons.prems(1)] True show ?thesis by fastforce
    next
      case False
      obtain s1 where rm: "remove_file (Path (metas st p)) s = (None, s1)" and c: "faults s1 = []"
        using remove_file_clean [OF Cons.prems(1)] by blast
      from False over rm Cons.prems(2)
      have "delete_through pos mx (tot - int (Size (metas st p))) ps st s1 = (remaining, s')" by auto
      from Cons.IH [OF c this] show ?thesis by fastforce
    qed
  qed
qed

lemma DeleteSegmentsThrough_retention:
  assumes "faults s = []" "DeleteSegmentsThrough pos mx st s = (e, st', s')"
  shows "total_bytes st' \<le> mx \<or>
    list_all (\<lambda>p. activeMeta st' = Some p \<or> LastSeq (metas st' p) > pos) (segments st')"
proof (cases "total_bytes st \<le> mx")
  case True
  with assms show ?thesis by (auto simp: DeleteSegmentsThrough_def)
next
  case False
  with assms obtain remaining where del: "delete_through pos mx (total_bytes st) (segments st) st s = (remaining, s')"
    and st': "st' = st\<lparr>segments := remaining\<rparr>"
    by (auto simp: DeleteSegmentsThrough_def split: prod.splits)
  show ?thesis
    using delete_through_retention [OF assms(1) del]
    by (auto simp: total_bytes_def segment_metas_def st' comp_def list_all_iff)
qed

subsection \<open>Reading and truncating\<close>

lemma read_segment_header [simp]:
  "ReadSegmentHeader (segment_header @ body) acc = Inr (DefaultSegmentHeader, 16, body)"
  by (simp add: segment_header_def)

lemma takeWhile_sorted:
  assumes "sorted_wrt (\<lambda>a b. f a < f b) rs"
  shows "takeWhile (\<lambda>r. \<not> mx < f r) rs = filter (\<lambda>r. f r \<le> (mx :: uint64)) rs"
  using assms
proof (induction rs)
  case (Cons r rs)
  show ?case
  proof (cases "f r \<le> mx")
    case True
    with Cons show ?thesis by (simp add: not_less)
  next
    case False
    then have "\<forall>x \<in> set rs. \<not> f x \<le> mx"
      using Cons.prems by (auto simp: not_le intro: less_trans)
    with False show ?thesis by (simp add: not_le filter_empty_conv)
  qed
qed simp

lemma truncate_segment_within:
  "FirstSeq m \<le> mx \<Longrightarrow> LastSeq m \<le> mx \<Longrightarrow> truncate_segment decoder sz seqOf acc mx m s = (True, [], m, s)"
  by (simp add: truncate_segment_def leD)

lemma metas_ok_shrink:
  assumes ok: "metas_ok st (map f ps)"
    and le: "\<And>p. p \<in> set ps \<Longrightarrow> Path (g p) = Path (f p) \<and> FirstSeq (g p) = FirstSeq (f p) \<and> LastSeq (g p) \<le> LastSeq (f p)"
  shows "metas_ok st (map g ps)"
proof -
  have "sorted_wrt (\<lambda>p q. LastSeq (g p) < FirstSeq (g q)) ps"
    by (rule sorted_wrt_mono_rel [of _ "\<lambda>p q. LastSeq (f p) < FirstSeq (f q)"])
      (use assms in \<open>auto simp: metas_ok_def sorted_wrt_map intro: le_less_trans\<close>)
  moreover have "sorted_wrt (\<lambda>p q. Path (g p) < Path (g q)) ps"
    by (rule sorted_wrt_mono_rel [of _ "\<lambda>p q. Path (f p) < Path (f q)"])
      (use assms in \<open>auto simp: metas_ok_def sorted_wrt_map\<close>)
  moreover have "unat (LastSeq (g p)) < seq_limit" if "p \<in> set ps" for p
    using ok le [OF that] that by (auto simp: metas_ok_def list_all_iff word_le_nat_alt intro: le_less_trans)
  ultimately show ?thesis
    using assms by (auto simp: metas_ok_def sorted_wrt_map list_all_iff)
qed

lemma list_all2_ex: "list_all2 R xs ys \<Longrightarrow> x \<in> set xs \<Longrightarrow> \<exists>y. R x y"
  by (induction rule: list_all2_induct) auto

lemma seg_ok_nonempty: "seg_ok enc rec_ok seqOf s m rs \<Longrightarrow> nonempty_file s (Path m)"
  by (auto simp: seg_ok_def nonempty_file_def split: option.splits)

lemma opt_list_eq_Nil [simp]: "opt_list x = [] \<longleftrightarrow> x = None"
  by (simp add: opt_list_def split: option.splits)

lemma store_ok_activeMeta:
  "store_ok enc rec_ok seqOf st s rss \<Longrightarrow> activeFile st = None \<Longrightarrow>
     store_ok enc rec_ok seqOf (st\<lparr>activeMeta := x\<rparr>) s rss"
  by (simp add: store_ok_def segment_metas_def metas_ok_def segmentFilename_def active_ok_def)

lemma truncate_after_split:
  assumes tr: "truncate_after decoder sz seqOf mx st s = (None, st', s')"
    and ok: "store_ok enc rec_ok seqOf st s rss"
  obtains st1 s1 remaining ms' where
    "truncate_segments (truncate_segment decoder sz seqOf (acceptUnversioned st1) mx)
       (segments st1) (metas st1) s1 = (remaining, [], ms', s')"
    "st' = st1\<lparr>segments := remaining, metas := ms'\<rparr>"
    "store_ok enc rec_ok seqOf st1 s1 rss" "activeFile st1 = None" "same_config st st1"
proof (cases "activeFile st")
  case None
  with tr ok that [of st s] show ?thesis
    by (auto simp: truncate_after_def Let_def same_config_def split: prod.splits)
next
  case (Some f)
  obtain e st1 s1 where c: "close_active st s = (e, st1, s1)" by (cases "close_active st s")
  from close_active_ok [OF c ok] tr Some c that [of "st1\<lparr>activeMeta := None\<rparr>" s1] show ?thesis
    by (auto simp: truncate_after_def Let_def same_config_def store_ok_activeMeta split: prod.splits)
qed

locale segment_codec = record_codec enc decoder rec_ok rec_size
  for enc :: "'r \<Rightarrow> bytes" and decoder :: "bytes \<Rightarrow> error + ('r \<times> bytes)"
    and rec_ok :: "'r \<Rightarrow> bool" and rec_size :: "'r \<Rightarrow> nat" +
  fixes seqOf :: "'r \<Rightarrow> uint64"
begin

lemma seg_file:
  assumes "seg_ok enc rec_ok seqOf s m rs"
  shows "\<exists>x. get_file (Path m) s = Some x \<and> fdata x = segment_header @ enc_all rs"
  using assms by (auto simp: seg_ok_def enc_all_def split: option.splits)

lemma seg_decode:
  "seg_ok enc rec_ok seqOf s m rs \<Longrightarrow> decode_loop decoder (enc_all rs) = (rs, ErrEOF)"
  using decode_loop_enc_all [of rs "[]"] by (simp add: seg_ok_def)

lemma os_Open_seg:
  assumes "seg_ok enc rec_ok seqOf s m rs" "os_Open (Path m) s = (x, s1)"
  shows "same_files s s1 \<and> (x = Inl ErrIO \<or> x = Inr (segment_header @ enc_all rs))"
  using seg_file [OF assms(1)] assms(2) os_Open_same [OF assms(2)]
  by (auto simp: os_Open_def pop_fault_def split: fault_cases)

lemma truncate_segment_ok:
  assumes seg: "seg_ok enc rec_ok seqOf s m rs"
    and tr: "truncate_segment decoder rec_size seqOf acc mx m s = (keep, [], m', s')"
  shows "keep = (FirstSeq m \<le> mx)" "Path m' = Path m" "FirstSeq m' = FirstSeq m" "LastSeq m' \<le> LastSeq m"
    "keep \<Longrightarrow> seg_ok enc rec_ok seqOf s' m' (filter (\<lambda>r. seqOf r \<le> mx) rs)"
    "get_file q s' = (if q = Path m then (if keep then get_file q s' else None) else get_file q s)"
proof -
  let ?rs = "filter (\<lambda>r. seqOf r \<le> mx) rs"
  have "keep = (FirstSeq m \<le> mx) \<and> Path m' = Path m \<and> FirstSeq m' = FirstSeq m \<and> LastSeq m' \<le> LastSeq m \<and>
    (keep \<longrightarrow> seg_ok enc rec_ok seqOf s' m' ?rs) \<and>
    (\<forall>q. get_file q s' = (if q = Path m then (if keep then get_file q s' else None) else get_file q s))"
  proof (cases "FirstSeq m > mx \<or> LastSeq m \<le> mx")
    case True
    then show ?thesis
    proof
      assume "FirstSeq m > mx"
      with tr show ?thesis
        by (auto simp: truncate_segment_def opt_list_def remove_file_OkD split: prod.splits option.splits)
    next
      assume le: "LastSeq m \<le> mx"
      then have "FirstSeq m \<le> mx" using seg_ok_FirstSeq_le [OF seg] by simp
      moreover have "?rs = rs"
        using seg_ok_le_LastSeq [OF seg] le by (fastforce simp: filter_id_conv)
      ultimately show ?thesis
        using tr le seg by (auto simp: truncate_segment_within)
    qed
  next
    case False
    then have nf: "\<not> mx < FirstSeq m" "\<not> LastSeq m \<le> mx" and part: "FirstSeq m \<le> mx" "mx < LastSeq m"
      by auto
    then have ne: "rs \<noteq> []" using seg by (auto simp: seg_ok_def)
    then have hd: "FirstSeq m = seqOf (hd rs)" using seg by (simp add: seg_ok_def)
    have rs: "?rs \<noteq> []" "hd ?rs = hd rs"
      using ne part(1) hd by (cases rs; simp)+
    have valid: "takeWhile (\<lambda>r. \<not> mx < seqOf r) rs = ?rs"
      using seg by (intro takeWhile_sorted) (simp add: seg_ok_def)
    obtain x s1 where o: "os_Open (Path m) s = (x, s1)" by (cases "os_Open (Path m) s")
    from os_Open_seg [OF seg o] tr o have x: "x = Inr (segment_header @ enc_all rs)"
      and s1: "same_files s s1"
      by (auto simp: truncate_segment_def nf)
    let ?off = "16 + sum_list (map rec_size ?rs)"
    from tr o x rs(1) obtain s2 s3 where t: "file_Truncate (Path m) ?off s1 = (None, s2)"
      and c: "sync_close (Path m) s2 = (None, s3)" and s': "s' = s3" "keep"
      and m': "m' = m\<lparr>Size := ?off, RecordCount := length ?rs, FirstSeq := seqOf (hd ?rs), LastSeq := seqOf (last ?rs)\<rparr>"
      by (auto simp: truncate_segment_def nf Let_def seg_decode [OF seg] valid split: prod.splits option.splits)
    have "enc_all rs = enc_all ?rs @ enc_all (dropWhile (\<lambda>r. \<not> mx < seqOf r) rs)"
      by (metis enc_all_simps(3) takeWhile_dropWhile_id valid)
    then have data: "take ?off (segment_header @ enc_all rs) = segment_header @ enc_all ?rs"
      by (simp flip: length_enc_all)
    have files: "\<exists>x. get_file (Path m) s3 = Some x \<and> fdata x = segment_header @ enc_all ?rs"
      using seg_file [OF seg] data s1 file_Truncate_OkD [OF t, of "Path m"] sync_close_same_data(2) [OF c]
      by (fastforce simp: same_files_def)
    moreover have "get_file q s3 = get_file q s" if "q \<noteq> Path m" for q
      using that s1 file_Truncate_OkD [OF t, of q] sync_close_same_data [OF c, of q]
      by (cases "get_file q s") (auto simp: same_files_def)
    moreover have "seqOf (last ?rs) \<le> LastSeq m"
      using seg_ok_le_LastSeq [OF seg] last_in_set [OF rs(1)] by auto
    moreover have "seg_ok enc rec_ok seqOf s3 m' ?rs"
      using files seg rs by (auto simp: seg_ok_def m' list_all_iff sorted_wrt_filter length_enc_all simp flip: enc_all_def)
    ultimately show ?thesis using part hd rs by (simp add: m' s')
  qed
  then show "keep = (FirstSeq m \<le> mx)" "Path m' = Path m" "FirstSeq m' = FirstSeq m" "LastSeq m' \<le> LastSeq m"
    "keep \<Longrightarrow> seg_ok enc rec_ok seqOf s' m' (filter (\<lambda>r. seqOf r \<le> mx) rs)"
    "get_file q s' = (if q = Path m then (if keep then get_file q s' else None) else get_file q s)"
    by blast+
qed

lemma truncate_segments_ok:
  assumes "truncate_segments (truncate_segment decoder rec_size seqOf acc mx) ps ms s = (remaining, [], ms', s')"
    and "list_all2 (\<lambda>p. seg_ok enc rec_ok seqOf s (ms p)) ps rss" "distinct (map (\<lambda>p. Path (ms p)) ps)"
  shows "remaining = filter (\<lambda>p. FirstSeq (ms p) \<le> mx) ps \<and>
    (\<forall>p. Path (ms' p) = Path (ms p) \<and> FirstSeq (ms' p) = FirstSeq (ms p) \<and> LastSeq (ms' p) \<le> LastSeq (ms p)) \<and>
    list_all2 (\<lambda>p. seg_ok enc rec_ok seqOf s' (ms' p)) remaining
      (map (filter (\<lambda>r. seqOf r \<le> mx)) (keep_lists (\<lambda>p. FirstSeq (ms p) \<le> mx) ps rss)) \<and>
    (\<forall>q. q \<notin> (\<lambda>p. Path (ms p)) ` set ps \<longrightarrow> get_file q s' = get_file q s) \<and>
    (\<forall>p \<in> set ps. \<not> FirstSeq (ms p) \<le> mx \<longrightarrow> get_file (Path (ms p)) s' = None) \<and>
    (\<forall>p. p \<notin> set ps \<longrightarrow> ms' p = ms p)"
  using assms
proof (induction ps arbitrary: ms s remaining rss)
  case Nil
  then show ?case by simp
next
  case (Cons p ps)
  obtain rs rss1 where rss: "rss = rs # rss1" and seg: "seg_ok enc rec_ok seqOf s (ms p) rs"
    and segs: "list_all2 (\<lambda>p. seg_ok enc rec_ok seqOf s (ms p)) ps rss1"
    using Cons.prems(2) by (auto simp: list_all2_Cons1)
  obtain keep m s1 rem where tr: "truncate_segment decoder rec_size seqOf acc mx (ms p) s = (keep, [], m, s1)"
    and rest: "truncate_segments (truncate_segment decoder rec_size seqOf acc mx) ps (ms(p := m)) s1 = (rem, [], ms', s')"
    and remaining: "remaining = (if keep then p # rem else rem)"
    using Cons.prems(1) by (auto simp: Let_def split: prod.splits)
  note T = truncate_segment_ok [OF seg tr]
  have p: "p \<notin> set ps" "Path (ms p) \<notin> (\<lambda>p. Path (ms p)) ` set ps"
    using Cons.prems(3) by auto
  have paths: "map (\<lambda>x. Path ((ms(p := m)) x)) ps = map (\<lambda>x. Path (ms x)) ps"
    using p(1) by auto
  have segs1: "list_all2 (\<lambda>x. seg_ok enc rec_ok seqOf s1 ((ms(p := m)) x)) ps rss1"
  proof (rule list.rel_mono_strong [OF segs])
    fix x rs assume x: "x \<in> set ps" and "seg_ok enc rec_ok seqOf s (ms x) rs"
    moreover have "get_file (Path (ms x)) s1 = get_file (Path (ms x)) s"
      using p(2) x T(6) [of "Path (ms x)"] by (metis imageI)
    moreover have "(ms(p := m)) x = ms x" using x p(1) by auto
    ultimately show "seg_ok enc rec_ok seqOf s1 ((ms(p := m)) x) rs"
      by (simp only: seg_ok_cong [of "ms x" s1 s])
  qed
  have dist: "distinct (map (\<lambda>x. Path ((ms(p := m)) x)) ps)"
    unfolding paths using Cons.prems(3) by simp
  define ms1 where "ms1 = ms(p := m)"
  have ms1: "ms1 x = ms x" if "x \<in> set ps" for x using that p(1) by (auto simp: ms1_def)
  have IH: "rem = filter (\<lambda>p. FirstSeq (ms1 p) \<le> mx) ps"
    "\<forall>p. Path (ms' p) = Path (ms1 p) \<and> FirstSeq (ms' p) = FirstSeq (ms1 p) \<and> LastSeq (ms' p) \<le> LastSeq (ms1 p)"
    "list_all2 (\<lambda>p. seg_ok enc rec_ok seqOf s' (ms' p)) rem
      (map (filter (\<lambda>r. seqOf r \<le> mx)) (keep_lists (\<lambda>p. FirstSeq (ms1 p) \<le> mx) ps rss1))"
    "\<forall>q. q \<notin> (\<lambda>p. Path (ms1 p)) ` set ps \<longrightarrow> get_file q s' = get_file q s1"
    "\<forall>p \<in> set ps. \<not> FirstSeq (ms1 p) \<le> mx \<longrightarrow> get_file (Path (ms1 p)) s' = None"
    "\<forall>p. p \<notin> set ps \<longrightarrow> ms' p = ms1 p"
    using Cons.IH [OF rest segs1 dist] unfolding ms1_def by blast+
  have rem: "rem = filter (\<lambda>p. FirstSeq (ms p) \<le> mx) ps"
    unfolding IH(1) by (rule filter_cong) (simp_all add: ms1)
  have keeps: "keep_lists (\<lambda>x. FirstSeq (ms1 x) \<le> mx) ps rss1 = keep_lists (\<lambda>x. FirstSeq (ms x) \<le> mx) ps rss1"
    unfolding keep_lists_def
    by (intro arg_cong [of _ _ "map snd"] filter_cong) (auto simp: ms1 dest!: set_zip_leftD)
  have imgs: "(\<lambda>x. Path (ms1 x)) ` set ps = (\<lambda>x. Path (ms x)) ` set ps"
    by (intro image_cong) (simp_all add: ms1)
  have at: "get_file (Path (ms p)) s' = get_file (Path (ms p)) s1"
    using IH(4) p(2) unfolding imgs by blast
  have msp: "ms' p = m" using IH(6) p(1) by (simp add: ms1_def)
  have fields: "Path (ms1 x) = Path (ms x) \<and> FirstSeq (ms1 x) = FirstSeq (ms x) \<and> LastSeq (ms1 x) \<le> LastSeq (ms x)" for x
    using T(2-4) by (simp add: ms1_def)
  show ?case
  proof (intro conjI allI impI ballI)
    show "remaining = filter (\<lambda>p. FirstSeq (ms p) \<le> mx) (p # ps)"
      using rem remaining T(1) by simp
    show "Path (ms' x) = Path (ms x)" "FirstSeq (ms' x) = FirstSeq (ms x)" "LastSeq (ms' x) \<le> LastSeq (ms x)" for x
      using IH(2) fields order_trans by metis+
    have "keep \<Longrightarrow> seg_ok enc rec_ok seqOf s' m (filter (\<lambda>r. seqOf r \<le> mx) rs)"
      using T(2,5) at seg_ok_cong [of m s' s1 enc rec_ok seqOf] by simp
    then show "list_all2 (\<lambda>p. seg_ok enc rec_ok seqOf s' (ms' p)) remaining
      (map (filter (\<lambda>r. seqOf r \<le> mx)) (keep_lists (\<lambda>p. FirstSeq (ms p) \<le> mx) (p # ps) rss))"
      using IH(3) T(1) by (simp add: remaining msp keeps rss)
    show "get_file q s' = get_file q s" if "q \<notin> (\<lambda>p. Path (ms p)) ` set (p # ps)" for q
      using that IH(4) T(6) [of q] unfolding imgs by simp
    show "get_file (Path (ms x)) s' = None" if "x \<in> set (p # ps)" "\<not> FirstSeq (ms x) \<le> mx" for x
      using that IH(5) at T(1) T(6) [of "Path (ms p)"] by (cases "x = p") (simp_all add: ms1)
    show "ms' x = ms x" if "x \<notin> set (p # ps)" for x
      using that IH(6) by (simp add: ms1_def)
  qed
qed

lemma truncate_after_ok:
  assumes tr: "truncate_after decoder rec_size seqOf mx st s = (None, st', s')"
    and ok: "store_ok enc rec_ok seqOf st s rss"
  shows "\<exists>rss'. store_ok enc rec_ok seqOf st' s' rss' \<and>
    concat rss' = filter (\<lambda>r. seqOf r \<le> mx) (concat rss) \<and> same_config st st' \<and> activeFile st' = None"
proof -
  obtain st1 s1 remaining ms' where ts: "truncate_segments (truncate_segment decoder rec_size seqOf
        (acceptUnversioned st1) mx) (segments st1) (metas st1) s1 = (remaining, [], ms', s')"
    and st': "st' = st1\<lparr>segments := remaining, metas := ms'\<rparr>"
    and ok1: "store_ok enc rec_ok seqOf st1 s1 rss" "activeFile st1 = None" "same_config st st1"
    using truncate_after_split [OF tr ok] .
  let ?P = "\<lambda>p. FirstSeq (metas st1 p) \<le> mx" and ?Q = "\<lambda>r. seqOf r \<le> mx" and ?ps = "segments st1"
  have segs: "list_all2 (\<lambda>p. seg_ok enc rec_ok seqOf s1 (metas st1 p)) ?ps rss"
    and ms: "metas_ok st1 (map (metas st1) ?ps)"
    and list: "wal_listing (dir st1) (filePrefix st1) s1 = map (\<lambda>p. Path (metas st1 p)) ?ps"
    using ok1(1) by (simp_all add: store_ok_def segment_metas_def list.rel_map comp_def)
  note inj = distinct_paths [OF ms [folded segment_metas_def]]
  note T = truncate_segments_ok [OF ts segs inj]
  define rss' where "rss' = map (filter ?Q) (keep_lists ?P ?ps rss)"
  from T have rem: "remaining = filter ?P ?ps"
    and same: "\<And>p. Path (ms' p) = Path (metas st1 p)" "\<And>p. FirstSeq (ms' p) = FirstSeq (metas st1 p)"
      "\<And>p. LastSeq (ms' p) \<le> LastSeq (metas st1 p)"
    and segs': "list_all2 (\<lambda>p. seg_ok enc rec_ok seqOf s' (ms' p)) remaining rss'"
    and frame: "\<And>q. q \<notin> (\<lambda>p. Path (metas st1 p)) ` set ?ps \<Longrightarrow> get_file q s' = get_file q s1"
    and gone: "\<And>p. p \<in> set ?ps \<Longrightarrow> \<not> ?P p \<Longrightarrow> get_file (Path (metas st1 p)) s' = None"
    unfolding rss'_def by blast+
  have "list_all2 (\<lambda>p rs. ?P p \<or> filter ?Q rs = []) ?ps rss"
    by (rule list_all2_mono [OF segs]) (fastforce simp: filter_empty_conv dest: seg_ok_le_LastSeq)
  then have recs: "concat rss' = filter ?Q (concat rss)"
    by (simp add: rss'_def filter_concat_keep_lists flip: filter_concat)
  have ms': "metas_ok st1 (map ms' remaining)"
    unfolding rem by (rule metas_ok_shrink [OF metas_ok_filter [OF ms]]) (simp add: same)
  moreover have "wal_listing (dir st1) (filePrefix st1) s' = map Path (map ms' remaining)"
  proof (rule wal_listing_eqI)
    show "sorted_wrt (<) (map Path (map ms' remaining))"
      using ms' by (simp only: metas_ok_def sorted_wrt_map)
    have present: "nonempty_file s' (Path (metas st1 p))" if "p \<in> set remaining" for p
      using list_all2_ex [OF segs' that] seg_ok_nonempty same(1) by metis
    have kept: "nonempty_file s' q \<longleftrightarrow> (\<exists>p \<in> set remaining. q = Path (metas st1 p))"
      if "q \<in> set (map (\<lambda>p. Path (metas st1 p)) ?ps)" for q
    proof -
      from that obtain p where p: "p \<in> set ?ps" "q = Path (metas st1 p)" by auto
      have "\<not> nonempty_file s' q" if "\<not> ?P p" using gone [OF p(1) that] by (simp add: nonempty_file_def p(2))
      with p present show ?thesis unfolding rem by auto
    qed
    have "nonempty_file s' q = nonempty_file s1 q" if "q \<notin> set (map (\<lambda>p. Path (metas st1 p)) ?ps)" for q
      using frame [of q] that by (simp add: nonempty_file_def)
    moreover have "nonempty_file s1 q" if "q \<in> set (map (\<lambda>p. Path (metas st1 p)) ?ps)" for q
      using that unfolding list [symmetric] set_wal_listing by blast
    ultimately have "set (wal_listing (dir st1) (filePrefix st1) s') =
        {q \<in> set (wal_listing (dir st1) (filePrefix st1) s1). nonempty_file s' q}"
      unfolding set_eq_iff set_wal_listing mem_Collect_eq by blast
    also have "\<dots> = set (map Path (map ms' remaining))"
      unfolding list using kept by (auto simp: same(1) rem)
    finally show "set (map Path (map ms' remaining)) = set (wal_listing (dir st1) (filePrefix st1) s')" ..
  qed
  ultimately have "store_ok enc rec_ok seqOf st' s' rss'"
    using ok1 segs' by (auto simp: st' store_ok_def segment_metas_def list.rel_map active_ok_def rem
        list_all_iff metas_ok_def segmentFilename_def)
  then show ?thesis
    using recs ok1 by (auto simp: st' same_config_def)
qed

end

interpretation client_store: segment_codec client_enc DecodeClientRecord client_ok client_size crStreamSeq
  by unfold_locales

interpretation log_store: segment_codec LogRecord_Encode DecodeLogRecord log_ok log_size Position
  by unfold_locales

subsection \<open>ReadFrom\<close>

lemma visit_append:
  "visit pos fn (xs @ ys) c =
     (case visit pos fn xs c of (Some e, c) \<Rightarrow> (Some e, c) | (None, c) \<Rightarrow> visit pos fn ys c)"
  by (induction xs arbitrary: c) (auto split: prod.splits option.splits)

lemma visit_below: "\<forall>r \<in> set xs. Position r < pos \<Longrightarrow> visit pos fn xs c = (None, c)"
  by (induction xs) (auto simp: not_le)

lemma visit_collect:
  "visit pos (\<lambda>r c. (None, c @ [r])) xs c = (None, c @ filter (\<lambda>r. pos \<le> Position r) xs)"
  by (induction xs arbitrary: c) auto

lemma read_segment_clean:
  assumes "faults s = []" "seg_ok LogRecord_Encode log_ok Position s m rs"
  shows "read_segment pos fn acc (Path m) c s = (case visit pos fn rs c of (e, c) \<Rightarrow> (e, c, s))"
proof -
  obtain x where x: "get_file (Path m) s = Some x" "fdata x = segment_header @ log_codec.enc_all rs"
    using log_store.seg_file [OF assms(2)] by blast
  then have "os_Open (Path m) s = (Inr (segment_header @ log_codec.enc_all rs), s)"
    using assms(1) by (simp add: os_Open_def)
  then show ?thesis
    using assms(1) log_store.seg_decode [OF assms(2)]
    by (auto simp: read_segment_def file_Close_def split: prod.splits option.splits)
qed

lemma read_segments_clean:
  assumes "list_all2 (seg_ok LogRecord_Encode log_ok Position s) ms rss" "faults s = []"
  shows "read_segments pos fn acc (map Path ms) c s = (case visit pos fn (concat rss) c of (e, c) \<Rightarrow> (e, c, s))"
  using assms
proof (induction arbitrary: c rule: list_all2_induct)
  case (Cons m ms rs rss)
  then show ?case
    by (auto simp: read_segment_clean visit_append split: prod.splits option.splits)
qed simp

lemma ReadFrom_start:
  assumes segs: "list_all2 (seg_ok enc rec_ok seqOf s) ms rss" and ms: "metas_ok st ms"
    and idx: "idx = Search (length ms) (\<lambda>i. FirstSeq (ms ! i) > pos)"
  shows "\<forall>r \<in> set (concat (take (idx - 1) rss)). seqOf r < pos"
proof -
  have len: "length rss = length ms" using segs by (simp add: list_all2_lengthD)
  have first_last: "FirstSeq (ms ! i) \<le> LastSeq (ms ! i)" if "i < length ms" for i
    using segs that seg_ok_FirstSeq_le by (metis list_all2_conv_all_nth)
  have gap: "LastSeq (ms ! i) < FirstSeq (ms ! j)" if "i < j" "j < length ms" for i j
    using ms that by (auto simp: metas_ok_def sorted_wrt_iff_nth_less)
  have mono: "FirstSeq (ms ! b) > pos" if "a \<le> b" "b < length ms" "FirstSeq (ms ! a) > pos" for a b
  proof (cases "a = b")
    case False
    with that gap [of a b] first_last [of a] show ?thesis by fastforce
  qed (use that in simp)
  have S: "idx \<le> length ms" "\<forall>k. k < idx \<longrightarrow> \<not> FirstSeq (ms ! k) > pos"
    using Search_spec [of "length ms" "\<lambda>i. FirstSeq (ms ! i) > pos"] mono unfolding idx by blast+
  have "seqOf r < pos" if k: "k < idx - 1" "r \<in> set (rss ! k)" for k r
  proof -
    have "idx - 1 < idx" "idx \<le> length ms" "k < length ms" using k(1) S by auto
    then have "FirstSeq (ms ! (idx - 1)) \<le> pos" using S by (simp add: not_less)
    moreover have "LastSeq (ms ! k) < FirstSeq (ms ! (idx - 1))"
      using gap [of k "idx - 1"] k(1) S by auto
    moreover have "seqOf r \<le> LastSeq (ms ! k)"
      using segs k(2) \<open>k < length ms\<close> seg_ok_le_LastSeq by (metis list_all2_conv_all_nth)
    ultimately show ?thesis by (meson le_less_trans less_le_trans)
  qed
  then show ?thesis
    using len by (auto simp: in_set_conv_nth [of _ "take _ _"])
qed

lemma ReadFrom_linear:
  assumes ok: "store_ok LogRecord_Encode log_ok Position st s rss" and clean: "faults s = []"
  shows "ReadFrom pos fn st c s = (case visit pos fn (concat rss) c of (e, c) \<Rightarrow> (e, c, s))"
proof -
  let ?ms = "segment_metas st"
  have segs: "list_all2 (seg_ok LogRecord_Encode log_ok Position s) ?ms rss" and ms: "metas_ok st ?ms"
    using ok by (simp_all add: store_ok_def)
  show ?thesis
  proof (cases "segments st = []")
    case True
    with segs show ?thesis by (simp add: ReadFrom_def segment_metas_def)
  next
    case False
    define idx where "idx = Search (length ?ms) (\<lambda>i. FirstSeq (?ms ! i) > pos)"
    have "list_all2 (seg_ok LogRecord_Encode log_ok Position s) (drop (idx - 1) ?ms) (drop (idx - 1) rss)"
      using segs by (rule list_all2_dropI)
    note tail = read_segments_clean [OF this clean]
    have "visit pos fn (concat rss) c = visit pos fn (concat (take (idx - 1) rss) @ concat (drop (idx - 1) rss)) c"
      by (metis append_take_drop_id concat_append)
    also have "\<dots> = visit pos fn (concat (drop (idx - 1) rss)) c"
      unfolding visit_append visit_below [OF ReadFrom_start [OF segs ms idx_def]] by simp
    finally have lin: "visit pos fn (concat rss) c = visit pos fn (concat (drop (idx - 1) rss)) c" .
    have start: "(if idx > 0 then idx - 1 else 0) = idx - 1" by simp
    show ?thesis
      unfolding ReadFrom_def Let_def idx_def [symmetric] start lin tail if_not_P [OF False] ..
  qed
qed

end
