(* ===== verification/WalRecovery.thy ===== *)
theory WalRecovery
  imports WalStoreOps
begin

text \<open>
  Reopening a segment store (\<^verbatim>\<open>NewClientSegmentStore\<close>, \<^verbatim>\<open>NewLogSegmentStore\<close> and the scan of each
  file), after an orderly shutdown or after a crash that cut the unsynced tail of any file.
  Reopening returns a prefix of each segment with every record that was synced, and leaves a
  store that is well formed again. The one exception is a file cut inside its 16-byte header.
\<close>

definition recoverable :: "fs \<Rightarrow> string \<Rightarrow> bool" where
  "recoverable s p =
     (case get_file p s of
        None \<Rightarrow> False
      | Some x \<Rightarrow> fdata x = [] \<or> take 16 (fdata x) = segment_header)"

definition recovered :: "(bytes \<Rightarrow> error + ('r \<times> bytes)) \<Rightarrow> fs \<Rightarrow> string \<Rightarrow> 'r list" where
  "recovered decoder s p =
     (case get_file p s of
        None \<Rightarrow> []
      | Some x \<Rightarrow> fst (decode_loop decoder (drop 16 (fdata x))))"

definition new_meta ::
    "(bytes \<Rightarrow> error + ('r \<times> bytes)) \<Rightarrow> ('r \<Rightarrow> nat) \<Rightarrow> ('r \<Rightarrow> uint64) \<Rightarrow> fs \<Rightarrow> string \<Rightarrow> SegmentMeta" where
  "new_meta decoder recSize seqOf s p =
     (let recs = recovered decoder s p in scan_meta p seqOf (16 + sum_list (map recSize recs)) recs)"

definition header_kept :: "(string \<Rightarrow> nat) \<Rightarrow> fs \<Rightarrow> string \<Rightarrow> bool" where
  \<comment> \<open>a crash does not cut the file inside its header\<close>
  "header_kept keep s p =
     (case get_file p s of None \<Rightarrow> True | Some x \<Rightarrow> max (keep p) (synced x) = 0 \<or> 16 \<le> max (keep p) (synced x))"

lemma dir_list_crash [simp]: "dir_list d (crash keep s) = dir_list d s"
proof -
  have "map fst (files (crash keep s)) = map fst (files s)"
    by (simp add: crash_def) auto
  then show ?thesis by (simp only: dir_list_def)
qed

lemma HasSuffix_append: "HasSuffix n x \<Longrightarrow> HasSuffix (a @ n) x"
  by (auto simp: HasSuffix_def)

lemma wal_files_suffix: "p \<in> set (wal_files d prefix (dir_list d s)) \<Longrightarrow> HasSuffix p ''.wal''"
  unfolding set_wal_files is_wal_name_def PathJoin_def
  using HasSuffix_append by (metis append_assoc)

lemma concat_map_filter:
  "(\<And>p. p \<in> set ps \<Longrightarrow> \<not> P p \<Longrightarrow> f p = []) \<Longrightarrow> concat (map f ps) = concat (map f (filter P ps))"
  by (induction ps) auto

lemma filter_filter_imp: "(\<And>x. x \<in> set xs \<Longrightarrow> P x \<Longrightarrow> Q x) \<Longrightarrow> filter P (filter Q xs) = filter P xs"
  by (induction xs) auto

lemma not_recover_suffix: "HasSuffix q ''.wal'' \<Longrightarrow> q \<noteq> r @ ''.recover''"
proof
  assume h: "HasSuffix q ''.wal''" and q: "q = r @ ''.recover''"
  from h have "q = take (length q - length ''.wal'') q @ ''.wal''"
    by (metis HasSuffix_def append_take_drop_id)
  then have "last q = CHR ''l''" by (metis append_Cons append_Nil last_ConsL last_appendR list.simps(3) last_ConsR)
  with q show False by simp
qed

context segment_codec
begin

lemma scan_recovered:
  assumes clean: "faults s = []" and rec: "recoverable s p" and wal: "HasSuffix p ''.wal''"
  shows "\<exists>s' n. scan_segment_file decoder rec_size seqOf p acc s =
      (Inr (recovered decoder s p, scan_meta p seqOf n (recovered decoder s p)), s') \<and>
    faults s' = [] \<and> list_all rec_ok (recovered decoder s p) \<and>
    (recovered decoder s p \<noteq> [] \<longrightarrow> n = 16 + length (enc_all (recovered decoder s p)) \<and>
      (\<exists>x. get_file p s' = Some x \<and> fdata x = segment_header @ enc_all (recovered decoder s p))) \<and>
    (\<exists>x. get_file p s' = Some x) \<and>
    (\<forall>q. q \<noteq> p \<longrightarrow> HasSuffix q ''.wal'' \<longrightarrow> get_file q s' = get_file q s)"
proof -
  from rec obtain x where x: "get_file p s = Some x" and "fdata x = [] \<or> take 16 (fdata x) = segment_header"
    by (auto simp: recoverable_def split: option.splits)
  then consider "fdata x = []" | body where "fdata x = segment_header @ body"
    by (metis append_take_drop_id)
  then show ?thesis
  proof cases
    case 1
    then show ?thesis
      using x clean
      by (auto simp: scan_segment_file_def os_Open_def CloseWithErr_def file_Close_def recovered_def)
  next
    case (2 body)
    define recs where "recs = fst (decode_loop decoder body)"
    define e where "e = snd (decode_loop decoder body)"
    have dl: "decode_loop decoder body = (recs, e)" by (simp add: recs_def e_def)
    have recd: "recovered decoder s p = recs" using x 2 dl by (simp add: recovered_def)
    from decode_loop_sound [of body] obtain rest where body: "list_all rec_ok recs" "body = enc_all recs @ rest"
      "e = ErrEOF \<and> rest = [] \<or> is_torn e"
      by (auto simp: dl)
    let ?off = "16 + sum_list (map rec_size recs)"
    have o: "os_Open p s = (Inr (segment_header @ body), s)" using clean x 2 by (simp add: os_Open_def)
    show ?thesis
    proof (cases "e = ErrEOF")
      case True
      with body(3) have "rest = []" by (auto simp: is_torn_def)
      moreover have "scan_segment_file decoder rec_size seqOf p acc s = (Inr (recs, scan_meta p seqOf ?off recs), s)"
        using True clean by (simp add: scan_segment_file_def o dl CloseWithErr_def file_Close_def Let_def)
      ultimately show ?thesis
        using x 2 body clean by (auto simp: recd length_enc_all)
    next
      case False
      with body(3) have torn: "is_torn e" by auto
      define q where "q = p @ ''.'' @ dec (clock s) @ ''.recover''"
      have q: "q \<noteq> p" "\<And>r. HasSuffix r ''.wal'' \<Longrightarrow> r \<noteq> q"
        unfolding q_def using not_recover_suffix [of _ "p @ ''.'' @ dec (clock s)"] by auto
      define s1 where "s1 = backupCorruptedSegment p s"
      have s1: "s1 = set_file q \<lparr>fdata = fdata x, synced = 0\<rparr> (s\<lparr>clock := Suc (clock s)\<rparr>)"
        using clean x by (simp add: s1_def backupCorruptedSegment_def time_Now_def os_Open_def os_WriteFile_def q_def)
      have data: "take ?off (segment_header @ body) = segment_header @ enc_all recs"
        by (simp add: body(2) flip: length_enc_all)
      have "scan_segment_file decoder rec_size seqOf p acc s =
          CloseWithErr p (case file_Truncate p ?off s1 of
              (Some te, s) \<Rightarrow> (Inl te, s)
            | (None, s) \<Rightarrow> (case file_Sync p s of
                 (Some se, s) \<Rightarrow> (Inl se, s)
               | (None, s) \<Rightarrow> (Inr (recs, scan_meta p seqOf ?off recs), s)))"
        using False torn by (simp add: scan_segment_file_def o dl Let_def s1_def)
      then show ?thesis
        using clean x q 2 data body(1)
        by (auto simp: s1 file_Truncate_def file_Sync_def CloseWithErr_def file_Close_def recd length_enc_all)
    qed
  qed
qed

lemma open_segments_ok:
  assumes "faults s = []" "distinct fs" "\<And>p. p \<in> set fs \<Longrightarrow> recoverable s p \<and> HasSuffix p ''.wal''"
    and "list_all (\<lambda>p. p < nextMeta st) (segments st)"
  shows "\<exists>st' s'. open_segments (\<lambda>f. scan_segment_file decoder rec_size seqOf f acc) fs st recs [] s =
      (Inr (st', recs @ concat (map (recovered decoder s) fs)), s') \<and> faults s' = [] \<and>
    segment_metas st' = segment_metas st @
      map (new_meta decoder rec_size seqOf s) (filter (\<lambda>p. recovered decoder s p \<noteq> []) fs) \<and>
    same_config st st' \<and> activeFile st' = activeFile st \<and> list_all (\<lambda>p. p < nextMeta st') (segments st') \<and>
    (\<forall>q. HasSuffix q ''.wal'' \<longrightarrow> q \<notin> set fs \<longrightarrow> get_file q s' = get_file q s) \<and>
    (\<forall>p \<in> set fs. list_all rec_ok (recovered decoder s p) \<and>
      (if recovered decoder s p = [] then get_file p s' = None
       else \<exists>x. get_file p s' = Some x \<and> fdata x = segment_header @ enc_all (recovered decoder s p)))"
  using assms
proof (induction fs arbitrary: st recs s)
  case Nil
  then show ?case by (simp add: Join_def same_config_def)
next
  case (Cons f fs)
  let ?R = "recovered decoder s f"
  have f: "recoverable s f" "HasSuffix f ''.wal''" using Cons.prems(3) by auto
  from scan_recovered [OF Cons.prems(1) f, of acc] obtain s1 n where
    sc: "scan_segment_file decoder rec_size seqOf f acc s = (Inr (?R, scan_meta f seqOf n ?R), s1)"
    and c1: "faults s1 = []" and okr: "list_all rec_ok ?R"
    and full: "?R \<noteq> [] \<Longrightarrow> n = 16 + length (enc_all ?R) \<and> (\<exists>x. get_file f s1 = Some x \<and> fdata x = segment_header @ enc_all ?R)"
    and ex: "\<exists>x. get_file f s1 = Some x"
    and fr: "\<And>q. q \<noteq> f \<Longrightarrow> HasSuffix q ''.wal'' \<Longrightarrow> get_file q s1 = get_file q s"
    by blast
  define s2 where "s2 = (if ?R = [] then del_file f s1 else s1)"
  define st2 where "st2 = (if ?R = [] then st else push_segment (new_meta decoder rec_size seqOf s f) st)"
  have step: "open_segments (\<lambda>f. scan_segment_file decoder rec_size seqOf f acc) (f # fs) st recs [] s =
      open_segments (\<lambda>f. scan_segment_file decoder rec_size seqOf f acc) fs st2 (recs @ ?R) [] s2"
    using sc c1 full ex
    by (auto simp: scan_meta_def s2_def st2_def os_Remove_def new_meta_def length_enc_all Let_def)
  have other: "get_file q s2 = get_file q s" if "q \<noteq> f" "HasSuffix q ''.wal''" for q
    using fr [OF that] that by (simp add: s2_def)
  have same: "recovered decoder s2 p = recovered decoder s p" "recoverable s2 p = recoverable s p" if "p \<in> set fs" for p
  proof -
    have "p \<noteq> f" "HasSuffix p ''.wal''" using that Cons.prems(2,3) by auto
    with other [of p] show "recovered decoder s2 p = recovered decoder s p" "recoverable s2 p = recoverable s p"
      by (simp_all add: recovered_def recoverable_def)
  qed
  have "faults s2 = []" using c1 by (simp add: s2_def)
  moreover have "distinct fs" using Cons.prems(2) by simp
  moreover have "recoverable s2 p \<and> HasSuffix p ''.wal''" if "p \<in> set fs" for p
    using same(2) [OF that] Cons.prems(3) that by simp
  moreover have "list_all (\<lambda>p. p < nextMeta st2) (segments st2)"
    using Cons.prems(4) by (auto simp: st2_def push_segment_def list_all_iff)
  ultimately obtain st' s' where
    o: "open_segments (\<lambda>f. scan_segment_file decoder rec_size seqOf f acc) fs st2 (recs @ ?R) [] s2 =
      (Inr (st', (recs @ ?R) @ concat (map (recovered decoder s2) fs)), s')"
    and IH: "faults s' = []" "segment_metas st' = segment_metas st2 @
      map (new_meta decoder rec_size seqOf s2) (filter (\<lambda>p. recovered decoder s2 p \<noteq> []) fs)"
    "same_config st2 st'" "activeFile st' = activeFile st2" "list_all (\<lambda>p. p < nextMeta st') (segments st')"
    "\<forall>q. HasSuffix q ''.wal'' \<longrightarrow> q \<notin> set fs \<longrightarrow> get_file q s' = get_file q s2"
    "\<forall>p \<in> set fs. list_all rec_ok (recovered decoder s2 p) \<and>
      (if recovered decoder s2 p = [] then get_file p s' = None
       else \<exists>x. get_file p s' = Some x \<and> fdata x = segment_header @ enc_all (recovered decoder s2 p))"
    using Cons.IH [of s2 st2 "recs @ ?R"] by blast
  have maps: "map (recovered decoder s2) fs = map (recovered decoder s) fs"
    "map (new_meta decoder rec_size seqOf s2) (filter (\<lambda>p. recovered decoder s2 p \<noteq> []) fs) =
     map (new_meta decoder rec_size seqOf s) (filter (\<lambda>p. recovered decoder s p \<noteq> []) fs)"
    using same(1) by (auto simp: new_meta_def cong: filter_cong map_cong)
  have atf: "get_file f s' = get_file f s2" using IH(6) f(2) Cons.prems(2) by simp
  show ?case
  proof (intro exI conjI)
    show "open_segments (\<lambda>f. scan_segment_file decoder rec_size seqOf f acc) (f # fs) st recs [] s =
        (Inr (st', recs @ concat (map (recovered decoder s) (f # fs))), s')"
      unfolding step o maps by simp
    show "segment_metas st' = segment_metas st @
        map (new_meta decoder rec_size seqOf s) (filter (\<lambda>p. recovered decoder s p \<noteq> []) (f # fs))"
      unfolding IH(2) maps using segment_metas_push [OF Cons.prems(4)] by (simp add: st2_def)
    show "same_config st st'" "activeFile st' = activeFile st"
      using IH(3,4) by (auto simp: st2_def push_segment_def same_config_def split: if_splits)
    show "\<forall>q. HasSuffix q ''.wal'' \<longrightarrow> q \<notin> set (f # fs) \<longrightarrow> get_file q s' = get_file q s"
      using IH(6) other by simp
    show "\<forall>p \<in> set (f # fs). list_all rec_ok (recovered decoder s p) \<and>
      (if recovered decoder s p = [] then get_file p s' = None
       else \<exists>x. get_file p s' = Some x \<and> fdata x = segment_header @ enc_all (recovered decoder s p))"
      using IH(7) same(1) okr full atf by (auto simp: s2_def)
  qed (fact IH)+
qed

lemma crash_segment:
  assumes seg: "seg_ok enc rec_ok seqOf s m rs" and hdr: "header_kept keep s (Path m)"
  shows "recoverable (crash keep s) (Path m) \<and> (\<exists>n \<le> length rs. recovered decoder (crash keep s) (Path m) = take n rs \<and>
    (\<forall>x k. get_file (Path m) s = Some x \<longrightarrow> k \<le> length rs \<longrightarrow>
      16 + length (enc_all (take k rs)) \<le> synced x \<longrightarrow> k \<le> n))"
proof -
  obtain x where x: "get_file (Path m) s = Some x" "fdata x = segment_header @ enc_all rs"
    using seg_file [OF seg] by blast
  define K where "K = max (keep (Path m)) (synced x)"
  have K: "K = 0 \<or> 16 \<le> K" "synced x \<le> K" using hdr x by (auto simp: header_kept_def K_def)
  have crash: "get_file (Path m) (crash keep s) = Some (crash_file (keep (Path m)) x)"
    using x by (simp add: get_file_crash)
  have data: "fdata (crash_file (keep (Path m)) x) = take K (segment_header @ enc_all rs)"
    by (simp add: crash_file_def Let_def x(2) K_def)
  have rs: "list_all rec_ok rs" using seg by (simp add: seg_ok_def)
  show ?thesis
  proof (cases "16 \<le> K")
    case True
    then have "take K (segment_header @ enc_all rs) = segment_header @ take (K - 16) (enc_all rs)" by simp
    with decode_loop_cut [OF rs, of "K - 16"] x crash data K(2) True show ?thesis
      by (auto simp: recoverable_def recovered_def)
  next
    case False
    with K have "K = 0" "synced x = 0" by auto
    with x crash data show ?thesis
      by (auto simp: recoverable_def recovered_def)
  qed
qed

lemma reopen_after_crash:
  assumes ok: "store_ok enc rec_ok seqOf st s rss" and clean: "faults s = []"
    and hdr: "\<And>m. m \<in> set (segment_metas st) \<Longrightarrow> header_kept keep s (Path m)"
    and prefix: "filePrefix st \<noteq> []"
  shows "\<exists>st' s'. new_segment_store (scan_segment_file decoder rec_size seqOf) dp (dir st) (filePrefix st) mx acc nofs
      (crash keep s) =
        (Inr (st', concat (map (\<lambda>m. recovered decoder (crash keep s) (Path m)) (segment_metas st))), s') \<and>
    faults s' = [] \<and>
    store_ok enc rec_ok seqOf st' s'
      (filter (\<lambda>rs. rs \<noteq> []) (map (\<lambda>m. recovered decoder (crash keep s) (Path m)) (segment_metas st)))"
proof -
  let ?s = "crash keep s" and ?ms = "segment_metas st" and ?d = "dir st" and ?p = "filePrefix st"
  define R where "R = recovered decoder ?s"
  define fs where "fs = wal_files ?d ?p (dir_list ?d s)"
  define g where "g = (\<lambda>m :: SegmentMeta. new_meta decoder rec_size seqOf ?s (Path m))"
  define ms1 where "ms1 = filter (\<lambda>m. R (Path m) \<noteq> []) ?ms"
  define st0 where "st0 = \<lparr>dir = ?d, maxSegmentSize = (if mx \<le> 0 then DefaultMaxSegmentSize else mx), filePrefix = ?p,
    acceptUnversioned = acc, noFsync = nofs, activeFile = None, activeMeta = None, segments = [],
    metas = (\<lambda>_. ZeroMeta), nextMeta = 0\<rparr>"
  have ms: "metas_ok st ?ms" and paths: "filter (nonempty_file s) fs = map Path ?ms"
    using ok by (simp_all add: store_ok_def wal_listing_def fs_def)
  have seg: "\<exists>rs n. seg_ok enc rec_ok seqOf s m rs \<and> recoverable ?s (Path m) \<and> R (Path m) = take n rs"
    if "m \<in> set ?ms" for m
    using crash_segment hdr [OF that] store_ok_seg [OF ok that] unfolding R_def by blast
  have empty: "recoverable ?s p \<and> R p = []" if "p \<in> set fs" "\<not> nonempty_file s p" for p
    using that by (auto simp: fs_def set_wal_files nonempty_file_def recoverable_def R_def recovered_def
        get_file_crash crash_file_def Let_def split: option.splits)
  have recov: "recoverable ?s p \<and> HasSuffix p ''.wal''" if "p \<in> set fs" for p
  proof (cases "nonempty_file s p")
    case True
    with that have "p \<in> set (map Path ?ms)" by (simp flip: paths)
    then show ?thesis using seg wal_files_suffix that unfolding fs_def by fastforce
  qed (use empty that wal_files_suffix fs_def in blast)
  have R_paths: "concat (map R fs) = concat (map (\<lambda>m. R (Path m)) ?ms)"
    using concat_map_filter [of fs "nonempty_file s" R] empty by (simp add: paths comp_def)
  have "filter (\<lambda>p. R p \<noteq> []) fs = filter (\<lambda>p. R p \<noteq> []) (filter (nonempty_file s) fs)"
    by (rule filter_filter_imp [symmetric]) (use empty in blast)
  then have kept: "filter (\<lambda>p. R p \<noteq> []) fs = map Path ms1"
    by (simp add: paths filter_map ms1_def comp_def)
  obtain st' s' where o: "open_segments (\<lambda>f. scan_segment_file decoder rec_size seqOf f acc) fs st0 [] [] ?s =
      (Inr (st', concat (map R fs)), s')" and "faults s' = []"
    and ms': "segment_metas st' = map (new_meta decoder rec_size seqOf ?s) (filter (\<lambda>p. R p \<noteq> []) fs)"
    and st': "same_config st0 st'" "activeFile st' = None" "list_all (\<lambda>p. p < nextMeta st') (segments st')"
    and frame: "\<And>q. HasSuffix q ''.wal'' \<Longrightarrow> q \<notin> set fs \<Longrightarrow> get_file q s' = get_file q ?s"
    and files: "\<And>p. p \<in> set fs \<Longrightarrow> list_all rec_ok (R p) \<and> (if R p = [] then get_file p s' = None
       else \<exists>x. get_file p s' = Some x \<and> fdata x = segment_header @ enc_all (R p))"
    using open_segments_ok [of ?s fs st0 acc "[]"] clean recov distinct_wal_files
    unfolding R_def [symmetric] by (auto simp: st0_def segment_metas_def fs_def)
  have "new_segment_store (scan_segment_file decoder rec_size seqOf) dp ?d ?p mx acc nofs ?s =
      (Inr (st', concat (map (\<lambda>m. R (Path m)) ?ms)), s')"
    using o [unfolded R_paths] prefix clean unfolding st0_def fs_def
    by (simp add: new_segment_store_def os_MkdirAll_def os_ReadDir_def)
  moreover have "store_ok enc rec_ok seqOf st' s' (filter (\<lambda>rs. rs \<noteq> []) (map (\<lambda>m. R (Path m)) ?ms))"
  proof -
    have cfg: "dir st' = ?d" "filePrefix st' = ?p" using st'(1) by (simp_all add: same_config_def st0_def)
    have segments: "segment_metas st' = map g ms1"
      unfolding ms' kept by (simp add: g_def)
    have in_fs: "Path m \<in> set fs" if "m \<in> set ?ms" for m
    proof -
      from that have "Path m \<in> set (filter (nonempty_file s) fs)" unfolding paths by simp
      then show ?thesis by simp
    qed
    have seg': "seg_ok enc rec_ok seqOf s' (g m) (R (Path m)) \<and> Path (g m) = Path m \<and>
        FirstSeq (g m) = FirstSeq m \<and> LastSeq (g m) \<le> LastSeq m" if m: "m \<in> set ms1" for m
    proof -
      from m have mm: "m \<in> set ?ms" and ne: "R (Path m) \<noteq> []" by (auto simp: ms1_def)
      from seg [OF mm] obtain rs n where rs: "seg_ok enc rec_ok seqOf s m rs" "R (Path m) = take n rs" by blast
      have "hd (take n rs) = hd rs" "rs \<noteq> []" using ne rs(2) by (auto simp: hd_take)
      moreover have "last (take n rs) \<in> set rs"
        using ne rs(2) last_in_set in_set_takeD by metis
      moreover have "sorted_wrt (\<lambda>a b. seqOf a < seqOf b) (take n rs)"
        using rs(1) by (simp add: seg_ok_def sorted_wrt_take)
      moreover have "\<exists>x. get_file (Path m) s' = Some x \<and> fdata x = segment_header @ concat (map enc (take n rs))"
        using files [OF in_fs [OF mm]] ne rs(2) by (simp add: enc_all_def)
      moreover have "list_all rec_ok (take n rs)" using files [OF in_fs [OF mm]] rs(2) by simp
      moreover have "g m = scan_meta (Path m) seqOf (16 + length (concat (map enc (take n rs)))) (take n rs)"
        using rs(2) length_enc_all [of "take n rs"] by (simp add: g_def new_meta_def enc_all_def Let_def flip: R_def)
      ultimately show ?thesis
        using ne rs seg_ok_le_LastSeq [OF rs(1)] by (auto simp: seg_ok_def scan_meta_def)
    qed
    have "metas_ok st (map g ms1)"
      by (rule metas_ok_shrink [of _ "\<lambda>m. m"])
        (use ms seg' metas_ok_filter [of st "\<lambda>m. m" ?ms] in \<open>auto simp: ms1_def\<close>)
    moreover have "list_all2 (seg_ok enc rec_ok seqOf s') (map g ms1) (map (\<lambda>m. R (Path m)) ms1)"
      using seg' by (auto simp: list.rel_map list.rel_refl_strong)
    moreover have "wal_listing ?d ?p s' = map Path (map g ms1)"
    proof (rule wal_listing_eqI)
      show "sorted_wrt (<) (map Path (map g ms1))"
        using \<open>metas_ok st (map g ms1)\<close> by (simp only: metas_ok_def sorted_wrt_map)
      have "nonempty_file s' q \<longleftrightarrow> q \<in> set fs \<and> R q \<noteq> []" if "is_wal_name ?p n" "q = PathJoin ?d n" for n q
      proof (cases "q \<in> set fs")
        case True
        with files [OF True] show ?thesis by (auto simp: nonempty_file_def split: if_splits)
      next
        case False
        have "get_file q s = None" using False that unfolding fs_def set_wal_files by blast
        moreover have "HasSuffix q ''.wal''"
          using that HasSuffix_append [of n "''.wal''" "?d @ ''/''"] by (auto simp: is_wal_name_def PathJoin_def)
        ultimately show ?thesis using frame [OF _ False] False by (simp add: nonempty_file_def get_file_crash)
      qed
      then have "set (wal_listing ?d ?p s') = {q \<in> set fs. R q \<noteq> []}"
        unfolding set_eq_iff set_wal_listing mem_Collect_eq fs_def set_wal_files by blast
      also have "\<dots> = set (map Path ms1)" unfolding kept [symmetric] by auto
      also have "\<dots> = set (map Path (map g ms1))" using seg' by (auto simp: image_iff)
      finally show "set (map Path (map g ms1)) = set (wal_listing ?d ?p s')" ..
    qed
    ultimately show ?thesis
      using st' ok by (simp add: store_ok_def segments cfg active_ok_def metas_ok_cong [of st' st] filter_map comp_def
          flip: ms1_def)
  qed
  ultimately show ?thesis using \<open>faults s' = []\<close> unfolding R_def by blast
qed

end

end
