(* ===== verification/WalDurability.thy ===== *)
theory WalDurability
  imports WalRecovery
begin

text \<open>
  Which records of a segment store survive a crash. Between calls every segment but the active
  one is synced (\<open>settled\<close>), since a rotation syncs the file it leaves; after a successful
  \<^verbatim>\<open>Sync\<close> or \<^verbatim>\<open>AppendBatch\<close> every segment is synced, so that reopening after any crash returns
  exactly the records of the store.
\<close>

definition seg_synced :: "fs \<Rightarrow> SegmentMeta \<Rightarrow> bool" where
  "seg_synced s m = (case get_file (Path m) s of Some x \<Rightarrow> length (fdata x) \<le> synced x | None \<Rightarrow> False)"

definition store_synced :: "SegmentStore \<Rightarrow> fs \<Rightarrow> bool" where
  "store_synced st s \<longleftrightarrow> list_all (\<lambda>p. seg_synced s (metas st p)) (segments st)"

definition settled :: "SegmentStore \<Rightarrow> fs \<Rightarrow> bool" where
  "settled st s \<longleftrightarrow>
     list_all (\<lambda>p. activeFile st \<noteq> None \<and> activeMeta st = Some p \<or> seg_synced s (metas st p)) (segments st)"

lemma seg_synced_cong: "get_file (Path m) s' = get_file (Path m) s \<Longrightarrow> seg_synced s' m = seg_synced s m"
  by (simp add: seg_synced_def)

lemma seg_synced_faults [simp]: "seg_synced (s\<lparr>faults := x\<rparr>) m = seg_synced s m"
  by (simp add: seg_synced_def)

lemma file_Sync_synced:
  assumes "file_Sync f s = (None, s')" "Path m = f \<Longrightarrow> get_file f s \<noteq> None" "Path m = f \<or> seg_synced s m"
  shows "seg_synced s' m"
  using assms file_Sync_OkD [OF assms(1), of "Path m"] by (auto simp: seg_synced_def split: if_splits option.splits)

lemma sync_close_synced:
  assumes sc: "sync_close f s = (None, s')" and "Path m = f \<Longrightarrow> get_file f s \<noteq> None"
    and "Path m = f \<or> seg_synced s m"
  shows "seg_synced s' m"
proof -
  from sc obtain s1 where "file_Sync f s = (None, s1)" "file_Close f s1 = (None, s')"
    by (auto simp: sync_close_def Join_def split: prod.splits option.splits if_splits)
  with file_Sync_synced [of f s s1 m] assms(2,3) file_Close_same seg_synced_cong [of m s' s1] show ?thesis
    by (auto simp: same_files_def)
qed

lemma close_active_synced:
  assumes c: "close_active st s = (None, st', s')" and ok: "store_ok enc rec_ok seqOf st s rss"
    and settled: "settled st s"
  shows "store_synced st' s'"
proof (cases "activeFile st")
  case None
  with c settled show ?thesis by (auto simp: close_active_def settled_def store_synced_def)
next
  case (Some f)
  with c have sc: "sync_close f s = (None, s')" and st': "st' = st\<lparr>activeFile := None\<rparr>"
    by (auto simp: close_active_def split: prod.splits)
  have "seg_synced s' (metas st p)" if p: "p \<in> set (segments st)" for p
  proof (rule sync_close_synced [OF sc])
    from p obtain rs where "seg_ok enc rec_ok seqOf s (metas st p) rs"
      using store_ok_seg [OF ok, of "metas st p"] by (auto simp: segment_metas_def)
    then show "get_file f s \<noteq> None" if "Path (metas st p) = f" using that by (auto simp: seg_ok_def split: option.splits)
    show "Path (metas st p) = f \<or> seg_synced s (metas st p)"
      using settled p ok Some by (auto simp: settled_def list_all_iff store_ok_def active_ok_def)
  qed
  then show ?thesis by (simp add: store_synced_def st' list_all_iff)
qed

lemma rotateLocked_settled:
  assumes rot: "rotateLocked q st s = (None, st', s')" and ok: "store_ok enc rec_ok seqOf st s rss"
    and settled: "settled st s" and q: "unat q < seq_limit" "list_all (\<lambda>m. LastSeq m < q) (segment_metas st)"
  shows "settled st' s'"
proof -
  from rot obtain st1 s1 where c: "close_active st s = (None, st1, s1)"
    by (auto simp: rotateLocked_def split: prod.splits option.splits)
  define path where "path = segmentFilename st1 q"
  from rot c obtain s2 m where o: "os_OpenAppend path s1 = (None, s2)"
    and w: "file_Write path segment_header s2 = (None, s')"
    and st': "st' = (push_segment m st1)\<lparr>activeFile := Some path, activeMeta := Some (nextMeta st1)\<rparr>"
    unfolding path_def segment_header_def
    by (auto simp: rotateLocked_def Let_def split: prod.splits option.splits)
  note c_ok = close_active_ok [OF c ok]
  have "seg_synced s' (metas st1 p) \<and> p < nextMeta st1" if p: "p \<in> set (segments st1)" for p
  proof -
    have "metas st1 p \<in> set (segment_metas st1)" using p by (simp add: segment_metas_def)
    moreover have "LastSeq (metas st1 p) < q"
      using q(2) p c_ok by (simp add: segment_metas_def list_all_iff)
    ultimately have "Path (metas st1 p) \<noteq> path"
      using paths_below [of enc rec_ok seqOf st1 s1 rss q] c_ok q(1) by (force simp: path_def)
    then have "get_file (Path (metas st1 p)) s' = get_file (Path (metas st1 p)) s1"
      using file_Write_OkD [OF w] os_OpenAppend_OkD [OF o] by simp
    moreover have "seg_synced s1 (metas st1 p)"
      using close_active_synced [OF c ok settled] p by (simp add: store_synced_def list_all_iff)
    moreover have "list_all (\<lambda>p. p < nextMeta st1) (segments st1)"
      using c_ok unfolding store_ok_def by blast
    ultimately show ?thesis
      using p seg_synced_cong [of "metas st1 p" s' s1] by (simp add: list_all_iff)
  qed
  then show ?thesis
    by (auto simp: settled_def st' push_segment_def list_all_iff)
qed

lemma append_encoded_settled:
  assumes a: "append_encoded (enc r) (seqOf r) st s = (None, st', s')"
    and ok: "store_ok enc rec_ok seqOf st s rss" and nx: "next_ok (seqOf r) st" and settled: "settled st s"
  shows "settled st' s'"
proof -
  have wr: "settled st' s'" if w: "write_active (enc r) (seqOf r) st1 s1 = (None, st', s')"
    and ok1: "store_ok enc rec_ok seqOf st1 s1 rss1" and set1: "settled st1 s1" for st1 s1 rss1
  proof -
    from w obtain f p where f: "activeFile st1 = Some f" and p: "activeMeta st1 = Some p"
      and fw: "file_Write f (enc r) s1 = (None, s')"
      and st': "st' = st1\<lparr>metas := (metas st1)(p := note_record (seqOf r) (length (enc r)) (metas st1 p))\<rparr>"
      by (auto simp: write_active_def split: option.splits prod.splits)
    have inj: "distinct (map (\<lambda>p. Path (metas st1 p)) (segments st1))"
      using ok1 by (intro distinct_paths) (simp add: store_ok_def)
    have "p \<in> set (segments st1)" "Path (metas st1 p) = f"
      using ok1 f p by (auto simp: store_ok_def active_ok_def)
    then have "get_file (Path (metas st1 x)) s' = get_file (Path (metas st1 x)) s1"
      if "x \<in> set (segments st1)" "x \<noteq> p" for x
      using that inj file_Write_OkD [OF fw] by (auto simp: distinct_map inj_on_def)
    then show ?thesis
      using set1 f p seg_synced_cong [of _ s' s1] by (auto simp: settled_def st' list_all_iff)
  qed
  show ?thesis
  proof (cases "must_rotate (length (enc r)) st")
    case False
    with a have "write_active (enc r) (seqOf r) st s = (None, st', s')" by (simp add: append_encoded_def)
    from wr [OF this ok settled] show ?thesis .
  next
    case True
    with a obtain st1 s1 where rot: "rotateLocked (seqOf r) st s = (None, st1, s1)"
      and w: "write_active (enc r) (seqOf r) st1 s1 = (None, st', s')"
      by (auto simp: append_encoded_def split: prod.splits option.splits)
    have q: "unat (seqOf r) < seq_limit" using nx by (simp add: next_ok_def)
    note below = next_ok_rotate [OF nx True]
    from wr [OF w] rotateLocked_ok [OF rot ok q below] rotateLocked_settled [OF rot ok settled q below]
    show ?thesis by blast
  qed
qed

lemma sync_active_synced:
  assumes sy: "sync_active st s = (None, s')" and "\<not> noFsync st"
    and ok: "store_ok enc rec_ok seqOf st s rss" and settled: "settled st s"
  shows "store_synced st s' \<and> store_ok enc rec_ok seqOf st s' rss"
proof (cases "activeFile st")
  case None
  with assms show ?thesis by (simp add: sync_active_def settled_def store_synced_def)
next
  case (Some f)
  with assms have fs: "file_Sync f s = (None, s')" by (simp add: sync_active_def)
  have "seg_synced s' (metas st p)" if p: "p \<in> set (segments st)" for p
  proof (rule file_Sync_synced [OF fs])
    from p obtain rs where "seg_ok enc rec_ok seqOf s (metas st p) rs"
      using store_ok_seg [OF ok, of "metas st p"] by (auto simp: segment_metas_def)
    then show "get_file f s \<noteq> None" if "Path (metas st p) = f" using that by (auto simp: seg_ok_def split: option.splits)
    show "Path (metas st p) = f \<or> seg_synced s (metas st p)"
      using settled p ok Some by (auto simp: settled_def list_all_iff store_ok_def active_ok_def)
  qed
  moreover have "store_ok enc rec_ok seqOf st s' rss"
    by (rule store_ok_same_data [OF ok]) (auto simp: file_Sync_OkD [OF fs])
  ultimately show ?thesis by (simp add: store_synced_def list_all_iff)
qed

subsection \<open>Reopening\<close>

context segment_codec
begin

lemma recovered_synced:
  assumes seg: "seg_ok enc rec_ok seqOf s m rs" and syn: "seg_synced s m"
  shows "header_kept keep s (Path m) \<and> recovered decoder (crash keep s) (Path m) = rs"
proof -
  obtain x where x: "get_file (Path m) s = Some x" "fdata x = segment_header @ enc_all rs"
    using seg_file [OF seg] by blast
  with syn have long: "16 + length (enc_all rs) \<le> synced x" by (simp add: seg_synced_def)
  then have hdr: "header_kept keep s (Path m)" using x by (simp add: header_kept_def)
  from crash_segment [OF seg hdr] obtain n where n: "recovered decoder (crash keep s) (Path m) = take n rs"
    "\<forall>y k. get_file (Path m) s = Some y \<longrightarrow> k \<le> length rs \<longrightarrow> 16 + length (enc_all (take k rs)) \<le> synced y \<longrightarrow> k \<le> n"
    by blast
  from n(2) x(1) long have "length rs \<le> n" by fastforce
  with n(1) hdr show ?thesis by simp
qed

lemma list_all2_recovered_synced:
  assumes "list_all2 (seg_ok enc rec_ok seqOf s) ms rss" "\<And>m. m \<in> set ms \<Longrightarrow> seg_synced s m"
  shows "map (\<lambda>m. recovered decoder (crash keep s) (Path m)) ms = rss"
  using assms
proof (induction rule: list_all2_induct)
  case (Cons m ms rs rss)
  then show ?case using recovered_synced [of s m rs keep] by simp
qed simp

lemma reopen_synced:
  assumes ok: "store_ok enc rec_ok seqOf st s rss" and syn: "store_synced st s" and prefix: "filePrefix st \<noteq> []"
  shows "\<exists>st' s'. new_segment_store (scan_segment_file decoder rec_size seqOf) dp (dir st) (filePrefix st) mx acc nofs
      (crash keep (s\<lparr>faults := []\<rparr>)) = (Inr (st', concat rss), s') \<and>
    store_ok enc rec_ok seqOf st' s' (filter (\<lambda>rs. rs \<noteq> []) rss)"
proof -
  let ?s = "s\<lparr>faults := []\<rparr>" and ?ms = "segment_metas st"
  have same: "same_files s ?s" by (simp add: same_files_def)
  have ok': "store_ok enc rec_ok seqOf st ?s rss" by (rule store_ok_same_files [OF ok same])
  have syn': "seg_synced ?s m" if "m \<in> set ?ms" for m
    using syn that by (auto simp: store_synced_def segment_metas_def list_all_iff seg_synced_def)
  have segs: "list_all2 (seg_ok enc rec_ok seqOf ?s) ?ms rss" using ok' by (simp add: store_ok_def)
  have rec: "map (\<lambda>m. recovered decoder (crash keep ?s) (Path m)) ?ms = rss"
    by (rule list_all2_recovered_synced [OF segs syn'])
  have hdr: "header_kept keep ?s (Path m)" if "m \<in> set ?ms" for m
    using recovered_synced syn' [OF that] store_ok_seg [OF ok' that] by blast
  from reopen_after_crash [OF ok' _ hdr prefix, of dp mx acc nofs] show ?thesis
    unfolding rec by auto
qed

text \<open>Without a sync, a crash costs a tail of the records and nothing else.\<close>

lemma reopen_prefix:
  assumes ok: "store_ok enc rec_ok seqOf st s rss" and settled: "settled st s" and prefix: "filePrefix st \<noteq> []"
    and hdr: "\<And>m. m \<in> set (segment_metas st) \<Longrightarrow> header_kept keep s (Path m)"
  shows "\<exists>st' s' rss' n. new_segment_store (scan_segment_file decoder rec_size seqOf) dp (dir st) (filePrefix st) mx acc nofs
      (crash keep (s\<lparr>faults := []\<rparr>)) = (Inr (st', concat rss'), s') \<and>
    concat rss' = take n (concat rss) \<and> store_ok enc rec_ok seqOf st' s' (filter (\<lambda>rs. rs \<noteq> []) rss')"
proof -
  let ?s = "s\<lparr>faults := []\<rparr>" and ?ms = "segment_metas st"
  let ?R = "\<lambda>m. recovered decoder (crash keep ?s) (Path m)"
  have ok': "store_ok enc rec_ok seqOf st ?s rss"
    by (rule store_ok_same_files [OF ok]) (simp add: same_files_def)
  have hdr': "header_kept keep ?s (Path m)" if "m \<in> set ?ms" for m
    using hdr [OF that] by (simp add: header_kept_def)
  have segs: "list_all2 (seg_ok enc rec_ok seqOf ?s) ?ms rss" using ok' by (simp add: store_ok_def)
  have "\<exists>n. concat (map ?R ?ms) = take n (concat rss)"
  proof (cases "segments st = []")
    case True
    then show ?thesis using segs by (simp add: segment_metas_def)
  next
    case False
    then obtain ps p where ps: "segments st = ps @ [p]" by (metis rev_exhaust)
    then have ms: "?ms = map (metas st) ps @ [metas st p]" by (simp add: segment_metas_def)
    from segs obtain rss0 rs where rss: "rss = rss0 @ [rs]"
      and segs0: "list_all2 (seg_ok enc rec_ok seqOf ?s) (map (metas st) ps) rss0"
      and seg: "seg_ok enc rec_ok seqOf ?s (metas st p) rs"
      unfolding ms by (auto simp: list_all2_append1 list_all2_Cons1)
    have "distinct (segments st)" using ok by (intro distinct_segments) (simp add: store_ok_def)
    moreover have "active_ok st" using ok by (simp add: store_ok_def)
    ultimately have idle: "\<not> (activeFile st \<noteq> None \<and> activeMeta st = Some x)" if "x \<in> set ps" for x
      using that ps by (auto simp: active_ok_def split: option.splits)
    have "seg_synced ?s m" if "m \<in> set (map (metas st) ps)" for m
      using that settled idle unfolding settled_def list_all_iff ps by fastforce
    then have "map ?R (map (metas st) ps) = rss0"
      by (rule list_all2_recovered_synced [OF segs0])
    moreover obtain n where "?R (metas st p) = take n rs"
      using crash_segment [OF seg hdr'] ms by auto
    ultimately have "concat (map ?R ?ms) = take (length (concat rss0) + n) (concat rss)"
      by (simp add: ms rss)
    then show ?thesis by blast
  qed
  moreover have "faults ?s = []" by simp
  ultimately show ?thesis
    using reopen_after_crash [OF ok' _ hdr' prefix, of dp mx acc nofs] by blast
qed

end

end
