(* ===== verification/WalProps.thy ===== *)
theory WalProps
  imports WalDurability WalNames
begin

text \<open>
  The properties of the segment stores, stated over the records a store holds:
  \<open>client_records st s\<close> and \<open>log_records st s\<close> decode the files of the segments, and
  \<open>client_store_ok\<close> and \<open>log_store_ok\<close> say that the store and its files fit together.
\<close>

definition client_records :: "ClientSegmentStore \<Rightarrow> fs \<Rightarrow> ClientRecord list" where
  "client_records st s = concat (map (\<lambda>m. recovered DecodeClientRecord s (Path m)) (segment_metas st))"

definition client_store_ok :: "ClientSegmentStore \<Rightarrow> fs \<Rightarrow> bool" where
  "client_store_ok st s \<longleftrightarrow>
     store_ok client_enc client_ok crStreamSeq st s
       (map (\<lambda>m. recovered DecodeClientRecord s (Path m)) (segment_metas st))"

definition log_records :: "LogSegmentStore \<Rightarrow> fs \<Rightarrow> LogRecord list" where
  "log_records st s = concat (map (\<lambda>m. recovered DecodeLogRecord s (Path m)) (segment_metas st))"

definition log_store_ok :: "LogSegmentStore \<Rightarrow> fs \<Rightarrow> bool" where
  "log_store_ok st s \<longleftrightarrow>
     store_ok LogRecord_Encode log_ok Position st s
       (map (\<lambda>m. recovered DecodeLogRecord s (Path m)) (segment_metas st))"

context segment_codec
begin

lemma recovered_seg:
  assumes "seg_ok enc rec_ok seqOf s m rs"
  shows "recovered decoder s (Path m) = rs"
  using seg_file [OF assms] seg_decode [OF assms] by (auto simp: recovered_def)

lemma recovered_store:
  assumes "store_ok enc rec_ok seqOf st s rss"
  shows "map (\<lambda>m. recovered decoder s (Path m)) (segment_metas st) = rss"
proof -
  from assms have "list_all2 (seg_ok enc rec_ok seqOf s) (segment_metas st) rss" by (simp add: store_ok_def)
  then show ?thesis by (induction rule: list_all2_induct) (simp_all add: recovered_seg)
qed

end

lemma client_storeI:
  "store_ok client_enc client_ok crStreamSeq st s rss \<Longrightarrow> client_store_ok st s \<and> client_records st s = concat rss"
  using client_store.recovered_store [of st s rss] by (simp add: client_store_ok_def client_records_def)

lemma client_storeD:
  "client_store_ok st s \<Longrightarrow>
     \<exists>rss. store_ok client_enc client_ok crStreamSeq st s rss \<and> client_records st s = concat rss"
  by (auto simp: client_store_ok_def client_records_def)

lemma log_storeI:
  "store_ok LogRecord_Encode log_ok Position st s rss \<Longrightarrow> log_store_ok st s \<and> log_records st s = concat rss"
  using log_store.recovered_store [of st s rss] by (simp add: log_store_ok_def log_records_def)

lemma log_storeD:
  "log_store_ok st s \<Longrightarrow>
     \<exists>rss. store_ok LogRecord_Encode log_ok Position st s rss \<and> log_records st s = concat rss"
  by (auto simp: log_store_ok_def log_records_def)

lemma concat_filter_neq_Nil [simp]: "concat (filter (\<lambda>xs. xs \<noteq> []) xss) = concat xss"
  by (induction xss) auto

definition sealed_record :: "ClientRecord \<Rightarrow> ClientRecord" where
  \<comment> \<open>the record as \<open>Encode\<close> leaves it\<close>
  "sealed_record r = r\<lparr>crCRC32C := ClientRecord_ComputeCRC32C r\<rparr>"

lemma sealed_record:
  "crStreamSeq (sealed_record r) = crStreamSeq r" "crPayload (sealed_record r) = crPayload r"
  "client_enc (sealed_record r) = client_enc r"
  "length (crPayload r) < 2 ^ 32 \<Longrightarrow> client_ok (sealed_record r)"
  by (simp_all add: sealed_record_def client_enc_def ClientRecord_Encode_def Let_def client_ok_def
      ClientRecord_ComputeCRC32C_def)

lemma ClientSegmentStore_Append_eq:
  "ClientSegmentStore_Append r st s =
     (case append_encoded (client_enc (sealed_record r)) (crStreamSeq (sealed_record r)) st s of
        (e, st, s) \<Rightarrow> (e, sealed_record r, st, s))"
  by (simp add: ClientSegmentStore_Append_def ClientRecord_Encode_def sealed_record_def client_enc_def Let_def
      ClientRecord_ComputeCRC32C_def split: prod.splits)

subsection \<open>Concrete stores\<close>

definition empty_store :: SegmentStore where
  "empty_store = \<lparr>dir = ''/w'', maxSegmentSize = 64, filePrefix = ''stream'', acceptUnversioned = False,
     noFsync = False, activeFile = None, activeMeta = None, segments = [], metas = (\<lambda>_. ZeroMeta), nextMeta = 0\<rparr>"

definition disk :: "fault list \<Rightarrow> fs" where
  "disk fs = \<lparr>files = [], faults = fs, clock = 0\<rparr>"

lemma empty_store_ok: "store_ok enc rec_ok seqOf empty_store (disk fs) []"
  by (simp add: store_ok_def empty_store_def segment_metas_def metas_ok_def active_ok_def disk_def
      wal_listing_def wal_files_def dir_list_def)

lemma empty_client_store [simp]: "client_store_ok empty_store (disk fs)" "client_records empty_store (disk fs) = []"
  using client_storeI [OF empty_store_ok] by simp_all

lemma empty_log_store [simp]: "log_store_ok empty_store (disk fs)" "log_records empty_store (disk fs) = []"
  using log_storeI [OF empty_store_ok] by simp_all

lemma empty_next [simp]: "next_ok q empty_store \<longleftrightarrow> unat q < seq_limit"
  by (simp add: next_ok_def empty_store_def)

definition sample_record :: ClientRecord where
  "sample_record = \<lparr>crStreamID = 7, crStreamSeq = 1, crPayload = [1, 2, 3], crCRC32C = 0\<rparr>"

lemma sample_record_simps [simp]:
  "crPayload sample_record = [1, 2, 3]" "crStreamSeq sample_record = 1" "crStreamID sample_record = 7"
  "Suc 0 < seq_limit"
  by (simp_all add: sample_record_def seq_limit_def)

lemma disk_faults [simp]: "faults (disk fs) = fs" "no_short (disk fs) \<longleftrightarrow> list_all (\<lambda>f. f = NoFault \<or> f = Fail) fs"
  by (simp_all add: disk_def no_short_def)

lemma client_append_ok:
  assumes "client_store_ok st s" "length (crPayload r) < 2 ^ 32" "next_ok (crStreamSeq r) st"
    and "ClientSegmentStore_Append r st s = (None, r', st', s')"
  shows "client_store_ok st' s' \<and> client_records st' s' = client_records st s @ [r'] \<and> r' = sealed_record r"
proof -
  from client_storeD [OF assms(1)] obtain rss where ok: "store_ok client_enc client_ok crStreamSeq st s rss"
    and rs: "client_records st s = concat rss" by blast
  from assms(4) have a: "append_encoded (client_enc (sealed_record r)) (crStreamSeq (sealed_record r)) st s = (None, st', s')"
    and r': "r' = sealed_record r"
    by (auto simp: ClientSegmentStore_Append_eq split: prod.splits)
  from append_encoded_ok [OF a ok] sealed_record [of r] assms(2,3) client_storeI show ?thesis
    by (force simp: rs r')
qed

lemma client_append_clean:
  assumes "faults s = []" "active_ok st"
  shows "\<exists>st' s'. ClientSegmentStore_Append r st s = (None, sealed_record r, st', s') \<and> faults s' = []"
  using append_encoded_clean [OF assms, of "client_enc (sealed_record r)" "crStreamSeq (sealed_record r)"]
  by (auto simp: ClientSegmentStore_Append_eq)

definition one_store :: SegmentStore where
  "one_store = fst (snd (snd (ClientSegmentStore_Append sample_record empty_store (disk []))))"

definition one_disk :: fs where
  "one_disk = snd (snd (snd (ClientSegmentStore_Append sample_record empty_store (disk []))))"

lemma one_store:
  "ClientSegmentStore_Append sample_record empty_store (disk []) =
     (None, sealed_record sample_record, one_store, one_disk)"
  "client_store_ok one_store one_disk" "client_records one_store one_disk = [sealed_record sample_record]"
  "faults one_disk = []"
proof -
  obtain st s where a: "ClientSegmentStore_Append sample_record empty_store (disk []) =
      (None, sealed_record sample_record, st, s)" and f: "faults s = []"
    using client_append_clean [of "disk []" empty_store sample_record]
    by (auto simp: disk_def active_ok_def empty_store_def)
  then have eq: "one_store = st" "one_disk = s" by (simp_all add: one_store_def one_disk_def)
  have "client_store_ok st s \<and> client_records st s = client_records empty_store (disk []) @ [sealed_record sample_record] \<and>
      sealed_record sample_record = sealed_record sample_record"
    by (rule client_append_ok [OF _ _ _ a]) simp_all
  then show "ClientSegmentStore_Append sample_record empty_store (disk []) =
     (None, sealed_record sample_record, one_store, one_disk)"
    "client_store_ok one_store one_disk" "client_records one_store one_disk = [sealed_record sample_record]"
    "faults one_disk = []"
    using a f by (simp_all add: eq)
qed

subsection \<open>Properties of the client store\<close>

text \<open>C3: \<^verbatim>\<open>ClientSegmentStore.Append\<close> refines appending to a list. On a well-formed store, for a
  record whose sequence number is above every stored one, a call that returns nil leaves a
  well-formed store whose records are the old ones followed by the new one with its checksum,
  whether or not the call rotated to a new file.\<close>

theorem client_append_refines:
  assumes "client_store_ok st s" "length (crPayload r) < 2 ^ 32" "next_ok (crStreamSeq r) st"
    and "ClientSegmentStore_Append r st s = (None, r', st', s')"
  shows "client_store_ok st' s' \<and> client_records st' s' = client_records st s @ [r'] \<and>
    r' = r\<lparr>crCRC32C := ClientRecord_ComputeCRC32C r\<rparr>"
  using client_append_ok [OF assms] by (simp add: sealed_record_def)

theorem client_append_refines_witness:
  "client_store_ok one_store one_disk \<and> client_records one_store one_disk = [sealed_record sample_record]"
  using client_append_refines [OF _ _ _ one_store(1)] by simp

text \<open>C4: An append that fails costs nothing stored. If \<^verbatim>\<open>Append\<close> returns an error and no write was
  cut short, the store is still well formed and holds the same records; an append on a disk
  without faults always succeeds.\<close>

theorem client_append_error:
  assumes "client_store_ok st s" "length (crPayload r) < 2 ^ 32" "next_ok (crStreamSeq r) st"
  shows "(case ClientSegmentStore_Append r st s of
      (Some e, _, st', s') \<Rightarrow> no_short s \<longrightarrow> client_store_ok st' s' \<and> client_records st' s' = client_records st s
    | (None, _, _, _) \<Rightarrow> True) \<and>
    (faults s = [] \<longrightarrow> fst (ClientSegmentStore_Append r st s) = None)"
proof
  from client_storeD [OF assms(1)] obtain rss where ok: "store_ok client_enc client_ok crStreamSeq st s rss"
    and rs: "client_records st s = concat rss" by blast
  then have act: "active_ok st" by (simp add: store_ok_def)
  show "faults s = [] \<longrightarrow> fst (ClientSegmentStore_Append r st s) = None"
    using client_append_clean [OF _ act, of s r] by auto
  obtain e st' s' where a: "append_encoded (client_enc (sealed_record r)) (crStreamSeq (sealed_record r)) st s = (e, st', s')"
    by (cases "append_encoded (client_enc (sealed_record r)) (crStreamSeq (sealed_record r)) st s")
  have "client_store_ok st' s' \<and> client_records st' s' = concat rss" if "e = Some x" "no_short s" for x
    using append_encoded_err [of client_enc "sealed_record r" crStreamSeq st s x st' s' client_ok rss]
      a ok that sealed_record [of r] assms(2,3) client_storeI by force
  then show "case ClientSegmentStore_Append r st s of
      (Some e, _, st', s') \<Rightarrow> no_short s \<longrightarrow> client_store_ok st' s' \<and> client_records st' s' = client_records st s
    | (None, _, _, _) \<Rightarrow> True"
    by (auto simp: ClientSegmentStore_Append_eq a rs split: option.splits)
qed

theorem client_append_error_witness:
  "fst (ClientSegmentStore_Append sample_record empty_store (disk [])) = None \<and>
   (case ClientSegmentStore_Append sample_record empty_store (disk [Fail]) of
      (Some e, _, st', s') \<Rightarrow> client_store_ok st' s' \<and> client_records st' s' = []
    | (None, _, _, _) \<Rightarrow> True)"
  using client_append_error [of empty_store "disk []" sample_record]
    client_append_error [of empty_store "disk [Fail]" sample_record]
  by (auto split: option.splits prod.splits)

text \<open>C5: \<^verbatim>\<open>ClientSegmentStore.TruncateAfter\<close> keeps exactly the records up to the given
  sequence number. When it returns nil, whatever faults the disk had, the store is well formed
  and its records are the old ones filtered by \<open>StreamSeq \<le> maxSeq\<close>.\<close>

theorem client_truncate_refines:
  assumes "client_store_ok st s" "TruncateAfter maxSeq st s = (None, st', s')"
  shows "client_store_ok st' s' \<and>
    client_records st' s' = filter (\<lambda>r. crStreamSeq r \<le> maxSeq) (client_records st s)"
proof -
  from client_storeD [OF assms(1)] obtain rss where ok: "store_ok client_enc client_ok crStreamSeq st s rss"
    and rs: "client_records st s = concat rss" by blast
  from client_store.truncate_after_ok [OF assms(2) [unfolded TruncateAfter_def] ok] client_storeI show ?thesis
    unfolding rs by metis
qed

lemma one_store_shape [simp]:
  "segments one_store = [0]" "activeFile one_store = Some (Path (metas one_store 0))" "LastSeq (metas one_store 0) = 1"
  "FirstSeq (metas one_store 0) = 1" "activeMeta one_store = Some 0" "filePrefix one_store = ''stream''"
  "noFsync one_store = False" "dir one_store = ''/w''"
  by (simp_all add: one_store_def ClientSegmentStore_Append_eq append_encoded_def must_rotate_def empty_store_def
      rotateLocked_def close_active_def os_OpenAppend_def file_Write_def push_segment_def
      write_active_def note_record_def sealed_record Let_def split: option.splits)

lemma one_disk_file: "\<exists>x. get_file (Path (metas one_store 0)) one_disk = Some x"
  using client_storeD [OF one_store(2)] store_ok_seg [of client_enc client_ok crStreamSeq one_store one_disk]
  by (fastforce simp: segment_metas_def seg_ok_def split: option.splits)

theorem client_truncate_refines_witness:
  "fst (TruncateAfter 0 one_store one_disk) = None \<and>
   (case TruncateAfter 0 one_store one_disk of (_, st', s') \<Rightarrow> client_store_ok st' s' \<and> client_records st' s' = [])"
proof -
  have e: "fst (TruncateAfter 0 one_store one_disk) = None"
    using one_store(4) one_disk_file
    by (auto simp: TruncateAfter_def truncate_after_def close_active_def sync_close_def file_Sync_def file_Close_def
        Join_def opt_list_def truncate_segment_def remove_file_def os_Remove_def)
  then obtain st' s' where "TruncateAfter 0 one_store one_disk = (None, st', s')"
    by (cases "TruncateAfter 0 one_store one_disk") auto
  with client_truncate_refines [OF one_store(2) this] e show ?thesis
    by (simp add: one_store(3) sealed_record)
qed

text \<open>C6: \<^verbatim>\<open>ClientSegmentStore.DeleteSegmentsBeforeS3Ack\<close> never drops a record that object storage
  has not acknowledged. Whatever the faults, it returns nil, the store stays well formed, no new
  record appears, and the records above \<open>s3AckedSeq\<close> are exactly the ones before the call.\<close>

theorem client_delete_safe:
  assumes "client_store_ok st s" "DeleteSegmentsBeforeS3Ack ack st s = (e, st', s')"
  shows "e = None \<and> client_store_ok st' s' \<and> set (client_records st' s') \<subseteq> set (client_records st s) \<and>
    filter (\<lambda>r. ack < crStreamSeq r) (client_records st' s') =
    filter (\<lambda>r. ack < crStreamSeq r) (client_records st s)"
proof -
  from client_storeD [OF assms(1)] obtain rss where ok: "store_ok client_enc client_ok crStreamSeq st s rss"
    and rs: "client_records st s = concat rss" by blast
  from DeleteSegmentsBeforeS3Ack_ok [OF assms(2) ok] client_storeI show ?thesis
    unfolding rs by metis
qed

theorem client_delete_safe_witness:
  "case DeleteSegmentsBeforeS3Ack 1 one_store one_disk of
     (e, st', s') \<Rightarrow> e = None \<and> client_store_ok st' s' \<and>
       set (client_records st' s') \<subseteq> {sealed_record sample_record}"
  using client_delete_safe [OF one_store(2)] by (auto simp: one_store(3) split: prod.splits)

text \<open>C7: What a successful \<^verbatim>\<open>ClientSegmentStore.Sync\<close> covers survives every crash: however many of the
  unsynced bytes reach the disk, reopening the directory returns exactly the records of the
  store, and the reopened store is well formed.\<close>

theorem client_sync_durable:
  assumes "client_store_ok st s" "settled st s" "\<not> noFsync st" "filePrefix st \<noteq> ''''"
    and "ClientSegmentStore_Sync st s = (None, s')"
  shows "\<exists>st2 s2. NewClientSegmentStore (dir st) (filePrefix st) mx acc nofs (crash keep (s'\<lparr>faults := []\<rparr>)) =
      (Inr (st2, client_records st s), s2) \<and> client_store_ok st2 s2 \<and> client_records st2 s2 = client_records st s"
proof -
  from client_storeD [OF assms(1)] obtain rss where ok: "store_ok client_enc client_ok crStreamSeq st s rss"
    and rs: "client_records st s = concat rss" by blast
  from sync_active_synced [OF assms(5) [unfolded ClientSegmentStore_Sync_def] assms(3) ok assms(2)]
  have "store_synced st s'" "store_ok client_enc client_ok crStreamSeq st s' rss" by auto
  from client_store.reopen_synced [OF this(2,1), of "''stream''" mx acc nofs keep] assms(4)
  show ?thesis
    using client_storeI unfolding rs NewClientSegmentStore_def ScanClientSegmentFile_def
    by (metis concat_filter_neq_Nil)
qed

theorem client_sync_durable_witness:
  "\<exists>st2 s2. NewClientSegmentStore ''/w'' ''stream'' 64 False False
     (crash (\<lambda>_. 0) (snd (ClientSegmentStore_Sync one_store one_disk))) =
      (Inr (st2, [sealed_record sample_record]), s2) \<and> client_records st2 s2 = [sealed_record sample_record]"
proof -
  obtain s' where s': "ClientSegmentStore_Sync one_store one_disk = (None, s')" "faults s' = []"
    using one_disk_file one_store(4)
    by (auto simp: ClientSegmentStore_Sync_def sync_active_def file_Sync_def)
  then have "s'\<lparr>faults := []\<rparr> = s'" by simp
  with client_sync_durable [OF one_store(2) _ _ _ s'(1), of 64 False False "\<lambda>_. 0"] s' show ?thesis
    by (auto simp: settled_def one_store(3))
qed

text \<open>C2: Without a sync a crash costs at most a tail of the stream. If no file is cut inside its
  header, reopening returns a prefix of the records in their order, and the reopened store is
  well formed and holds exactly that prefix.\<close>

theorem client_crash_prefix:
  assumes "client_store_ok st s" "settled st s" "filePrefix st \<noteq> ''''"
    and "list_all (\<lambda>m. header_kept keep s (Path m)) (segment_metas st)"
  shows "\<exists>st2 s2 n. NewClientSegmentStore (dir st) (filePrefix st) mx acc nofs (crash keep (s\<lparr>faults := []\<rparr>)) =
      (Inr (st2, take n (client_records st s)), s2) \<and>
    client_store_ok st2 s2 \<and> client_records st2 s2 = take n (client_records st s)"
proof -
  from client_storeD [OF assms(1)] obtain rss where ok: "store_ok client_enc client_ok crStreamSeq st s rss"
    and rs: "client_records st s = concat rss" by blast
  have "header_kept keep s (Path m)" if "m \<in> set (segment_metas st)" for m
    using assms(4) that by (simp add: list_all_iff)
  from client_store.reopen_prefix [OF ok assms(2) assms(3) this, of "''stream''" mx acc nofs]
  show ?thesis
    using client_storeI unfolding rs NewClientSegmentStore_def ScanClientSegmentFile_def
    by (metis concat_filter_neq_Nil)
qed

theorem client_crash_prefix_witness:
  "\<exists>st2 s2 n. NewClientSegmentStore ''/w'' ''stream'' 64 False False (crash (\<lambda>_. 20) one_disk) =
      (Inr (st2, take n [sealed_record sample_record]), s2) \<and> client_store_ok st2 s2"
proof -
  have "one_disk\<lparr>faults := []\<rparr> = one_disk" using one_store(4) by simp
  moreover have "list_all (\<lambda>m. header_kept (\<lambda>_. 20) one_disk (Path m)) (segment_metas one_store)"
    by (auto simp: header_kept_def list_all_iff split: option.splits)
  ultimately show ?thesis
    using client_crash_prefix [OF one_store(2), of "\<lambda>_. 20" 64 False False]
    by (auto simp: settled_def one_store(3))
qed

subsection \<open>Properties of the log store\<close>

definition batch_ok :: "LogRecord list \<Rightarrow> LogSegmentStore \<Rightarrow> bool" where
  \<comment> \<open>a batch may follow: checksummed records at ascending positions above the stored ones\<close>
  "batch_ok rs st \<longleftrightarrow>
     list_all (\<lambda>r. log_ok r \<and> unat (Position r) < seq_limit) rs \<and>
     sorted_wrt (\<lambda>a b. Position a < Position b) rs \<and>
     (case rs of [] \<Rightarrow> True | r # _ \<Rightarrow> next_ok (Position r) st)"

lemma append_records_ok:
  assumes "append_records rs st s = (None, st', s')" "store_ok LogRecord_Encode log_ok Position st s rss"
    and "batch_ok rs st" "settled st s"
  shows "\<exists>rss'. store_ok LogRecord_Encode log_ok Position st' s' rss' \<and> concat rss' = concat rss @ rs \<and>
    same_config st st' \<and> settled st' s'"
  using assms
proof (induction rs arbitrary: st s rss)
  case Nil
  then show ?case by (auto simp: same_config_def)
next
  case (Cons r rs)
  from Cons.prems(1) obtain st1 s1 where a: "append_encoded (LogRecord_Encode r) (Position r) st s = (None, st1, s1)"
    and rest: "append_records rs st1 s1 = (None, st', s')"
    by (auto split: prod.splits option.splits)
  have r: "log_ok r" "next_ok (Position r) st" using Cons.prems(3) by (simp_all add: batch_ok_def)
  from append_encoded_ok [OF a Cons.prems(2) r] obtain rss1 where
    ok1: "store_ok LogRecord_Encode log_ok Position st1 s1 rss1" and c: "concat rss1 = concat rss @ [r]"
      "same_config st st1" and below: "list_all (\<lambda>m. LastSeq m \<le> Position r) (segment_metas st1)"
    by blast
  have set1: "settled st1 s1" by (rule append_encoded_settled [OF a Cons.prems(2) r(2) Cons.prems(4)])
  have "batch_ok rs st1"
  proof -
    have "next_ok (Position r') st1" if "rs = r' # rs'" for r' rs'
      using Cons.prems(3) that below
      by (intro next_okI) (auto simp: batch_ok_def list_all_iff intro: le_less_trans)
    then show ?thesis using Cons.prems(3) by (auto simp: batch_ok_def split: list.splits)
  qed
  from Cons.IH [OF rest ok1 this set1] c show ?case
    by (auto intro: same_config_trans)
qed

lemma AppendBatch_ok:
  assumes ok: "store_ok LogRecord_Encode log_ok Position st s rss"
    and "settled st s" "\<not> noFsync st" "batch_ok rs st" "rs \<noteq> []" "AppendBatch rs st s = (None, st', s')"
  shows "\<exists>rss'. store_ok LogRecord_Encode log_ok Position st' s' rss' \<and> concat rss' = concat rss @ rs \<and>
    same_config st st' \<and> store_synced st' s'"
proof -
  from assms(5,6) obtain s1 where a: "append_records rs st s = (None, st', s1)" and sy: "sync_active st' s1 = (None, s')"
    by (auto simp: AppendBatch_def split: prod.splits option.splits)
  from append_records_ok [OF a ok assms(4,2)] obtain rss' where
    ok': "store_ok LogRecord_Encode log_ok Position st' s1 rss'" and c: "concat rss' = concat rss @ rs"
      and cfg: "same_config st st'" and "settled st' s1" by blast
  with assms(3) sync_active_synced [OF sy _ ok'] show ?thesis
    by (auto simp: same_config_def)
qed

text \<open>C1: A batch that \<^verbatim>\<open>LogSegmentStore.AppendBatch\<close> acknowledges is stored and survives every
  crash. If the call returns nil, the records of the store are the old ones followed by the
  batch, over however many files, and reopening after any crash returns exactly these records.\<close>

theorem log_append_batch_durable:
  assumes "log_store_ok st s" "settled st s" "\<not> noFsync st" "filePrefix st \<noteq> ''''"
    and "batch_ok rs st" "rs \<noteq> []" "AppendBatch rs st s = (None, st', s')"
  shows "log_store_ok st' s' \<and> log_records st' s' = log_records st s @ rs \<and> settled st' s' \<and>
    (\<exists>st2 s2. NewLogSegmentStore (dir st) (filePrefix st) mx acc nofs (crash keep (s'\<lparr>faults := []\<rparr>)) =
      (Inr (st2, log_records st s @ rs), s2) \<and> log_store_ok st2 s2)"
proof -
  from log_storeD [OF assms(1)] obtain rss where ok: "store_ok LogRecord_Encode log_ok Position st s rss"
    and rs: "log_records st s = concat rss" by blast
  from AppendBatch_ok [OF ok assms(2,3,5-7)] obtain rss' where c: "concat rss' = concat rss @ rs"
    and ok2: "store_ok LogRecord_Encode log_ok Position st' s' rss'" and cfg: "same_config st st'"
    and synced: "store_synced st' s'" by blast
  have "\<exists>st2 s2. NewLogSegmentStore (dir st) (filePrefix st) mx acc nofs (crash keep (s'\<lparr>faults := []\<rparr>)) =
      (Inr (st2, concat rss @ rs), s2) \<and> log_store_ok st2 s2"
    using log_store.reopen_synced [OF ok2 synced, of "''log''" mx acc nofs keep] cfg assms(4) log_storeI
    unfolding NewLogSegmentStore_def ScanLogSegmentFile_def same_config_def c by metis
  moreover have "settled st' s'"
    using synced by (auto simp: settled_def store_synced_def list_all_iff)
  ultimately show ?thesis
    using log_storeI [OF ok2] by (simp add: rs c)
qed

definition sample_log :: "uint64 \<Rightarrow> LogRecord" where
  "sample_log p = (let r = \<lparr>Position = p, StreamID = 7, StreamSeq = p, Payload = [5], CRC32C = 0\<rparr>
                   in r\<lparr>CRC32C := LogRecord_ComputeCRC32C r\<rparr>)"

lemma sample_log [simp]: "log_ok (sample_log p)" "Position (sample_log p) = p"
  by (simp_all add: sample_log_def log_ok_def Let_def LogRecord_ComputeCRC32C_def)

lemma append_encoded_active:
  assumes "append_encoded d q st s = (None, st', s')" "active_ok st"
  shows "active_ok st'"
proof -
  have rot: "active_ok st1" if "rotateLocked q st s = (None, st1, s1)" for st1 s1
    using that by (auto simp: rotateLocked_def Let_def active_ok_def push_segment_def split: prod.splits option.splits)
  have "active_ok st'" if "write_active d q st1 s1 = (None, st', s')" "active_ok st1" for st1 s1
    using that by (auto simp: write_active_def active_ok_def note_record_def split: prod.splits option.splits)
  with assms rot show ?thesis
    by (auto simp: append_encoded_def split: prod.splits option.splits if_splits)
qed

lemma AppendBatch_clean:
  assumes "faults s = []" "active_ok st"
  shows "\<exists>st' s'. AppendBatch rs st s = (None, st', s') \<and> faults s' = []"
proof -
  have "\<exists>st' s'. append_records rs st s = (None, st', s') \<and> faults s' = []"
    using assms
  proof (induction rs arbitrary: st s)
    case (Cons r rs)
    from append_encoded_clean [OF Cons.prems, of "LogRecord_Encode r" "Position r"] obtain st1 s1 where
      a: "append_encoded (LogRecord_Encode r) (Position r) st s = (None, st1, s1)" "faults s1 = []" by blast
    with Cons.IH [OF a(2) append_encoded_active [OF a(1) Cons.prems(2)]] show ?case by simp
  qed simp
  then obtain st' s' where "append_records rs st s = (None, st', s')" "faults s' = []" by blast
  then show ?thesis
    using assms(1) by (auto simp: AppendBatch_def sync_active_def file_Sync_def split: option.splits)
qed

lemma empty_settled [simp]: "settled empty_store s" "active_ok empty_store" "noFsync empty_store = False"
  "filePrefix empty_store = ''stream''" "dir empty_store = ''/w''"
  by (simp_all add: settled_def empty_store_def active_ok_def)

lemma sample_batch [simp]: "batch_ok [sample_log 1, sample_log 2] empty_store"
  by (simp add: batch_ok_def seq_limit_def)

definition log_two :: "SegmentStore \<times> fs" where
  "log_two = snd (AppendBatch [sample_log 1, sample_log 2] empty_store (disk []))"

lemma log_two:
  "AppendBatch [sample_log 1, sample_log 2] empty_store (disk []) = (None, fst log_two, snd log_two)"
  "faults (snd log_two) = []"
  using AppendBatch_clean [of "disk []" empty_store "[sample_log 1, sample_log 2]"] by (auto simp: log_two_def)

theorem log_append_batch_durable_witness:
  "\<exists>st2 s2. NewLogSegmentStore ''/w'' ''stream'' 64 False False (crash (\<lambda>_. 0) (snd log_two)) =
      (Inr (st2, [sample_log 1, sample_log 2]), s2) \<and> log_store_ok st2 s2"
proof -
  have "(snd log_two)\<lparr>faults := []\<rparr> = snd log_two" using log_two(2) by simp
  with log_append_batch_durable [OF _ _ _ _ _ _ log_two(1), of 64 False False "\<lambda>_. 0"] show ?thesis
    by simp
qed

lemma log_two_ok: "log_store_ok (fst log_two) (snd log_two)"
  "log_records (fst log_two) (snd log_two) = [sample_log 1, sample_log 2]"
  using AppendBatch_ok [OF empty_store_ok _ _ _ _ log_two(1)] log_storeI by force+

lemma visit_filter: "visit pos fn rs c = visit 0 fn (filter (\<lambda>r. pos \<le> Position r) rs) c"
  by (induction rs arbitrary: c) (auto split: prod.splits option.splits)

text \<open>C8: The binary search of \<^verbatim>\<open>LogSegmentStore.ReadFrom\<close> skips nothing. On a well-formed store the
  callback runs on exactly the records at or above the position, in order, until it returns an
  error, as a scan of all records would do.\<close>

theorem log_read_from_linear:
  assumes "log_store_ok st s" "faults s = []"
  shows "ReadFrom position fn st c s =
      (case visit 0 fn (filter (\<lambda>r. position \<le> Position r) (log_records st s)) c of (e, c) \<Rightarrow> (e, c, s))"
proof -
  from log_storeD [OF assms(1)] obtain rss where ok: "store_ok LogRecord_Encode log_ok Position st s rss"
    and rs: "log_records st s = concat rss" by blast
  show ?thesis
    unfolding ReadFrom_linear [OF ok assms(2)] rs by (subst visit_filter) simp
qed

theorem log_read_from_linear_witness:
  "fst (snd (ReadFrom 2 (\<lambda>r c. (None, c @ [r])) (fst log_two) [] (snd log_two))) = [sample_log 2]"
  using log_read_from_linear [OF log_two_ok(1) log_two(2), of 2 "\<lambda>r c. (None, c @ [r])" "[]"]
  by (simp add: log_two_ok(2) visit_collect word_le_nat_alt)

text \<open>C9: \<^verbatim>\<open>LogSegmentStore.DeleteSegmentsThrough\<close> is safe and enforces the retention budget. Whatever the
  faults, it returns nil, keeps the store well formed, and keeps every record above the flushed
  position; without faults the segments that remain fit into \<open>maxRetainedBytes\<close>, or each of them is
  active or holds an unflushed record.\<close>

theorem log_delete_through:
  assumes "log_store_ok st s" "DeleteSegmentsThrough pos mx st s = (e, st', s')"
  shows "e = None \<and> log_store_ok st' s' \<and> set (log_records st' s') \<subseteq> set (log_records st s) \<and>
    filter (\<lambda>r. pos < Position r) (log_records st' s') = filter (\<lambda>r. pos < Position r) (log_records st s) \<and>
    (faults s = [] \<longrightarrow> total_bytes st' \<le> mx \<or>
      list_all (\<lambda>p. activeMeta st' = Some p \<or> LastSeq (metas st' p) > pos) (segments st'))"
proof -
  from log_storeD [OF assms(1)] obtain rss where ok: "store_ok LogRecord_Encode log_ok Position st s rss"
    and rs: "log_records st s = concat rss" by blast
  from DeleteSegmentsThrough_ok [OF assms(2) ok] obtain rss' where "e = None"
    "store_ok LogRecord_Encode log_ok Position st' s' rss'" "set (concat rss') \<subseteq> set (concat rss)"
    "filter (\<lambda>r. pos < Position r) (concat rss') = filter (\<lambda>r. pos < Position r) (concat rss)"
    by blast
  with log_storeI [of st' s' rss'] DeleteSegmentsThrough_retention [OF _ assms(2)]
  show ?thesis unfolding rs by simp
qed

theorem log_delete_through_witness:
  "case DeleteSegmentsThrough 1 10 (fst log_two) (snd log_two) of
     (e, st', s') \<Rightarrow> e = None \<and> log_store_ok st' s' \<and>
       filter (\<lambda>r. 1 < Position r) (log_records st' s') = [sample_log 2]"
  using log_delete_through [OF log_two_ok(1)] by (auto simp: log_two_ok(2) split: prod.splits)

end
