(* ===== verification/WalFindings.thy ===== *)
theory WalFindings
  imports WalProps
begin

text \<open>
  Two behaviours of the segment stores of \<^verbatim>\<open>pkg/wal/segment.go\<close> under faults that the recovery
  scan does not make up for: a write that is cut short leaves bytes in front of the next record,
  and a crash inside the header of a new file leaves a file that no store opens.
\<close>

subsection \<open>A write cut short\<close>

lemma client_magic_bytes: "PutUint ClientMagicBytes = [0x57, 0x41, 0x4C, 0x43]"
proof -
  have "ClientMagicBytes = Uint [0x57, 0x41, 0x4C, 0x43]"
    by (simp add: Uint_def be_val_def ClientMagicBytes_def)
  then show ?thesis
    using PutUint_Uint [of "[0x57, 0x41, 0x4C, 0x43]", where 'a = 32] by simp
qed

lemma decode_after_torn_byte:
  "DecodeClientRecord (0x57 # client_enc r) = Inl ErrCorruptedRecord"
proof -
  obtain rest where e: "client_enc r = [0x57, 0x41, 0x4C, 0x43] @ rest"
    by (simp add: client_enc_def ClientRecord_Encode_def Let_def client_magic_bytes)
  have len: "36 \<le> length (client_enc r)" by (simp add: length_client_enc)
  have rf: "ReadFull ClientHeaderSize (0x57 # client_enc r) =
      ReadOk (take 36 (0x57 # client_enc r)) (drop 36 (0x57 # client_enc r))"
    using len by (simp add: ReadFull_def header_sizes)
  have "Prelude.slice (take 36 (0x57 # client_enc r)) 0 4 = [0x57, 0x57, 0x41, 0x4C]"
    by (simp add: Prelude.slice_def e)
  moreover have "(Uint [0x57, 0x57, 0x41, 0x4C] :: 32 word) \<noteq> ClientMagicBytes"
    by (simp add: Uint_def be_val_def ClientMagicBytes_def)
  ultimately show ?thesis
    by (simp add: DecodeClientRecord_def rf)
qed

lemma distinct_singleton: "set xs = {a} \<Longrightarrow> distinct xs \<Longrightarrow> xs = [a]"
  by (cases xs; cases "tl xs") auto

lemma wal_files_single:
  assumes "is_wal_name prefix n" "\<And>q. get_file q s \<noteq> None \<longleftrightarrow> q = PathJoin d n"
  shows "wal_files d prefix (dir_list d s) = [PathJoin d n]"
proof -
  have "set (wal_files d prefix (dir_list d s)) = {PathJoin d n}"
    unfolding set_eq_iff set_wal_files assms(2) using assms(1) by auto
  then show ?thesis
    using distinct_wal_files [of d prefix s] by (intro distinct_singleton)
qed

lemma reopen_single:
  assumes clean: "faults s = []" and P: "P = segmentFilename empty_store q"
    and fl: "\<And>p. get_file p s = (if p = P then Some x else None)"
    and data: "fdata x = segment_header @ body" and corrupt: "DecodeClientRecord body = Inl e"
  shows "\<exists>st' s'. NewClientSegmentStore ''/w'' ''stream'' 64 False False s = (Inr (st', []), s')"
proof -
  have P': "P = PathJoin ''/w'' (segment_name ''stream'' q)"
    unfolding P segmentFilename_eq by simp
  have "is_wal_name ''stream'' (segment_name ''stream'' q)" by (rule is_wal_name_segment_name) simp
  then have fs: "wal_files ''/w'' ''stream'' (dir_list ''/w'' s) = [P]"
    unfolding P' by (rule wal_files_single) (simp add: fl P')
  have "recovered DecodeClientRecord s P = []"
    using fl data corrupt by (simp add: recovered_def decode_loop.simps)
  moreover have "recoverable s P" using fl data by (simp add: recoverable_def)
  moreover have "HasSuffix P ''.wal''" using wal_files_suffix [of P "''/w''" "''stream''" s] fs by simp
  ultimately show ?thesis
    using client_store.open_segments_ok [of s "[P]" "\<lparr>dir = ''/w'', maxSegmentSize = 64, filePrefix = ''stream'',
        acceptUnversioned = False, noFsync = False, activeFile = None, activeMeta = None, segments = [],
        metas = (\<lambda>_. ZeroMeta), nextMeta = 0\<rparr>" False "[]"] clean fs
    by (auto simp: NewClientSegmentStore_def new_segment_store_def ScanClientSegmentFile_def os_MkdirAll_def os_ReadDir_def)
qed

definition torn_disk :: fs where
  \<comment> \<open>the third call, the write of the first record, stores one byte and fails\<close>
  "torn_disk = disk [NoFault, NoFault, Short 1]"

lemma pop_disk [simp]: "pop_fault (disk (f # fs)) = (f, disk fs)"
  by (simp add: pop_fault_def disk_def)

lemma pop_set_file [simp]: "pop_fault (set_file p x s) = (fst (pop_fault s), set_file p x (snd (pop_fault s)))"
  by (simp add: pop_fault_def set_file_def split: list.splits)

lemma get_disk [simp]: "get_file p (disk fs) = None"
  by (simp add: disk_def get_file_def)

lemma set_set_file [simp]: "set_file p a (set_file p b s) = set_file p a s"
  by (simp add: set_file_def)

lemma torn_append:
  assumes P: "P = segmentFilename empty_store (crStreamSeq r)"
  shows "\<exists>st1 s1. ClientSegmentStore_Append r empty_store torn_disk = (Some ErrIO, sealed_record r, st1, s1) \<and>
    faults s1 = [] \<and> activeFile st1 = Some P \<and> activeMeta st1 = Some 0 \<and> RecordCount (metas st1 0) = 0 \<and>
    noFsync st1 = False \<and>
    (\<exists>x. fdata x = segment_header @ [0x57] \<and> (\<forall>p. get_file p s1 = (if p = P then Some x else None)))"
proof -
  define s1 where "s1 = set_file P \<lparr>fdata = segment_header, synced = 0\<rparr> (disk [Short 1])"
  define st1 where "st1 = (push_segment \<lparr>Path = P, FirstSeq = crStreamSeq r, LastSeq = crStreamSeq r,
    Size = length segment_header, RecordCount = 0\<rparr> empty_store)\<lparr>activeFile := Some P, activeMeta := Some 0\<rparr>"
  have e: "activeFile empty_store = None" "nextMeta empty_store = 0" by (simp_all add: empty_store_def)
  have rot: "rotateLocked (crStreamSeq r) empty_store torn_disk = (None, st1, s1)"
    unfolding s1_def st1_def
    by (simp add: rotateLocked_def close_active_def e torn_disk_def os_OpenAppend_def file_Write_def append_file_def
        flip: P segment_header_def)
  have first: "take 1 (client_enc (sealed_record r)) = [0x57]"
    by (simp add: client_enc_def ClientRecord_Encode_def Let_def client_magic_bytes)
  have "write_active (client_enc (sealed_record r)) (crStreamSeq r) st1 s1 =
      (Some ErrIO, st1, set_file P \<lparr>fdata = segment_header @ [0x57], synced = 0\<rparr> (disk []))"
    unfolding s1_def by (simp add: st1_def write_active_def file_Write_def append_file_def first [unfolded One_nat_def])
  moreover have "must_rotate n empty_store" for n by (simp add: must_rotate_def e)
  ultimately show ?thesis
    using rot by (simp add: ClientSegmentStore_Append_eq append_encoded_def sealed_record)
      (simp add: st1_def push_segment_def e empty_store_def)
qed

text \<open>C14: A short write in front of an acknowledged record loses it. When the write of one record
  fails after its first byte, \<^verbatim>\<open>Append\<close> reports the error but leaves the byte in the file and the
  file active; the next \<^verbatim>\<open>Append\<close> and \<^verbatim>\<open>Sync\<close> both return nil, and reopening the directory then
  returns no record at all.\<close>

theorem client_short_write_loses_synced:
  "\<exists>st1 s1 st2 s2 s3 st4 s4.
     ClientSegmentStore_Append r1 empty_store torn_disk = (Some ErrIO, sealed_record r1, st1, s1) \<and>
     ClientSegmentStore_Append r2 st1 s1 = (None, sealed_record r2, st2, s2) \<and>
     ClientSegmentStore_Sync st2 s2 = (None, s3) \<and>
     NewClientSegmentStore ''/w'' ''stream'' 64 False False s3 = (Inr (st4, []), s4)"
proof -
  define P where "P = segmentFilename empty_store (crStreamSeq r1)"
  obtain st1 s1 x where a1: "ClientSegmentStore_Append r1 empty_store torn_disk = (Some ErrIO, sealed_record r1, st1, s1)"
    and s1: "faults s1 = []" "activeFile st1 = Some P" "activeMeta st1 = Some 0" "RecordCount (metas st1 0) = 0"
      "noFsync st1 = False" "fdata x = segment_header @ [0x57]" "\<And>p. get_file p s1 = (if p = P then Some x else None)"
    using torn_append [OF P_def] by blast
  define d where "d = client_enc (sealed_record r2)"
  define st2 where "st2 = st1\<lparr>metas := (metas st1)(0 := note_record (crStreamSeq r2) (length d) (metas st1 0))\<rparr>"
  define s2 where "s2 = set_file P (x\<lparr>fdata := fdata x @ d\<rparr>) s1"
  define s3 where "s3 = set_file P (x\<lparr>fdata := fdata x @ d, synced := length (fdata x @ d)\<rparr>) s2"
  have a2: "ClientSegmentStore_Append r2 st1 s1 = (None, sealed_record r2, st2, s2)"
    using s1 by (simp add: ClientSegmentStore_Append_eq append_encoded_def must_rotate_def active_meta_def write_active_def
        file_Write_def append_file_def st2_def s2_def d_def sealed_record)
  have a3: "ClientSegmentStore_Sync st2 s2 = (None, s3)"
    using s1 by (simp add: ClientSegmentStore_Sync_def sync_active_def st2_def file_Sync_def s2_def s3_def)
  have "\<exists>st4 s4. NewClientSegmentStore ''/w'' ''stream'' 64 False False s3 = (Inr (st4, []), s4)"
  proof (rule reopen_single [OF _ P_def])
    show "faults s3 = []" using s1(1) by (simp add: s3_def s2_def)
    show "get_file p s3 = (if p = P then Some (x\<lparr>fdata := fdata x @ d, synced := length (fdata x @ d)\<rparr>) else None)" for p
      using s1(7) by (simp add: s3_def s2_def)
    show "fdata (x\<lparr>fdata := fdata x @ d, synced := length (fdata x @ d)\<rparr>) = segment_header @ (0x57 # d)"
      using s1(6) by simp
    show "DecodeClientRecord (0x57 # d) = Inl ErrCorruptedRecord"
      by (simp add: d_def decode_after_torn_byte)
  qed
  with a1 a2 a3 show ?thesis by blast
qed

subsection \<open>A crash inside a header\<close>

lemma clean_append:
  assumes P: "P = segmentFilename empty_store (crStreamSeq r)"
  shows "\<exists>st1 s1. ClientSegmentStore_Append r empty_store (disk []) = (None, sealed_record r, st1, s1) \<and>
    faults s1 = [] \<and> (\<exists>x. fdata x = segment_header @ client_enc (sealed_record r) \<and> synced x = 0 \<and>
      (\<forall>p. get_file p s1 = (if p = P then Some x else None)))"
proof -
  define s1 where "s1 = set_file P \<lparr>fdata = segment_header, synced = 0\<rparr> (disk [])"
  define st1 where "st1 = (push_segment \<lparr>Path = P, FirstSeq = crStreamSeq r, LastSeq = crStreamSeq r,
    Size = length segment_header, RecordCount = 0\<rparr> empty_store)\<lparr>activeFile := Some P, activeMeta := Some 0\<rparr>"
  have e: "activeFile empty_store = None" "nextMeta empty_store = 0" by (simp_all add: empty_store_def)
  have rot: "rotateLocked (crStreamSeq r) empty_store (disk []) = (None, st1, s1)"
    unfolding s1_def st1_def
    by (simp add: rotateLocked_def close_active_def e os_OpenAppend_def file_Write_def append_file_def
        flip: P segment_header_def)
  define s2 where "s2 = set_file P \<lparr>fdata = segment_header @ client_enc (sealed_record r), synced = 0\<rparr> (disk [])"
  have "\<exists>st2. write_active (client_enc (sealed_record r)) (crStreamSeq r) st1 s1 = (None, st2, s2)"
    unfolding s1_def s2_def by (simp add: st1_def write_active_def file_Write_def append_file_def)
  moreover have "must_rotate n empty_store" for n by (simp add: must_rotate_def e)
  ultimately have "\<exists>st2. ClientSegmentStore_Append r empty_store (disk []) = (None, sealed_record r, st2, s2)"
    using rot by (auto simp: ClientSegmentStore_Append_eq append_encoded_def sealed_record)
  moreover have "faults s2 = []" by (simp add: s2_def)
  moreover have "\<forall>p. get_file p s2 =
      (if p = P then Some \<lparr>fdata = segment_header @ client_enc (sealed_record r), synced = 0\<rparr> else None)"
    by (simp add: s2_def)
  ultimately show ?thesis by (metis ofile.select_convs)
qed

text \<open>C15: A crash inside the header of a new file makes the directory unopenable. After an append
  to an empty store on a disk without faults, a crash that keeps between 1 and 15 bytes of the
  new file makes \<^verbatim>\<open>NewClientSegmentStore\<close> fail with \<^verbatim>\<open>ErrTruncatedSegmentHeader\<close>, and it leaves the
  file as it is, so that every later attempt fails as well.\<close>

theorem client_torn_header_unopenable:
  assumes "0 < k" "k < 16"
  shows "\<exists>st1 s1 s2. ClientSegmentStore_Append r empty_store (disk []) = (None, sealed_record r, st1, s1) \<and>
    NewClientSegmentStore ''/w'' ''stream'' mx acc nofs (crash (\<lambda>_. k) s1) = (Inl ErrTruncatedSegmentHeader, s2) \<and>
    same_files (crash (\<lambda>_. k) s1) s2"
proof -
  define P where "P = segmentFilename empty_store (crStreamSeq r)"
  have P': "P = PathJoin ''/w'' (segment_name ''stream'' (crStreamSeq r))"
    unfolding P_def segmentFilename_eq by simp
  obtain st1 s1 x where a: "ClientSegmentStore_Append r empty_store (disk []) = (None, sealed_record r, st1, s1)"
    and s1: "faults s1 = []" "fdata x = segment_header @ client_enc (sealed_record r)" "synced x = 0"
      "\<And>p. get_file p s1 = (if p = P then Some x else None)"
    using clean_append [OF P_def] by blast
  let ?s = "crash (\<lambda>_. k) s1"
  have "is_wal_name ''stream'' (segment_name ''stream'' (crStreamSeq r))" by (rule is_wal_name_segment_name) simp
  then have fs: "wal_files ''/w'' ''stream'' (dir_list ''/w'' s1) = [P]"
    unfolding P' by (rule wal_files_single) (simp add: s1(4) P')
  have o: "os_Open P ?s = (Inr (take k segment_header), ?s)"
    using s1 assms(2) by (simp add: os_Open_def get_file_crash crash_file_def)
  have "ReadSegmentHeader (take k segment_header) acc = Inl ErrTruncatedSegmentHeader"
    unfolding segment_header_def by (rule ReadSegmentHeader_torn [OF assms]) (simp add: DefaultSegmentHeader_def)
  then have "ScanClientSegmentFile P acc ?s = (Inl ErrTruncatedSegmentHeader, ?s)"
    using s1(1) by (simp add: ScanClientSegmentFile_def scan_segment_file_def o CloseWithErr_def file_Close_def)
  then have "NewClientSegmentStore ''/w'' ''stream'' mx acc nofs ?s = (Inl ErrTruncatedSegmentHeader, ?s)"
    using s1(1) fs by (simp add: NewClientSegmentStore_def new_segment_store_def os_MkdirAll_def os_ReadDir_def)
  with a show ?thesis by auto
qed

theorem client_torn_header_unopenable_witness:
  "\<exists>st1 s1 s2. ClientSegmentStore_Append sample_record empty_store (disk []) = (None, sealed_record sample_record, st1, s1) \<and>
    NewClientSegmentStore ''/w'' ''stream'' 64 False False (crash (\<lambda>_. 4) s1) = (Inl ErrTruncatedSegmentHeader, s2)"
  using client_torn_header_unopenable [of 4 sample_record 64 False False] by auto

end
