(* ===== verification/Blob.thy ===== *)
theory Blob
  imports FileSystem
begin

text \<open>
  The blob formats of \<^verbatim>\<open>pkg/objectfs/blob/blob.go\<close>: the file header, encoding a byte stream with
  optional compression, standalone ("loose") blob files, manifests of chunked blobs and the
  chunking itself.

  A \<^verbatim>\<open>ByteStream\<close> is the bytes it yields after \<^verbatim>\<open>Rewind\<close>. The temporary files that back a large
  stream are private to it, so they do not appear in the file system; the calls that handle them
  do take their turn in the script of faults. The hash and the compressor are parameters
  (\<open>lib\<close>), and \<open>zlib_ok\<close> is the documented law of the compressor.
\<close>

record lib =
  Sum256 :: "bytes \<Rightarrow> sha256"
  deflate :: "bytes \<Rightarrow> bytes"
    \<comment> \<open>what a \<open>zlib.Writer\<close> has written after \<open>Close\<close>\<close>
  inflate :: "bytes \<Rightarrow> error + (error + bytes)"
    \<comment> \<open>\<open>zlib.NewReader\<close> fails, or the reader it returns fails at some byte or yields the data\<close>

definition zlib_ok :: "lib \<Rightarrow> bool" where
  \<comment> \<open>decompression inverts compression, and a stream without a header is refused\<close>
  "zlib_ok L \<longleftrightarrow> (\<forall>d. inflate L (deflate L d) = Inr (Inr d)) \<and> (\<exists>e. inflate L [] = Inl e)"

subsection \<open>Constants\<close>

definition Magic :: uint32 where "Magic = 0x4F424A42"
definition VersionV1 :: byte where "VersionV1 = 1"
definition VersionV2 :: byte where "VersionV2 = 2"
definition FileTypeBlob :: byte where "FileTypeBlob = 1"
definition FileTypePack :: byte where "FileTypePack = 2"
definition EncodingRaw :: uint32 where "EncodingRaw = 0"
definition EncodingCompressed :: uint32 where "EncodingCompressed = 1"
definition EncodingChunked :: uint32 where "EncodingChunked = 2"
definition FileHeaderSize :: nat where "FileHeaderSize = 8"
definition ManifestHeaderSize :: nat where "ManifestHeaderSize = 24"
definition SingleBlobHeaderSize :: nat where "SingleBlobHeaderSize = 64"
definition BlobItemHeaderSize :: nat where "BlobItemHeaderSize = 16"
definition MemoryThreshold :: nat where "MemoryThreshold = 256 * 1024"

lemmas blob_consts =
  Magic_def VersionV1_def VersionV2_def FileTypeBlob_def FileTypePack_def
  EncodingRaw_def EncodingCompressed_def EncodingChunked_def FileHeaderSize_def
  ManifestHeaderSize_def SingleBlobHeaderSize_def BlobItemHeaderSize_def

lemma versions_distinct: "VersionV2 \<noteq> VersionV1"
  by (simp add: VersionV1_def VersionV2_def)

subsection \<open>Headers and entries\<close>

record FileHeader =
  fhMagic :: uint32
  fhVersion :: byte
  fhFileType :: byte
  fhReserved :: uint16

record BlobEntry =
  SHA256 :: sha256
  DataOffset :: uint32
  StoredLength :: uint32
  FinalLength :: uint32
  Encoding :: uint32

definition ParseFileHeader :: "bytes \<Rightarrow> error + FileHeader" where
  "ParseFileHeader data =
     (if length data < FileHeaderSize then Inl (ErrMsg ''truncated file header'')
      else let magic = Uint (slice data 0 4); ver = data ! 4; ft = data ! 5; reserved = Uint (slice data 6 8) in
        if magic \<noteq> Magic then Inl (ErrMsg ''invalid magic'')
        else if ver \<noteq> VersionV1 \<and> ver \<noteq> VersionV2 then Inl (ErrMsg ''unsupported version'')
        else if ft \<noteq> FileTypeBlob \<and> ft \<noteq> FileTypePack then Inl (ErrMsg ''unknown file type'')
        else Inr \<lparr>fhMagic = magic, fhVersion = ver, fhFileType = ft, fhReserved = reserved\<rparr>)"

definition BuildFileHeaderWithVersion :: "byte \<Rightarrow> byte \<Rightarrow> bytes" where
  "BuildFileHeaderWithVersion fileType version = PutUint Magic @ [version, fileType, 0, 0]"

lemma length_BuildFileHeader [simp]: "length (BuildFileHeaderWithVersion ft v) = 8"
  by (simp add: BuildFileHeaderWithVersion_def)

lemma ParseFileHeader_Build:
  "v = VersionV1 \<or> v = VersionV2 \<Longrightarrow> ft = FileTypeBlob \<or> ft = FileTypePack \<Longrightarrow>
   ParseFileHeader (BuildFileHeaderWithVersion ft v @ rest) =
     Inr \<lparr>fhMagic = Magic, fhVersion = v, fhFileType = ft, fhReserved = Uint [0, 0]\<rparr>"
  by (auto simp: ParseFileHeader_def BuildFileHeaderWithVersion_def FileHeaderSize_def Let_def
      slice_append_left slice_full nth_append slice_def)

subsection \<open>Encoding\<close>

record EncodedBlob =
  ebStream :: bytes
  ebStoredLength :: uint64
  ebFinalLength :: uint64
  ebSHA256 :: sha256
  ebEncoding :: uint32

definition os_op :: "fs \<Rightarrow> (error + unit) \<times> fs" where
  \<comment> \<open>a call on a private temporary file: it works or it meets a fault\<close>
  "os_op s = (case pop_fault s of (NoFault, s) \<Rightarrow> (Inr (), s) | (_, s) \<Rightarrow> (Inl ErrIO, s))"

definition temp_discard :: "fs \<Rightarrow> fs" where
  \<comment> \<open>\<open>errutil.CloseAndLog(f)\<close> and \<open>removeTempFileAndLog(f)\<close>: their errors are only logged\<close>
  "temp_discard s = snd (os_op (snd (os_op s)))"

definition temp_call :: "bool \<Rightarrow> fs \<Rightarrow> (error + unit) \<times> fs" where
  \<comment> \<open>a call on the temporary file, if there is one; when it fails the file is discarded\<close>
  "temp_call useTemp s =
     (if \<not> useTemp then (Inr (), s)
      else case os_op s of (Inr u, s) \<Rightarrow> (Inr u, s) | (Inl e, s) \<Rightarrow> (Inl e, temp_discard s))"

definition saves_enough :: "nat \<Rightarrow> nat \<Rightarrow> bool" where
  \<comment> \<open>\<open>float64(rawLen-outputLen) / float64(rawLen) >= 0.10\<close>: for lengths below \<open>2^49\<close> the rounding
      of the quotient never crosses the threshold, so the comparison is the one of the fractions\<close>
  "saves_enough rawLen outputLen \<longleftrightarrow> 10 * (int rawLen - int outputLen) \<ge> int rawLen"

definition raw_blob :: "lib \<Rightarrow> bytes \<Rightarrow> EncodedBlob" where
  "raw_blob L src =
     \<lparr>ebStream = src, ebStoredLength = word_of_nat (length src), ebFinalLength = word_of_nat (length src),
      ebSHA256 = Sum256 L src, ebEncoding = EncodingRaw\<rparr>"

definition EncodeBlob :: "lib \<Rightarrow> bytes \<Rightarrow> bool \<Rightarrow> fs \<Rightarrow> (error + EncodedBlob) \<times> fs" where
  "EncodeBlob L src compress s =
     (if \<not> compress \<or> length src = 0 then (Inr (raw_blob L src), s)
      else
        let useTemp = length src > MemoryThreshold; output = deflate L src in
        andThen (if useTemp then os_op s else (Inr (), s)) (\<lambda>_ s.  \<comment> \<open>os.CreateTemp\<close>
        andThen (temp_call useTemp s) (\<lambda>_ s.                      \<comment> \<open>io.Copy(zw, tee)\<close>
        andThen (temp_call useTemp s) (\<lambda>_ s.                      \<comment> \<open>zw.Close\<close>
        andThen (temp_call useTemp s) (\<lambda>_ s.                      \<comment> \<open>outputTempFile.Stat\<close>
        if saves_enough (length src) (length output) then
          andThen (temp_call useTemp s) (\<lambda>_ s.                    \<comment> \<open>outputTempFile.Seek\<close>
            (Inr \<lparr>ebStream = output, ebStoredLength = word_of_nat (length output),
                  ebFinalLength = word_of_nat (length src), ebSHA256 = Sum256 L src,
                  ebEncoding = EncodingCompressed\<rparr>, s))
        else (Inr (raw_blob L src), if useTemp then temp_discard s else s))))))"

definition EncodeLooseBlob :: "EncodedBlob \<Rightarrow> bytes" where
  \<comment> \<open>the bytes of the composite stream: a 64-byte header and the body\<close>
  "EncodeLooseBlob blob =
     BuildFileHeaderWithVersion FileTypeBlob VersionV1 @ PutUint (ebEncoding blob) @ PutUint (ebFinalLength blob) @
     PutUint (ebSHA256 blob) @ replicate 12 0 @ ebStream blob"

subsection \<open>Decoding\<close>

definition payload_reader :: "lib \<Rightarrow> bytes \<Rightarrow> uint32 \<Rightarrow> error + (error + bytes)" where
  "payload_reader L r encoding =
     (if encoding = EncodingCompressed then inflate L r
      else if encoding \<noteq> EncodingRaw \<and> encoding \<noteq> EncodingChunked then Inl (ErrMsg ''unsupported encoding'')
      else Inr (Inr r))"

definition decodePayloadToByteStream :: "lib \<Rightarrow> bytes \<Rightarrow> uint32 \<Rightarrow> int \<Rightarrow> fs \<Rightarrow> (error + bytes) \<times> fs" where
  "decodePayloadToByteStream L r encoding finalLen s =
     (case payload_reader L r encoding of
        Inl e \<Rightarrow> (Inl e, s)
      | Inr src \<Rightarrow>
          if 0 \<le> finalLen \<and> finalLen \<le> int MemoryThreshold then
            (case src of
               Inl e \<Rightarrow> (Inl e, s)
             | Inr d \<Rightarrow>
                 (case ReadFull (nat finalLen) d of
                    ReadEOF \<Rightarrow> (Inl ErrEOF, s)
                  | ReadShort _ \<Rightarrow> (Inl ErrUnexpectedEOF, s)
                  | ReadOk buf rest \<Rightarrow>
                      if rest \<noteq> [] then (Inl (ErrMsg ''decoded payload exceeds expected length''), s)
                      else (Inr buf, s)))
          else
            andThen (os_op s) (\<lambda>_ s.                                \<comment> \<open>os.CreateTemp\<close>
            andThen (temp_call True s) (\<lambda>_ s.                       \<comment> \<open>io.Copy(tf, src)\<close>
            case src of
              Inl e \<Rightarrow> (Inl e, temp_discard s)
            | Inr d \<Rightarrow>
                if int (length d) \<noteq> finalLen
                then (Inl (ErrMsg ''decoded payload length mismatch''), temp_discard s)
                else andThen (temp_call True s) (\<lambda>_ s. (Inr d, s)))))"  \<comment> \<open>tf.Seek\<close>

definition DecodeLooseBlob :: "lib \<Rightarrow> bytes \<Rightarrow> fs \<Rightarrow> (error + bytes \<times> BlobEntry) \<times> fs" where
  "DecodeLooseBlob L r s =
     (case ReadFull SingleBlobHeaderSize r of
        ReadEOF \<Rightarrow> (Inl ErrEOF, s)
      | ReadShort _ \<Rightarrow> (Inl ErrUnexpectedEOF, s)
      | ReadOk hdrBuf r \<Rightarrow>
          (case ParseFileHeader (slice hdrBuf 0 8) of
             Inl e \<Rightarrow> (Inl e, s)
           | Inr hdr \<Rightarrow>
               if fhFileType hdr \<noteq> FileTypeBlob then (Inl (ErrMsg ''unexpected file type''), s)
               else
                 let encoding = Uint (slice hdrBuf 8 12); finalLen = (Uint (slice hdrBuf 12 20) :: uint64);
                     expectedSHA = Uint (slice hdrBuf 20 52);
                     entry = \<lparr>SHA256 = expectedSHA, DataOffset = 0, StoredLength = 0,
                              FinalLength = ucast finalLen, Encoding = encoding\<rparr>
                 in andThen (decodePayloadToByteStream L r encoding (sint finalLen) s)
                      (\<lambda>stream s. (Inr (stream, entry), s))))"

subsection \<open>The calls on temporary files\<close>

definition io_ok :: "fs \<Rightarrow> (error + 'a) \<times> fs \<Rightarrow> bool" where
  \<comment> \<open>the files are as before, and only a fault makes the call fail\<close>
  "io_ok s r \<longleftrightarrow> same_files s (snd r) \<and> (faults s = [] \<longrightarrow> snd r = s) \<and>
     (\<forall>e. fst r = Inl e \<longrightarrow> e = ErrIO \<and> faults s \<noteq> [])"

lemma io_ok_andThen:
  assumes "io_ok s r" "\<And>x s'. r = (Inr x, s') \<Longrightarrow> io_ok s' (k x s')"
  shows "io_ok s (andThen r k)"
proof (cases r)
  case (Pair a s')
  then show ?thesis
    using assms by (cases a) (auto simp: io_ok_def intro: same_files_trans)
qed

lemma io_ok_Inr [simp]: "io_ok s (Inr x, s)"
  by (simp add: io_ok_def)

lemma os_op_io [simp]: "io_ok s (os_op s)"
  by (auto simp: io_ok_def os_op_def pop_fault_def same_files_def get_file_def split: list.splits fault.splits)

lemma os_op_clean: "faults s = [] \<Longrightarrow> os_op s = (Inr (), s)"
  by (simp add: os_op_def pop_fault_def)

lemma temp_discard_io: "same_files s (temp_discard s) \<and> (faults s = [] \<longrightarrow> temp_discard s = s)"
  using os_op_io [of s] os_op_io [of "snd (os_op s)"]
  by (auto simp: temp_discard_def io_ok_def intro: same_files_trans)

lemma io_ok_discard [simp]: "io_ok s (Inr x, temp_discard s)"
  by (simp add: io_ok_def temp_discard_io)

lemma temp_call_io [simp]: "io_ok s (temp_call b s)"
  using os_op_io [of s] temp_discard_io
  by (auto simp: temp_call_def io_ok_def split: prod.splits sum.splits intro: same_files_trans)

lemma temp_call_clean [simp]: "faults s = [] \<Longrightarrow> temp_call b s = (Inr (), s)"
  by (simp add: temp_call_def os_op_clean)

subsection \<open>What an encoded blob holds\<close>

definition encodes :: "lib \<Rightarrow> bytes \<Rightarrow> EncodedBlob \<Rightarrow> bool" where
  "encodes L d b \<longleftrightarrow>
     ebSHA256 b = Sum256 L d \<and> ebStoredLength b = word_of_nat (length (ebStream b)) \<and>
     ebFinalLength b = word_of_nat (length d) \<and> length (ebStream b) \<le> length d \<and>
     payload_reader L (ebStream b) (ebEncoding b) = Inr (Inr d)"

lemma raw_blob_encodes [simp]: "encodes L d (raw_blob L d)"
  by (simp add: encodes_def raw_blob_def payload_reader_def EncodingRaw_def EncodingCompressed_def)

lemma compressed_encodes:
  "zlib_ok L \<Longrightarrow> saves_enough (length d) (length (deflate L d)) \<Longrightarrow>
   encodes L d \<lparr>ebStream = deflate L d, ebStoredLength = word_of_nat (length (deflate L d)),
     ebFinalLength = word_of_nat (length d), ebSHA256 = Sum256 L d, ebEncoding = EncodingCompressed\<rparr>"
  by (auto simp: encodes_def payload_reader_def zlib_ok_def saves_enough_def)

lemma EncodeBlob_ok:
  assumes "zlib_ok L" "EncodeBlob L d compress s = (Inr b, s')"
  shows "encodes L d b"
  using assms(2)
  by (auto simp: EncodeBlob_def Let_def compressed_encodes [OF assms(1)] dest!: andThen_InrD split: if_splits)

lemma EncodeBlob_io: "io_ok s (EncodeBlob L d compress s)"
  by (auto simp: EncodeBlob_def Let_def intro!: io_ok_andThen)

lemma EncodeBlob_clean: "faults s = [] \<Longrightarrow> \<exists>b. EncodeBlob L d compress s = (Inr b, s)"
  using EncodeBlob_io [of s L d compress]
  by (cases "EncodeBlob L d compress s"; cases "fst (EncodeBlob L d compress s)") (auto simp: io_ok_def)

lemma decodePayload_InrD:
  "decodePayloadToByteStream L r enc n s = (Inr d, s') \<Longrightarrow>
   payload_reader L r enc = Inr (Inr d) \<and> n = int (length d)"
  by (auto simp: decodePayloadToByteStream_def dest!: andThen_InrD ReadFull_OkD split: sum.splits if_splits read.splits)

lemma decodePayload_io:
  "payload_reader L r enc = Inr (Inr d) \<Longrightarrow> io_ok s (decodePayloadToByteStream L r enc (int (length d)) s)"
  by (auto simp: decodePayloadToByteStream_def ReadFull_def intro!: io_ok_andThen)

lemma decodePayload_clean:
  "payload_reader L r enc = Inr (Inr d) \<Longrightarrow> faults s = [] \<Longrightarrow>
   decodePayloadToByteStream L r enc (int (length d)) s = (Inr d, s)"
  by (simp add: decodePayloadToByteStream_def ReadFull_def os_op_clean)

lemma decodePayload_result:
  assumes "encodes L d b"
  shows "case decodePayloadToByteStream L (ebStream b) (ebEncoding b) (int (length d)) s of
    (Inr x, _) \<Rightarrow> x = d | (Inl z, _) \<Rightarrow> z = ErrIO \<and> faults s \<noteq> []"
proof -
  have p: "payload_reader L (ebStream b) (ebEncoding b) = Inr (Inr d)" using assms by (simp add: encodes_def)
  obtain r s' where r: "decodePayloadToByteStream L (ebStream b) (ebEncoding b) (int (length d)) s = (r, s')"
    by (cases "decodePayloadToByteStream L (ebStream b) (ebEncoding b) (int (length d)) s")
  from decodePayload_io [OF p, of s] decodePayload_InrD [of L "ebStream b" "ebEncoding b" "int (length d)" s] p r show ?thesis
    by (cases r) (auto simp: io_ok_def)
qed

lemma sint_of_nat_small: "n < 2 ^ 63 \<Longrightarrow> sint (word_of_nat n :: uint64) = int n"
  proof -
  assume "n < 2 ^ 63"
  then have "uint (word_of_nat n :: uint64) = int n"
    by (simp add: unsigned_of_nat take_bit_nat_eq_self take_bit_int_eq_self)
  with \<open>n < 2 ^ 63\<close> show ?thesis
    by (simp add: sint_uint signed_take_bit_int_eq_self)
qed

lemma DecodeLooseBlob_Encode:
  assumes "encodes L d b" "length d < 2 ^ 63"
  shows "DecodeLooseBlob L (EncodeLooseBlob b) s =
    andThen (decodePayloadToByteStream L (ebStream b) (ebEncoding b) (int (length d)) s)
      (\<lambda>stream s. (Inr (stream, \<lparr>SHA256 = Sum256 L d, DataOffset = 0, StoredLength = 0,
         FinalLength = ucast (ebFinalLength b), Encoding = ebEncoding b\<rparr>), s))"
proof -
  let ?fh = "BuildFileHeaderWithVersion FileTypeBlob VersionV1"
  let ?h = "?fh @ PutUint (ebEncoding b) @ PutUint (ebFinalLength b) @ PutUint (ebSHA256 b) @ replicate 12 0"
  have r: "ReadFull SingleBlobHeaderSize (EncodeLooseBlob b) = ReadOk ?h (ebStream b)"
    using ReadFull_append [of ?h 64 "ebStream b"] by (simp add: EncodeLooseBlob_def SingleBlobHeaderSize_def)
  have f: "slice ?h 0 8 = ?fh" "slice ?h 8 12 = PutUint (ebEncoding b)"
    "slice ?h 12 20 = PutUint (ebFinalLength b)" "slice ?h 20 52 = PutUint (ebSHA256 b)"
    by (simp_all add: slice_def)
  have p: "ParseFileHeader ?fh = Inr \<lparr>fhMagic = Magic, fhVersion = VersionV1, fhFileType = FileTypeBlob, fhReserved = Uint [0, 0]\<rparr>"
    using ParseFileHeader_Build [of VersionV1 FileTypeBlob "[]"] by simp
  have "sint (ebFinalLength b) = int (length d)" "ebSHA256 b = Sum256 L d"
    using assms by (simp_all add: encodes_def sint_of_nat_small)
  then show ?thesis
    unfolding DecodeLooseBlob_def r read.case f p sum.case Let_def by simp
qed

subsection \<open>Manifests\<close>

record Manifest =
  ChunkSize :: uint32
  TotalLength :: uint64
  Chunks :: "sha256 list"

definition EncodeManifest :: "lib \<Rightarrow> Manifest \<Rightarrow> EncodedBlob" where
  "EncodeManifest L m =
     (let buf = PutUint (ChunkSize m) @ PutUint (0 :: uint32) @ PutUint (TotalLength m) @
                PutUint (word_of_nat (length (Chunks m)) :: uint32) @ PutUint (0 :: uint32) @
                concat (map PutUint (Chunks m))
      in \<lparr>ebStream = buf, ebStoredLength = word_of_nat (length buf), ebFinalLength = word_of_nat (length buf),
          ebSHA256 = Sum256 L buf, ebEncoding = EncodingChunked\<rparr>)"

definition DecodeManifest :: "bytes \<Rightarrow> error + Manifest" where
  "DecodeManifest r =
     (case ReadFull ManifestHeaderSize r of
        ReadEOF \<Rightarrow> Inl ErrEOF
      | ReadShort _ \<Rightarrow> Inl ErrUnexpectedEOF
      | ReadOk hdr r \<Rightarrow>
          let count = unat (Uint (slice hdr 16 20) :: uint32) in
          case ReadFull (count * 32) r of
            ReadEOF \<Rightarrow> Inl ErrEOF
          | ReadShort _ \<Rightarrow> Inl ErrUnexpectedEOF
          | ReadOk chunksBuf r \<Rightarrow>
              Inr \<lparr>ChunkSize = Uint (slice hdr 0 4), TotalLength = Uint (slice hdr 8 16),
                   Chunks = map (\<lambda>i. Uint (slice chunksBuf (i * 32) ((i + 1) * 32))) [0..<count]\<rparr>)"

lemma length_concat_same: "(\<And>x. length (f x) = k) \<Longrightarrow> length (concat (map f xs)) = length xs * k"
  by (induction xs) simp_all

lemma slice_concat_same:
  assumes "\<And>x. length (f x) = k" "i < length xs"
  shows "slice (concat (map f xs) @ ys) (i * k) (k + i * k) = f (xs ! i)"
  using assms(2)
proof (induction xs arbitrary: i)
  case (Cons x xs)
  show ?case
  proof (cases i)
    case 0
    then show ?thesis by (simp add: assms(1) slice_def)
  next
    case (Suc j)
    with Cons.IH [of j] Cons.prems show ?thesis
      by (simp add: assms(1) slice_def)
  qed
qed simp

lemma DecodeManifest_Encode:
  assumes "length (Chunks m) < 2 ^ 32"
  shows "DecodeManifest (ebStream (EncodeManifest L m) @ rest) = Inr m"
proof -
  let ?n = "length (Chunks m)"
  let ?h = "PutUint (ChunkSize m) @ PutUint (0 :: uint32) @ PutUint (TotalLength m) @
    PutUint (word_of_nat ?n :: uint32) @ PutUint (0 :: uint32)"
  let ?c = "concat (map PutUint (Chunks m)) :: bytes"
  have e: "ebStream (EncodeManifest L m) @ rest = ?h @ ?c @ rest"
    by (simp add: EncodeManifest_def Let_def)
  have n: "unat (word_of_nat ?n :: uint32) = ?n"
    using assms by (simp add: unat_of_nat)
  have h: "ReadFull ManifestHeaderSize (?h @ ?c @ rest) = ReadOk ?h (?c @ rest)"
    by (rule ReadFull_append) (simp add: ManifestHeaderSize_def)
  have c: "ReadFull (?n * 32) (?c @ rest) = ReadOk ?c rest"
    by (rule ReadFull_append) (simp add: length_concat_same [where k = 32])
  have f: "slice ?h 0 4 = PutUint (ChunkSize m)" "slice ?h 8 16 = PutUint (TotalLength m)"
    "slice ?h 16 20 = PutUint (word_of_nat ?n :: uint32)"
    by (simp_all add: slice_def)
  have "map (\<lambda>i. Uint (slice ?c (i * 32) ((i + 1) * 32)) :: sha256) [0..<?n] = map (\<lambda>i. Chunks m ! i) [0..<?n]"
    using slice_concat_same [where f = "PutUint :: sha256 \<Rightarrow> bytes" and k = 32 and ys = "[]" and xs = "Chunks m"]
    by (intro map_cong refl) simp
  then have "map (\<lambda>i. Uint (slice ?c (i * 32) ((i + 1) * 32)) :: sha256) [0..<?n] = Chunks m"
    by (simp add: map_nth)
  then show ?thesis
    unfolding DecodeManifest_def e h read.case f Let_def by (simp add: n c)
qed

subsection \<open>Chunking\<close>

function chunk_loop :: "lib \<Rightarrow> nat \<Rightarrow> bool \<Rightarrow> bytes \<Rightarrow> fs \<Rightarrow> (error + (bytes \<times> EncodedBlob) list) \<times> fs" where
  \<comment> \<open>the pairs of the data of a chunk and its encoding; \<open>ChunkBlobs\<close> refuses a chunk size of zero,
      with which the loop would not advance\<close>
  "chunk_loop L n compress src s =
     (if n = 0 then (Inl (Panic ''no progress''), s)
      else case ReadFull n src of
        ReadEOF \<Rightarrow> (Inr [], s)
      | ReadShort d \<Rightarrow> andThen (EncodeBlob L d compress s) (\<lambda>b s. (Inr [(d, b)], s))
      | ReadOk d src' \<Rightarrow>
          andThen (EncodeBlob L d compress s) (\<lambda>b s.
          andThen (chunk_loop L n compress src' s) (\<lambda>bs s. (Inr ((d, b) # bs), s))))"
  by auto
termination
  by (relation "measure (\<lambda>(L, n, compress, src, s). length src)") (auto dest!: ReadFull_OkD)

declare chunk_loop.simps [simp del]

definition ChunkBlobs ::
  "lib \<Rightarrow> bytes \<Rightarrow> uint32 \<Rightarrow> bool \<Rightarrow> fs \<Rightarrow> (error + EncodedBlob list \<times> Manifest \<times> EncodedBlob) \<times> fs" where
  "ChunkBlobs L src chunkSize compress s =
     (if chunkSize = 0 then (Inl (ErrMsg ''chunkSize must be greater than 0''), s)
      else andThen (chunk_loop L (unat chunkSize) compress src s) (\<lambda>bs s.
        let manifest = \<lparr>ChunkSize = chunkSize, TotalLength = sum_list (map (\<lambda>(d, b). word_of_nat (length d)) bs),
                        Chunks = map (\<lambda>(d, b). ebSHA256 b) bs\<rparr>
        in (Inr (map snd bs, manifest, EncodeManifest L manifest), s)))"

lemma chunk_loop_ok:
  assumes "zlib_ok L" "chunk_loop L n compress src s = (Inr bs, s')"
  shows "concat (map fst bs) = src \<and> list_all (\<lambda>(d, b). encodes L d b \<and> 0 < length d \<and> length d \<le> n) bs \<and>
    list_all (\<lambda>(d, b). length d = n) (butlast bs)"
  using assms
proof (induction L n compress src s arbitrary: bs s' rule: chunk_loop.induct)
  case (1 L n compress src s)
  note e = 1(3) [unfolded chunk_loop.simps [of L n compress src s]]
  from e have n: "n \<noteq> 0" by (auto split: if_splits)
  show ?case
  proof (cases "ReadFull n src")
    case ReadEOF
    with e n show ?thesis by (auto dest: ReadFull_EOFD)
  next
    case (ReadShort d)
    with e n obtain b where "bs = [(d, b)]" "encodes L d b"
      by (auto dest!: andThen_InrD intro: EncodeBlob_ok [OF 1(2)])
    with ReadFull_ShortD [OF ReadShort] show ?thesis by simp
  next
    case (ReadOk d rest)
    with e n obtain b bs' s1 s2 where *: "bs = (d, b) # bs'" "EncodeBlob L d compress s = (Inr b, s1)"
      "chunk_loop L n compress rest s1 = (Inr bs', s2)"
      by (auto dest!: andThen_InrD)
    from ReadFull_OkD [OF ReadOk] have d: "src = d @ rest" "length d = n" by auto
    then have "d \<noteq> []" using n by auto
    with 1(1) [OF n ReadOk 1(2) *(3)] d EncodeBlob_ok [OF 1(2) *(2)] show ?thesis
      by (simp add: *(1))
  qed
qed

lemma chunk_loop_io: "0 < n \<Longrightarrow> io_ok s (chunk_loop L n compress src s)"
proof (induction L n compress src s rule: chunk_loop.induct)
  case (1 L n compress src s)
  show ?case
    by (subst chunk_loop.simps) (use 1 in \<open>auto intro!: io_ok_andThen EncodeBlob_io split: read.splits\<close>)
qed

end
