(* ===== verification/Pack.thy ===== *)
theory Pack
  imports Blob
begin

text \<open>
  Packfiles: the reader side of \<^verbatim>\<open>pkg/objectfs/blob/blob.go\<close> (\<^verbatim>\<open>PackFile\<close>, \<^verbatim>\<open>DecodePackTable\<close>), the
  writers \<^verbatim>\<open>WritePackfile\<close>, \<^verbatim>\<open>WritePackfileWithSlots\<close> and \<^verbatim>\<open>WritePackfileV1\<close>, and the incremental pack
  of \<^verbatim>\<open>incremental_pack.go\<close>. An open file is its path in the file system; an entry that meets a
  fault in the middle of a write leaves a part of the bytes behind.
\<close>

definition PackV1HeaderSize :: nat where "PackV1HeaderSize = 16"
definition PackV2HeaderSize :: nat where "PackV2HeaderSize = 32"
definition PackV2SlotSize :: nat where "PackV2SlotSize = 48"
definition PackFlagSealed :: uint32 where "PackFlagSealed = 1"
definition DefaultPackSlots :: uint32 where "DefaultPackSlots = 1024"

lemmas pack_consts = PackV1HeaderSize_def PackV2HeaderSize_def PackV2SlotSize_def PackFlagSealed_def

subsection \<open>Reading packs\<close>

record PackFile =
  pfVersion :: byte
  pfSlots :: uint32
  pfFlags :: uint32
  pfEntries :: "BlobEntry list"

definition PackFile_Lookup :: "PackFile \<Rightarrow> sha256 \<Rightarrow> BlobEntry option" where
  "PackFile_Lookup p target =
     (let es = pfEntries p; idx = Search (length es) (\<lambda>i. SHA256 (es ! i) \<ge> target)
      in if idx < length es \<and> SHA256 (es ! idx) = target then Some (es ! idx) else None)"

definition computeStreamSHA256 :: "lib \<Rightarrow> bytes \<Rightarrow> sha256" where
  "computeStreamSHA256 L stream = Sum256 L stream"

definition DecodeBlobFromPayload :: "lib \<Rightarrow> bytes \<Rightarrow> BlobEntry \<Rightarrow> fs \<Rightarrow> (error + bytes) \<times> fs" where
  "DecodeBlobFromPayload L r entry s =
     (case ReadFull BlobItemHeaderSize r of
        ReadEOF \<Rightarrow> (Inl ErrEOF, s)
      | ReadShort _ \<Rightarrow> (Inl ErrUnexpectedEOF, s)
      | ReadOk itemHdr r \<Rightarrow>
          let encoding = Uint (slice itemHdr 0 4); finalLen = (Uint (slice itemHdr 4 8) :: uint32);
              payloadStoredLen = int (unat (StoredLength entry)) - int BlobItemHeaderSize
          in if payloadStoredLen < 0 then (Inl (ErrMsg ''invalid stored length''), s)
             else decodePayloadToByteStream L (take (nat payloadStoredLen) r) encoding (uint finalLen) s)"

definition verify_sha :: "lib \<Rightarrow> BlobEntry \<Rightarrow> bytes \<Rightarrow> error + bytes" where
  \<comment> \<open>the check of the content against the entry, skipped for an entry without a hash\<close>
  "verify_sha L entry stream =
     (if SHA256 entry \<noteq> 0 \<and> computeStreamSHA256 L stream \<noteq> SHA256 entry
      then Inl (ErrMsg ''corrupt packfile entry: checksum mismatch'') else Inr stream)"

definition PackFile_DecodeBlob :: "lib \<Rightarrow> PackFile \<Rightarrow> bytes \<Rightarrow> BlobEntry \<Rightarrow> fs \<Rightarrow> (error + bytes) \<times> fs" where
  "PackFile_DecodeBlob L p r entry s =
     (if pfVersion p = VersionV1 then DecodeBlobFromPayload L r entry s
      else case ReadFull (unat (StoredLength entry)) r of
        ReadEOF \<Rightarrow> (Inl ErrEOF, s)
      | ReadShort _ \<Rightarrow> (Inl ErrUnexpectedEOF, s)
      | ReadOk storedBuf _ \<Rightarrow>
          andThen (decodePayloadToByteStream L storedBuf (Encoding entry) (uint (FinalLength entry)) s)
            (\<lambda>stream s. (verify_sha L entry stream, s)))"

definition v2_entry :: "bytes \<Rightarrow> nat \<Rightarrow> BlobEntry" where
  "v2_entry tableBuf off =
     \<lparr>SHA256 = Uint (slice tableBuf off (off + 32)), DataOffset = Uint (slice tableBuf (off + 32) (off + 36)),
      StoredLength = Uint (slice tableBuf (off + 36) (off + 40)),
      FinalLength = Uint (slice tableBuf (off + 40) (off + 44)), Encoding = Uint (slice tableBuf (off + 44) (off + 48))\<rparr>"

definition decode_table_v1 :: "bytes \<Rightarrow> error + PackFile" where
  "decode_table_v1 r =
     (case ReadFull (PackV1HeaderSize - FileHeaderSize) r of
        ReadEOF \<Rightarrow> Inl ErrEOF
      | ReadShort _ \<Rightarrow> Inl ErrUnexpectedEOF
      | ReadOk restHdr r \<Rightarrow>
          let n = unat (Uint (slice restHdr 0 4) :: uint32) in
          if n = 0 then Inr \<lparr>pfVersion = VersionV1, pfSlots = 0, pfFlags = 0, pfEntries = []\<rparr>
          else case ReadFull (n * 32 + (n + 1) * 4) r of
            ReadEOF \<Rightarrow> Inl ErrEOF
          | ReadShort _ \<Rightarrow> Inl ErrUnexpectedEOF
          | ReadOk tablesBuf _ \<Rightarrow>
              let offsets = \<lambda>i. Uint (slice tablesBuf (n * 32 + i * 4) (n * 32 + i * 4 + 4)) :: uint32 in
              Inr \<lparr>pfVersion = VersionV1, pfSlots = 0, pfFlags = 0,
                pfEntries = map (\<lambda>i. \<lparr>SHA256 = Uint (slice tablesBuf (i * 32) (i * 32 + 32)),
                  DataOffset = offsets i, StoredLength = offsets (i + 1) - offsets i,
                  FinalLength = 0, Encoding = 0\<rparr>) [0..<n]\<rparr>)"

definition decode_table_v2 :: "bytes \<Rightarrow> error + PackFile" where
  \<comment> \<open>the size of the table is computed in 32 bits, and the slices of the loop are checked against it\<close>
  "decode_table_v2 r =
     (case ReadFull (PackV2HeaderSize - FileHeaderSize) r of
        ReadEOF \<Rightarrow> Inl ErrEOF
      | ReadShort _ \<Rightarrow> Inl ErrUnexpectedEOF
      | ReadOk restHdr r \<Rightarrow>
          let slots = Uint (slice restHdr 0 4) :: uint32; used = Uint (slice restHdr 4 8) :: uint32;
              flags = Uint (slice restHdr 8 12) :: uint32 in
          if used > slots then Inl (ErrMsg ''invalid pack v2 header: used exceeds slots'')
          else case ReadFull (unat (slots * word_of_nat PackV2SlotSize)) r of
            ReadEOF \<Rightarrow> Inl ErrEOF
          | ReadShort _ \<Rightarrow> Inl ErrUnexpectedEOF
          | ReadOk tableBuf _ \<Rightarrow>
              if length tableBuf < unat used * PackV2SlotSize then Inl (Panic ''slice bounds out of range'')
              else Inr \<lparr>pfVersion = VersionV2, pfSlots = slots, pfFlags = flags,
                     pfEntries = map (\<lambda>i. v2_entry tableBuf (i * PackV2SlotSize)) [0..<unat used]\<rparr>)"

definition DecodePackTable :: "bytes \<Rightarrow> error + PackFile" where
  "DecodePackTable r =
     (case ReadFull FileHeaderSize r of
        ReadEOF \<Rightarrow> Inl ErrEOF
      | ReadShort _ \<Rightarrow> Inl ErrUnexpectedEOF
      | ReadOk baseHdr r \<Rightarrow>
          (case ParseFileHeader baseHdr of
             Inl e \<Rightarrow> Inl e
           | Inr hdr \<Rightarrow>
               if fhFileType hdr \<noteq> FileTypePack then Inl (ErrMsg ''unexpected file type for pack'')
               else if fhVersion hdr = VersionV1 then decode_table_v1 r
               else if fhVersion hdr = VersionV2 then decode_table_v2 r
               else Inl (ErrMsg ''unsupported pack version'')))"

subsection \<open>Files written at an offset\<close>

definition write_at :: "nat \<Rightarrow> bytes \<Rightarrow> bytes \<Rightarrow> bytes" where
  "write_at off d f = take off (f @ replicate (off - length f) 0) @ d @ drop (off + length d) f"

definition put_at :: "string \<Rightarrow> nat \<Rightarrow> bytes \<Rightarrow> fs \<Rightarrow> fs" where
  "put_at p off d s =
     (case get_file p s of
        None \<Rightarrow> s
      | Some f \<Rightarrow> set_file p \<lparr>fdata = write_at off d (fdata f), synced = min off (synced f)\<rparr> s)"

definition file_WriteAt :: "string \<Rightarrow> nat \<Rightarrow> bytes \<Rightarrow> fs \<Rightarrow> (error + unit) \<times> fs" where
  "file_WriteAt p off d s =
     (case pop_fault s of
        (NoFault, s) \<Rightarrow> (Inr (), put_at p off d s)
      | (Fail, s) \<Rightarrow> (Inl ErrIO, s)
      | (Short n, s) \<Rightarrow> (Inl ErrIO, put_at p off (take n d) s))"

definition os_Create :: "string \<Rightarrow> fs \<Rightarrow> (error + string) \<times> fs" where
  "os_Create p s =
     (case pop_fault s of
        (NoFault, s) \<Rightarrow> (Inr p, set_file p \<lparr>fdata = [], synced = 0\<rparr> s)
      | (_, s) \<Rightarrow> (Inl ErrIO, s))"

definition filepath_Dir :: "string \<Rightarrow> string" where
  \<comment> \<open>\<open>filepath.Dir\<close> of a clean path\<close>
  "filepath_Dir p =
     (let d = rev (dropWhile (\<lambda>c. c \<noteq> CHR ''/'') (rev p))
      in if d = [] then ''.'' else if d = ''/'' then d else butlast d)"

definition file_data :: "string \<Rightarrow> fs \<Rightarrow> bytes" where
  "file_data p s = (case get_file p s of None \<Rightarrow> [] | Some f \<Rightarrow> fdata f)"

definition lift_err :: "error option \<times> fs \<Rightarrow> (error + unit) \<times> fs" where
  "lift_err r = (case r of (None, s) \<Rightarrow> (Inr (), s) | (Some e, s) \<Rightarrow> (Inl e, s))"

subsection \<open>Incremental packs\<close>

record IncrementalPack =
  pfile :: "string option"
  pslots :: uint32
  poffset :: nat
  psealed :: bool
  pentries :: "BlobEntry list"

definition buildItemHeader :: "uint32 \<Rightarrow> uint32 \<Rightarrow> bytes" where
  "buildItemHeader encoding finalLength = PutUint encoding @ PutUint finalLength @ replicate 8 0"

definition buildSlot :: "BlobEntry \<Rightarrow> bytes" where
  "buildSlot e = PutUint (SHA256 e) @ PutUint (DataOffset e) @ PutUint (StoredLength e) @
     PutUint (FinalLength e) @ PutUint (Encoding e)"

definition NewIncrementalPackFromFile :: "string \<Rightarrow> uint32 \<Rightarrow> fs \<Rightarrow> (error + IncrementalPack) \<times> fs" where
  "NewIncrementalPackFromFile f slots s =
     (let slots = (if slots = 0 then DefaultPackSlots else slots);
          header = BuildFileHeaderWithVersion FileTypePack VersionV2 @ PutUint slots @
                   replicate (PackV2HeaderSize + unat slots * PackV2SlotSize - 12) 0
      in andThen (file_WriteAt f 0 header s) (\<lambda>_ s.
           (Inr \<lparr>pfile = Some f, pslots = slots, poffset = length header, psealed = False, pentries = []\<rparr>, s)))"

definition NewIncrementalPack :: "string \<Rightarrow> uint32 \<Rightarrow> fs \<Rightarrow> (error + IncrementalPack) \<times> fs" where
  "NewIncrementalPack path slots s =
     andThen (lift_err (os_MkdirAll (filepath_Dir path) s)) (\<lambda>_ s.
     andThen (os_Create path s) (\<lambda>f s.
     case NewIncrementalPackFromFile f slots s of
       (Inr pack, s) \<Rightarrow> (Inr pack, s)
     | (Inl e, s) \<Rightarrow> (Inl e, snd (os_Remove path (snd (file_Close f s))))))"

definition verifyOpenLocked :: "IncrementalPack \<Rightarrow> error + string" where
  "verifyOpenLocked p = (case pfile p of None \<Rightarrow> Inl ErrPackClosed | Some f \<Rightarrow> Inr f)"

fun lookup_entry :: "BlobEntry list \<Rightarrow> sha256 \<Rightarrow> BlobEntry option" where
  "lookup_entry [] target = None"
| "lookup_entry (entry # es) target = (if SHA256 entry = target then Some entry else lookup_entry es target)"

definition lookupLocked :: "IncrementalPack \<Rightarrow> sha256 \<Rightarrow> BlobEntry option" where
  "lookupLocked p target = lookup_entry (pentries p) target"

definition appendBlob ::
  "EncodedBlob \<Rightarrow> IncrementalPack \<Rightarrow> fs \<Rightarrow> (error + BlobEntry) \<times> IncrementalPack \<times> fs" where
  "appendBlob blob p s =
     (case verifyOpenLocked p of
        Inl e \<Rightarrow> (Inl e, p, s)
      | Inr f \<Rightarrow>
          if psealed p then (Inl (ErrMsg ''incremental pack is sealed''), p, s)
          else case lookupLocked p (ebSHA256 blob) of
            Some existing \<Rightarrow> (Inr existing, p, s)
          | None \<Rightarrow>
              if (word_of_nat (length (pentries p)) :: uint32) \<ge> pslots p then (Inl ErrPackSlotsFull, p, s)
              else
                let payloadStart = poffset p + BlobItemHeaderSize;
                    itemHdr = buildItemHeader (ebEncoding blob) (ucast (ebFinalLength blob)) in
                case os_op s of                                            \<comment> \<open>p.file.Seek\<close>
                  (Inl e, s) \<Rightarrow> (Inl e, p, s)
                | (Inr _, s) \<Rightarrow>
                    (case file_WriteAt f (poffset p) (itemHdr @ ebStream blob) s of  \<comment> \<open>io.Copy\<close>
                       (Inl e, s) \<Rightarrow> (Inl e, p, s)
                     | (Inr _, s) \<Rightarrow>
                         let p' = p\<lparr>poffset := payloadStart + unat (ebStoredLength blob)\<rparr>;
                             ent = \<lparr>SHA256 = ebSHA256 blob, DataOffset = word_of_nat payloadStart,
                                    StoredLength = ucast (ebStoredLength blob),
                                    FinalLength = ucast (ebFinalLength blob), Encoding = ebEncoding blob\<rparr> in
                         case file_WriteAt f (PackV2HeaderSize + length (pentries p) * PackV2SlotSize) (buildSlot ent) s of
                           (Inl e, s) \<Rightarrow> (Inl e, p', s)
                         | (Inr _, s) \<Rightarrow> (Inr ent, p'\<lparr>pentries := pentries p @ [ent]\<rparr>, s)))"

definition close_blob :: "bool \<Rightarrow> fs \<Rightarrow> error option \<times> fs" where
  \<comment> \<open>\<open>blob.Close\<close>: a stream in a temporary file closes and removes it\<close>
  "close_blob temp s =
     (if \<not> temp then (None, s)
      else case os_op s of (r1, s) \<Rightarrow>
        case os_op s of (r2, s) \<Rightarrow>
          ((case (r1, r2) of (Inr _, Inr _) \<Rightarrow> None | _ \<Rightarrow> Some ErrIO), s))"

definition IncrementalPack_Append ::
  "lib \<Rightarrow> bytes \<Rightarrow> IncrementalPack \<Rightarrow> fs \<Rightarrow> (error + BlobEntry) \<times> IncrementalPack \<times> fs" where
  \<comment> \<open>an error of \<open>blob.Close\<close> is reported although the entry is in the pack\<close>
  "IncrementalPack_Append L data p s =
     (case EncodeBlob L data True s of
        (Inl e, s) \<Rightarrow> (Inl e, p, s)
      | (Inr blob, s) \<Rightarrow>
          (case appendBlob blob p s of (r, p, s) \<Rightarrow>
           case close_blob (ebEncoding blob = EncodingCompressed \<and> length data > MemoryThreshold) s of (c, s) \<Rightarrow>
             ((case c of None \<Rightarrow> r | Some e \<Rightarrow> Inl (case r of Inl e' \<Rightarrow> ErrJoin [e', e] | Inr _ \<Rightarrow> ErrJoin [e])), p, s)))"

definition ReadBlob :: "lib \<Rightarrow> BlobEntry \<Rightarrow> IncrementalPack \<Rightarrow> fs \<Rightarrow> (error + bytes) \<times> fs" where
  \<comment> \<open>\<open>io.NewSectionReader\<close> reads what the file has in the section\<close>
  "ReadBlob L entry p s =
     (case verifyOpenLocked p of
        Inl e \<Rightarrow> (Inl e, s)
      | Inr f \<Rightarrow>
          decodePayloadToByteStream L
            (slice (file_data f s) (unat (DataOffset entry)) (unat (DataOffset entry) + unat (StoredLength entry)))
            (Encoding entry) (uint (FinalLength entry)) s)"

definition Seal :: "IncrementalPack \<Rightarrow> uint64 \<Rightarrow> fs \<Rightarrow> (error + unit) \<times> IncrementalPack \<times> uint64 \<times> fs" where
  \<comment> \<open>the second argument and result are the global counter \<open>packSlotsFullCount\<close>; the hashes of the
      entries differ, so that the order \<open>sort.Slice\<close> gives is unique\<close>
  "Seal p full s =
     (if psealed p then (Inr (), p, full, s)
      else case verifyOpenLocked p of
        Inl e \<Rightarrow> (Inl e, p, full, s)
      | Inr f \<Rightarrow>
          let full = (if word_of_nat (length (pentries p)) = pslots p then full + 1 else full);
              p = p\<lparr>pentries := sort_key SHA256 (pentries p)\<rparr>;
              tableBuf = concat (map buildSlot (pentries p)) in
          case file_WriteAt f PackV2HeaderSize tableBuf s of
            (Inl e, s) \<Rightarrow> (Inl e, p, full, s)
          | (Inr _, s) \<Rightarrow>
              let hdr = PutUint (word_of_nat (length (pentries p)) :: uint32) @ PutUint PackFlagSealed in
              case file_WriteAt f 12 hdr s of
                (Inl e, s) \<Rightarrow> (Inl e, p, full, s)
              | (Inr _, s) \<Rightarrow> (Inr (), p\<lparr>psealed := True\<rparr>, full, s))"

definition IncrementalPack_Close :: "IncrementalPack option \<Rightarrow> fs \<Rightarrow> error option \<times> IncrementalPack option \<times> fs" where
  "IncrementalPack_Close pk s =
     (case pk of
        None \<Rightarrow> (None, None, s)
      | Some p \<Rightarrow>
          (case pfile p of
             None \<Rightarrow> (None, Some p, s)
           | Some f \<Rightarrow>
               (case file_Close f s of
                  (Some e, s) \<Rightarrow> (Some e, Some p, s)
                | (None, s) \<Rightarrow> (None, Some (p\<lparr>pfile := None\<rparr>), s))))"

subsection \<open>Writing whole packs\<close>

fun append_all :: "EncodedBlob list \<Rightarrow> IncrementalPack \<Rightarrow> fs \<Rightarrow> (error + unit) \<times> IncrementalPack \<times> fs" where
  "append_all [] p s = (Inr (), p, s)"
| "append_all (blob # bs) p s =
     (case appendBlob blob p s of
        (Inl e, p, s) \<Rightarrow> (Inl e, p, s)
      | (Inr _, p, s) \<Rightarrow> append_all bs p s)"

definition WritePackfileWithSlots ::
  "string \<Rightarrow> EncodedBlob list \<Rightarrow> uint32 \<Rightarrow> uint64 \<Rightarrow> fs \<Rightarrow> (error + PackFile) \<times> uint64 \<times> fs" where
  "WritePackfileWithSlots destination inputs slots full s =
     (if inputs = [] then (Inl (ErrMsg ''cannot create empty packfile with 0 blobs''), full, s)
      else if slots < word_of_nat (length inputs) then (Inl (ErrMsg ''slots cannot be less than blob count''), full, s)
      else case NewIncrementalPackFromFile destination slots s of
        (Inl e, s) \<Rightarrow> (Inl e, full, s)
      | (Inr pack, s) \<Rightarrow>
          (case append_all inputs pack s of
             (Inl e, _, s) \<Rightarrow> (Inl e, full, s)
           | (Inr _, pack, s) \<Rightarrow>
               (case Seal pack full s of
                  (Inl e, _, full, s) \<Rightarrow> (Inl e, full, s)
                | (Inr _, pack, full, s) \<Rightarrow>
                    (Inr \<lparr>pfVersion = VersionV2, pfSlots = slots, pfFlags = PackFlagSealed,
                          pfEntries = pentries pack\<rparr>, full, s))))"

definition WritePackfile ::
  "string \<Rightarrow> EncodedBlob list \<Rightarrow> uint64 \<Rightarrow> fs \<Rightarrow> (error + PackFile) \<times> uint64 \<times> fs" where
  "WritePackfile destination inputs full s =
     (let n = word_of_nat (length inputs) :: uint32;
          slots = (if n > DefaultPackSlots then n else DefaultPackSlots)
      in WritePackfileWithSlots destination inputs slots full s)"

subsection \<open>Packs of version 1\<close>

fun v1_entries :: "uint32 \<Rightarrow> EncodedBlob list \<Rightarrow> BlobEntry list" where
  "v1_entries currentOffset [] = []"
| "v1_entries currentOffset (prep # bs) =
     (let storedLen = word_of_nat BlobItemHeaderSize + ucast (ebStoredLength prep)
      in \<lparr>SHA256 = ebSHA256 prep, DataOffset = currentOffset, StoredLength = storedLen,
          FinalLength = ucast (ebFinalLength prep), Encoding = ebEncoding prep\<rparr> #
         v1_entries (currentOffset + storedLen) bs)"

fun v1_end :: "uint32 \<Rightarrow> EncodedBlob list \<Rightarrow> uint32" where
  "v1_end currentOffset [] = currentOffset"
| "v1_end currentOffset (prep # bs) =
     v1_end (currentOffset + (word_of_nat BlobItemHeaderSize + ucast (ebStoredLength prep))) bs"

definition v1_table_size :: "nat \<Rightarrow> nat" where
  "v1_table_size n = PackV1HeaderSize + n * 32 + (n + 1) * 4"

definition v1_table :: "EncodedBlob list \<Rightarrow> bytes" where
  "v1_table bs =
     (let n = length bs; front = word_of_nat (v1_table_size n) :: uint32; es = v1_entries front bs in
      BuildFileHeaderWithVersion FileTypePack VersionV1 @ PutUint (word_of_nat n :: uint32) @ PutUint (0 :: uint32) @
      concat (map (\<lambda>e. PutUint (SHA256 e)) es) @ concat (map (\<lambda>e. PutUint (DataOffset e)) es) @ PutUint (v1_end front bs))"

fun v1_items :: "string \<Rightarrow> EncodedBlob list \<Rightarrow> fs \<Rightarrow> (error + unit) \<times> fs" where
  "v1_items w [] s = (Inr (), s)"
| "v1_items w (prep # bs) s =
     andThen (lift_err (file_Write w (buildItemHeader (ebEncoding prep) (ucast (ebFinalLength prep))) s)) (\<lambda>_ s.
     andThen (lift_err (file_Write w (ebStream prep) s)) (\<lambda>_ s.
     v1_items w bs s))"

definition WritePackfileV1 :: "string \<Rightarrow> EncodedBlob list \<Rightarrow> fs \<Rightarrow> (error + PackFile) \<times> fs" where
  \<comment> \<open>a table of 4 GiB or more does not fit the buffer that is made for it\<close>
  "WritePackfileV1 w inputs s =
     (if inputs = [] then (Inl (ErrMsg ''cannot create empty packfile with 0 blobs''), s)
      else if v1_table_size (length inputs) \<ge> 2 ^ 32 then (Inl (Panic ''slice bounds out of range''), s)
      else
        let sortedInputs = sort_key ebSHA256 inputs;
            entries = v1_entries (word_of_nat (v1_table_size (length inputs))) sortedInputs in
        andThen (lift_err (file_Write w (v1_table sortedInputs) s)) (\<lambda>_ s.
        andThen (v1_items w sortedInputs s) (\<lambda>_ s.
          (Inr \<lparr>pfVersion = VersionV1, pfSlots = 0, pfFlags = 0, pfEntries = entries\<rparr>, s))))"

end
