(* ===== verification/PackLib.thy ===== *)
theory PackLib
  imports Pack
begin

text \<open>
  The invariant of an incremental pack and the lemmas on its operations. \<open>pack_data_ok\<close> relates
  the pack to the bytes of its file: every entry points at a payload that decodes to data with the
  hash of the entry, inside the part of the file that later writes never touch. \<open>pack_view\<close> is
  the content of the pack as a map from hashes to data.
\<close>

subsection \<open>Writing at an offset\<close>

lemma length_write_at: "length (write_at off d f) = max (length f) (off + length d)"
  by (simp add: write_at_def)

lemma write_at_Nil: "off \<le> length f \<Longrightarrow> write_at off [] f = f"
  by (simp add: write_at_def)

lemma slice_write_at_before: "j \<le> off \<Longrightarrow> off \<le> length f \<Longrightarrow> slice (write_at off d f) i j = slice f i j"
  by (simp add: write_at_def slice_append_left slice_take)

lemma slice_write_at_same: "slice (write_at off d f) off (off + length d) = d"
  by (simp add: write_at_def slice_def)

lemma slice_write_at_after:
  "off + length d \<le> i \<Longrightarrow> off \<le> length f \<Longrightarrow> slice (write_at off d f) i j = slice f i j"
  by (simp add: write_at_def slice_def)

lemma file_WriteAt_cases:
  assumes "file_WriteAt p off d s = (r, s')" "get_file p s = Some y" "off \<le> length (fdata y)"
  obtains y' k where "get_file p s' = Some y'" "fdata y' = write_at off (take k d) (fdata y)"
    "\<And>u. r = Inr u \<Longrightarrow> length d \<le> k" "\<And>e. r = Inl e \<Longrightarrow> e = ErrIO" "faults s = [] \<Longrightarrow> r = Inr () \<and> faults s' = []"
proof -
  obtain fl s1 where f: "pop_fault s = (fl, s1)" by (cases "pop_fault s")
  have g: "get_file p s1 = Some y"
    by (simp only: pop_fault_get_file [OF f] assms(2))
  have n: "fl = NoFault \<and> s1 = s" if "faults s = []"
    using f that by (simp add: pop_fault_def)
  let ?y = "\<lambda>k. \<lparr>fdata = write_at off (take k d) (fdata y), synced = min off (synced y)\<rparr>"
  show ?thesis
  proof (cases fl)
    case NoFault
    then have *: "r = Inr ()" "s' = put_at p off d s1"
      using assms(1) f by (simp_all add: file_WriteAt_def)
    show ?thesis
      by (rule that [of "?y (length d)" "length d"]) (use * g n in \<open>simp_all add: put_at_def\<close>)
  next
    case Fail
    then have *: "r = Inl ErrIO" "s' = s1" "faults s \<noteq> []"
      using assms(1) f n by (auto simp: file_WriteAt_def)
    show ?thesis
      by (rule that [of y 0]) (use * g assms(3) in \<open>simp_all add: write_at_Nil\<close>)
  next
    case (Short k)
    then have *: "r = Inl ErrIO" "s' = put_at p off (take k d) s1" "faults s \<noteq> []"
      using assms(1) f n by (auto simp: file_WriteAt_def)
    show ?thesis
      by (rule that [of "?y k" k]) (use * g in \<open>simp_all add: put_at_def\<close>)
  qed
qed

subsection \<open>The invariant\<close>

definition table_end :: "uint32 \<Rightarrow> nat" where
  "table_end n = 32 + unat n * 48"

definition entry_reader :: "lib \<Rightarrow> bytes \<Rightarrow> BlobEntry \<Rightarrow> error + (error + bytes)" where
  "entry_reader L data e =
     payload_reader L (slice data (unat (DataOffset e)) (unat (DataOffset e) + unat (StoredLength e))) (Encoding e)"

definition entry_ok :: "lib \<Rightarrow> nat \<Rightarrow> nat \<Rightarrow> bytes \<Rightarrow> BlobEntry \<Rightarrow> bool" where
  "entry_ok L lo hi data e \<longleftrightarrow>
     lo \<le> unat (DataOffset e) \<and> unat (DataOffset e) + unat (StoredLength e) \<le> hi \<and>
     (case entry_reader L data e of
        Inr (Inr d) \<Rightarrow> unat (FinalLength e) = length d \<and> SHA256 e = Sum256 L d | _ \<Rightarrow> False)"

definition sealed_table :: "IncrementalPack \<Rightarrow> bytes \<Rightarrow> bool" where
  "sealed_table p data \<longleftrightarrow>
     slice data 12 20 = PutUint (word_of_nat (length (pentries p)) :: uint32) @ PutUint PackFlagSealed \<and>
     slice data 32 (32 + length (pentries p) * 48) = concat (map buildSlot (pentries p)) \<and>
     sorted (map SHA256 (pentries p))"

definition pack_data_ok :: "lib \<Rightarrow> IncrementalPack \<Rightarrow> bytes \<Rightarrow> bool" where
  "pack_data_ok L p data \<longleftrightarrow>
     0 < pslots p \<and> table_end (pslots p) \<le> poffset p \<and> poffset p \<le> length data \<and>
     slice data 0 12 = BuildFileHeaderWithVersion FileTypePack VersionV2 @ PutUint (pslots p) \<and>
     length (pentries p) \<le> unat (pslots p) \<and> distinct (map SHA256 (pentries p)) \<and>
     list_all (entry_ok L (table_end (pslots p)) (poffset p) data) (pentries p) \<and>
     (psealed p \<longrightarrow> sealed_table p data)"

definition pack_ok :: "lib \<Rightarrow> IncrementalPack \<Rightarrow> fs \<Rightarrow> bool" where
  "pack_ok L p s \<longleftrightarrow>
     (case pfile p of
        None \<Rightarrow> False
      | Some f \<Rightarrow> (case get_file f s of None \<Rightarrow> False | Some x \<Rightarrow> pack_data_ok L p (fdata x)))"

definition data_view :: "lib \<Rightarrow> BlobEntry list \<Rightarrow> bytes \<Rightarrow> sha256 \<Rightarrow> bytes option" where
  "data_view L es data sha =
     (case lookup_entry es sha of
        None \<Rightarrow> None
      | Some e \<Rightarrow> (case entry_reader L data e of Inr (Inr d) \<Rightarrow> Some d | _ \<Rightarrow> None))"

definition pack_view :: "lib \<Rightarrow> IncrementalPack \<Rightarrow> fs \<Rightarrow> sha256 \<Rightarrow> bytes option" where
  "pack_view L p s =
     (case pfile p of None \<Rightarrow> (\<lambda>_. None) | Some f \<Rightarrow> data_view L (pentries p) (file_data f s))"

lemma lookup_entry_Some:
  "lookup_entry es sha = Some e \<Longrightarrow> e \<in> set es \<and> SHA256 e = sha"
  by (induction es) (auto split: if_splits)

lemma lookup_entry_None: "lookup_entry es sha = None \<longleftrightarrow> sha \<notin> SHA256 ` set es"
  by (induction es) auto

lemma lookup_entry_map_of: "lookup_entry es sha = map_of (map (\<lambda>e. (SHA256 e, e)) es) sha"
  by (induction es) auto

lemma lookup_entry_append:
  "lookup_entry (es @ fs) sha = (case lookup_entry es sha of None \<Rightarrow> lookup_entry fs sha | Some e \<Rightarrow> Some e)"
  by (induction es) auto

lemma lookup_entry_distinct:
  "distinct (map SHA256 es) \<Longrightarrow> e \<in> set es \<Longrightarrow> lookup_entry es (SHA256 e) = Some e"
  by (induction es) auto

lemma lookup_entry_sort:
  assumes "distinct (map SHA256 es)"
  shows "lookup_entry (sort_key SHA256 es) sha = lookup_entry es sha"
proof (cases "lookup_entry es sha")
  case None
  then have "lookup_entry (sort_key SHA256 es) sha = None" by (simp add: lookup_entry_None)
  with None show ?thesis by simp
next
  case (Some e)
  have "distinct (map SHA256 (sort_key SHA256 es))"
    using assms by (simp add: distinct_map)
  with lookup_entry_Some [OF Some] Some show ?thesis
    using lookup_entry_distinct [of "sort_key SHA256 es" e] by simp
qed

lemma entry_ok_mono:
  assumes "entry_ok L lo hi data e" "hi \<le> hi'" "slice data' (unat (DataOffset e)) (unat (DataOffset e) + unat (StoredLength e)) =
      slice data (unat (DataOffset e)) (unat (DataOffset e) + unat (StoredLength e))"
  shows "entry_ok L lo hi' data' e"
  using assms by (simp add: entry_ok_def entry_reader_def)

lemma pack_data_frame:
  assumes "pack_data_ok L p data" "\<not> psealed p" "poffset p \<le> length data'" "slice data' 0 12 = slice data 0 12"
    and "\<And>i j. table_end (pslots p) \<le> i \<Longrightarrow> j \<le> poffset p \<Longrightarrow> slice data' i j = slice data i j"
  shows "pack_data_ok L p data' \<and> data_view L (pentries p) data' = data_view L (pentries p) data"
proof -
  have e: "entry_ok L (table_end (pslots p)) (poffset p) data e" if "e \<in> set (pentries p)" for e
    using assms(1) that by (simp add: pack_data_ok_def list_all_iff)
  then have sl: "slice data' (unat (DataOffset e)) (unat (DataOffset e) + unat (StoredLength e)) =
      slice data (unat (DataOffset e)) (unat (DataOffset e) + unat (StoredLength e))" if "e \<in> set (pentries p)" for e
    using that assms(5) unfolding entry_ok_def by blast
  then have "list_all (entry_ok L (table_end (pslots p)) (poffset p) data') (pentries p)"
    using e entry_ok_mono [OF _ order_refl] unfolding list_all_iff by blast
  moreover have "data_view L (pentries p) data' sha = data_view L (pentries p) data sha" for sha
    using sl lookup_entry_Some [of "pentries p" sha]
    by (auto simp: data_view_def entry_reader_def split: option.splits)
  ultimately show ?thesis
    using assms(1-4) by (auto simp: pack_data_ok_def)
qed

lemma data_view_SomeD:
  "pack_data_ok L p data \<Longrightarrow> data_view L (pentries p) data sha = Some d \<Longrightarrow>
   \<exists>e. lookup_entry (pentries p) sha = Some e \<and> entry_reader L data e = Inr (Inr d) \<and>
     unat (FinalLength e) = length d \<and> SHA256 e = sha \<and> Sum256 L d = sha"
  by (auto simp: data_view_def pack_data_ok_def list_all_iff entry_ok_def
      split: option.splits sum.splits dest!: lookup_entry_Some)

lemma data_view_eq_None:
  assumes "pack_data_ok L p data"
  shows "data_view L (pentries p) data sha = None \<longleftrightarrow> lookup_entry (pentries p) sha = None"
  using assms
  by (fastforce simp: data_view_def pack_data_ok_def list_all_iff entry_ok_def
      split: option.splits sum.splits dest: lookup_entry_Some)

subsection \<open>Appending\<close>

lemma pack_data_write:
  assumes "pack_data_ok L p data" "\<not> psealed p" "12 \<le> off" "off \<le> length data"
    and "off + length x \<le> table_end (pslots p) \<or> poffset p \<le> off"
  shows "pack_data_ok L p (write_at off x data) \<and>
    data_view L (pentries p) (write_at off x data) = data_view L (pentries p) data"
proof (rule pack_data_frame [OF assms(1,2)])
  show "poffset p \<le> length (write_at off x data)"
    using assms(1) by (auto simp: length_write_at pack_data_ok_def)
  show "slice (write_at off x data) 0 12 = slice data 0 12"
    using assms(3,4) by (rule slice_write_at_before)
  show "slice (write_at off x data) i j = slice data i j"
    if "table_end (pslots p) \<le> i" "j \<le> poffset p" for i j
    using assms(4,5) that by (auto intro: slice_write_at_before slice_write_at_after)
qed

lemma pack_data_grow:
  "pack_data_ok L p data \<Longrightarrow> poffset p \<le> n \<Longrightarrow> n \<le> length data \<Longrightarrow> pack_data_ok L (p\<lparr>poffset := n\<rparr>) data"
  by (auto simp: pack_data_ok_def sealed_table_def list_all_iff elim!: entry_ok_mono)

lemma pack_data_add:
  assumes "pack_data_ok L p data" "\<not> psealed p" "length (pentries p) < unat (pslots p)"
    and "lookup_entry (pentries p) (SHA256 e) = None"
    and "entry_ok L (table_end (pslots p)) (poffset p) data e" "entry_reader L data e = Inr (Inr d)"
  shows "pack_data_ok L (p\<lparr>pentries := pentries p @ [e]\<rparr>) data \<and>
    data_view L (pentries p @ [e]) data = (data_view L (pentries p) data)(SHA256 e \<mapsto> d)"
proof
  show "pack_data_ok L (p\<lparr>pentries := pentries p @ [e]\<rparr>) data"
    using assms by (auto simp: pack_data_ok_def lookup_entry_None)
  show "data_view L (pentries p @ [e]) data = (data_view L (pentries p) data)(SHA256 e \<mapsto> d)"
    using assms(4,6) by (auto simp: data_view_def lookup_entry_append fun_eq_iff split: option.splits)
qed

definition payload_entry :: "nat \<Rightarrow> EncodedBlob \<Rightarrow> BlobEntry" where
  "payload_entry off b =
     \<lparr>SHA256 = ebSHA256 b, DataOffset = word_of_nat (off + BlobItemHeaderSize), StoredLength = ucast (ebStoredLength b),
      FinalLength = ucast (ebFinalLength b), Encoding = ebEncoding b\<rparr>"

lemma unat_word_of_nat_32: "n < 2 ^ 32 \<Longrightarrow> unat (word_of_nat n :: uint32) = n"
  by (simp add: unat_of_nat)

lemma unat_ucast_of_nat: "n < 2 ^ 32 \<Longrightarrow> unat (ucast (word_of_nat n :: uint64) :: uint32) = n"
  by (simp add: unsigned_ucast_eq unsigned_of_nat take_bit_nat_eq_self)

lemma unat_word_of_nat_64: "n < 2 ^ 32 \<Longrightarrow> unat (word_of_nat n :: uint64) = n"
  by (simp add: unat_of_nat)

lemma payload_entry_reader:
  assumes "encodes L d b" "length d < 2 ^ 32" "off + 16 < 2 ^ 32" "length hdr = 16"
    and "slice data off (off + 16 + length (ebStream b)) = hdr @ ebStream b"
  shows "entry_reader L data (payload_entry off b) = Inr (Inr d)"
    and "unat (DataOffset (payload_entry off b)) = off + 16"
    and "unat (StoredLength (payload_entry off b)) = length (ebStream b)"
    and "unat (FinalLength (payload_entry off b)) = length d"
proof -
  have l: "length (ebStream b) < 2 ^ 32"
    using assms(1,2) by (simp add: encodes_def)
  show d: "unat (DataOffset (payload_entry off b)) = off + 16"
    using assms(3) by (simp add: payload_entry_def BlobItemHeaderSize_def unat_word_of_nat_32 del: of_nat_add)
  show s: "unat (StoredLength (payload_entry off b)) = length (ebStream b)"
    using assms(1) l by (simp add: payload_entry_def encodes_def unat_ucast_of_nat)
  show "unat (FinalLength (payload_entry off b)) = length d"
    using assms(1,2) by (simp add: payload_entry_def encodes_def unat_ucast_of_nat)
  have "slice data (off + 16) (off + 16 + length (ebStream b)) = drop 16 (slice data off (off + 16 + length (ebStream b)))"
    by (simp add: slice_def drop_take add.commute)
  then have "slice data (off + 16) (off + 16 + length (ebStream b)) = ebStream b"
    using assms(4) unfolding assms(5) by simp
  then show "entry_reader L data (payload_entry off b) = Inr (Inr d)"
    using assms(1) unfolding entry_reader_def d s by (simp add: payload_entry_def encodes_def)
qed

lemma pack_okE:
  assumes "pack_ok L p s"
  obtains f x where "pfile p = Some f" "get_file f s = Some x" "pack_data_ok L p (fdata x)"
    "pack_view L p s = data_view L (pentries p) (fdata x)"
  using assms by (auto simp: pack_ok_def pack_view_def file_data_def split: option.splits)

lemma pack_okI:
  assumes "pfile p = Some f" "get_file f s = Some x" "pack_data_ok L p (fdata x)"
  shows "pack_ok L p s" "pack_view L p s = data_view L (pentries p) (fdata x)"
  using assms by (simp_all add: pack_ok_def pack_view_def file_data_def)

lemma pack_ok_same_files: "same_files s s' \<Longrightarrow> pack_ok L p s' = pack_ok L p s \<and> pack_view L p s' = pack_view L p s"
  by (auto simp: pack_ok_def pack_view_def file_data_def same_files_def split: option.splits)

lemma lookup_view_dom:
  "pack_ok L p s \<Longrightarrow> lookupLocked p sha = None \<longleftrightarrow> pack_view L p s sha = None"
  by (erule pack_okE) (simp add: data_view_eq_None lookupLocked_def)

definition add_view :: "sha256 \<Rightarrow> bytes \<Rightarrow> (sha256 \<Rightarrow> bytes option) \<Rightarrow> sha256 \<Rightarrow> bytes option" where
  \<comment> \<open>what an append does to the content: the first data stored under a hash stays\<close>
  "add_view sha d v = (case v sha of None \<Rightarrow> v(sha \<mapsto> d) | Some _ \<Rightarrow> v)"

lemma append_payload:
  assumes f: "pfile p = Some f" "get_file f s = Some x" and D: "pack_data_ok L p (fdata x)" and ns: "\<not> psealed p"
    and w: "file_WriteAt f (poffset p) d s = (r, s')"
  shows "\<exists>y. get_file f s' = Some y \<and> pack_data_ok L p (fdata y) \<and>
    data_view L (pentries p) (fdata y) = data_view L (pentries p) (fdata x) \<and>
    (case r of Inl e \<Rightarrow> e = ErrIO
     | Inr _ \<Rightarrow> slice (fdata y) (poffset p) (poffset p + length d) = d \<and> poffset p + length d \<le> length (fdata y))"
proof -
  have po: "table_end (pslots p) \<le> poffset p" "poffset p \<le> length (fdata x)"
    using D by (auto simp: pack_data_ok_def)
  obtain y k where y: "get_file f s' = Some y" "fdata y = write_at (poffset p) (take k d) (fdata x)"
    "\<And>u. r = Inr u \<Longrightarrow> length d \<le> k" "\<And>z. r = Inl z \<Longrightarrow> z = ErrIO"
    using file_WriteAt_cases [OF w f(2) po(2)] by metis
  from pack_data_write [OF D ns _ po(2), of "take k d"] po
  have "pack_data_ok L p (fdata y)" "data_view L (pentries p) (fdata y) = data_view L (pentries p) (fdata x)"
    unfolding y(2) by (auto simp: table_end_def)
  moreover have "slice (fdata y) (poffset p) (poffset p + length d) = d \<and> poffset p + length d \<le> length (fdata y)"
    if "r = Inr u" for u
    using y(3) [OF that] by (simp add: y(2) slice_write_at_same length_write_at)
  ultimately show ?thesis
    using y(1,4) by (auto split: sum.splits)
qed

lemma append_slot:
  assumes f: "pfile p = Some f" "get_file f s = Some x" and D: "pack_data_ok L p (fdata x)" and ns: "\<not> psealed p"
    and room: "length (pentries p) < unat (pslots p)"
    and w: "file_WriteAt f (32 + length (pentries p) * 48) (buildSlot e) s = (r, s')"
  shows "\<exists>y. get_file f s' = Some y \<and> pack_data_ok L p (fdata y) \<and>
    data_view L (pentries p) (fdata y) = data_view L (pentries p) (fdata x) \<and>
    (\<forall>i j. table_end (pslots p) \<le> i \<longrightarrow> slice (fdata y) i j = slice (fdata x) i j) \<and> (\<forall>z. r = Inl z \<longrightarrow> z = ErrIO)"
proof -
  let ?off = "32 + length (pentries p) * 48"
  have "length (buildSlot e) = 48" by (simp add: buildSlot_def)
  moreover have te: "?off + 48 \<le> table_end (pslots p)"
    using room by (simp add: table_end_def)
  moreover have len: "?off \<le> length (fdata x)"
    using te D by (simp add: pack_data_ok_def)
  moreover obtain y k where y: "get_file f s' = Some y" "fdata y = write_at ?off (take k (buildSlot e)) (fdata x)"
    "\<And>z. r = Inl z \<Longrightarrow> z = ErrIO"
    using file_WriteAt_cases [OF w f(2) len] by metis
  ultimately have k: "?off + length (take k (buildSlot e)) \<le> table_end (pslots p)" by simp
  with pack_data_write [OF D ns _ len, of "take k (buildSlot e)"]
  have "pack_data_ok L p (fdata y)" "data_view L (pentries p) (fdata y) = data_view L (pentries p) (fdata x)"
    unfolding y(2) by simp_all
  moreover have "slice (fdata y) i j = slice (fdata x) i j" if "table_end (pslots p) \<le> i" for i j
    unfolding y(2) using k that len by (intro slice_write_at_after) simp_all
  ultimately show ?thesis
    using y(1,3) by auto
qed

definition append_spec :: "lib \<Rightarrow> bytes \<Rightarrow> IncrementalPack \<Rightarrow> fs \<Rightarrow> error + BlobEntry \<Rightarrow> IncrementalPack \<Rightarrow> fs \<Rightarrow> bool" where
  "append_spec L d p s r p' s' \<longleftrightarrow>
     pack_ok L p' s' \<and> pfile p' = pfile p \<and> pslots p' = pslots p \<and> psealed p' = psealed p \<and>
     (case r of
        Inr e \<Rightarrow> lookupLocked p' (Sum256 L d) = Some e \<and> pack_view L p' s' = add_view (Sum256 L d) d (pack_view L p s)
      | Inl _ \<Rightarrow> pentries p' = pentries p \<and> pack_view L p' s' = pack_view L p s)"

lemma append_new:
  assumes f: "pfile p = Some f" "get_file f s = Some x" and D: "pack_data_ok L p (fdata x)" and ns: "\<not> psealed p"
    and b: "encodes L d b" "length d < 2 ^ 32" "poffset p + 16 + length (ebStream b) < 2 ^ 32"
    and lk: "lookup_entry (pentries p) (Sum256 L d) = None" and room: "length (pentries p) < unat (pslots p)"
    and hdr: "length hdr = 16" and w: "file_WriteAt f (poffset p) (hdr @ ebStream b) s = (Inr u, s1)"
    and w2: "file_WriteAt f (32 + length (pentries p) * 48) (buildSlot (payload_entry (poffset p) b)) s1 = (r2, s2)"
    and p1: "p1 = p\<lparr>poffset := poffset p + 16 + length (ebStream b)\<rparr>" and e: "e = payload_entry (poffset p) b"
  shows "append_spec L d p s (Inl z) p1 s2" "append_spec L d p s (Inr e) (p1\<lparr>pentries := pentries p @ [e]\<rparr>) s2"
    "\<And>z. r2 = Inl z \<Longrightarrow> z = ErrIO"
proof -
  have v: "pack_view L p s = data_view L (pentries p) (fdata x)" by (rule pack_okI(2) [OF f D])
  from append_payload [OF f D ns w] hdr obtain y where y: "get_file f s1 = Some y" "pack_data_ok L p (fdata y)"
    "data_view L (pentries p) (fdata y) = data_view L (pentries p) (fdata x)"
    "slice (fdata y) (poffset p) (poffset p + 16 + length (ebStream b)) = hdr @ ebStream b"
    "poffset p + 16 + length (ebStream b) \<le> length (fdata y)"
    by (auto simp: add.assoc)
  have P1: "pack_data_ok L p1 (fdata y)"
    unfolding p1 using y by (intro pack_data_grow) simp_all
  have f1: "pfile p1 = Some f" "\<not> psealed p1" "length (pentries p1) < unat (pslots p1)" "pentries p1 = pentries p"
    "pslots p1 = pslots p" "psealed p1 = psealed p"
    using f ns room by (simp_all add: p1)
  from append_slot [OF f1(1) y(1) P1 f1(2,3), of "payload_entry (poffset p) b" r2 s2] w2
  obtain y2 where y2: "get_file f s2 = Some y2" "pack_data_ok L p1 (fdata y2)"
    "data_view L (pentries p) (fdata y2) = data_view L (pentries p) (fdata y)"
    "\<And>i j. table_end (pslots p) \<le> i \<Longrightarrow> slice (fdata y2) i j = slice (fdata y) i j" "\<And>z. r2 = Inl z \<Longrightarrow> z = ErrIO"
    unfolding f1 by auto
  from y2(5) show "\<And>z. r2 = Inl z \<Longrightarrow> z = ErrIO" .
  show "append_spec L d p s (Inl z) p1 s2"
    using pack_okI [OF f1(1) y2(1,2)] f1 f y y2 v by (simp add: append_spec_def)
  have te: "table_end (pslots p) \<le> poffset p" using D by (simp add: pack_data_ok_def)
  have "slice (fdata y2) (poffset p) (poffset p + 16 + length (ebStream b)) = hdr @ ebStream b"
    using y2(4) [OF te] y(4) by simp
  from payload_entry_reader [OF b(1,2) _ hdr this] b(3)
  have er: "entry_reader L (fdata y2) e = Inr (Inr d)" and eo: "unat (DataOffset e) = poffset p + 16"
    "unat (StoredLength e) = length (ebStream b)" "unat (FinalLength e) = length d"
    unfolding e by simp_all
  have sha: "SHA256 e = Sum256 L d" using b(1) by (simp add: e payload_entry_def encodes_def)
  have "entry_ok L (table_end (pslots p1)) (poffset p1) (fdata y2) e"
    using te by (simp add: entry_ok_def er eo sha p1)
  from pack_data_add [OF y2(2) f1(2,3) _ this er] lk
  have "pack_data_ok L (p1\<lparr>pentries := pentries p @ [e]\<rparr>) (fdata y2)"
    "data_view L (pentries p @ [e]) (fdata y2) = (data_view L (pentries p) (fdata y2))(SHA256 e \<mapsto> d)"
    by (simp_all add: sha f1)
  moreover from this(1) have "pack_ok L (p1\<lparr>pentries := pentries p @ [e]\<rparr>) s2"
    "pack_view L (p1\<lparr>pentries := pentries p @ [e]\<rparr>) s2 = data_view L (pentries p @ [e]) (fdata y2)"
    using pack_okI [of "p1\<lparr>pentries := pentries p @ [e]\<rparr>" f s2 y2 L] f1(1) y2(1) by simp_all
  moreover have "data_view L (pentries p) (fdata x) (Sum256 L d) = None"
    using lk by (simp add: data_view_eq_None [OF D])
  ultimately show "append_spec L d p s (Inr e) (p1\<lparr>pentries := pentries p @ [e]\<rparr>) s2"
    using f1 f v y2(3) y(3) lk
    by (simp add: append_spec_def add_view_def sha lookupLocked_def lookup_entry_append)
qed

lemma append_spec_refl: "pack_ok L p s \<Longrightarrow> same_files s s' \<Longrightarrow> append_spec L d p s (Inl z) p s'"
  by (simp add: append_spec_def pack_ok_same_files)

lemma append_spec_same:
  "append_spec L d p s0 r p' s' \<Longrightarrow> same_files s s0 \<Longrightarrow> same_files s' s'' \<Longrightarrow> append_spec L d p s r p' s''"
  using pack_ok_same_files [of s s0 L p] pack_ok_same_files [of s' s'' L p']
  by (auto simp: append_spec_def split: sum.splits)

lemma os_op_same: "os_op s = (r, s') \<Longrightarrow> same_files s s' \<and> (\<forall>e. r = Inl e \<longrightarrow> e = ErrIO)"
  using os_op_io [of s] by (simp add: io_ok_def)

lemma room_nat: "length es \<le> unat (n :: uint32) \<Longrightarrow> \<not> n \<le> word_of_nat (length es) \<Longrightarrow> length es < unat n"
proof -
  have "unat n < 2 ^ 32" using unsigned_less [of n] by simp
  moreover assume "length es \<le> unat n" "\<not> n \<le> word_of_nat (length es)"
  ultimately show ?thesis by (simp add: not_le word_less_nat_alt unat_of_nat)
qed

lemma append_payload_error:
  assumes "pack_ok L p s" "pfile p = Some f" "\<not> psealed p" "file_WriteAt f (poffset p) d' s = (Inl z, s')"
  shows "append_spec L d p s (Inl z') p s'"
proof -
  from assms(1,2) obtain x where x: "get_file f s = Some x" "pack_data_ok L p (fdata x)"
    by (auto elim: pack_okE)
  from append_payload [OF assms(2) x assms(3,4)] obtain y where y: "get_file f s' = Some y" "pack_data_ok L p (fdata y)"
    "data_view L (pentries p) (fdata y) = data_view L (pentries p) (fdata x)" by blast
  from pack_okI [OF assms(2) y(1,2)] pack_okI(2) [OF assms(2) x] y(3) show ?thesis
    by (simp add: append_spec_def)
qed

lemma appendBlob_ok:
  assumes ok: "pack_ok L p s" and b: "encodes L d b" "length d < 2 ^ 32" "poffset p + 16 + length (ebStream b) < 2 ^ 32"
    and a: "appendBlob b p s = (r, p', s')"
  shows "append_spec L d p s r p' s' \<and> poffset p' \<le> poffset p + 16 + length (ebStream b)"
proof -
  from ok obtain f where f: "pfile p = Some f" by (rule pack_okE)
  have sha: "ebSHA256 b = Sum256 L d" and st: "unat (ebStoredLength b) = length (ebStream b)"
    using b by (simp_all add: encodes_def unat_word_of_nat_64)
  let ?hdr = "buildItemHeader (ebEncoding b) (ucast (ebFinalLength b))"
  have hdr: "length ?hdr = 16" by (simp add: buildItemHeader_def)
  let ?p1 = "p\<lparr>poffset := poffset p + 16 + length (ebStream b)\<rparr>"
  note e = a [unfolded appendBlob_def verifyOpenLocked_def f option.case sum.case sha st]
  show ?thesis
  proof (cases "psealed p \<or> lookupLocked p (Sum256 L d) \<noteq> None \<or> pslots p \<le> word_of_nat (length (pentries p))")
    case True
    show ?thesis
    proof (cases "\<not> psealed p \<and> lookupLocked p (Sum256 L d) \<noteq> None")
      case True
      then obtain en where en: "lookupLocked p (Sum256 L d) = Some en" by auto
      then have "r = Inr en" "p' = p" "s' = s" using e True by auto
      moreover have "pack_view L p s (Sum256 L d) \<noteq> None"
        using en lookup_view_dom [OF ok, of "Sum256 L d"] by simp
      ultimately show ?thesis
        using ok en by (auto simp: append_spec_def add_view_def)
    next
      case False
      with True have "\<exists>z. r = Inl z" "p' = p" "s' = s"
        using e by (auto split: if_splits option.splits)
      then show ?thesis using append_spec_refl [OF ok] by auto
    qed
  next
    case False
    then have ns: "\<not> psealed p" and lk: "lookup_entry (pentries p) (Sum256 L d) = None"
      and rm: "\<not> pslots p \<le> word_of_nat (length (pentries p))" by (simp_all add: lookupLocked_def)
    obtain r0 s0 where o: "os_op s = (r0, s0)" by (cases "os_op s")
    then have s0: "same_files s s0" by (simp add: os_op_same)
    with ok have ok0: "pack_ok L p s0" by (simp add: pack_ok_same_files)
    with f obtain x where x: "get_file f s0 = Some x" "pack_data_ok L p (fdata x)" by (auto elim: pack_okE)
    then have room: "length (pentries p) < unat (pslots p)"
      using rm by (intro room_nat) (simp_all add: pack_data_ok_def)
    obtain r1 s1 where w: "file_WriteAt f (poffset p) (?hdr @ ebStream b) s0 = (r1, s1)"
      by (cases "file_WriteAt f (poffset p) (?hdr @ ebStream b) s0")
    obtain r2 s2 where w2: "file_WriteAt f (32 + length (pentries p) * 48) (buildSlot (payload_entry (poffset p) b)) s1 = (r2, s2)"
      by (cases "file_WriteAt f (32 + length (pentries p) * 48) (buildSlot (payload_entry (poffset p) b)) s1")
    note e' = e [unfolded lookupLocked_def lk, simplified ns rm o]
    show ?thesis
    proof (cases r0)
      case (Inl z)
      with e' append_spec_refl [OF ok s0] show ?thesis by auto
    next
      case r0: (Inr u)
      show ?thesis
      proof (cases r1)
        case (Inl z)
        with e' r0 w have "r = Inl z" "p' = p" "s' = s1" by (auto simp: Let_def)
        with append_spec_same [OF append_payload_error [OF ok0 f ns w [unfolded Inl]] s0 same_files_refl] show ?thesis
          by simp
      next
        case (Inr u')
        note N = append_new [OF f x ns b lk room hdr w [unfolded Inr] w2 refl refl]
        from e' r0 w w2 Inr st have "r2 = Inl z \<Longrightarrow> r = Inl z \<and> p' = ?p1 \<and> s' = s2" for z
          by (simp add: Let_def payload_entry_def sha PackV2HeaderSize_def PackV2SlotSize_def BlobItemHeaderSize_def)
        moreover from e' r0 w w2 Inr st have "r2 = Inr z \<Longrightarrow> r = Inr (payload_entry (poffset p) b) \<and>
          p' = ?p1\<lparr>pentries := pentries p @ [payload_entry (poffset p) b]\<rparr> \<and> s' = s2" for z
          by (simp add: Let_def payload_entry_def sha PackV2HeaderSize_def PackV2SlotSize_def BlobItemHeaderSize_def)
        ultimately show ?thesis
          using N(1,2) append_spec_same [OF _ s0 same_files_refl] by (cases r2) auto
      qed
    qed
  qed
qed

subsection \<open>Sealing\<close>

lemma length_buildSlot [simp]: "length (buildSlot e) = 48"
  by (simp add: buildSlot_def)

lemma length_slots: "length (concat (map buildSlot es)) = length es * 48"
  by (rule length_concat_same) simp

lemma pack_data_sort:
  assumes "pack_data_ok L p data" "\<not> psealed p"
  shows "pack_data_ok L (p\<lparr>pentries := sort_key SHA256 (pentries p)\<rparr>) data"
    "data_view L (sort_key SHA256 (pentries p)) data = data_view L (pentries p) data"
proof -
  have d: "distinct (map SHA256 (pentries p))" using assms by (simp add: pack_data_ok_def)
  then have "distinct (map SHA256 (sort_key SHA256 (pentries p)))" by (simp add: distinct_map)
  then show "pack_data_ok L (p\<lparr>pentries := sort_key SHA256 (pentries p)\<rparr>) data"
    using assms by (simp add: pack_data_ok_def list_all_iff)
  show "data_view L (sort_key SHA256 (pentries p)) data = data_view L (pentries p) data"
    by (simp add: data_view_def lookup_entry_sort [OF d] fun_eq_iff)
qed

definition seal_spec :: "lib \<Rightarrow> IncrementalPack \<Rightarrow> fs \<Rightarrow> error + unit \<Rightarrow> IncrementalPack \<Rightarrow> fs \<Rightarrow> bool" where
  "seal_spec L p s r p' s' \<longleftrightarrow>
     pack_ok L p' s' \<and> pfile p' = pfile p \<and> pslots p' = pslots p \<and> poffset p' = poffset p \<and>
     pack_view L p' s' = pack_view L p s \<and> (psealed p' \<longleftrightarrow> (\<exists>u. r = Inr u))"

lemma seal_header:
  assumes f: "pfile p = Some f" "get_file f s = Some x" and D: "pack_data_ok L p (fdata x)" and ns: "\<not> psealed p"
    and tab: "slice (fdata x) 32 (32 + length (pentries p) * 48) = concat (map buildSlot (pentries p))"
    and srt: "sorted (map SHA256 (pentries p))"
    and w: "file_WriteAt f 12 (PutUint (word_of_nat (length (pentries p)) :: uint32) @ PutUint PackFlagSealed) s = (r, s')"
  shows "seal_spec L p s (Inl z) p s'" "r = Inr u \<Longrightarrow> seal_spec L p s (Inr u) (p\<lparr>psealed := True\<rparr>) s'"
proof -
  let ?h = "PutUint (word_of_nat (length (pentries p)) :: uint32) @ PutUint PackFlagSealed"
  have len: "32 \<le> length (fdata x)" using D by (simp add: pack_data_ok_def table_end_def)
  then have len12: "12 \<le> length (fdata x)" by simp
  obtain y k where y: "get_file f s' = Some y" "fdata y = write_at 12 (take k ?h) (fdata x)"
    "\<And>u. r = Inr u \<Longrightarrow> length ?h \<le> k"
    using file_WriteAt_cases [OF w f(2) len12] by metis
  have "12 + length (take k ?h) \<le> table_end (pslots p)" by (simp add: table_end_def)
  with pack_data_write [OF D ns _ len12, of "take k ?h"]
  have Y: "pack_data_ok L p (fdata y)" "data_view L (pentries p) (fdata y) = data_view L (pentries p) (fdata x)"
    unfolding y(2) by simp_all
  show "seal_spec L p s (Inl z) p s'"
    using pack_okI [OF f(1) y(1) Y(1)] pack_okI(2) [OF f D] Y(2) ns by (simp add: seal_spec_def)
  assume "r = Inr u"
  then have y2: "fdata y = write_at 12 ?h (fdata x)" using y by simp
  have "slice (fdata y) 12 20 = ?h"
    using slice_write_at_same [of 12 ?h "fdata x"] by (simp add: y2)
  moreover have "slice (fdata y) 32 (32 + length (pentries p) * 48) = slice (fdata x) 32 (32 + length (pentries p) * 48)"
    unfolding y2 using len by (intro slice_write_at_after) simp_all
  ultimately have "pack_data_ok L (p\<lparr>psealed := True\<rparr>) (fdata y)"
    using Y(1) tab srt by (simp add: pack_data_ok_def sealed_table_def)
  with pack_okI [of "p\<lparr>psealed := True\<rparr>" f s' y L] f y(1) pack_okI(2) [OF f D] Y(2)
  show "seal_spec L p s (Inr u) (p\<lparr>psealed := True\<rparr>) s'"
    by (simp add: seal_spec_def)
qed

lemma Seal_ok:
  assumes ok: "pack_ok L p s" and ns: "\<not> psealed p" and S: "Seal p full s = (r, p', full', s')"
  shows "seal_spec L p s r p' s' \<and> pentries p' = sort_key SHA256 (pentries p)"
proof -
  from ok obtain f x where f: "pfile p = Some f" "get_file f s = Some x" and D: "pack_data_ok L p (fdata x)"
    by (rule pack_okE)
  define q where "q = p\<lparr>pentries := sort_key SHA256 (pentries p)\<rparr>"
  have Q: "pack_data_ok L q (fdata x)" "data_view L (pentries q) (fdata x) = data_view L (pentries p) (fdata x)"
    using pack_data_sort [OF D ns] by (simp_all add: q_def)
  have q: "pfile q = Some f" "\<not> psealed q" "pslots q = pslots p" "poffset q = poffset p" "sorted (map SHA256 (pentries q))"
    "pentries q = sort_key SHA256 (pentries p)"
    using f ns by (simp_all add: q_def)
  let ?t = "concat (map buildSlot (pentries q))"
  have te: "32 + length ?t \<le> table_end (pslots q)" and len: "32 \<le> length (fdata x)"
    using Q(1) by (simp_all add: pack_data_ok_def table_end_def length_slots)
  obtain r1 s1 where w: "file_WriteAt f 32 ?t s = (r1, s1)" by (cases "file_WriteAt f 32 ?t s")
  obtain y k where y: "get_file f s1 = Some y" "fdata y = write_at 32 (take k ?t) (fdata x)"
    "\<And>u. r1 = Inr u \<Longrightarrow> length ?t \<le> k"
    using file_WriteAt_cases [OF w f(2) len] by metis
  have "32 + length (take k ?t) \<le> table_end (pslots q)" using te by simp
  with pack_data_write [OF Q(1) q(2) _ len, of "take k ?t"]
  have Y: "pack_data_ok L q (fdata y)" "data_view L (pentries q) (fdata y) = data_view L (pentries p) (fdata x)"
    unfolding y(2) using Q(2) by simp_all
  have v: "pack_view L q s1 = pack_view L p s"
    unfolding pack_okI(2) [OF q(1) y(1) Y(1)] pack_okI(2) [OF f D] by (rule Y(2))
  have e: "(case r1 of Inl z \<Rightarrow> (r, p', s') = (Inl z, q, s1)
    | Inr _ \<Rightarrow> (case file_WriteAt f 12 (PutUint (word_of_nat (length (pentries q)) :: uint32) @ PutUint PackFlagSealed) s1 of
        (Inl z, s2) \<Rightarrow> (r, p', s') = (Inl z, q, s2) | (Inr u, s2) \<Rightarrow> (r, p', s') = (Inr (), q\<lparr>psealed := True\<rparr>, s2)))"
    using S ns w f(1) by (auto simp: Seal_def verifyOpenLocked_def Let_def q_def [symmetric] PackV2HeaderSize_def split: sum.splits prod.splits)
  show ?thesis
  proof (cases r1)
    case (Inl z)
    with e v pack_okI(1) [OF q(1) y(1) Y(1)] f q show ?thesis by (simp add: seal_spec_def)
  next
    case (Inr u)
    with y have "fdata y = write_at 32 ?t (fdata x)" by simp
    then have tab: "slice (fdata y) 32 (32 + length (pentries q) * 48) = ?t"
      using slice_write_at_same [of 32 ?t "fdata x"] by (simp add: length_slots)
    obtain r2 s2 where w2: "file_WriteAt f 12 (PutUint (word_of_nat (length (pentries q)) :: uint32) @ PutUint PackFlagSealed) s1 = (r2, s2)"
      by (cases "file_WriteAt f 12 (PutUint (word_of_nat (length (pentries q)) :: uint32) @ PutUint PackFlagSealed) s1")
    from seal_header [OF q(1) y(1) Y(1) q(2) tab q(5) w2] e Inr w2 f q v show ?thesis
      by (cases r2) (auto simp: seal_spec_def)
  qed
qed

end
