(* ===== verification/PackProps.thy ===== *)
theory PackProps
  imports PackLib
begin

text \<open>
  What packs promise: the content of an incremental pack under appends and faults, the file of a
  sealed pack read back by the reader, the binary search of \<^verbatim>\<open>PackFile.Lookup\<close>, whole packs written by
  \<^verbatim>\<open>WritePackfile\<close>, and the round trips of loose blobs and of chunking.
\<close>

subsection \<open>Reading a sealed pack\<close>

lemma slice_buildSlot:
  "slice (buildSlot e) 0 32 = PutUint (SHA256 e)" "slice (buildSlot e) 32 36 = PutUint (DataOffset e)"
  "slice (buildSlot e) 36 40 = PutUint (StoredLength e)" "slice (buildSlot e) 40 44 = PutUint (FinalLength e)"
  "slice (buildSlot e) 44 48 = PutUint (Encoding e)"
  by (simp_all add: buildSlot_def slice_def)

lemma v2_entry_buildSlot:
  assumes "i < length es"
  shows "v2_entry (concat (map buildSlot es) @ rest) (i * 48) = es ! i"
proof -
  let ?t = "concat (map buildSlot es) @ rest" and ?o = "i * 48"
  have s: "slice ?t ?o (48 + ?o) = buildSlot (es ! i)"
    by (rule slice_concat_same) (use assms in simp_all)
  have sl: "slice ?t (?o + a) (?o + b) = slice (buildSlot (es ! i)) a b" if "b \<le> 48" for a b
    using slice_slice [of ?o b "48 + ?o" ?t a] that unfolding s by simp
  have "slice ?t ?o (?o + 32) = PutUint (SHA256 (es ! i))"
    using sl [of 32 0] by (simp add: slice_buildSlot)
  moreover have "slice ?t (?o + 32) (?o + 36) = PutUint (DataOffset (es ! i))"
    "slice ?t (?o + 36) (?o + 40) = PutUint (StoredLength (es ! i))"
    "slice ?t (?o + 40) (?o + 44) = PutUint (FinalLength (es ! i))"
    "slice ?t (?o + 44) (?o + 48) = PutUint (Encoding (es ! i))"
    by (simp_all add: sl slice_buildSlot)
  ultimately show ?thesis
    unfolding v2_entry_def by simp
qed

lemma DecodePackTable_v2:
  assumes "slice data 0 12 = BuildFileHeaderWithVersion FileTypePack VersionV2 @ PutUint n"
    and "slice data 12 20 = PutUint (word_of_nat (length es) :: uint32) @ PutUint flags"
    and "slice data 32 (32 + length es * 48) = concat (map buildSlot es)"
    and "length es \<le> unat n" "unat n * 48 < 2 ^ 32" "32 + unat n * 48 \<le> length data"
  shows "DecodePackTable data = Inr \<lparr>pfVersion = VersionV2, pfSlots = n, pfFlags = flags, pfEntries = es\<rparr>"
proof -
  let ?fh = "BuildFileHeaderWithVersion FileTypePack VersionV2"
  let ?u = "word_of_nat (length es) :: uint32"
  have ln: "length es < 2 ^ 32" using assms(4,5) by linarith
  then have u: "unat ?u = length es" by (simp add: unat_of_nat)
  then have un: "\<not> n < ?u" using assms(4) by (simp add: word_less_nat_alt)
  have s: "slice data 0 8 = ?fh" "slice data 8 12 = PutUint n" "slice data 12 16 = PutUint ?u" "slice data 16 20 = PutUint flags"
    using arg_cong [OF assms(1), of "take 8"] arg_cong [OF assms(1), of "drop 8"]
      arg_cong [OF assms(2), of "take 4"] arg_cong [OF assms(2), of "drop 4"]
    by (simp_all add: slice_def drop_take take_take min_def)
  have h: "ReadFull FileHeaderSize data = ReadOk ?fh (drop 8 data)"
    using assms(6) s(1) by (simp add: ReadFull_def FileHeaderSize_def slice_def)
  have r: "ReadFull (PackV2HeaderSize - FileHeaderSize) (drop 8 data) = ReadOk (slice data 8 32) (drop 32 data)"
    using assms(6) by (simp add: ReadFull_def FileHeaderSize_def PackV2HeaderSize_def slice_def)
  have r4: "slice (slice data 8 32) 0 4 = PutUint n" "slice (slice data 8 32) 4 8 = PutUint ?u" "slice (slice data 8 32) 8 12 = PutUint flags"
    using s by (simp_all add: slice_def drop_take take_take min_def)
  have sz: "unat (n * 48) = unat n * 48"
    using assms(5) by (simp add: unat_word_ariths)
  let ?t = "take (unat n * 48) (drop 32 data)"
  have t: "ReadFull (unat n * 48) (drop 32 data) = ReadOk ?t (drop (32 + unat n * 48) data)"
    using assms(6) by (simp add: ReadFull_def add.commute)
  have "?t = concat (map buildSlot es) @ slice data (32 + length es * 48) (32 + unat n * 48)"
    using assms(3,4) slice_concat [of 32 "32 + length es * 48" "32 + unat n * 48" data] by (simp add: slice_def)
  then have "map (\<lambda>i. v2_entry ?t (i * 48)) [0..<length es] = map (\<lambda>i. es ! i) [0..<length es]"
    by (simp add: v2_entry_buildSlot)
  then have m: "map (\<lambda>i. v2_entry ?t (i * 48)) [0..<length es] = es" by (simp add: map_nth)
  have lt: "\<not> length ?t < length es * 48" using assms(4,6) by simp
  have p: "ParseFileHeader ?fh = Inr \<lparr>fhMagic = Magic, fhVersion = VersionV2, fhFileType = FileTypePack, fhReserved = Uint [0, 0]\<rparr>"
    using ParseFileHeader_Build [of VersionV2 FileTypePack "[]"] by simp
  have "decode_table_v2 (drop 8 data) = Inr \<lparr>pfVersion = VersionV2, pfSlots = n, pfFlags = flags, pfEntries = es\<rparr>"
    unfolding decode_table_v2_def r read.case r4 Let_def using un lt
    by (simp add: u sz t PackV2SlotSize_def m)
  then show ?thesis
    unfolding DecodePackTable_def h read.case p sum.case by (simp add: VersionV1_def VersionV2_def)
qed

lemma sealed_decode:
  assumes "pack_data_ok L p data" "psealed p" "unat (pslots p) * 48 < 2 ^ 32"
  shows "DecodePackTable data =
    Inr \<lparr>pfVersion = VersionV2, pfSlots = pslots p, pfFlags = PackFlagSealed, pfEntries = pentries p\<rparr>"
  using assms by (intro DecodePackTable_v2) (auto simp: pack_data_ok_def sealed_table_def table_end_def)

lemma Lookup_linear:
  assumes "sorted (map SHA256 (pfEntries pf))"
  shows "PackFile_Lookup pf sha = lookup_entry (pfEntries pf) sha"
proof -
  let ?es = "pfEntries pf"
  let ?i = "Search (length ?es) (\<lambda>i. SHA256 (?es ! i) \<ge> sha)"
  have le: "SHA256 (?es ! a) \<le> SHA256 (?es ! b)" if "a \<le> b" "b < length ?es" for a b
    using assms that sorted_nth_mono [of "map SHA256 ?es" a b] by simp
  have S: "?i \<le> length ?es \<and> (\<forall>k. k < ?i \<longrightarrow> \<not> sha \<le> SHA256 (?es ! k)) \<and>
      (\<forall>k. ?i \<le> k \<longrightarrow> k < length ?es \<longrightarrow> sha \<le> SHA256 (?es ! k))"
    by (rule Search_spec) (use le in \<open>fastforce dest: order_trans\<close>)
  define n where "n = ?i"
  have n: "?i = n" "\<And>k. k < n \<Longrightarrow> \<not> sha \<le> SHA256 (?es ! k)"
    "\<And>k. n \<le> k \<Longrightarrow> k < length ?es \<Longrightarrow> sha \<le> SHA256 (?es ! k)"
    using S unfolding n_def by blast+
  show ?thesis
  proof (cases "lookup_entry ?es sha")
    case None
    then have "SHA256 (?es ! i) \<noteq> sha" if "i < length ?es" for i
      using that by (auto simp: lookup_entry_None)
    with None show ?thesis by (simp add: PackFile_Lookup_def Let_def)
  next
    case (Some e)
    have ex: "\<exists>i < length es. es ! i = e \<and> SHA256 e = sha \<and> (\<forall>j < i. SHA256 (es ! j) \<noteq> sha)"
      if "lookup_entry es sha = Some e" for es
      using that
    proof (induction es)
      case (Cons x es)
      show ?case
      proof (cases "SHA256 x = sha")
        case True
        with Cons.prems show ?thesis by (intro exI [of _ 0]) simp
      next
        case False
        with Cons obtain i where "i < length es" "es ! i = e" "SHA256 e = sha" "\<forall>j < i. SHA256 (es ! j) \<noteq> sha" by auto
        with False show ?thesis by (intro exI [of _ "Suc i"]) (auto simp: nth_Cons split: nat.splits)
      qed
    qed simp
    from ex [OF Some] obtain i where i: "i < length ?es" "?es ! i = e" "SHA256 e = sha" "\<forall>j < i. SHA256 (?es ! j) \<noteq> sha" by blast
    from n(2) [of i] i(2,3) have "\<not> i < n" by auto
    moreover have "\<not> n < i"
    proof
      assume lt: "n < i"
      with n(3) [of n] le [of n i] i(1-3) have "SHA256 (?es ! n) = sha" by (intro order_antisym) simp_all
      with i(4) lt show False by simp
    qed
    ultimately have "n = i" by simp
    then show ?thesis using i(1-3) Some n(1) by (simp add: PackFile_Lookup_def Let_def)
  qed
qed

subsection \<open>Reading and appending\<close>

lemma ReadBlob_view:
  assumes "pack_ok L p s" "lookupLocked p sha = Some e"
  shows "\<exists>d. pack_view L p s sha = Some d \<and> Sum256 L d = sha \<and> io_ok s (ReadBlob L e p s) \<and>
    (\<forall>x. fst (ReadBlob L e p s) = Inr x \<longrightarrow> x = d)"
proof -
  from assms(1) obtain f x where f: "pfile p = Some f" "get_file f s = Some x" and D: "pack_data_ok L p (fdata x)"
    and v: "pack_view L p s = data_view L (pentries p) (fdata x)" by (rule pack_okE)
  from assms lookup_view_dom [OF assms(1), of sha] obtain d where d: "pack_view L p s sha = Some d" by auto
  from data_view_SomeD [OF D d [unfolded v]] assms(2)
  have e: "entry_reader L (fdata x) e = Inr (Inr d)" "unat (FinalLength e) = length d" "Sum256 L d = sha"
    by (auto simp: lookupLocked_def)
  have r: "ReadBlob L e p s = decodePayloadToByteStream L
      (slice (fdata x) (unat (DataOffset e)) (unat (DataOffset e) + unat (StoredLength e))) (Encoding e) (int (length d)) s"
    using f e(2) by (simp add: ReadBlob_def verifyOpenLocked_def file_data_def flip: e(2))
  have io: "io_ok s (ReadBlob L e p s)"
    unfolding r using e(1) by (intro decodePayload_io) (simp add: entry_reader_def)
  have "y = d" if "fst (ReadBlob L e p s) = Inr y" for y
    using that e(1) unfolding r
    by (cases "decodePayloadToByteStream L (slice (fdata x) (unat (DataOffset e)) (unat (DataOffset e) + unat (StoredLength e)))
      (Encoding e) (int (length d)) s") (auto simp: entry_reader_def dest!: decodePayload_InrD)
  with d e(3) io show ?thesis by blast
qed

lemma file_WriteAt_clean: "faults s = [] \<Longrightarrow> file_WriteAt p off d s = (Inr (), put_at p off d s)"
  by (simp add: file_WriteAt_def pop_fault_def)

lemma put_at_faults [simp]: "faults (put_at p off d s) = faults s"
  by (simp add: put_at_def set_file_def split: option.splits)

lemma close_blob_io: "same_files s (snd (close_blob t s)) \<and> (faults s = [] \<longrightarrow> close_blob t s = (None, s))"
proof -
  obtain r1 s1 where 1: "os_op s = (r1, s1)" by (cases "os_op s")
  obtain r2 s2 where 2: "os_op s1 = (r2, s2)" by (cases "os_op s1")
  from os_op_same [OF 1] os_op_same [OF 2] 1 2 show ?thesis
    by (auto simp: close_blob_def os_op_clean intro: same_files_trans split: sum.splits)
qed

lemma appendBlob_clean:
  assumes "pfile p = Some f" "\<not> psealed p" "word_of_nat (length (pentries p)) < pslots p" "faults s = []"
  shows "\<exists>e p' s'. appendBlob b p s = (Inr e, p', s') \<and> faults s' = []"
  using assms
  by (auto simp: appendBlob_def verifyOpenLocked_def os_op_clean file_WriteAt_clean Let_def split: option.splits)

lemma IncrementalPack_Append_cases:
  assumes "zlib_ok L" "IncrementalPack_Append L d p s = (r, p', s')"
  obtains (enc) "same_files s s'" "p' = p" "\<exists>e. r = Inl e" "faults s \<noteq> []"
  | (app) b s1 r1 s2 where "same_files s s1" "encodes L d b" "appendBlob b p s1 = (r1, p', s2)" "same_files s2 s'"
      "r = r1 \<or> (\<exists>e. r = Inl e) \<and> (faults s2 \<noteq> [])" "faults s = [] \<longrightarrow> faults s1 = []"
proof -
  obtain r0 s1 where e: "EncodeBlob L d True s = (r0, s1)" by (cases "EncodeBlob L d True s")
  have io: "same_files s s1" "faults s = [] \<longrightarrow> faults s1 = []" "\<And>e. r0 = Inl e \<Longrightarrow> faults s \<noteq> []"
    using EncodeBlob_io [of s L d True] by (auto simp: io_ok_def e)
  show ?thesis
  proof (cases r0)
    case (Inl z)
    with assms(2) e io show ?thesis by (intro enc) (auto simp: IncrementalPack_Append_def)
  next
    case (Inr b)
    obtain r1 p1 s2 where a: "appendBlob b p s1 = (r1, p1, s2)" by (cases "appendBlob b p s1")
    define t where "t = (ebEncoding b = EncodingCompressed \<and> length d > MemoryThreshold)"
    obtain c s3 where c: "close_blob t s2 = (c, s3)" by (cases "close_blob t s2")
    have "p' = p1" "s' = s3" "c = None \<Longrightarrow> r = r1" "\<And>e. c = Some e \<Longrightarrow> \<exists>e. r = Inl e"
      using assms(2) e Inr a c by (auto simp: IncrementalPack_Append_def t_def split: option.splits)
    moreover have "same_files s2 s3" "c \<noteq> None \<Longrightarrow> faults s2 \<noteq> []"
      using close_blob_io [of s2 t] c by auto
    ultimately show ?thesis
      using io EncodeBlob_ok [OF assms(1) e [unfolded Inr]] a by (intro app [of s1 b r1 s2]) auto
  qed
qed

lemma encodes_length: "encodes L d b \<Longrightarrow> length (ebStream b) \<le> length d"
  by (simp add: encodes_def)

text \<open>C17: Appending data to an incremental pack only ever adds that data. For every pattern of
  faults, after \<^verbatim>\<open>IncrementalPack.Append\<close> the pack is well formed and its content (the data each hash
  reads back as) is the old content, or the old content with the hash of the data mapped to the
  data; if the call succeeds it is the latter, and the entry it returns is the one
  \<^verbatim>\<open>Lookup\<close> finds. Without faults, with a free slot and an open unsealed pack, it succeeds.\<close>

theorem pack_append_refines:
  assumes "zlib_ok L" "pack_ok L p s" "length d < 2 ^ 32" "poffset p + 16 + length d < 2 ^ 32"
    and "IncrementalPack_Append L d p s = (r, p', s')"
  shows "pack_ok L p' s' \<and>
    pack_view L p' s' \<in> {pack_view L p s, add_view (Sum256 L d) d (pack_view L p s)} \<and>
    (\<forall>e. r = Inr e \<longrightarrow> lookupLocked p' (Sum256 L d) = Some e \<and>
       pack_view L p' s' = add_view (Sum256 L d) d (pack_view L p s)) \<and>
    (faults s = [] \<and> \<not> psealed p \<and> word_of_nat (length (pentries p)) < pslots p \<longrightarrow> (\<exists>e. r = Inr e))"
  using assms(1,5)
proof (cases rule: IncrementalPack_Append_cases)
  case enc
  with pack_ok_same_files [of s s' L p] assms(2) show ?thesis by auto
next
  case (app b s1 r1 s2)
  with assms(2) have "pack_ok L p s1" by (simp add: pack_ok_same_files)
  from appendBlob_ok [OF this app(2) assms(3) _ app(3)] assms(4) encodes_length [OF app(2)]
  have "append_spec L d p s1 r1 p' s2" by auto
  from append_spec_same [OF this app(1,4)] have "append_spec L d p s r1 p' s'" .
  moreover have "\<exists>e. r = Inr e" if "faults s = []" "\<not> psealed p" "word_of_nat (length (pentries p)) < pslots p"
    using appendBlob_clean [of p _ s1 b] that app assms(2) by (auto elim!: pack_okE)
  ultimately show ?thesis
    using app(5) by (cases r1) (auto simp: append_spec_def)
qed

subsection \<open>New packs and whole packs\<close>

lemma NewIncrementalPackFromFile_ok:
  assumes "get_file f s = Some x" "fdata x = []" "NewIncrementalPackFromFile f n s = (r, s')"
  shows "case r of Inl e \<Rightarrow> e = ErrIO \<and> faults s \<noteq> []
    | Inr p \<Rightarrow> pack_ok L p s' \<and> pack_view L p s' = Map.empty \<and> pslots p = (if n = 0 then DefaultPackSlots else n) \<and>
        pfile p = Some f \<and> \<not> psealed p \<and> pentries p = [] \<and> poffset p = table_end (pslots p) \<and>
        (faults s = [] \<longrightarrow> faults s' = [])"
proof -
  define m where "m = (if n = 0 then DefaultPackSlots else n)"
  let ?h = "BuildFileHeaderWithVersion FileTypePack VersionV2 @ PutUint m @ replicate (PackV2HeaderSize + unat m * PackV2SlotSize - 12) 0"
  have lh: "length ?h = table_end m" by (simp add: PackV2HeaderSize_def PackV2SlotSize_def table_end_def)
  have m0: "0 < m" by (auto simp: m_def DefaultPackSlots_def word_neq_0_conv)
  let ?p = "\<lparr>pfile = Some f, pslots = m, poffset = table_end m, psealed = False, pentries = []\<rparr>"
  obtain r1 s1 where w: "file_WriteAt f 0 ?h s = (r1, s1)" by (cases "file_WriteAt f 0 ?h s")
  have eq: "NewIncrementalPackFromFile f n s = andThen (r1, s1) (\<lambda>_ s. (Inr ?p, s))"
    unfolding NewIncrementalPackFromFile_def Let_def m_def [symmetric] w lh ..
  obtain y k where y: "get_file f s1 = Some y" "fdata y = write_at 0 (take k ?h) (fdata x)"
    "\<And>u. r1 = Inr u \<Longrightarrow> length ?h \<le> k" "\<And>e. r1 = Inl e \<Longrightarrow> e = ErrIO" "faults s = [] \<Longrightarrow> r1 = Inr () \<and> faults s1 = []"
    using file_WriteAt_cases [OF w assms(1)] by (metis le0)
  show ?thesis
  proof (cases r1)
    case (Inl e)
    then have "r = Inl e" using assms(3) by (simp add: eq)
    with Inl y(4,5) show ?thesis by auto
  next
    case (Inr u)
    then have r: "r = Inr ?p" "s' = s1" using assms(3) by (simp_all add: eq)
    from y(2,3) Inr have "fdata y = ?h" by (simp add: assms(2) write_at_def)
    moreover have "slice ?h 0 12 = BuildFileHeaderWithVersion FileTypePack VersionV2 @ PutUint m" by (simp add: slice_def)
    ultimately have "pack_data_ok L ?p (fdata y)"
      using m0 lh by (simp add: pack_data_ok_def)
    with pack_okI [of ?p f s1 y L] y(1,5) show ?thesis
      by (simp add: r m_def data_view_def fun_eq_iff)
  qed
qed

definition views :: "lib \<Rightarrow> bytes list \<Rightarrow> (sha256 \<Rightarrow> bytes option) \<Rightarrow> sha256 \<Rightarrow> bytes option" where
  "views L ds v = fold (\<lambda>d. add_view (Sum256 L d) d) ds v"

lemma append_all_ok:
  assumes "pack_ok L p s" "list_all2 (encodes L) ds bs" "\<forall>d\<in>set ds. length d < 2 ^ 32"
    and "poffset p + (\<Sum>b\<leftarrow>bs. 16 + length (ebStream b)) < 2 ^ 32" "append_all bs p s = (Inr u, p', s')"
  shows "pack_ok L p' s' \<and> pack_view L p' s' = views L ds (pack_view L p s) \<and>
    pfile p' = pfile p \<and> pslots p' = pslots p \<and> psealed p' = psealed p"
  using assms(2,1,3-)
proof (induction arbitrary: p s rule: list_all2_induct)
  case Nil
  then show ?case by (simp add: views_def)
next
  case (Cons d ds b bs)
  obtain e p1 s1 where a: "appendBlob b p s = (Inr e, p1, s1)" "append_all bs p1 s1 = (Inr u, p', s')"
    using Cons.prems(4) by (auto split: prod.splits sum.splits)
  have "poffset p + 16 + length (ebStream b) < 2 ^ 32" using Cons.prems(3) by simp
  from appendBlob_ok [OF Cons.prems(1) Cons.hyps(1) _ this a(1)] Cons.prems(2)
  have "append_spec L d p s (Inr e) p1 s1" "poffset p1 \<le> poffset p + 16 + length (ebStream b)" by auto
  with Cons.IH [OF _ _ _ a(2)] Cons.prems(2,3) show ?case
    by (simp add: append_spec_def views_def)
qed

lemma views_dom: "sha \<in> Sum256 L ` set ds \<Longrightarrow> views L ds v sha \<noteq> None"
proof -
  have keep: "v sha \<noteq> None \<Longrightarrow> views L ds v sha \<noteq> None" for v ds
    unfolding views_def by (induction ds arbitrary: v) (auto simp: add_view_def split: option.splits)
  show "sha \<in> Sum256 L ` set ds \<Longrightarrow> views L ds v sha \<noteq> None"
  proof (induction ds arbitrary: v)
    case (Cons d ds)
    show ?case
    proof (cases "sha = Sum256 L d")
      case True
      then have "add_view (Sum256 L d) d v sha \<noteq> None" by (simp add: add_view_def split: option.splits)
      with keep [of "add_view (Sum256 L d) d v" ds] show ?thesis by (simp add: views_def)
    next
      case False
      with Cons show ?thesis by (simp add: views_def)
    qed
  qed simp
qed

lemma views_mem: "views L ds v sha = Some d \<Longrightarrow> v sha = Some d \<or> d \<in> set ds \<and> Sum256 L d = sha"
proof (induction ds arbitrary: v)
  case (Cons a ds)
  then have "add_view (Sum256 L a) a v sha = Some d \<or> d \<in> set ds \<and> Sum256 L d = sha"
    by (simp add: views_def)
  then show ?case
    by (auto simp: add_view_def split: option.splits if_splits)
qed (simp add: views_def)

lemma views_same:
  "\<forall>a\<in>set ds. \<forall>b\<in>set ds. Sum256 L a = Sum256 L b \<longrightarrow> a = b \<Longrightarrow> d \<in> set ds \<Longrightarrow>
   views L ds Map.empty (Sum256 L d) = Some d"
proof -
  assume inj: "\<forall>a\<in>set ds. \<forall>b\<in>set ds. Sum256 L a = Sum256 L b \<longrightarrow> a = b" and d: "d \<in> set ds"
  from d views_dom [of "Sum256 L d" L ds Map.empty] obtain d' where d': "views L ds Map.empty (Sum256 L d) = Some d'"
    by auto
  from views_mem [OF this] inj d have "d' = d" by simp
  with d' show ?thesis by simp
qed

subsection \<open>The reader on a sealed pack\<close>

definition reads_as :: "lib \<Rightarrow> PackFile \<Rightarrow> bytes \<Rightarrow> (sha256 \<Rightarrow> bytes option) \<Rightarrow> fs \<Rightarrow> bool" where
  \<comment> \<open>\<open>Lookup\<close> and \<open>DecodeBlob\<close> on the bytes from the offset of the entry give the content \<open>v\<close>; only a
      fault of a temporary file can make the decoding fail\<close>
  "reads_as L pf data v s \<longleftrightarrow>
     (\<forall>sha. case PackFile_Lookup pf sha of
        None \<Rightarrow> v sha = None
      | Some e \<Rightarrow>
          (case v sha of
             None \<Rightarrow> False
           | Some d \<Rightarrow>
               (case PackFile_DecodeBlob L pf (drop (unat (DataOffset e)) data) e s of
                  (Inr x, _) \<Rightarrow> x = d
                | (Inl z, _) \<Rightarrow> z = ErrIO \<and> faults s \<noteq> [])))"

lemma DecodeBlob_entry:
  assumes "entry_ok L lo hi data e" "hi \<le> length data" "entry_reader L data e = Inr (Inr d)" "pfVersion pf = VersionV2"
  shows "case PackFile_DecodeBlob L pf (drop (unat (DataOffset e)) data) e s of
      (Inr x, _) \<Rightarrow> x = d | (Inl z, _) \<Rightarrow> z = ErrIO \<and> faults s \<noteq> []"
proof -
  let ?b = "slice data (unat (DataOffset e)) (unat (DataOffset e) + unat (StoredLength e))"
  have h: "unat (DataOffset e) + unat (StoredLength e) \<le> length data" "unat (FinalLength e) = length d" "SHA256 e = Sum256 L d"
    using assms(1-3) by (auto simp: entry_ok_def)
  then have "ReadFull (unat (StoredLength e)) (drop (unat (DataOffset e)) data) =
      ReadOk ?b (drop (unat (StoredLength e)) (drop (unat (DataOffset e)) data))"
    by (simp add: ReadFull_def slice_def)
  moreover have "uint (FinalLength e) = int (length d)"
    using h(2) by (metis uint_nat)
  ultimately have eq: "PackFile_DecodeBlob L pf (drop (unat (DataOffset e)) data) e s =
      andThen (decodePayloadToByteStream L ?b (Encoding e) (int (length d)) s) (\<lambda>stream s. (verify_sha L e stream, s))"
    using assms(4) by (simp add: PackFile_DecodeBlob_def VersionV1_def VersionV2_def)
  have "payload_reader L ?b (Encoding e) = Inr (Inr d)" using assms(3) by (simp add: entry_reader_def)
  note io = decodePayload_io [OF this, of s] and D = decodePayload_InrD [of L ?b "Encoding e" "int (length d)" s]
  obtain r s' where r: "decodePayloadToByteStream L ?b (Encoding e) (int (length d)) s = (r, s')"
    by (cases "decodePayloadToByteStream L ?b (Encoding e) (int (length d)) s")
  show ?thesis
  proof (cases r)
    case (Inl z)
    with io show ?thesis unfolding eq r by (simp add: io_ok_def r)
  next
    case (Inr x)
    with D r assms(3) have "x = d" by (simp add: entry_reader_def)
    with Inr h show ?thesis unfolding eq r by (simp add: verify_sha_def computeStreamSHA256_def)
  qed
qed

lemma sealed_reads:
  assumes "pack_ok L p s" "psealed p" "unat (pslots p) * 48 < 2 ^ 32" "pfile p = Some f"
  shows "DecodePackTable (file_data f s) =
      Inr \<lparr>pfVersion = VersionV2, pfSlots = pslots p, pfFlags = PackFlagSealed, pfEntries = pentries p\<rparr>"
    and "reads_as L \<lparr>pfVersion = VersionV2, pfSlots = pslots p, pfFlags = PackFlagSealed, pfEntries = pentries p\<rparr>
      (file_data f s) (pack_view L p s) t"
proof -
  from assms(1,4) obtain x where x: "get_file f s = Some x" and D: "pack_data_ok L p (fdata x)"
    and v: "pack_view L p s = data_view L (pentries p) (fdata x)" by (auto elim: pack_okE)
  have fd: "file_data f s = fdata x" using x by (simp add: file_data_def)
  show "DecodePackTable (file_data f s) =
      Inr \<lparr>pfVersion = VersionV2, pfSlots = pslots p, pfFlags = PackFlagSealed, pfEntries = pentries p\<rparr>"
    unfolding fd by (rule sealed_decode [OF D assms(2,3)])
  let ?pf = "\<lparr>pfVersion = VersionV2, pfSlots = pslots p, pfFlags = PackFlagSealed, pfEntries = pentries p\<rparr>"
  have lk: "PackFile_Lookup ?pf sha = lookup_entry (pentries p) sha" for sha
    using D assms(2) Lookup_linear [of ?pf sha] by (simp add: pack_data_ok_def sealed_table_def)
  have "case PackFile_DecodeBlob L ?pf (drop (unat (DataOffset e)) (fdata x)) e t of
      (Inr y, _) \<Rightarrow> y = d | (Inl z, _) \<Rightarrow> z = ErrIO \<and> faults t \<noteq> []"
    if "lookup_entry (pentries p) sha = Some e" "data_view L (pentries p) (fdata x) sha = Some d" for sha e d
  proof (rule DecodeBlob_entry)
    show "entry_ok L (table_end (pslots p)) (poffset p) (fdata x) e" "poffset p \<le> length (fdata x)"
      using D lookup_entry_Some [OF that(1)] by (auto simp: pack_data_ok_def list_all_iff)
    show "entry_reader L (fdata x) e = Inr (Inr d)"
      using that by (auto simp: data_view_def split: sum.splits)
  qed simp
  then show "reads_as L ?pf (file_data f s) (pack_view L p s) t"
    unfolding reads_as_def lk v fd using data_view_eq_None [OF D]
    by (auto split: option.splits)
qed

subsection \<open>An instance of the parameters\<close>

definition demo_lib :: lib where
  \<comment> \<open>a hash and a compressor with the documented law that does shorten some input\<close>
  "demo_lib =
     \<lparr>Sum256 = (\<lambda>d. word_of_nat (be_val d)),
      deflate = (\<lambda>d. if d = replicate 40 7 then [1] else 0 # d),
      inflate = (\<lambda>r. case r of [] \<Rightarrow> Inl ErrEOF
        | b # d \<Rightarrow> Inr (Inr (if b = 1 then replicate 40 7 else d)))\<rparr>"

definition demo_disk :: fs where
  "demo_disk = \<lparr>files = [(''/p'', \<lparr>fdata = [], synced = 0\<rparr>)], faults = [], clock = 0\<rparr>"

lemma demo_lib_ok [simp]: "zlib_ok demo_lib"
  by (simp add: zlib_ok_def demo_lib_def)

lemma demo_disk [simp]: "get_file ''/p'' demo_disk = Some \<lparr>fdata = [], synced = 0\<rparr>" "faults demo_disk = []"
  by (simp_all add: demo_disk_def get_file_def)

lemma demo_pack:
  assumes "n \<noteq> 0"
  obtains p s where "NewIncrementalPackFromFile ''/p'' n demo_disk = (Inr p, s)" "pack_ok demo_lib p s"
    "pack_view demo_lib p s = Map.empty" "pslots p = n" "pfile p = Some ''/p''" "\<not> psealed p" "pentries p = []"
    "poffset p = table_end n" "faults s = []"
proof -
  obtain r s where r: "NewIncrementalPackFromFile ''/p'' n demo_disk = (r, s)"
    by (cases "NewIncrementalPackFromFile ''/p'' n demo_disk")
  from NewIncrementalPackFromFile_ok [OF demo_disk(1) _ r, of demo_lib] that [of _ s] r assms show ?thesis
    by (auto split: sum.splits)
qed

theorem pack_append_refines_witness:
  "\<exists>p s e p' s'. NewIncrementalPackFromFile ''/p'' 2 demo_disk = (Inr p, s) \<and>
     IncrementalPack_Append demo_lib [1, 2, 3] p s = (Inr e, p', s') \<and> pack_ok demo_lib p' s' \<and>
     pack_view demo_lib p' s' = [Sum256 demo_lib [1, 2, 3] \<mapsto> [1, 2, 3]]"
proof -
  obtain p s where p: "NewIncrementalPackFromFile ''/p'' 2 demo_disk = (Inr p, s)" "pack_ok demo_lib p s"
    "pack_view demo_lib p s = Map.empty" "pslots p = 2" "\<not> psealed p" "pentries p = []" "poffset p = table_end 2" "faults s = []"
    by (rule demo_pack [of 2]) auto
  obtain r p' s' where a: "IncrementalPack_Append demo_lib [1, 2, 3] p s = (r, p', s')"
    by (cases "IncrementalPack_Append demo_lib [1, 2, 3] p s")
  from pack_append_refines [OF demo_lib_ok p(2) _ _ a] p a show ?thesis
    by (auto simp: table_end_def add_view_def)
qed

text \<open>C20: \<^verbatim>\<open>ReadBlob\<close> on the entry \<^verbatim>\<open>Lookup\<close> finds returns the content of the pack under that hash, and
  the hash of what it returns is the hash asked for; only a fault makes it fail.\<close>

theorem pack_read_content:
  assumes "pack_ok L p s" "lookupLocked p sha = Some e"
  shows "case ReadBlob L e p s of
      (Inr d, s') \<Rightarrow> pack_view L p s sha = Some d \<and> Sum256 L d = sha
    | (Inl z, s') \<Rightarrow> z = ErrIO \<and> faults s \<noteq> []"
proof -
  from ReadBlob_view [OF assms] obtain d where "pack_view L p s sha = Some d" "Sum256 L d = sha" "io_ok s (ReadBlob L e p s)"
    "\<forall>x. fst (ReadBlob L e p s) = Inr x \<longrightarrow> x = d" by blast
  then show ?thesis
    by (cases "ReadBlob L e p s"; cases "fst (ReadBlob L e p s)") (simp_all add: io_ok_def)
qed

lemma demo_pack_one:
  obtains p s e where "pack_ok demo_lib p s" "pack_view demo_lib p s = [Sum256 demo_lib [1, 2, 3] \<mapsto> [1, 2, 3]]"
    "lookupLocked p (Sum256 demo_lib [1, 2, 3]) = Some e" "pslots p = 2" "pfile p = Some ''/p''" "\<not> psealed p"
proof -
  obtain p s where p: "pack_ok demo_lib p s" "pack_view demo_lib p s = Map.empty" "pslots p = 2" "pfile p = Some ''/p''"
    "\<not> psealed p" "pentries p = []" "poffset p = table_end 2" "faults s = []"
    by (rule demo_pack [of 2]) auto
  have enc: "encodes demo_lib [1, 2, 3] (raw_blob demo_lib [1, 2, 3])" by simp
  obtain e p' s' where a: "appendBlob (raw_blob demo_lib [1, 2, 3]) p s = (Inr e, p', s')"
    using appendBlob_clean [of p _ s] p by fastforce
  from appendBlob_ok [OF p(1) enc _ _ a] p have "append_spec demo_lib [1, 2, 3] p s (Inr e) p' s'"
    by (simp add: table_end_def raw_blob_def)
  with p that [of p' s' e] show ?thesis by (auto simp: append_spec_def add_view_def)
qed

theorem pack_read_content_witness:
  "\<exists>p s e. pack_ok demo_lib p s \<and> lookupLocked p (Sum256 demo_lib [1, 2, 3]) = Some e \<and>
     (case ReadBlob demo_lib e p s of (Inr d, s') \<Rightarrow> d = [1, 2, 3] | (Inl z, s') \<Rightarrow> z = ErrIO)"
proof -
  obtain p s e where p: "pack_ok demo_lib p s" "pack_view demo_lib p s = [Sum256 demo_lib [1, 2, 3] \<mapsto> [1, 2, 3]]"
    "lookupLocked p (Sum256 demo_lib [1, 2, 3]) = Some e" by (rule demo_pack_one)
  have "case ReadBlob demo_lib e p s of (Inr d, s') \<Rightarrow> d = [1, 2, 3] | (Inl z, s') \<Rightarrow> z = ErrIO"
    using pack_read_content [OF p(1,3)] by (simp add: p(2) split: prod.splits sum.splits)
  with p show ?thesis by (intro exI [of _ p] exI [of _ s] exI [of _ e] conjI)
qed

text \<open>C18: A successful \<^verbatim>\<open>Seal\<close> makes the file a packfile of exactly the content of the pack:
  \<^verbatim>\<open>DecodePackTable\<close> accepts the file, and for every hash \<^verbatim>\<open>PackFile.Lookup\<close> (a binary search) and
  \<^verbatim>\<open>PackFile.DecodeBlob\<close> at the offset of the entry give the data the pack held, and nothing for a
  hash it did not hold.\<close>

theorem pack_seal_readable:
  assumes "pack_ok L p s" "\<not> psealed p" "pfile p = Some f" "unat (pslots p) * 48 < 2 ^ 32"
    and "Seal p full s = (Inr u, p', full', s')"
  shows "\<exists>pf. DecodePackTable (file_data f s') = Inr pf \<and> reads_as L pf (file_data f s') (pack_view L p s) t"
proof -
  from Seal_ok [OF assms(1,2,5)] have p': "pack_ok L p' s'" "psealed p'" "pfile p' = Some f"
    "unat (pslots p') * 48 < 2 ^ 32" "pack_view L p' s' = pack_view L p s"
    using assms(3,4) by (auto simp: seal_spec_def)
  from sealed_reads [OF p'(1,2,4,3)] p'(5) show ?thesis by auto
qed

lemma Seal_clean:
  assumes "pfile p = Some f" "\<not> psealed p" "faults s = []"
  shows "\<exists>p' full' s'. Seal p full s = (Inr (), p', full', s')"
  using assms by (simp add: Seal_def verifyOpenLocked_def file_WriteAt_clean Let_def)

theorem pack_seal_readable_witness:
  "\<exists>p s p' full s' pf. pack_view demo_lib p s = Map.empty \<and> Seal p 0 s = (Inr (), p', full, s') \<and>
     DecodePackTable (file_data ''/p'' s') = Inr pf \<and> reads_as demo_lib pf (file_data ''/p'' s') Map.empty demo_disk"
proof -
  obtain p s where p: "pack_ok demo_lib p s" "pack_view demo_lib p s = Map.empty" "pslots p = 2" "pfile p = Some ''/p''"
    "\<not> psealed p" "faults s = []"
    by (rule demo_pack [of 2]) auto
  obtain p' full s' where S: "Seal p 0 s = (Inr (), p', full, s')" using Seal_clean [OF p(4-6)] by blast
  from pack_seal_readable [OF p(1,5,4) _ S, of demo_disk] p(2,3) S show ?thesis by fastforce
qed

lemma append_all_clean:
  assumes "pfile p = Some f" "\<not> psealed p" "length (pentries p) + length bs \<le> unat (pslots p)" "faults s = []"
  shows "\<exists>p' s'. append_all bs p s = (Inr (), p', s') \<and> faults s' = []"
  using assms
proof (induction bs arbitrary: p s)
  case (Cons b bs)
  have "unat (pslots p) < 2 ^ 32" using unsigned_less [of "pslots p"] by simp
  with Cons.prems(3) have "word_of_nat (length (pentries p)) < pslots p"
    by (simp add: word_less_nat_alt unat_of_nat)
  from appendBlob_clean [OF Cons.prems(1,2) this Cons.prems(4), of b] obtain e p1 s1 where
    a: "appendBlob b p s = (Inr e, p1, s1)" "faults s1 = []" by blast
  then have "pfile p1 = Some f \<and> \<not> psealed p1 \<and> length (pentries p1) \<le> Suc (length (pentries p)) \<and> pslots p1 = pslots p"
    using Cons.prems(1,2)
    by (auto simp: appendBlob_def verifyOpenLocked_def Let_def split: option.splits if_splits prod.splits sum.splits)
  with Cons.IH [of p1 s1] Cons.prems(3) a show ?case by simp
qed simp

definition pack_slots :: "'a list \<Rightarrow> nat" where
  "pack_slots bs = max 1024 (length bs)"

lemma WritePackfile_slots:
  assumes "length bs < 2 ^ 32" "bs \<noteq> []"
  obtains n where "unat n = pack_slots bs" "n \<noteq> 0" "WritePackfile f bs full s = WritePackfileWithSlots f bs n full s"
    "\<not> n < word_of_nat (length bs)"
proof -
  let ?l = "word_of_nat (length bs) :: uint32"
  have l: "unat ?l = length bs" using assms(1) by (simp add: unat_of_nat)
  let ?n = "if ?l > DefaultPackSlots then ?l else DefaultPackSlots"
  have "unat ?n = pack_slots bs"
    using l by (auto simp: pack_slots_def DefaultPackSlots_def word_less_nat_alt max_def)
  moreover from this have "?n \<noteq> 0" by (auto simp: pack_slots_def)
  moreover have "\<not> ?n < ?l" by auto
  ultimately show ?thesis
    using that [of ?n] by (simp add: WritePackfile_def)
qed

lemma WritePackfile_ok:
  assumes "list_all2 (encodes L) ds bs" "bs \<noteq> []" "\<forall>d\<in>set ds. length d < 2 ^ 32"
    and "32 + pack_slots bs * 48 + (\<Sum>b\<leftarrow>bs. 16 + length (ebStream b)) < 2 ^ 32"
    and "get_file f s = Some x" "fdata x = []" "WritePackfile f bs full s = (r, full', s')"
  shows "case r of
      Inl e \<Rightarrow> faults s \<noteq> []
    | Inr pf \<Rightarrow> \<exists>p. pack_ok L p s' \<and> psealed p \<and> pfile p = Some f \<and> unat (pslots p) * 48 < 2 ^ 32 \<and>
        pf = \<lparr>pfVersion = VersionV2, pfSlots = pslots p, pfFlags = PackFlagSealed, pfEntries = pentries p\<rparr> \<and>
        pack_view L p s' = views L ds Map.empty \<and> (faults s = [] \<longrightarrow> faults s' = [])"
proof -
  have lb: "length bs < 2 ^ 32" using assms(4) by (simp add: pack_slots_def max_def split: if_splits)
  obtain n where n: "unat n = pack_slots bs" "n \<noteq> 0" "WritePackfile f bs full s = WritePackfileWithSlots f bs n full s"
    "\<not> n < word_of_nat (length bs)"
    by (rule WritePackfile_slots [OF lb assms(2)])
  obtain r1 s1 where N: "NewIncrementalPackFromFile f n s = (r1, s1)" by (cases "NewIncrementalPackFromFile f n s")
  note ok = NewIncrementalPackFromFile_ok [OF assms(5,6) N, of L]
  note e = assms(7) [unfolded n(3) WritePackfileWithSlots_def N]
  show ?thesis
  proof (cases r1)
    case (Inl z)
    with ok e assms(2) n(4) show ?thesis by auto
  next
    case (Inr p)
    with ok n(2) have p: "pack_ok L p s1" "pack_view L p s1 = Map.empty" "pslots p = n" "pfile p = Some f" "\<not> psealed p"
      "pentries p = []" "poffset p = 32 + pack_slots bs * 48" "faults s = [] \<Longrightarrow> faults s1 = []"
      by (auto simp: table_end_def n(1))
    obtain r2 p2 s2 where A: "append_all bs p s1 = (r2, p2, s2)" by (cases "append_all bs p s1")
    obtain r3 p3 full3 s3 where S: "Seal p2 full s2 = (r3, p3, full3, s3)" by (cases "Seal p2 full s2")
    note clean = append_all_clean [of p f bs s1] Seal_clean [of p2 f s2 full]
    show ?thesis
    proof (cases r2)
      case (Inl z)
      moreover have "length (pentries p) + length bs \<le> unat (pslots p)" using p n by (simp add: pack_slots_def)
      ultimately have "faults s \<noteq> []" using append_all_clean [of p f bs s1] p A by auto
      moreover have "r = Inl z" using e Inr A Inl assms(2) n(4) by simp
      ultimately show ?thesis by simp
    next
      case r2: (Inr u)
      from append_all_ok [OF p(1) assms(1,3) _ A [unfolded r2]] assms(4) p
      have q: "pack_ok L p2 s2" "pack_view L p2 s2 = views L ds Map.empty" "pfile p2 = Some f" "pslots p2 = n" "\<not> psealed p2"
        by simp_all
      have "length (pentries p) + length bs \<le> unat (pslots p)" using p n by (simp add: pack_slots_def)
      then have c: "faults s = [] \<Longrightarrow> faults s2 = []"
        using append_all_clean [of p f bs s1] p A by auto
      show ?thesis
      proof (cases r3)
        case (Inl z)
        then have "faults s \<noteq> []" using Seal_clean [OF q(3,5), of s2 full] S c by auto
        moreover have "r = Inl z" using e Inr A r2 S Inl assms(2) n(4) by simp
        ultimately show ?thesis by simp
      next
        case (Inr u')
        then have r: "r = Inr \<lparr>pfVersion = VersionV2, pfSlots = n, pfFlags = PackFlagSealed, pfEntries = pentries p3\<rparr>" "s' = s3"
          using e \<open>r1 = Inr p\<close> A r2 S assms(2) n(4) by simp_all
        from Seal_ok [OF q(1,5) S] Inr q have "pack_ok L p3 s3" "psealed p3" "pfile p3 = Some f" "pslots p3 = n"
          "pack_view L p3 s3 = views L ds Map.empty" by (simp_all add: seal_spec_def)
        moreover have "faults s = [] \<longrightarrow> faults s3 = []"
          using c S q(3,5) by (auto simp: Seal_def verifyOpenLocked_def file_WriteAt_clean Let_def)
        ultimately show ?thesis using n(1) assms(4) by (auto simp: r)
      qed
    qed
  qed
qed

text \<open>C19: A packfile written by \<^verbatim>\<open>WritePackfile\<close> reads back as its inputs. If a batch of encoded blobs
  fits below 4 GiB, then unless a fault of the disk makes the call fail, the file decodes to the
  pack the call returns, and for every hash the reader finds exactly the first of the inputs with
  that hash. Without faults the call succeeds.\<close>

theorem write_packfile_reads:
  assumes "list_all2 (encodes L) ds bs" "bs \<noteq> []" "\<forall>d\<in>set ds. length d < 2 ^ 32"
    and "32 + pack_slots bs * 48 + (\<Sum>b\<leftarrow>bs. 16 + length (ebStream b)) < 2 ^ 32"
    and "get_file f s = Some x" "fdata x = []" "WritePackfile f bs full s = (r, full', s')"
  shows "case r of
      Inl e \<Rightarrow> faults s \<noteq> []
    | Inr pf \<Rightarrow> DecodePackTable (file_data f s') = Inr pf \<and> reads_as L pf (file_data f s') (views L ds Map.empty) t"
proof (cases r)
  case (Inl e)
  with WritePackfile_ok [OF assms] show ?thesis by simp
next
  case (Inr pf)
  with WritePackfile_ok [OF assms] obtain p where p: "pack_ok L p s'" "psealed p" "unat (pslots p) * 48 < 2 ^ 32" "pfile p = Some f"
    "pf = \<lparr>pfVersion = VersionV2, pfSlots = pslots p, pfFlags = PackFlagSealed, pfEntries = pentries p\<rparr>"
    "pack_view L p s' = views L ds Map.empty" by auto
  from sealed_reads [OF p(1-4)] show ?thesis unfolding Inr sum.case p(5) p(6) [symmetric] by blast
qed


theorem write_packfile_reads_witness:
  "\<exists>pf full s. WritePackfile ''/p'' [raw_blob demo_lib [1], raw_blob demo_lib [2]] 0 demo_disk = (Inr pf, full, s) \<and>
     DecodePackTable (file_data ''/p'' s) = Inr pf \<and>
     reads_as demo_lib pf (file_data ''/p'' s) (views demo_lib [[1], [2]] Map.empty) demo_disk"
proof -
  let ?bs = "[raw_blob demo_lib [1], raw_blob demo_lib [2]]"
  obtain r full s where w: "WritePackfile ''/p'' ?bs 0 demo_disk = (r, full, s)" by (cases "WritePackfile ''/p'' ?bs 0 demo_disk")
  have "list_all2 (encodes demo_lib) [[1], [2]] ?bs" by simp
  from write_packfile_reads [OF this _ _ _ demo_disk(1) _ w, of demo_disk] w show ?thesis
    by (cases r) (simp_all add: raw_blob_def pack_slots_def)
qed

end
