(* ===== verification/PackV1.thy ===== *)
theory PackV1
  imports PackProps "HOL-Library.Multiset"
begin

text \<open>
  The packfile format of version 1: the offsets and lengths of its table, and that a pack written by
  \<^verbatim>\<open>WritePackfileV1\<close> reads back.
\<close>

subsection \<open>Packs of version 1\<close>

definition v1_item :: "EncodedBlob \<Rightarrow> bytes" where
  "v1_item b = buildItemHeader (ebEncoding b) (ucast (ebFinalLength b)) @ ebStream b"

lemma length_v1_item [simp]: "length (v1_item b) = 16 + length (ebStream b)"
  by (simp add: v1_item_def buildItemHeader_def)

lemma lift_err_InrD: "lift_err r = (Inr u, s) \<Longrightarrow> r = (None, s)"
  by (auto simp: lift_err_def split: prod.splits option.splits)

lemma file_Write_data:
  "file_Write p d s = (None, s') \<Longrightarrow> get_file p s = Some x \<Longrightarrow>
   \<exists>y. get_file p s' = Some y \<and> fdata y = fdata x @ d"
  by (auto simp: file_Write_def pop_fault_def append_file_def split: list.splits fault.splits)

lemma v1_items_data:
  "v1_items w bs s = (Inr u, s') \<Longrightarrow> get_file w s = Some x \<Longrightarrow>
   \<exists>y. get_file w s' = Some y \<and> fdata y = fdata x @ concat (map v1_item bs)"
proof (induction bs arbitrary: s x)
  case (Cons b bs)
  from Cons.prems(1) obtain s1 s2 where
    w: "file_Write w (buildItemHeader (ebEncoding b) (ucast (ebFinalLength b))) s = (None, s1)"
      "file_Write w (ebStream b) s1 = (None, s2)" "v1_items w bs s2 = (Inr u, s')"
    by (auto dest!: andThen_InrD lift_err_InrD)
  from file_Write_data [OF w(1) Cons.prems(2)] obtain x1 where x1: "get_file w s1 = Some x1"
    "fdata x1 = fdata x @ buildItemHeader (ebEncoding b) (ucast (ebFinalLength b))" by blast
  from file_Write_data [OF w(2) x1(1)] obtain x2 where x2: "get_file w s2 = Some x2" "fdata x2 = fdata x1 @ ebStream b" by blast
  from Cons.IH [OF w(3) x2(1)] x1 x2 show ?case by (simp add: v1_item_def)
qed auto

lemma v1_entries_length [simp]: "length (v1_entries off bs) = length bs"
  by (induction off bs rule: v1_entries.induct) (simp_all add: Let_def)

lemma v1_entries_sha [simp]: "map SHA256 (v1_entries off bs) = map ebSHA256 bs"
  by (induction off bs rule: v1_entries.induct) (simp_all add: Let_def)

definition item_end :: "nat \<Rightarrow> EncodedBlob list \<Rightarrow> nat" where
  "item_end off bs = off + (\<Sum>b\<leftarrow>bs. 16 + length (ebStream b))"

definition stored_ok :: "EncodedBlob \<Rightarrow> bool" where
  "stored_ok b \<longleftrightarrow> ebStoredLength b = word_of_nat (length (ebStream b))"

lemma v1_stored:
  assumes "stored_ok b" "length (ebStream b) < 2 ^ 32"
  shows "(word_of_nat BlobItemHeaderSize + ucast (ebStoredLength b) :: uint32) = word_of_nat (16 + length (ebStream b))"
proof -
  have "(ucast (ebStoredLength b) :: uint32) = word_of_nat (length (ebStream b))"
    using assms by (simp add: stored_ok_def unsigned_of_nat take_bit_nat_eq_self)
  then show ?thesis by (simp add: BlobItemHeaderSize_def)
qed

lemma v1_entries_nth:
  assumes "list_all stored_ok bs" "item_end off bs < 2 ^ 32" "i < length bs"
  shows "DataOffset (v1_entries (word_of_nat off) bs ! i) = word_of_nat (item_end off (take i bs)) \<and>
    StoredLength (v1_entries (word_of_nat off) bs ! i) = word_of_nat (16 + length (ebStream (bs ! i)))"
  using assms
proof (induction bs arbitrary: off i)
  case (Cons b bs)
  have l: "length (ebStream b) < 2 ^ 32" using Cons.prems(2) by (simp add: item_end_def)
  have st: "(word_of_nat BlobItemHeaderSize + ucast (ebStoredLength b) :: uint32) = word_of_nat (16 + length (ebStream b))"
    using v1_stored [OF _ l] Cons.prems(1) by simp
  show ?case
  proof (cases i)
    case 0
    then show ?thesis by (simp add: Let_def st item_end_def)
  next
    case (Suc j)
    with Cons.IH [of "off + (16 + length (ebStream b))" j] Cons.prems show ?thesis
      by (simp add: Let_def st item_end_def add.assoc flip: of_nat_add)
  qed
qed simp

lemma v1_end_eq:
  assumes "list_all stored_ok bs" "item_end off bs < 2 ^ 32"
  shows "v1_end (word_of_nat off) bs = word_of_nat (item_end off bs)"
  using assms
proof (induction bs arbitrary: off)
  case (Cons b bs)
  have l: "length (ebStream b) < 2 ^ 32" using Cons.prems(2) by (simp add: item_end_def)
  have st: "(word_of_nat BlobItemHeaderSize + ucast (ebStoredLength b) :: uint32) = word_of_nat (16 + length (ebStream b))"
    using v1_stored [OF _ l] Cons.prems(1) by simp
  from Cons.IH [of "off + (16 + length (ebStream b))"] Cons.prems show ?case
    by (simp add: st item_end_def add.assoc flip: of_nat_add)
qed (simp add: item_end_def)

lemma sort_key_map: "sort_key f (map g xs) = map g (sort_key (f \<circ> g) xs)"
proof -
  have "insort_key f (g x) (map g ys) = map g (insort_key (f \<circ> g) x ys)" for x ys
    by (induction ys) simp_all
  then show ?thesis by (induction xs) simp_all
qed

lemma slice_item:
  assumes "i < length bs"
  shows "slice (t @ concat (map v1_item bs)) (item_end (length t) (take i bs))
     (item_end (length t) (take i bs) + (16 + length (ebStream (bs ! i)))) = v1_item (bs ! i)"
proof -
  have len: "length (concat (map v1_item (take i bs))) = item_end (length t) (take i bs) - length t"
    by (simp add: item_end_def length_concat o_def)
  have "bs = take i bs @ bs ! i # drop (Suc i) bs" using assms by (simp add: id_take_nth_drop)
  then have "concat (map v1_item bs) = concat (map v1_item (take i bs)) @ v1_item (bs ! i) @ concat (map v1_item (drop (Suc i) bs))"
    by (metis concat.simps(2) concat_append list.simps(9) map_append)
  then show ?thesis
    using len by (simp add: slice_def item_end_def)
qed

lemma DecodePackTable_v1:
  assumes "bs \<noteq> []" "list_all stored_ok bs" "item_end (v1_table_size (length bs)) bs < 2 ^ 32"
  shows "\<exists>pf. DecodePackTable (v1_table bs @ rest) = Inr pf \<and> pfVersion pf = VersionV1 \<and>
    map SHA256 (pfEntries pf) = map ebSHA256 bs \<and>
    (\<forall>i < length bs. DataOffset (pfEntries pf ! i) = word_of_nat (item_end (v1_table_size (length bs)) (take i bs)) \<and>
      StoredLength (pfEntries pf ! i) = word_of_nat (16 + length (ebStream (bs ! i))))"
proof -
  let ?n = "length bs" and ?f = "v1_table_size (length bs)"
  let ?fh = "BuildFileHeaderWithVersion FileTypePack VersionV1"
  let ?es = "v1_entries (word_of_nat ?f) bs"
  let ?S = "concat (map (\<lambda>e. PutUint (SHA256 e)) ?es) :: bytes"
  let ?O = "concat (map (\<lambda>e. PutUint (DataOffset e)) ?es) :: bytes"
  let ?E = "PutUint (v1_end (word_of_nat ?f) bs) :: bytes"
  let ?h = "PutUint (word_of_nat ?n :: uint32) @ PutUint (0 :: uint32) :: bytes"
  have n: "unat (word_of_nat ?n :: uint32) = ?n"
    using assms(3) by (simp add: item_end_def v1_table_size_def unat_of_nat)
  have l: "length ?S = ?n * 32" "length ?O = ?n * 4" "length ?E = 4"
    by (simp_all add: length_concat_same [where k = 32] length_concat_same [where k = 4])
  have t: "v1_table bs @ rest = ?fh @ ?h @ (?S @ ?O @ ?E) @ rest"
    by (simp add: v1_table_def Let_def)
  have r0: "ReadFull FileHeaderSize (?fh @ ?h @ (?S @ ?O @ ?E) @ rest) = ReadOk ?fh (?h @ (?S @ ?O @ ?E) @ rest)"
    by (rule ReadFull_append) (simp add: FileHeaderSize_def)
  have r1: "ReadFull (PackV1HeaderSize - FileHeaderSize) (?h @ (?S @ ?O @ ?E) @ rest) = ReadOk ?h ((?S @ ?O @ ?E) @ rest)"
    by (rule ReadFull_append) (simp add: FileHeaderSize_def PackV1HeaderSize_def)
  have r2: "ReadFull (?n * 32 + (?n + 1) * 4) ((?S @ ?O @ ?E) @ rest) = ReadOk (?S @ ?O @ ?E) rest"
    by (rule ReadFull_append) (use l in simp)
  have h: "slice ?h 0 4 = PutUint (word_of_nat ?n :: uint32)" by (simp add: slice_def)
  have p: "ParseFileHeader ?fh = Inr \<lparr>fhMagic = Magic, fhVersion = VersionV1, fhFileType = FileTypePack, fhReserved = Uint [0, 0]\<rparr>"
    using ParseFileHeader_Build [of VersionV1 FileTypePack "[]"] by simp
  have sha: "slice (?S @ ?O @ ?E) (i * 32) (i * 32 + 32) = PutUint (SHA256 (?es ! i))" if "i < ?n" for i
    using slice_concat_same [of "\<lambda>e. PutUint (SHA256 e)" 32 i ?es "?O @ ?E"] that by (simp add: add.commute)
  have off: "slice (?S @ ?O @ ?E) (?n * 32 + i * 4) (?n * 32 + i * 4 + 4) =
      PutUint (word_of_nat (item_end ?f (take i bs)) :: uint32)" if "i \<le> ?n" for i
  proof -
    have "slice (?S @ ?O @ ?E) (?n * 32 + i * 4) (?n * 32 + i * 4 + 4) = slice (?O @ ?E) (i * 4) (4 + i * 4)"
      using l by (simp add: slice_append_right add.commute)
    also have "\<dots> = PutUint (word_of_nat (item_end ?f (take i bs)) :: uint32)"
    proof (cases "i = ?n")
      case True
      then show ?thesis
        using l v1_end_eq [OF assms(2,3)] by (simp add: slice_append_right slice_full)
    next
      case False
      with that v1_entries_nth [OF assms(2,3), of i] show ?thesis
        using slice_concat_same [of "\<lambda>e. PutUint (DataOffset e)" 4 i ?es ?E] by simp
    qed
    finally show ?thesis .
  qed
  have off1: "slice (?S @ ?O @ ?E) (?n * 32 + (4 + i * 4)) (8 + (?n * 32 + i * 4)) =
      PutUint (word_of_nat (item_end ?f (take (Suc i) bs)) :: uint32)" if "i < ?n" for i
  proof -
    have "?n * 32 + Suc i * 4 = ?n * 32 + (4 + i * 4)" "?n * 32 + Suc i * 4 + 4 = 8 + (?n * 32 + i * 4)" by simp_all
    with off [of "Suc i"] that show ?thesis by simp
  qed
  let ?x = "\<lambda>i. \<lparr>SHA256 = SHA256 (?es ! i), DataOffset = word_of_nat (item_end ?f (take i bs)),
    StoredLength = word_of_nat (item_end ?f (take (Suc i) bs)) - word_of_nat (item_end ?f (take i bs)), FinalLength = 0, Encoding = 0\<rparr>"
  have "DecodePackTable (v1_table bs @ rest) = Inr \<lparr>pfVersion = VersionV1, pfSlots = 0, pfFlags = 0, pfEntries = map ?x [0..<?n]\<rparr>"
    unfolding t DecodePackTable_def r0 read.case p sum.case decode_table_v1_def r1 h Let_def
    using assms(1) by (simp add: n r2 [simplified] sha off off1)
  moreover have "map SHA256 (map ?x [0..<?n]) = map SHA256 (map (\<lambda>i. ?es ! i) [0..<length ?es])" by simp
  then have "map SHA256 (map ?x [0..<?n]) = map ebSHA256 bs"
    by (simp only: map_nth v1_entries_sha)
  moreover have "item_end ?f (take (Suc i) bs) = item_end ?f (take i bs) + (16 + length (ebStream (bs ! i)))" if "i < ?n" for i
    using that by (simp add: item_end_def take_Suc_conv_app_nth)
  ultimately show ?thesis by simp
qed

lemma DecodeBlobFromPayload_item:
  assumes "encodes L d b" "length d < 2 ^ 32" "StoredLength e = word_of_nat (16 + length (ebStream b))"
    and "16 + length (ebStream b) < 2 ^ 32"
  shows "DecodeBlobFromPayload L (v1_item b @ rest) e s =
    decodePayloadToByteStream L (ebStream b) (ebEncoding b) (int (length d)) s"
proof -
  let ?h = "buildItemHeader (ebEncoding b) (ucast (ebFinalLength b))"
  have "ReadFull BlobItemHeaderSize (?h @ ebStream b @ rest) = ReadOk ?h (ebStream b @ rest)"
    by (rule ReadFull_append) (simp add: buildItemHeader_def BlobItemHeaderSize_def)
  moreover have "slice ?h 0 4 = PutUint (ebEncoding b)" "slice ?h 4 8 = PutUint (ucast (ebFinalLength b) :: uint32)"
    by (simp_all add: buildItemHeader_def slice_def)
  moreover have "uint (ucast (ebFinalLength b) :: uint32) = int (length d)"
    using assms(1,2) by (simp add: encodes_def unsigned_of_nat take_bit_nat_eq_self)
  moreover have "unat (StoredLength e) = 16 + length (ebStream b)"
    using assms(4) unfolding assms(3) by (rule unat_word_of_nat_32)
  ultimately show ?thesis
    by (simp add: DecodeBlobFromPayload_def v1_item_def BlobItemHeaderSize_def Let_def)
qed

definition v1_reads :: "lib \<Rightarrow> PackFile \<Rightarrow> bytes \<Rightarrow> fs \<Rightarrow> BlobEntry \<Rightarrow> bytes \<Rightarrow> bool" where
  \<comment> \<open>the entry has the hash of the data, and decoding at its offset gives the data\<close>
  "v1_reads L pf data s e d \<longleftrightarrow> SHA256 e = Sum256 L d \<and>
     (case PackFile_DecodeBlob L pf (drop (unat (DataOffset e)) data) e s of
        (Inr x, _) \<Rightarrow> x = d | (Inl z, _) \<Rightarrow> z = ErrIO \<and> faults s \<noteq> [])"

lemma v1_pack_reads:
  assumes "list_all2 (encodes L) ds bs" "bs \<noteq> []" "\<forall>d\<in>set ds. length d < 2 ^ 32"
    and "item_end (v1_table_size (length bs)) bs < 2 ^ 32"
  shows "\<exists>pf. DecodePackTable (v1_table bs @ concat (map v1_item bs)) = Inr pf \<and>
    map SHA256 (pfEntries pf) = map ebSHA256 bs \<and>
    list_all2 (v1_reads L pf (v1_table bs @ concat (map v1_item bs)) t) (pfEntries pf) ds"
proof -
  let ?f = "v1_table_size (length bs)" and ?D = "v1_table bs @ concat (map v1_item bs)"
  have st: "list_all stored_ok bs"
    using assms(1) by (induction rule: list_all2_induct) (simp_all add: encodes_def stored_ok_def)
  from DecodePackTable_v1 [OF assms(2) st assms(4)] obtain pf where pf: "DecodePackTable ?D = Inr pf" "pfVersion pf = VersionV1"
    "map SHA256 (pfEntries pf) = map ebSHA256 bs"
    "\<forall>i < length bs. DataOffset (pfEntries pf ! i) = word_of_nat (item_end ?f (take i bs)) \<and>
      StoredLength (pfEntries pf ! i) = word_of_nat (16 + length (ebStream (bs ! i)))" by blast
  have lt: "length (v1_table bs) = ?f"
    by (simp add: v1_table_def Let_def v1_table_size_def PackV1HeaderSize_def length_concat_same [where k = 32] length_concat_same [where k = 4])
  have len: "length (pfEntries pf) = length bs" "length ds = length bs"
    using arg_cong [OF pf(3), of length] list_all2_lengthD [OF assms(1)] by simp_all
  have "v1_reads L pf ?D t (pfEntries pf ! i) (ds ! i)" if i: "i < length bs" for i
  proof -
    let ?e = "pfEntries pf ! i"
    have enc: "encodes L (ds ! i) (bs ! i)" using list_all2_nthD2 [OF assms(1) i] .
    have ie: "item_end ?f (take i bs) + (16 + length (ebStream (bs ! i))) \<le> item_end ?f bs"
    proof -
      have "item_end ?f bs = item_end ?f (take (Suc i) bs @ drop (Suc i) bs)" by simp
      then show ?thesis using i by (simp only: item_end_def take_Suc_conv_app_nth) simp
    qed
    then have o: "unat (DataOffset ?e) = item_end ?f (take i bs)"
      using pf(4) i assms(4) by (simp add: unat_of_nat)
    have "slice ?D (unat (DataOffset ?e)) (unat (DataOffset ?e) + length (v1_item (bs ! i))) = v1_item (bs ! i)"
      using slice_item [OF i, of "v1_table bs"] by (simp add: o lt)
    then have "drop (unat (DataOffset ?e)) ?D = v1_item (bs ! i) @ drop (length (v1_item (bs ! i))) (drop (unat (DataOffset ?e)) ?D)"
      by (metis add_diff_cancel_left' append_take_drop_id slice_def)
    then obtain rest where "drop (unat (DataOffset ?e)) ?D = v1_item (bs ! i) @ rest" by blast
    moreover have "16 + length (ebStream (bs ! i)) < 2 ^ 32" using ie assms(4) by simp
    ultimately have "PackFile_DecodeBlob L pf (drop (unat (DataOffset ?e)) ?D) ?e t =
        decodePayloadToByteStream L (ebStream (bs ! i)) (ebEncoding (bs ! i)) (int (length (ds ! i))) t"
      using DecodeBlobFromPayload_item [OF enc, of ?e] pf(2,4) i assms(3) len by (simp add: PackFile_DecodeBlob_def)
    moreover have "SHA256 ?e = Sum256 L (ds ! i)"
      using arg_cong [OF pf(3), of "\<lambda>xs. xs ! i"] i len enc by (simp add: encodes_def)
    ultimately show ?thesis
      using decodePayload_result [OF enc, of t] by (simp add: v1_reads_def)
  qed
  with pf(1,3) len show ?thesis
    by (intro exI [of _ pf]) (simp add: list_all2_conv_all_nth)
qed

text \<open>C21: A packfile of version 1 reads back as its inputs: if a batch of encoded blobs fits below
  4 GiB and \<^verbatim>\<open>WritePackfileV1\<close> succeeds, \<^verbatim>\<open>DecodePackTable\<close> accepts the file, the entries are sorted by
  hash and carry the hashes of the pack the writer returned, and decoding the entries at their
  offsets gives the inputs, each as often as it was given.\<close>

theorem v1_pack_roundtrip:
  assumes "list_all2 (encodes L) ds bs" "\<forall>d\<in>set ds. length d < 2 ^ 32"
    and "item_end (v1_table_size (length bs)) bs < 2 ^ 32" "get_file f s = Some x" "fdata x = []"
    and "WritePackfileV1 f bs s = (Inr pf0, s')"
  shows "\<exists>pf ds'. DecodePackTable (file_data f s') = Inr pf \<and> mset ds' = mset ds \<and>
    sorted (map SHA256 (pfEntries pf)) \<and> map SHA256 (pfEntries pf) = map SHA256 (pfEntries pf0) \<and>
    list_all2 (v1_reads L pf (file_data f s') t) (pfEntries pf) ds'"
proof -
  let ?z = "sort_key (ebSHA256 \<circ> fst) (zip bs ds)"
  define sb sd where "sb = map fst ?z" and "sd = map snd ?z"
  have len: "length ds = length bs" by (rule list_all2_lengthD [OF assms(1)])
  have "sort_key ebSHA256 bs = sort_key ebSHA256 (map fst (zip bs ds))" using len by simp
  then have sb: "sb = sort_key ebSHA256 bs" unfolding sb_def by (simp only: sort_key_map)
  have enc: "list_all2 (encodes L) sd sb"
  proof -
    have "\<forall>p\<in>set ?z. encodes L (snd p) (fst p)"
      using assms(1) by (auto simp: list_all2_conv_all_nth in_set_zip)
    moreover have "list_all2 (encodes L) (map snd z) (map fst z)" if "\<forall>p\<in>set z. encodes L (snd p) (fst p)" for z
      using that by (induction z) auto
    ultimately show ?thesis unfolding sb_def sd_def by blast
  qed
  have md: "mset sd = mset ds"
  proof -
    have "mset sd = image_mset snd (mset (zip bs ds))" by (simp add: sd_def)
    also have "\<dots> = mset ds" using len by (simp flip: mset_map)
    finally show ?thesis .
  qed
  then have sd: "\<forall>d\<in>set sd. length d < 2 ^ 32" using assms(2) mset_eq_setD [OF md] by simp
  have ie: "item_end n sb = item_end n bs" for n
    by (simp add: sb item_end_def flip: sum_mset_sum_list)
  have ls: "length sb = length bs" by (simp add: sb)
  from assms(6) have ne: "bs \<noteq> []" "\<not> 2 ^ 32 \<le> v1_table_size (length bs)" by (auto simp: WritePackfileV1_def split: if_splits)
  with assms(6) obtain s1 where w: "file_Write f (v1_table sb) s = (None, s1)" "v1_items f sb s1 = (Inr (), s')"
    "pf0 = \<lparr>pfVersion = VersionV1, pfSlots = 0, pfFlags = 0, pfEntries = v1_entries (word_of_nat (v1_table_size (length bs))) sb\<rparr>"
    by (auto simp: WritePackfileV1_def Let_def sb dest!: andThen_InrD lift_err_InrD)
  from file_Write_data [OF w(1) assms(4)] v1_items_data [OF w(2)] have "file_data f s' = v1_table sb @ concat (map v1_item sb)"
    by (force simp: file_data_def assms(5))
  moreover have "sb \<noteq> []" using ne ls by auto
  moreover have "item_end (v1_table_size (length sb)) sb < 2 ^ 32" using assms(3) by (simp add: ie ls)
  ultimately show ?thesis
    using v1_pack_reads [OF enc _ sd, of t] md w(3) by (auto simp: sb)
qed

theorem v1_pack_roundtrip_witness:
  "\<exists>pf0 s' pf. WritePackfileV1 ''/p'' [raw_blob demo_lib [2], raw_blob demo_lib [1]] demo_disk = (Inr pf0, s') \<and>
     DecodePackTable (file_data ''/p'' s') = Inr pf \<and> sorted (map SHA256 (pfEntries pf))"
proof -
  let ?bs = "[raw_blob demo_lib [2], raw_blob demo_lib [1]]"
  have enc: "list_all2 (encodes demo_lib) [[2], [1]] ?bs" by simp
  have fw: "faults s = [] \<Longrightarrow> file_Write w d s = (None, append_file w d s)" for w d s
    by (simp add: file_Write_def pop_fault_def)
  have af: "faults (append_file w d s) = faults s" for w d s
    by (simp add: append_file_def set_file_def split: option.splits)
  have it: "faults s = [] \<Longrightarrow> \<exists>s'. v1_items w bs s = (Inr (), s')" for w bs s
    by (induction bs arbitrary: s) (simp_all add: fw af lift_err_def)
  obtain pf0 s' where w: "WritePackfileV1 ''/p'' ?bs demo_disk = (Inr pf0, s')"
    using it [of "append_file ''/p'' _ demo_disk" "''/p''" "sort_key ebSHA256 ?bs"]
    by (fastforce simp: WritePackfileV1_def v1_table_size_def PackV1HeaderSize_def Let_def fw af lift_err_def)
  from v1_pack_roundtrip [OF enc _ _ demo_disk(1) _ w, of demo_disk] w show ?thesis
    by (auto simp: item_end_def v1_table_size_def PackV1HeaderSize_def raw_blob_def)
qed

end
