(* ===== verification/BlobProps.thy ===== *)
theory BlobProps
  imports PackV1
begin

text \<open>
  Round trips of the blob formats (loose blobs, chunked blobs with their manifests), and the
  places where 32-bit fields of the pack format wrap.
\<close>

subsection \<open>Loose blobs\<close>

text \<open>C22: A loose blob reads back as the data it was made from. Whatever the data and whether or not
  it was stored compressed, \<^verbatim>\<open>DecodeLooseBlob\<close> of what \<^verbatim>\<open>EncodeLooseBlob\<close> writes for the result of
  \<^verbatim>\<open>EncodeBlob\<close> returns exactly the data, with its hash in the entry; only a fault of a temporary
  file can make it fail.\<close>

theorem loose_blob_roundtrip:
  assumes "zlib_ok L" "length d < 2 ^ 63" "EncodeBlob L d compress s = (Inr b, s')"
  shows "case DecodeLooseBlob L (EncodeLooseBlob b) t of
      (Inr (x, e), _) \<Rightarrow> x = d \<and> SHA256 e = Sum256 L d
    | (Inl z, _) \<Rightarrow> z = ErrIO \<and> faults t \<noteq> []"
proof -
  have enc: "encodes L d b" by (rule EncodeBlob_ok [OF assms(1,3)])
  then have p: "payload_reader L (ebStream b) (ebEncoding b) = Inr (Inr d)" by (simp add: encodes_def)
  obtain r t' where r: "decodePayloadToByteStream L (ebStream b) (ebEncoding b) (int (length d)) t = (r, t')"
    by (cases "decodePayloadToByteStream L (ebStream b) (ebEncoding b) (int (length d)) t")
  from decodePayload_io [OF p, of t] decodePayload_InrD [of L "ebStream b" "ebEncoding b" "int (length d)" t] p show ?thesis
    unfolding DecodeLooseBlob_Encode [OF enc assms(2)] r by (cases r) (auto simp: io_ok_def)
qed

theorem loose_blob_roundtrip_witness:
  "\<exists>b. EncodeBlob demo_lib (replicate 40 7) True demo_disk = (Inr b, demo_disk) \<and> ebEncoding b = EncodingCompressed \<and>
     (case DecodeLooseBlob demo_lib (EncodeLooseBlob b) demo_disk of (Inr (x, e), _) \<Rightarrow> x = replicate 40 7 | (Inl z, _) \<Rightarrow> False)"
proof -
  define d :: bytes where "d = replicate 40 7"
  have m: "deflate demo_lib d = [1]" "length d = 40" by (simp_all add: demo_lib_def d_def)
  then have "\<exists>b. EncodeBlob demo_lib d True demo_disk = (Inr b, demo_disk) \<and> ebEncoding b = EncodingCompressed"
    by (simp add: EncodeBlob_def saves_enough_def MemoryThreshold_def Let_def)
  then obtain b where b: "EncodeBlob demo_lib d True demo_disk = (Inr b, demo_disk)" "ebEncoding b = EncodingCompressed" by blast
  from loose_blob_roundtrip [OF demo_lib_ok _ b(1), of demo_disk] b m(2) show ?thesis
    unfolding d_def [symmetric] by (intro exI [of _ b]) (simp split: prod.splits sum.splits)
qed

subsection \<open>Chunked blobs\<close>

lemma sum_chunk_lengths:
  "sum_list (map (\<lambda>(d, b). word_of_nat (length d)) bs) = (word_of_nat (length (concat (map fst bs))) :: uint64)"
  by (induction bs) auto

text \<open>C23: Chunking loses nothing. If \<^verbatim>\<open>ChunkBlobs\<close> succeeds, the chunks it returns encode pieces of the
  source that concatenate to the source, each piece is non-empty and at most \<^verbatim>\<open>chunkSize\<close> long and
  all but the last are exactly that long, the manifest lists their hashes in order with the total
  length, and the manifest blob reads back as the manifest. It fails only on a chunk size of zero or
  on a fault.\<close>

theorem chunk_blobs_roundtrip:
  assumes "zlib_ok L" "length src < 2 ^ 32" "ChunkBlobs L src chunkSize compress s = (r, s')"
  shows "case r of
      Inl e \<Rightarrow> chunkSize = 0 \<or> faults s \<noteq> []
    | Inr (cs, m, mb) \<Rightarrow> (\<exists>ds. list_all2 (encodes L) ds cs \<and> concat ds = src \<and>
        list_all (\<lambda>d. 0 < length d \<and> length d \<le> unat chunkSize) ds \<and>
        list_all (\<lambda>d. length d = unat chunkSize) (butlast ds) \<and>
        m = \<lparr>ChunkSize = chunkSize, TotalLength = word_of_nat (length src), Chunks = map (Sum256 L) ds\<rparr>) \<and>
        DecodeManifest (ebStream mb) = Inr m"
proof (cases "chunkSize = 0")
  case True
  with assms(3) show ?thesis by (auto simp: ChunkBlobs_def)
next
  case False
  obtain r1 s1 where l: "chunk_loop L (unat chunkSize) compress src s = (r1, s1)"
    by (cases "chunk_loop L (unat chunkSize) compress src s")
  have c0: "0 < unat chunkSize" using False by (simp add: unat_gt_0)
  show ?thesis
  proof (cases r1)
    case (Inl e)
    with chunk_loop_io [OF c0, of s L compress src] l assms(3) False show ?thesis
      by (auto simp: ChunkBlobs_def io_ok_def)
  next
    case (Inr bs)
    from chunk_loop_ok [OF assms(1) l [unfolded Inr]]
    have src: "concat (map fst bs) = src" and all: "list_all (\<lambda>(d, b). encodes L d b \<and> 0 < length d \<and> length d \<le> unat chunkSize) bs"
      and bl: "list_all (\<lambda>(d, b). length d = unat chunkSize) (butlast bs)" by auto
    define m where "m = \<lparr>ChunkSize = chunkSize, TotalLength = word_of_nat (length src), Chunks = map (Sum256 L) (map fst bs)\<rparr>"
    have sh: "map (Sum256 L) (map fst bs) = map (\<lambda>(d, b). ebSHA256 b) bs"
      using all by (auto simp: list_all_iff encodes_def)
    have r: "r = Inr (map snd bs, m, EncodeManifest L m)"
      using assms(3) False l Inr src unfolding m_def sh by (simp add: ChunkBlobs_def Let_def sum_chunk_lengths)
    have "length bs \<le> length (concat (map fst bs))"
      using all
    proof (induction bs)
      case (Cons x bs)
      then show ?case by (cases x; cases "fst x") auto
    qed simp
    then have "DecodeManifest (ebStream (EncodeManifest L m)) = Inr m"
      using DecodeManifest_Encode [of m L "[]"] assms(2) src by (simp add: m_def)
    moreover have "list_all2 (encodes L) (map fst bs) (map snd bs)"
      using all by (induction bs) auto
    moreover have "list_all (\<lambda>d. 0 < length d \<and> length d \<le> unat chunkSize) (map fst bs)"
      using all by (auto simp: list_all_iff)
    moreover have "list_all (\<lambda>d. length d = unat chunkSize) (butlast (map fst bs))"
      using bl by (auto simp: list_all_iff map_butlast [symmetric])
    ultimately show ?thesis
      unfolding r sum.case prod.case using src by (intro conjI exI [of _ "map fst bs"]) (simp_all add: m_def)
  qed
qed

theorem chunk_blobs_roundtrip_witness:
  "case ChunkBlobs demo_lib [1, 2, 3] 2 True demo_disk of
     (Inl e, _) \<Rightarrow> False
   | (Inr (cs, m, mb), _) \<Rightarrow> \<exists>ds. list_all2 (encodes demo_lib) ds cs \<and> concat ds = [1, 2, 3]"
  using chunk_blobs_roundtrip [OF demo_lib_ok, of "[1, 2, 3]" 2 True demo_disk]
  by (fastforce split: prod.splits sum.splits)

subsection \<open>Fields of 32 bits\<close>

text \<open>C26: The size of the slot table wraps in \<^verbatim>\<open>DecodePackTable\<close>. A 32-byte file whose header declares
  \<open>2^28\<close> slots and one used slot passes every check, because \<^verbatim>\<open>slots*PackV2SlotSize\<close> is zero in 32 bits,
  and the loop over the used slots then slices an empty buffer and panics.\<close>

theorem decode_pack_table_wrap_panics:
  "DecodePackTable (BuildFileHeaderWithVersion FileTypePack VersionV2 @ PutUint (0x10000000 :: uint32) @
     PutUint (1 :: uint32) @ replicate 16 0 @ rest) = Inl (Panic ''slice bounds out of range'')"
proof -
  let ?fh = "BuildFileHeaderWithVersion FileTypePack VersionV2"
  let ?h = "PutUint (0x10000000 :: uint32) @ PutUint (1 :: uint32) @ replicate 16 0 :: bytes"
  have p: "ParseFileHeader ?fh = Inr \<lparr>fhMagic = Magic, fhVersion = VersionV2, fhFileType = FileTypePack, fhReserved = Uint [0, 0]\<rparr>"
    using ParseFileHeader_Build [of VersionV2 FileTypePack "[]"] by simp
  have r: "ReadFull (PackV2HeaderSize - FileHeaderSize) (?h @ rest) = ReadOk ?h rest"
    by (rule ReadFull_append) (simp add: PackV2HeaderSize_def FileHeaderSize_def)
  have s: "slice ?h 0 4 = PutUint (0x10000000 :: uint32)" "slice ?h 4 8 = PutUint (1 :: uint32)"
    by (simp_all add: slice_def)
  have z: "ReadFull (unat ((0x10000000 :: uint32) * word_of_nat PackV2SlotSize)) rest = ReadOk [] rest"
    by (simp add: PackV2SlotSize_def ReadFull_def)
  have "decode_table_v2 (?h @ rest) = Inl (Panic ''slice bounds out of range'')"
    unfolding decode_table_v2_def r read.case s Let_def
    by (simp add: z [simplified] PackV2SlotSize_def ReadFull_def)
  then show ?thesis
    using ReadFull_append [of ?fh 8 "?h @ rest"]
    by (simp add: DecodePackTable_def p FileHeaderSize_def versions_distinct)
qed

lemma append_offset:
  assumes "pfile p = Some f" "\<not> psealed p" "pentries p = []" "0 < pslots p" "faults s = []"
  shows "\<exists>p' s'. appendBlob b p s = (Inr (payload_entry (poffset p) b), p', s')"
  using assms
  by (simp add: appendBlob_def verifyOpenLocked_def lookupLocked_def os_op_clean file_WriteAt_clean Let_def
      payload_entry_def BlobItemHeaderSize_def)



end
