(* ===== verification/ObjectStore.thy ===== *)
theory ObjectStore
  imports Pack
begin

text \<open>
  Object storage: the interface \<^verbatim>\<open>objectstore.Backend\<close> as a record of operations on a state, its
  contract as the locale \<open>object_backend\<close>, and the two backends that live in the repository,
  \<^verbatim>\<open>inmemorystorage\<close> and \<^verbatim>\<open>filesystemstorage\<close> (with \<^verbatim>\<open>pkg/tempfile\<close>), which satisfy it.
\<close>

subsection \<open>The interface\<close>

record ObjectEntry =
  Key :: string
  Size :: nat
  LastModified :: nat

record 'b Backend =
  PutObject :: "string \<Rightarrow> string \<Rightarrow> bytes \<Rightarrow> 'b \<Rightarrow> (error + string) \<times> 'b"
  GetObject :: "string \<Rightarrow> string \<Rightarrow> int \<Rightarrow> int \<Rightarrow> 'b \<Rightarrow> (error + bytes) \<times> 'b"
  DeleteObject :: "string \<Rightarrow> string \<Rightarrow> 'b \<Rightarrow> (error + unit) \<times> 'b"
  GetRedirectURL :: "string \<Rightarrow> string \<Rightarrow> 'b \<Rightarrow> (error + string) \<times> 'b"
  ListObjects :: "string \<Rightarrow> string \<Rightarrow> 'b \<Rightarrow> (error + ObjectEntry list) \<times> 'b"

definition StorageKey :: "string \<Rightarrow> string \<Rightarrow> string" where
  "StorageKey volumeID key =
     (if volumeID = '''' \<or> HasPrefix key ''volumes/'' \<or> HasPrefix key ''blobs/'' then key
      else volumeID @ ''/'' @ key)"

definition range_of :: "bytes \<Rightarrow> int \<Rightarrow> int \<Rightarrow> bytes" where
  \<comment> \<open>what \<open>GetObject\<close> is documented to write: the range, the tail for a length of zero, nothing
      beyond the end\<close>
  "range_of d offset len =
     (if len \<le> 0 then drop (nat offset) d else take (nat len) (drop (nat offset) d))"

subsection \<open>Hexadecimal digests\<close>

definition hex_digit :: "nat \<Rightarrow> char" where
  "hex_digit n = (if n < 10 then char_of (48 + n) else char_of (87 + n))"

definition hex :: "bytes \<Rightarrow> string" where
  "hex bs = concat (map (\<lambda>b. [hex_digit (unat b div 16), hex_digit (unat b mod 16)]) bs)"

definition sha_hex :: "sha256 \<Rightarrow> string" where
  "sha_hex sha = hex (PutUint sha)"

subsection \<open>Memory\<close>

record memoryObject =
  mdata :: bytes
  modTime :: nat

record MemBackend =
  objects :: "(string \<times> memoryObject) list"
  now :: nat

definition NewMemoryBackend :: MemBackend where
  "NewMemoryBackend = \<lparr>objects = [], now = 0\<rparr>"

definition mem_PutObject :: "lib \<Rightarrow> string \<Rightarrow> string \<Rightarrow> bytes \<Rightarrow> MemBackend \<Rightarrow> (error + string) \<times> MemBackend" where
  "mem_PutObject L volumeID key stream b =
     (let storageKey = StorageKey volumeID key
      in (Inr (sha_hex (Sum256 L stream)),
          b\<lparr>objects := AList.update storageKey \<lparr>mdata = stream, modTime = now b\<rparr> (objects b), now := Suc (now b)\<rparr>))"

definition mem_GetObject :: "string \<Rightarrow> string \<Rightarrow> int \<Rightarrow> int \<Rightarrow> MemBackend \<Rightarrow> (error + bytes) \<times> MemBackend" where
  "mem_GetObject volumeID key offset len b =
     (case map_of (objects b) (StorageKey volumeID key) of
        None \<Rightarrow> (Inl (ErrMsg ''object not found''), b)
      | Some obj \<Rightarrow>
          let total = int (length (mdata obj)) in
          if offset \<ge> total then (Inr [], b)
          else
            let fin = (if len \<le> 0 \<or> offset + len > total then total else offset + len) in
            if offset < 0 then (Inl (Panic ''slice bounds out of range''), b)
            else (Inr (slice (mdata obj) (nat offset) (nat fin)), b))"

definition mem_DeleteObject :: "string \<Rightarrow> string \<Rightarrow> MemBackend \<Rightarrow> (error + unit) \<times> MemBackend" where
  "mem_DeleteObject volumeID key b = (Inr (), b\<lparr>objects := AList.delete (StorageKey volumeID key) (objects b)\<rparr>)"

definition mem_GetRedirectURL :: "string \<Rightarrow> string \<Rightarrow> MemBackend \<Rightarrow> (error + string) \<times> MemBackend" where
  "mem_GetRedirectURL volumeID key b = (Inr '''', b)"

definition mem_ListObjects :: "string \<Rightarrow> string \<Rightarrow> MemBackend \<Rightarrow> (error + ObjectEntry list) \<times> MemBackend" where
  "mem_ListObjects volumeID prefix b =
     (let fullPrefix = StorageKey volumeID prefix;
          matches = map (\<lambda>(k, obj). \<lparr>Key = k, Size = length (mdata obj), LastModified = modTime obj\<rparr>)
                      (filter (\<lambda>(k, obj). HasPrefix k fullPrefix) (AList.clearjunk (objects b)))
      in (Inr (sort_key Key matches), b))"

definition mem_backend :: "lib \<Rightarrow> MemBackend Backend" where
  "mem_backend L =
     \<lparr>PutObject = mem_PutObject L, GetObject = mem_GetObject, DeleteObject = mem_DeleteObject,
      GetRedirectURL = mem_GetRedirectURL, ListObjects = mem_ListObjects\<rparr>"

subsection \<open>Temporary files\<close>

record TempFile =
  tpath :: string
  renamed :: bool
  closed :: bool

definition temp_name :: "string \<Rightarrow> string \<Rightarrow> fs \<Rightarrow> string" where
  \<comment> \<open>\<open>os.CreateTemp\<close> replaces the star of the pattern by a number for which there is no file\<close>
  "temp_name d pre s =
     (case find (\<lambda>k. get_file (PathJoin d (pre @ dec k)) s = None) [0..<Suc (length (files s))] of
        Some k \<Rightarrow> PathJoin d (pre @ dec k) | None \<Rightarrow> '''')"

definition tempfile_Create :: "string \<Rightarrow> string \<Rightarrow> fs \<Rightarrow> (error + TempFile) \<times> fs" where
  "tempfile_Create directory pre s =
     (let p = temp_name directory pre s
      in andThen (os_Create p s) (\<lambda>f s. (Inr \<lparr>tpath = p, renamed = False, closed = False\<rparr>, s)))"

definition RenameTo :: "string \<Rightarrow> TempFile \<Rightarrow> fs \<Rightarrow> (error + TempFile) \<times> fs" where
  "RenameTo path t s =
     (if closed t then (Inl (ErrMsg ''tempfile: file is closed''), s)
      else if renamed t then (Inl (ErrMsg ''tempfile: file already renamed''), s)
      else andThen (lift_err (os_Rename (tpath t) path s)) (\<lambda>_ s. (Inr (t\<lparr>renamed := True\<rparr>), s)))"

definition TempFile_Close :: "TempFile \<Rightarrow> fs \<Rightarrow> error option \<times> TempFile \<times> fs" where
  "TempFile_Close t s =
     (if closed t then (None, t, s)
      else
        case file_Close (tpath t) s of (closeErr, s) \<Rightarrow>
        case (if renamed t then (None, s) else os_Remove (tpath t) s) of (removeErr, s) \<Rightarrow>
          (Join (List.map_filter id [closeErr, removeErr]), t\<lparr>closed := True\<rparr>, s))"

subsection \<open>A directory\<close>

definition fsb_New :: "string \<Rightarrow> fs \<Rightarrow> (error + string) \<times> fs" where
  \<comment> \<open>the backend is its root directory, which is given absolute\<close>
  "fsb_New rootDir s =
     (if rootDir = '''' then (Inl (ErrMsg ''root directory cannot be empty''), s)
      else andThen (lift_err (os_MkdirAll rootDir s)) (\<lambda>_ s. (Inr rootDir, s)))"

definition objectPath :: "string \<Rightarrow> string \<Rightarrow> string \<Rightarrow> string" where
  "objectPath rootDir volumeID key = PathJoin rootDir (StorageKey volumeID key)"

definition fsb_upload :: "string \<Rightarrow> bytes \<Rightarrow> TempFile \<Rightarrow> fs \<Rightarrow> (error + unit) \<times> TempFile \<times> fs" where
  \<comment> \<open>from the copy to the close of the temporary file\<close>
  "fsb_upload targetPath stream t s =
     (case file_Write (tpath t) stream s of
        (Some e, s) \<Rightarrow> (Inl e, t, s)
      | (None, s) \<Rightarrow>
          (case file_Sync (tpath t) s of
             (Some e, s) \<Rightarrow> (Inl e, t, s)
           | (None, s) \<Rightarrow>
               (case RenameTo targetPath t s of
                  (Inl e, s) \<Rightarrow> (Inl e, t, s)
                | (Inr t, s) \<Rightarrow>
                    (case TempFile_Close t s of
                       (Some e, t, s) \<Rightarrow> (Inl e, t, s)
                     | (None, t, s) \<Rightarrow> (Inr (), t, s)))))"

definition fsb_PutObject :: "lib \<Rightarrow> string \<Rightarrow> string \<Rightarrow> string \<Rightarrow> bytes \<Rightarrow> fs \<Rightarrow> (error + string) \<times> fs" where
  "fsb_PutObject L rootDir volumeID key stream s =
     (let targetPath = objectPath rootDir volumeID key; dir = filepath_Dir targetPath in
      andThen (lift_err (os_MkdirAll dir s)) (\<lambda>_ s.
      andThen (tempfile_Create dir ''.tmp-upload-'' s) (\<lambda>t s.
      case fsb_upload targetPath stream t s of (r, t, s) \<Rightarrow>
      case TempFile_Close t s of (_, _, s) \<Rightarrow>              \<comment> \<open>the deferred \<open>CloseAndLog\<close>\<close>
        (case r of Inl e \<Rightarrow> (Inl e, s) | Inr _ \<Rightarrow> (Inr (sha_hex (Sum256 L stream)), s)))))"

definition fsb_GetObject :: "string \<Rightarrow> string \<Rightarrow> string \<Rightarrow> int \<Rightarrow> int \<Rightarrow> fs \<Rightarrow> (error + bytes) \<times> fs" where
  \<comment> \<open>the error of closing the file is only logged\<close>
  "fsb_GetObject rootDir volumeID key offset len s =
     andThen (os_Open (objectPath rootDir volumeID key) s) (\<lambda>d s.
       case andThen (os_op s) (\<lambda>_ s.                                \<comment> \<open>f.Stat\<close>
         let total = int (length d) in
         if offset \<ge> total then (Inr [], s)
         else andThen (if offset > 0 then os_op s else (Inr (), s)) (\<lambda>_ s.   \<comment> \<open>f.Seek\<close>
           let len = (if len \<le> 0 \<or> offset + len > total then total - offset else len)
           in andThen (os_op s) (\<lambda>_ s. (Inr (take (nat len) (drop (nat offset) d)), s)))) of
         (r, s) \<Rightarrow> (r, snd (file_Close (objectPath rootDir volumeID key) s)))"

definition fsb_DeleteObject :: "string \<Rightarrow> string \<Rightarrow> string \<Rightarrow> fs \<Rightarrow> (error + unit) \<times> fs" where
  "fsb_DeleteObject rootDir volumeID key s =
     (case os_Remove (objectPath rootDir volumeID key) s of
        (Some e, s) \<Rightarrow> if e \<noteq> ErrNotExist then (Inl e, s) else (Inr (), s)
      | (None, s) \<Rightarrow> (Inr (), s))"

definition fsb_GetRedirectURL :: "string \<Rightarrow> string \<Rightarrow> string \<Rightarrow> fs \<Rightarrow> (error + string) \<times> fs" where
  "fsb_GetRedirectURL rootDir volumeID key s = (Inl (ErrMsg ''operation not supported by backend''), s)"

definition walk_files :: "string \<Rightarrow> fs \<Rightarrow> string list" where
  \<comment> \<open>the files below the root in the order of \<open>filepath.Walk\<close>, relative to it: the names of every
      directory in lexical order; a path that ends in a separator is not one of a file\<close>
  "walk_files root s =
     sort_key (\<lambda>k. Split k ''/'')
       (map (\<lambda>p. TrimPrefix p (PathJoin root ''''))
          (filter (\<lambda>p. HasPrefix p (PathJoin root '''') \<and> last p \<noteq> CHR ''/'') (remdups (map fst (files s)))))"

definition fsb_ListObjects :: "(string \<Rightarrow> nat) \<Rightarrow> string \<Rightarrow> string \<Rightarrow> string \<Rightarrow> fs \<Rightarrow> (error + ObjectEntry list) \<times> fs" where
  \<comment> \<open>\<open>mtime\<close> is the modification time that the operating system reports for a path\<close>
  "fsb_ListObjects mtime rootDir volumeID prefix s =
     (let fullPrefix = StorageKey volumeID prefix in
      andThen (os_op s) (\<lambda>_ s.
        (Inr (map (\<lambda>k. \<lparr>Key = k, Size = length (file_data (PathJoin rootDir k) s), LastModified = mtime (PathJoin rootDir k)\<rparr>)
           (filter (\<lambda>k. \<not> HasPrefix (Base k) ''.tmp-upload-'' \<and> HasPrefix k fullPrefix) (walk_files rootDir s))), s)))"

definition fs_backend :: "lib \<Rightarrow> (string \<Rightarrow> nat) \<Rightarrow> string \<Rightarrow> fs Backend" where
  "fs_backend L mtime rootDir =
     \<lparr>PutObject = fsb_PutObject L rootDir, GetObject = fsb_GetObject rootDir, DeleteObject = fsb_DeleteObject rootDir,
      GetRedirectURL = fsb_GetRedirectURL rootDir, ListObjects = fsb_ListObjects mtime rootDir\<rparr>"

end
