(* ===== verification/BlobStore.thy ===== *)
theory BlobStore
  imports ObjectStore
begin

text \<open>
  The blob store of \<^verbatim>\<open>pkg/objectfs/blob/store.go\<close> over an arbitrary backend. The world of the store
  is the state of the backend, the local disk (its temporary files), the incremental packs that
  callers share with it by reference, and the global counter of full packs. The maps of the store
  are association lists; a map that Go iterates over is given in the order of the iteration.
\<close>

record BlobLocation =
  IsStandalone :: bool
  PackKey :: string
  PackVersion :: byte
  Entry :: BlobEntry

record Store =
  largeThreshold :: nat
  packIndexes :: "(string \<times> BlobEntry list) list"
  shaToLocation :: "(string \<times> BlobLocation) list"
  localPacks :: "(string \<times> nat) list"

record 'b world =
  backend :: 'b
  disk :: fs
  packs :: "nat \<Rightarrow> IncrementalPack"
  fullCount :: uint64

definition zero_entry :: BlobEntry where
  "zero_entry = \<lparr>SHA256 = 0, DataOffset = 0, StoredLength = 0, FinalLength = 0, Encoding = 0\<rparr>"

definition standalone :: BlobLocation where
  "standalone = \<lparr>IsStandalone = True, PackKey = '''', PackVersion = 0, Entry = zero_entry\<rparr>"

definition NewStore :: "int \<Rightarrow> Store" where
  "NewStore threshold =
     \<lparr>largeThreshold = (if threshold \<le> 0 then 64 * 1024 * 1024 else nat threshold),
      packIndexes = [], shaToLocation = [], localPacks = []\<rparr>"

definition blobKey :: "string \<Rightarrow> string" where
  "blobKey sha256Hex = ''blobs/'' @ sha256Hex"

definition packKey :: "string \<Rightarrow> nat \<Rightarrow> string" where
  "packKey packID count = ''blobs/'' @ packID @ ''-'' @ dec count @ ''.pack''"

definition UnregisterLocalPack :: "string \<Rightarrow> Store \<Rightarrow> Store" where
  "UnregisterLocalPack key st = st\<lparr>localPacks := AList.delete key (localPacks st)\<rparr>"

definition index_pack :: "string \<Rightarrow> byte \<Rightarrow> BlobEntry list \<Rightarrow> Store \<Rightarrow> Store" where
  "index_pack key version es st =
     st\<lparr>packIndexes := AList.update key es (packIndexes st),
        shaToLocation := fold (\<lambda>e. AList.update (sha_hex (SHA256 e))
          \<lparr>IsStandalone = False, PackKey = key, PackVersion = version, Entry = e\<rparr>) es (shaToLocation st)\<rparr>"

subsection \<open>Writing\<close>

definition PutPackFile ::
  "'b Backend \<Rightarrow> string \<Rightarrow> bytes \<Rightarrow> BlobEntry list \<Rightarrow> nat option \<Rightarrow> Store \<Rightarrow> 'b world \<Rightarrow> (error + unit) \<times> Store \<times> 'b world" where
  "PutPackFile be key stream es localPack st w =
     (case PutObject be '''' key stream (backend w) of
        (Inl e, b) \<Rightarrow> (Inl e, st, w\<lparr>backend := b\<rparr>)
      | (Inr _, b) \<Rightarrow>
          let st = index_pack key VersionV2 es st;
              st = (case localPack of None \<Rightarrow> st | Some p \<Rightarrow> st\<lparr>localPacks := AList.update key p (localPacks st)\<rparr>)
          in (Inr (), st, w\<lparr>backend := b\<rparr>))"

definition is_temp :: "bytes \<Rightarrow> EncodedBlob \<Rightarrow> bool" where
  \<comment> \<open>the stream of the encoded blob is a temporary file\<close>
  "is_temp stream prep \<longleftrightarrow> ebEncoding prep = EncodingCompressed \<and> length stream > MemoryThreshold"

definition put_loose ::
  "'b Backend \<Rightarrow> bytes \<Rightarrow> EncodedBlob \<Rightarrow> Store \<Rightarrow> 'b world \<Rightarrow> (error + unit) \<times> Store \<times> 'b world" where
  "put_loose be stream prep st w =
     (let shaHex = sha_hex (ebSHA256 prep); key = blobKey shaHex in
      case PutObject be '''' key (EncodeLooseBlob prep) (backend w) of
        (Inl e, b) \<Rightarrow> (Inl e, st, w\<lparr>backend := b, disk := snd (close_blob (is_temp stream prep) (disk w))\<rparr>)
      | (Inr _, b) \<Rightarrow>
          (case close_blob (is_temp stream prep) (disk w) of
             (Some e, d) \<Rightarrow> (Inl e, st, w\<lparr>backend := b, disk := d\<rparr>)
           | (None, d) \<Rightarrow>
               (Inr (), st\<lparr>shaToLocation := AList.update shaHex standalone (shaToLocation st)\<rparr>,
                w\<lparr>backend := b, disk := d\<rparr>)))"

fun put_loop ::
  "lib \<Rightarrow> 'b Backend \<Rightarrow> bytes list \<Rightarrow> EncodedBlob list \<Rightarrow> Store \<Rightarrow> 'b world \<Rightarrow> (error + EncodedBlob list) \<times> Store \<times> 'b world" where
  "put_loop L be [] smallInputs st w = (Inr smallInputs, st, w)"
| "put_loop L be (stream # blobs) smallInputs st w =
     (case EncodeBlob L stream True (disk w) of
        (Inl e, d) \<Rightarrow> (Inl e, st, w\<lparr>disk := d\<rparr>)
      | (Inr prep, d) \<Rightarrow>
          if length stream > largeThreshold st then
            (case put_loose be stream prep st (w\<lparr>disk := d\<rparr>) of
               (Inl e, st, w) \<Rightarrow> (Inl e, st, w)
             | (Inr _, st, w) \<Rightarrow> put_loop L be blobs smallInputs st w)
          else put_loop L be blobs (smallInputs @ [prep]) st (w\<lparr>disk := d\<rparr>))"

definition put_small ::
  "lib \<Rightarrow> 'b Backend \<Rightarrow> EncodedBlob list \<Rightarrow> Store \<Rightarrow> 'b world \<Rightarrow> (error + unit) \<times> Store \<times> 'b world" where
  \<comment> \<open>every return after the creation of the temporary file closes it (the deferred \<open>CloseAndLog\<close>)\<close>
  "put_small L be smallInputs st w =
     (case time_Now (disk w) of (nano, d) \<Rightarrow>
      let packID = sha_hex (Sum256 L (string_bytes (''pack-'' @ dec (length smallInputs) @ ''-'' @ dec nano))) in
      case tempfile_Create ''/tmp'' ''objectfs-pack-write-'' d of
        (Inl e, d) \<Rightarrow> (Inl e, st, w\<lparr>disk := d\<rparr>)
      | (Inr t, d) \<Rightarrow>
          (case WritePackfile (tpath t) smallInputs (fullCount w) d of
             (Inl e, full, d) \<Rightarrow> (Inl e, st, w\<lparr>fullCount := full, disk := snd (snd (TempFile_Close t d))\<rparr>)
           | (Inr packFile, full, d) \<Rightarrow>
               (case andThen (os_op d) (\<lambda>_ d. os_op d) of                     \<comment> \<open>Stat and Seek\<close>
                  (Inl e, d) \<Rightarrow> (Inl e, st, w\<lparr>fullCount := full, disk := snd (snd (TempFile_Close t d))\<rparr>)
                | (Inr _, d) \<Rightarrow>
                    let packFileKey = packKey packID (length smallInputs) in
                    case PutObject be '''' packFileKey (file_data (tpath t) d) (backend w) of
                      (Inl e, b) \<Rightarrow>
                        (Inl e, st, w\<lparr>backend := b, fullCount := full, disk := snd (snd (TempFile_Close t d))\<rparr>)
                    | (Inr _, b) \<Rightarrow>
                        (case TempFile_Close t d of
                           (Some e, t, d) \<Rightarrow> (Inl e, st, w\<lparr>backend := b, fullCount := full, disk := d\<rparr>)
                         | (None, t, d) \<Rightarrow>
                             (Inr (), index_pack packFileKey (pfVersion packFile) (pfEntries packFile) st,
                              w\<lparr>backend := b, fullCount := full, disk := d\<rparr>)))))"

definition PutBlobs ::
  "lib \<Rightarrow> 'b Backend \<Rightarrow> bytes list \<Rightarrow> Store \<Rightarrow> 'b world \<Rightarrow> (error + unit) \<times> Store \<times> 'b world" where
  "PutBlobs L be blobs st w =
     (if blobs = [] then (Inr (), st, w)
      else case put_loop L be blobs [] st w of
        (Inl e, st, w) \<Rightarrow> (Inl e, st, w)
      | (Inr smallInputs, st, w) \<Rightarrow>
          if smallInputs = [] then (Inr (), st, w) else put_small L be smallInputs st w)"

subsection \<open>Discovering packs\<close>

definition table_size :: "byte \<Rightarrow> bytes \<Rightarrow> nat option" where
  "table_size version rawHdr =
     (let n = unat (Uint (slice rawHdr 8 12) :: uint32) in
      if version = VersionV1 then Some (PackV1HeaderSize + n * 32 + (n + 1) * 4)
      else if version = VersionV2 then Some (PackV2HeaderSize + n * PackV2SlotSize)
      else None)"

definition load_table :: "'b Backend \<Rightarrow> string \<Rightarrow> 'b \<Rightarrow> (error + PackFile) \<times> 'b" where
  \<comment> \<open>the table of one pack; the store logs an error and goes on, but a panic stops it\<close>
  "load_table be obj b =
     andThen (GetObject be '''' obj 0 (int PackV1HeaderSize) b) (\<lambda>rawHdr b.
       if length rawHdr < PackV1HeaderSize then (Inl (ErrMsg ''failed reading header for packfile''), b)
       else case ParseFileHeader (slice rawHdr 0 8) of
         Inl e \<Rightarrow> (Inl e, b)
       | Inr baseHdr \<Rightarrow>
           if fhFileType baseHdr \<noteq> FileTypePack then (Inl (ErrMsg ''invalid packfile header''), b)
           else case table_size (fhVersion baseHdr) rawHdr of
             None \<Rightarrow> (Inl (ErrMsg ''unsupported packfile version''), b)
           | Some totalTableSize \<Rightarrow>
               andThen (GetObject be '''' obj 0 (int totalTableSize) b) (\<lambda>totalBuf b.
                 if length totalBuf < totalTableSize then (Inl (ErrMsg ''failed reading tables for packfile''), b)
                 else (DecodePackTable totalBuf, b)))"

definition refresh_object :: "'b Backend \<Rightarrow> string \<Rightarrow> Store \<Rightarrow> 'b \<Rightarrow> (error + unit) \<times> Store \<times> 'b" where
  "refresh_object be obj st b =
     (if HasSuffix obj ''.pack'' then
        (if map_of (packIndexes st) obj \<noteq> None then (Inr (), st, b)
         else case load_table be obj b of
           (Inl (Panic m), b) \<Rightarrow> (Inl (Panic m), st, b)
         | (Inl e, b) \<Rightarrow> (Inr (), st, b)
         | (Inr packFile, b) \<Rightarrow> (Inr (), index_pack obj (pfVersion packFile) (pfEntries packFile) st, b))
      else
        let baseName = TrimPrefix (TrimPrefix obj ''blobs/'') ''/'' in
        if length baseName = 64 \<and> \<not> Contains baseName ''.'' \<and> map_of (shaToLocation st) baseName = None
        then (Inr (), st\<lparr>shaToLocation := AList.update baseName standalone (shaToLocation st)\<rparr>, b)
        else (Inr (), st, b))"

fun refresh_loop :: "'b Backend \<Rightarrow> ObjectEntry list \<Rightarrow> Store \<Rightarrow> 'b \<Rightarrow> (error + unit) \<times> Store \<times> 'b" where
  "refresh_loop be [] st b = (Inr (), st, b)"
| "refresh_loop be (obj # os) st b =
     (case refresh_object be (Key obj) st b of
        (Inl e, st, b) \<Rightarrow> (Inl e, st, b)
      | (Inr _, st, b) \<Rightarrow> refresh_loop be os st b)"

definition RefreshIndexes :: "'b Backend \<Rightarrow> Store \<Rightarrow> 'b \<Rightarrow> (error + unit) \<times> Store \<times> 'b" where
  "RefreshIndexes be st b =
     (case ListObjects be '''' ''blobs/'' b of
        (Inl e, b) \<Rightarrow> (Inl e, st, b)
      | (Inr os, b) \<Rightarrow> refresh_loop be os st b)"

subsection \<open>Listing\<close>

record ListBlobsOptions =
  FromSHA :: string
  Limit :: int
  SHAPrefix :: string

definition ListBlobs ::
  "'b Backend \<Rightarrow> ListBlobsOptions \<Rightarrow> Store \<Rightarrow> 'b \<Rightarrow> (error + string list \<times> bool) \<times> Store \<times> 'b" where
  "ListBlobs be opts st b =
     (case RefreshIndexes be st b of
        (Inl e, st, b) \<Rightarrow> (Inl e, st, b)
      | (Inr _, st, b) \<Rightarrow>
          let matching = sort (filter (\<lambda>sha.
                \<not> (SHAPrefix opts \<noteq> '''' \<and> \<not> HasPrefix sha (SHAPrefix opts)) \<and>
                \<not> (FromSHA opts \<noteq> '''' \<and> sha \<le> FromSHA opts)) (remdups (map fst (shaToLocation st))))
          in if Limit opts \<le> 0 \<or> int (length matching) \<le> Limit opts then (Inr (matching, True), st, b)
             else (Inr (take (nat (Limit opts)) matching, False), st, b))"

subsection \<open>Reading\<close>

definition read_packed ::
  "lib \<Rightarrow> 'b Backend \<Rightarrow> BlobLocation \<Rightarrow> 'b world \<Rightarrow> (error + bytes) \<times> 'b world" where
  "read_packed L be loc w =
     (case GetObject be '''' (PackKey loc) (uint (DataOffset (Entry loc))) (uint (StoredLength (Entry loc))) (backend w) of
        (Inl e, b) \<Rightarrow> (Inl e, w\<lparr>backend := b\<rparr>)
      | (Inr buf, b) \<Rightarrow>
          let w = w\<lparr>backend := b\<rparr> in
          if PackVersion loc = VersionV1 then
            (case DecodeBlobFromPayload L buf (Entry loc) (disk w) of (r, d) \<Rightarrow> (r, w\<lparr>disk := d\<rparr>))
          else if length buf \<noteq> unat (StoredLength (Entry loc)) then
            (Inl (ErrMsg ''corrupt packfile entry: stored length''), w)
          else
            (case decodePayloadToByteStream L buf (Encoding (Entry loc)) (uint (FinalLength (Entry loc))) (disk w) of
               (Inl e, d) \<Rightarrow> (Inl e, w\<lparr>disk := d\<rparr>)
             | (Inr stream, d) \<Rightarrow> (verify_sha L (Entry loc) stream, w\<lparr>disk := d\<rparr>)))"

definition read_loose :: "lib \<Rightarrow> bytes \<Rightarrow> 'b world \<Rightarrow> (error + bytes) \<times> 'b world" where
  "read_loose L buf w =
     (case DecodeLooseBlob L buf (disk w) of
        (Inl e, d) \<Rightarrow> (Inl e, w\<lparr>disk := d\<rparr>)
      | (Inr (stream, _), d) \<Rightarrow> (Inr stream, w\<lparr>disk := d\<rparr>))"

definition read_local :: "lib \<Rightarrow> BlobLocation \<Rightarrow> Store \<Rightarrow> 'b world \<Rightarrow> (error + bytes) option \<times> 'b world" where
  \<comment> \<open>the local pack, if the location names one\<close>
  "read_local L loc st w =
     (case (if PackKey loc \<noteq> '''' then map_of (localPacks st) (PackKey loc) else None) of
        None \<Rightarrow> (None, w)
      | Some p \<Rightarrow> (case ReadBlob L (Entry loc) (packs w p) (disk w) of (r, d) \<Rightarrow> (Some r, w\<lparr>disk := d\<rparr>)))"

definition try_loose ::
  "lib \<Rightarrow> 'b Backend \<Rightarrow> string \<Rightarrow> 'b world \<Rightarrow> bytes option \<times> 'b world" where
  \<comment> \<open>the standalone blob of a hash the index does not know\<close>
  "try_loose L be sha256Hex w =
     (case GetObject be '''' (blobKey sha256Hex) 0 0 (backend w) of
        (Inl _, b) \<Rightarrow> (None, w\<lparr>backend := b\<rparr>)
      | (Inr buf, b) \<Rightarrow>
          if length buf \<ge> SingleBlobHeaderSize then
            (case read_loose L buf (w\<lparr>backend := b\<rparr>) of
               (Inr stream, w) \<Rightarrow> (Some stream, w)
             | (Inl _, w) \<Rightarrow> (None, w))
          else (None, w\<lparr>backend := b\<rparr>))"

definition get_known ::
  "lib \<Rightarrow> 'b Backend \<Rightarrow> string \<Rightarrow> BlobLocation \<Rightarrow> Store \<Rightarrow> 'b world \<Rightarrow> (error + bytes) \<times> 'b world" where
  "get_known L be sha256Hex loc st w =
     (case read_local L loc st w of
        (Some (Inr stream), w) \<Rightarrow> (Inr stream, w)
      | (_, w) \<Rightarrow>
          if IsStandalone loc then
            (case GetObject be '''' (blobKey sha256Hex) 0 0 (backend w) of
               (Inl e, b) \<Rightarrow> (Inl e, w\<lparr>backend := b\<rparr>)
             | (Inr buf, b) \<Rightarrow> read_loose L buf (w\<lparr>backend := b\<rparr>))
          else read_packed L be loc w)"

definition GetBlob ::
  "lib \<Rightarrow> 'b Backend \<Rightarrow> string \<Rightarrow> Store \<Rightarrow> 'b world \<Rightarrow> (error + bytes) \<times> Store \<times> 'b world" where
  "GetBlob L be sha256Hex st w =
     (case map_of (shaToLocation st) sha256Hex of
        Some loc \<Rightarrow> (case get_known L be sha256Hex loc st w of (r, w) \<Rightarrow> (r, st, w))
      | None \<Rightarrow>
          (case try_loose L be sha256Hex w of
             (Some stream, w) \<Rightarrow>
               (Inr stream, st\<lparr>shaToLocation := AList.update sha256Hex standalone (shaToLocation st)\<rparr>, w)
           | (None, w) \<Rightarrow>
               (case RefreshIndexes be st (backend w) of
                  (Inl (Panic m), st, b) \<Rightarrow> (Inl (Panic m), st, w\<lparr>backend := b\<rparr>)
                | (_, st, b) \<Rightarrow>
                    (case map_of (shaToLocation st) sha256Hex of
                       Some loc \<Rightarrow> (case read_packed L be loc (w\<lparr>backend := b\<rparr>) of (r, w) \<Rightarrow> (r, st, w))
                     | None \<Rightarrow> (Inl (ErrMsg ''blob not found''), st, w\<lparr>backend := b\<rparr>)))))"

end
