(* ===== verification/ObjectLaws.thy ===== *)
theory ObjectLaws
  imports ObjectStore
begin

text \<open>
  The contract of object storage as a locale, with its consequences for a client, and the proofs that
  the memory backend and the directory backend satisfy it.
\<close>

subsection \<open>The contract\<close>

text \<open>
  \<open>objs\<close> reads the objects of a state, by storage key; \<open>ok_key\<close> says which keys a backend accepts
  (the directory backend reserves the names of its temporary files); \<open>healthy\<close> says that no
  fault is pending.
\<close>

locale object_backend =
  fixes be :: "'b Backend" and objs :: "'b \<Rightarrow> string \<Rightarrow> bytes option"
    and ok_key :: "string \<Rightarrow> bool" and healthy :: "'b \<Rightarrow> bool"
  assumes put: "ok_key (StorageKey v k) \<Longrightarrow> PutObject be v k d b = (r, b') \<Longrightarrow>
      (objs b' = objs b \<or> objs b' = (objs b)(StorageKey v k \<mapsto> d)) \<and>
      (\<forall>e. r = Inr e \<longrightarrow> objs b' = (objs b)(StorageKey v k \<mapsto> d)) \<and>
      (healthy b \<longrightarrow> healthy b' \<and> (\<exists>e. r = Inr e))"
    and get: "ok_key (StorageKey v k) \<Longrightarrow> 0 \<le> off \<Longrightarrow> GetObject be v k off len b = (g, b') \<Longrightarrow>
      objs b' = objs b \<and>
      (case g of Inr d \<Rightarrow> (\<exists>x. objs b (StorageKey v k) = Some x \<and> d = range_of x off len)
       | Inl e \<Rightarrow> healthy b \<longrightarrow> objs b (StorageKey v k) = None) \<and>
      (healthy b \<longrightarrow> healthy b')"
    and delete: "ok_key (StorageKey v k) \<Longrightarrow> DeleteObject be v k b = (u, b') \<Longrightarrow>
      (objs b' = objs b \<or> objs b' = (objs b)(StorageKey v k := None)) \<and>
      (u = Inr () \<longrightarrow> objs b' = (objs b)(StorageKey v k := None)) \<and>
      (healthy b \<longrightarrow> healthy b' \<and> u = Inr ())"
    and list: "ListObjects be v p b = (l, b') \<Longrightarrow>
      objs b' = objs b \<and>
      (case l of Inr es \<Rightarrow> distinct (map Key es) \<and>
          (\<forall>k. k \<in> Key ` set es \<longleftrightarrow> HasPrefix k (StorageKey v p) \<and> objs b k \<noteq> None) \<and>
          (\<forall>e\<in>set es. \<exists>x. objs b (Key e) = Some x \<and> Size e = length x)
       | Inl _ \<Rightarrow> \<not> healthy b) \<and>
      (healthy b \<longrightarrow> healthy b')"
begin

lemma put_get:
  assumes "ok_key (StorageKey v k)" "0 \<le> off" "PutObject be v k d b = (Inr e, b1)" "GetObject be v k off len b1 = (Inr d', b2)"
  shows "d' = range_of d off len"
  using put [OF assms(1,3)] get [OF assms(1,2,4)] by auto

lemma put_get_other:
  assumes "ok_key (StorageKey v k)" "ok_key (StorageKey v' k')" "StorageKey v k \<noteq> StorageKey v' k'" "0 \<le> off"
    and "PutObject be v k d b = (r, b1)" "GetObject be v' k' off len b1 = (Inr d', b2)"
  shows "\<exists>x. objs b (StorageKey v' k') = Some x \<and> d' = range_of x off len"
  using put [OF assms(1,5)] get [OF assms(2,4,6)] assms(3) by auto

lemma deleted_absent:
  assumes "ok_key (StorageKey v k)" "0 \<le> off" "DeleteObject be v k b = (Inr (), b1)" "GetObject be v k off len b1 = (r, b2)"
  shows "\<exists>e. r = Inl e"
  using delete [OF assms(1,3)] get [OF assms(1,2,4)] by (auto split: sum.splits)

end

subsection \<open>Ranges\<close>

lemma range_of_whole [simp]: "range_of d 0 0 = d"
  by (simp add: range_of_def)

lemma range_of_beyond: "int (length d) \<le> off \<Longrightarrow> range_of d off len = []"
  by (auto simp: range_of_def)

lemma range_of_slice:
  assumes "0 \<le> off" "off < int (length d)"
  shows "slice d (nat off) (nat (if len \<le> 0 \<or> off + len > int (length d) then int (length d) else off + len)) = range_of d off len"
proof (cases "len \<le> 0 \<or> off + len > int (length d)")
  case True
  with assms show ?thesis by (auto simp: range_of_def slice_def nat_diff_distrib)
next
  case False
  with assms have "nat (off + len) - nat off = nat len" by simp
  with False show ?thesis by (simp add: range_of_def slice_def)
qed

lemma range_of_take:
  assumes "0 \<le> off" "off < int (length d)"
  shows "take (nat (if len \<le> 0 \<or> off + len > int (length d) then int (length d) - off else len)) (drop (nat off) d) = range_of d off len"
  using assms by (auto simp: range_of_def)

subsection \<open>The memory backend\<close>

definition mem_objs :: "MemBackend \<Rightarrow> string \<Rightarrow> bytes option" where
  "mem_objs b k = map_option mdata (map_of (objects b) k)"

lemma distinct_map_sort_key: "distinct (map f (sort_key g xs)) \<longleftrightarrow> distinct (map f xs)"
  by (simp add: distinct_map)

lemma mem_list:
  assumes "mem_ListObjects v p b = (r, b')"
  shows "\<exists>es. r = Inr es \<and> b' = b \<and> distinct (map Key es) \<and>
    (\<forall>k. k \<in> Key ` set es \<longleftrightarrow> HasPrefix k (StorageKey v p) \<and> mem_objs b k \<noteq> None) \<and>
    (\<forall>e\<in>set es. \<exists>x. mem_objs b (Key e) = Some x \<and> Size e = length x)"
proof -
  let ?P = "\<lambda>(k, obj). HasPrefix k (StorageKey v p)"
  let ?o = "AList.clearjunk (objects b)"
  let ?f = "\<lambda>(k, obj). \<lparr>Key = k, Size = length (mdata obj), LastModified = modTime obj\<rparr>"
  let ?es = "sort_key Key (map ?f (filter ?P ?o))"
  have d: "distinct (map fst ?o)" by (rule distinct_clearjunk)
  have "map Key (map ?f (filter ?P ?o)) = map fst (filter ?P ?o)" by (induction "?o") auto
  moreover from d have "distinct (map fst (filter ?P ?o))" by (rule distinct_map_filter)
  ultimately have "distinct (map Key (map ?f (filter ?P ?o)))" by (simp only:)
  then have "distinct (map Key ?es)" by (simp only: distinct_map_sort_key)
  moreover have m: "(k, x) \<in> set ?o \<longleftrightarrow> map_of (objects b) k = Some x" for k x
    using map_of_eq_Some_iff [OF d] by (simp add: map_of_clearjunk)
  have "k \<in> Key ` set ?es \<longleftrightarrow> HasPrefix k (StorageKey v p) \<and> mem_objs b k \<noteq> None" for k
    using m by (force simp: mem_objs_def)
  moreover have "\<exists>x. mem_objs b (Key e) = Some x \<and> Size e = length x" if "e \<in> set ?es" for e
    using that m by (force simp: mem_objs_def)
  moreover have "r = Inr ?es" "b' = b" using assms by (auto simp: mem_ListObjects_def Let_def)
  ultimately show ?thesis by blast
qed

interpretation mem: object_backend "mem_backend L" mem_objs "\<lambda>_. True" "\<lambda>_. True"
proof unfold_locales
  fix v k d b r b'
  assume "PutObject (mem_backend L) v k d b = (r, b')"
  then show "(mem_objs b' = mem_objs b \<or> mem_objs b' = (mem_objs b)(StorageKey v k \<mapsto> d)) \<and>
      (\<forall>e. r = Inr e \<longrightarrow> mem_objs b' = (mem_objs b)(StorageKey v k \<mapsto> d)) \<and> (True \<longrightarrow> True \<and> (\<exists>e. r = Inr e))"
    by (auto simp: mem_backend_def mem_PutObject_def mem_objs_def update_conv' fun_eq_iff Let_def)
next
  fix v k off len b r b'
  assume "(0::int) \<le> off" "GetObject (mem_backend L) v k off len b = (r, b')"
  then show "mem_objs b' = mem_objs b \<and>
      (case r of Inr d \<Rightarrow> (\<exists>x. mem_objs b (StorageKey v k) = Some x \<and> d = range_of x off len)
       | Inl e \<Rightarrow> True \<longrightarrow> mem_objs b (StorageKey v k) = None) \<and> (True \<longrightarrow> True)"
    using range_of_slice [of off _ len]
    by (auto simp: mem_backend_def mem_GetObject_def mem_objs_def Let_def range_of_beyond split: option.splits if_splits)
next
  fix v k b r b'
  assume "DeleteObject (mem_backend L) v k b = (r, b')"
  then show "(mem_objs b' = mem_objs b \<or> mem_objs b' = (mem_objs b)(StorageKey v k := None)) \<and>
      (r = Inr () \<longrightarrow> mem_objs b' = (mem_objs b)(StorageKey v k := None)) \<and> (True \<longrightarrow> True \<and> r = Inr ())"
    by (auto simp: mem_backend_def mem_DeleteObject_def mem_objs_def delete_conv' fun_eq_iff)
next
  fix v p b r b'
  assume "ListObjects (mem_backend L) v p b = (r, b')"
  then show "mem_objs b' = mem_objs b \<and>
      (case r of Inr es \<Rightarrow> distinct (map Key es) \<and>
          (\<forall>k. k \<in> Key ` set es \<longleftrightarrow> HasPrefix k (StorageKey v p) \<and> mem_objs b k \<noteq> None) \<and>
          (\<forall>e\<in>set es. \<exists>x. mem_objs b (Key e) = Some x \<and> Size e = length x)
       | Inl _ \<Rightarrow> \<not> True) \<and> (True \<longrightarrow> True)"
    using mem_list [of v p b r b'] by (auto simp: mem_backend_def)
qed

subsection \<open>The directory backend\<close>

definition fs_key :: "string \<Rightarrow> bool" where
  "fs_key k \<longleftrightarrow> k \<noteq> [] \<and> last k \<noteq> CHR ''/'' \<and> \<not> HasPrefix (Base k) ''.tmp-upload-''"

definition fs_objs :: "string \<Rightarrow> fs \<Rightarrow> string \<Rightarrow> bytes option" where
  \<comment> \<open>the objects below a root: the files that are not temporary\<close>
  "fs_objs root s k = (if fs_key k then map_option fdata (get_file (PathJoin root k) s) else None)"

lemma Base_PathJoin_key:
  assumes "k \<noteq> []" "last k \<noteq> CHR ''/''"
  shows "Base (PathJoin d k) = Base k"
proof -
  from assms obtain k' c where k: "k = k' @ [c]" "c \<noteq> CHR ''/''" by (cases k rule: rev_cases) auto
  have "takeWhile (\<lambda>c. c \<noteq> CHR ''/'') (xs @ CHR ''/'' # ys) = takeWhile (\<lambda>c. c \<noteq> CHR ''/'') xs" for xs ys
    by (induction xs) auto
  with k show ?thesis by (simp add: Base_def PathJoin_def Let_def)
qed

lemma dec_no_slash: "CHR ''/'' \<notin> set (dec n)"
  using dec_digits [of n] by (auto simp: list_all_iff is_digit_def)

lemma temp_name_not_object:
  assumes "fs_key k"
  shows "PathJoin root k \<noteq> temp_name d ''.tmp-upload-'' s"
proof
  assume e: "PathJoin root k = temp_name d ''.tmp-upload-'' s"
  then obtain n where "PathJoin root k = PathJoin d (''.tmp-upload-'' @ dec n)"
    by (auto simp: temp_name_def PathJoin_def split: option.splits)
  then have "Base k = Base (PathJoin d (''.tmp-upload-'' @ dec n))"
    using assms Base_PathJoin_key [of k root] by (simp add: fs_key_def)
  also have "\<dots> = ''.tmp-upload-'' @ dec n"
    using dec_no_slash [of n] by (intro Base_PathJoin) auto
  finally show False using assms by (simp add: fs_key_def HasPrefix_def)
qed

definition agree_except :: "string \<Rightarrow> fs \<Rightarrow> fs \<Rightarrow> bool" where
  "agree_except t s s' \<longleftrightarrow> (\<forall>q. q \<noteq> t \<longrightarrow> get_file q s' = get_file q s) \<and> (faults s = [] \<longrightarrow> faults s' = [])"

lemma agree_trans: "agree_except t s s1 \<Longrightarrow> agree_except t s1 s2 \<Longrightarrow> agree_except t s s2"
  by (simp add: agree_except_def)

lemma agree_refl [simp]: "agree_except t s s"
  by (simp add: agree_except_def)

lemma faults_tail: "pop_fault s = (f, s') \<Longrightarrow> faults s = [] \<Longrightarrow> faults s' = []"
  by simp

lemmas io_defs = file_Write_def file_Sync_def file_Close_def os_Remove_def os_Create_def os_MkdirAll_def os_op_def

lemma ops_agree:
  "file_Write t d s = (e, s') \<Longrightarrow> agree_except t s s'"
  "file_Sync t s = (e, s') \<Longrightarrow> agree_except t s s'"
  "file_Close p s = (e, s') \<Longrightarrow> agree_except t s s'"
  "os_Remove t s = (e, s') \<Longrightarrow> agree_except t s s'"
  "os_Create t s = (x, s') \<Longrightarrow> agree_except t s s'"
  "os_MkdirAll p s = (e, s') \<Longrightarrow> agree_except t s s'"
  "os_op s = (u, s') \<Longrightarrow> agree_except t s s'"
  by (auto simp: io_defs agree_except_def pop_fault_def split: list.splits fault.splits option.splits)

lemma TempFile_Close_agree: "TempFile_Close t s = (e, t', s') \<Longrightarrow> agree_except (tpath t) s s'"
  by (auto simp: TempFile_Close_def split: if_splits prod.splits intro: agree_trans ops_agree)

lemma TempFile_Close_renamed:
  "TempFile_Close t s = (e, t', s') \<Longrightarrow> renamed t \<Longrightarrow> same_files s s' \<and> (faults s = [] \<longrightarrow> e = None \<and> faults s' = [])"
  by (auto simp: TempFile_Close_def file_Close_def pop_fault_def map_filter_simps same_files_def
      split: if_splits prod.splits list.splits fault.splits)

definition stored :: "string \<Rightarrow> string \<Rightarrow> bytes \<Rightarrow> fs \<Rightarrow> fs \<Rightarrow> bool" where
  \<comment> \<open>the file at \<open>p\<close> has the content \<open>d\<close>, and only that file and the temporary one have changed\<close>
  "stored p t d s s' \<longleftrightarrow> (\<exists>y. get_file p s' = Some y \<and> fdata y = d) \<and>
     (\<forall>q. q \<noteq> t \<longrightarrow> q \<noteq> p \<longrightarrow> get_file q s' = get_file q s)"

lemma file_Write_new:
  "file_Write t d s = (None, s') \<Longrightarrow> get_file t s = Some x \<Longrightarrow> \<exists>y. get_file t s' = Some y \<and> fdata y = fdata x @ d"
  by (auto simp: file_Write_def pop_fault_def append_file_def split: list.splits fault.splits)

lemma file_Sync_new:
  "file_Sync t s = (None, s') \<Longrightarrow> get_file t s = Some x \<Longrightarrow> \<exists>y. get_file t s' = Some y \<and> fdata y = fdata x"
  by (auto simp: file_Sync_def pop_fault_def split: list.splits fault.splits)

lemma RenameTo_cases:
  assumes "RenameTo p t s = (r, s')" "\<not> renamed t" "\<not> closed t" "get_file (tpath t) s = Some x" "p \<noteq> tpath t"
  shows "case r of Inl e \<Rightarrow> agree_except (tpath t) s s' \<and> faults s \<noteq> []
    | Inr t' \<Rightarrow> t' = t\<lparr>renamed := True\<rparr> \<and> stored p (tpath t) (fdata x) s s' \<and> (faults s = [] \<longrightarrow> faults s' = [])"
  using assms
  by (auto simp: RenameTo_def lift_err_def os_Rename_def pop_fault_def agree_except_def stored_def
      split: list.splits fault.splits)

lemma fsb_upload_ok:
  assumes u: "fsb_upload p d t s = (r, t', s')" and t: "\<not> renamed t" "\<not> closed t" "get_file (tpath t) s = Some x"
    "fdata x = []" "p \<noteq> tpath t"
  shows "tpath t' = tpath t \<and>
    (if renamed t' then stored p (tpath t) d s s' else agree_except (tpath t) s s' \<and> (\<exists>e. r = Inl e)) \<and>
    (faults s = [] \<longrightarrow> faults s' = [] \<and> r = Inr ())"
proof -
  obtain e1 s1 where w: "file_Write (tpath t) d s = (e1, s1)" by (cases "file_Write (tpath t) d s")
  obtain e2 s2 where y: "file_Sync (tpath t) s1 = (e2, s2)" by (cases "file_Sync (tpath t) s1")
  obtain r3 s3 where n: "RenameTo p t s2 = (r3, s3)" by (cases "RenameTo p t s2")
  note a = ops_agree(1) [OF w] ops_agree(2) [OF y]
  have clean: "faults s = [] \<Longrightarrow> e1 = None \<and> faults s1 = []" "faults s1 = [] \<Longrightarrow> e2 = None \<and> faults s2 = []"
    using w y by (auto simp: file_Write_def file_Sync_def split: option.splits)
  note e = u [unfolded fsb_upload_def w]
  show ?thesis
  proof (cases e1)
    case (Some z)
    with e a clean t show ?thesis by auto
  next
    case e1: None
    with file_Write_new [of "tpath t" d s s1 x] w t obtain x1 where x1: "get_file (tpath t) s1 = Some x1" "fdata x1 = d" by auto
    show ?thesis
    proof (cases e2)
      case (Some z)
      with e e1 y a clean t agree_trans [OF a] show ?thesis by auto
    next
      case e2: None
      with file_Sync_new [of "tpath t" s1 s2 x1] y x1 obtain x2 where x2: "get_file (tpath t) s2 = Some x2" "fdata x2 = d" by auto
      note R = RenameTo_cases [OF n t(1,2) x2(1) t(5)]
      show ?thesis
      proof (cases r3)
        case (Inl z)
        with e e1 e2 y n R clean t agree_trans [OF agree_trans [OF a]] show ?thesis by auto
      next
        case (Inr t3)
        with R have t3: "t3 = t\<lparr>renamed := True\<rparr>" "stored p (tpath t) d s2 s3" "faults s2 = [] \<longrightarrow> faults s3 = []"
          by (simp_all add: x2)
        obtain e4 t4 s4 where c: "TempFile_Close t3 s3 = (e4, t4, s4)" by (cases "TempFile_Close t3 s3")
        have t4: "tpath t4 = tpath t" "renamed t4" using c t3(1) by (auto simp: TempFile_Close_def split: if_splits prod.splits)
        note C = TempFile_Close_renamed [OF c]
        have "stored p (tpath t) d s s4"
          using t3 C agree_trans [OF a] by (auto simp: stored_def same_files_def agree_except_def)
        then show ?thesis
          using e e1 e2 y n Inr c t4 t3 C clean by (auto split: option.splits)
      qed
    qed
  qed
qed

lemma temp_path_create:
  "tempfile_Create d pre s = (Inr t, s') \<Longrightarrow>
   \<not> renamed t \<and> \<not> closed t \<and> tpath t = temp_name d pre s \<and> (\<exists>x. get_file (tpath t) s' = Some x \<and> fdata x = [])"
  by (auto simp: tempfile_Create_def os_Create_def pop_fault_def Let_def split: list.splits fault.splits)

lemma fsb_PutObject_cases:
  assumes "fsb_PutObject L root v k d s = (r, s')"
  obtains (fail) e where "r = Inl e" "same_files s s'" "faults s \<noteq> []"
  | (temp) t s1 r1 t1 s2 e2 t2 where "\<not> renamed t" "\<not> closed t" "tpath t = temp_name (filepath_Dir (objectPath root v k)) ''.tmp-upload-'' s"
      "\<exists>x. get_file (tpath t) s1 = Some x \<and> fdata x = []"
      "agree_except (tpath t) s s1" "fsb_upload (objectPath root v k) d t s1 = (r1, t1, s2)" "TempFile_Close t1 s2 = (e2, t2, s')"
      "r = map_sum id (\<lambda>_. sha_hex (Sum256 L d)) r1"
proof -
  let ?p = "objectPath root v k"
  obtain e0 s0 where m: "os_MkdirAll (filepath_Dir ?p) s = (e0, s0)" by (cases "os_MkdirAll (filepath_Dir ?p) s")
  then have m': "same_files s s0" "e0 \<noteq> None \<longrightarrow> faults s \<noteq> []" "faults s = [] \<longrightarrow> faults s0 = []"
    by (auto simp: os_MkdirAll_def pop_fault_def same_files_def split: list.splits fault.splits)
  have tn: "temp_name dr pre s0 = temp_name dr pre s" for dr pre
    using m by (auto simp: temp_name_def os_MkdirAll_def pop_fault_def get_file_def split: list.splits fault.splits)
  obtain rt s1 where c: "tempfile_Create (filepath_Dir ?p) ''.tmp-upload-'' s0 = (rt, s1)"
    by (cases "tempfile_Create (filepath_Dir ?p) ''.tmp-upload-'' s0")
  then have c': "case rt of Inl e \<Rightarrow> same_files s0 s1 \<and> faults s0 \<noteq> [] | Inr t \<Rightarrow> agree_except (tpath t) s0 s1"
    by (auto simp: tempfile_Create_def Let_def os_Create_def pop_fault_def same_files_def agree_except_def split: list.splits fault.splits)
  note e = assms [unfolded fsb_PutObject_def Let_def m lift_err_def]
  show ?thesis
  proof (cases e0)
    case (Some z)
    with e m' show ?thesis by (intro fail) auto
  next
    case e0: None
    show ?thesis
    proof (cases rt)
      case (Inl z)
      with e e0 c c' m' same_files_trans show ?thesis by (intro fail) auto
    next
      case (Inr t)
      obtain r1 t1 s2 where u: "fsb_upload ?p d t s1 = (r1, t1, s2)" by (cases "fsb_upload ?p d t s1")
      obtain e2 t2 s3 where l: "TempFile_Close t1 s2 = (e2, t2, s3)" by (cases "TempFile_Close t1 s2")
      have r: "s' = s3" "r = map_sum id (\<lambda>_. sha_hex (Sum256 L d)) r1"
        using e e0 c Inr u l by (auto split: sum.splits)
      have "agree_except (tpath t) s s1"
        using c' m' Inr by (auto simp: agree_except_def same_files_def)
      with temp_path_create [OF c [unfolded Inr]] u l r show ?thesis by (intro temp [of t s1 r1 t1 s2 e2 t2]) (auto simp: tn)
    qed
  qed
qed

lemma fsb_PutObject_ok:
  assumes k: "fs_key (StorageKey v k)" and P: "fsb_PutObject L root v k d s = (r, s')"
  shows "(fs_objs root s' = fs_objs root s \<or> fs_objs root s' = (fs_objs root s)(StorageKey v k \<mapsto> d)) \<and>
    (\<forall>e. r = Inr e \<longrightarrow> fs_objs root s' = (fs_objs root s)(StorageKey v k \<mapsto> d)) \<and>
    (faults s = [] \<longrightarrow> faults s' = [] \<and> (\<exists>e. r = Inr e))"
  using P
proof (cases rule: fsb_PutObject_cases)
  case (fail e)
  then show ?thesis by (auto simp: fs_objs_def same_files_def)
next
  case (temp t s1 r1 t1 s2 e2 t2)
  have obj: "PathJoin root q \<noteq> tpath t" if "fs_key q" for q
    using temp_name_not_object [OF that] temp(3) by simp
  then have pt: "objectPath root v k \<noteq> tpath t" using k by (simp add: objectPath_def)
  from temp(4) obtain x where "get_file (tpath t) s1 = Some x" "fdata x = []" by blast
  note U = fsb_upload_ok [OF temp(6,1,2) this pt]
  have "fs_objs root s' = (fs_objs root s)(StorageKey v k \<mapsto> d)" if "renamed t1"
  proof -
    have "stored (objectPath root v k) (tpath t) d s1 s2" "same_files s2 s'"
      using U that TempFile_Close_renamed [OF temp(7)] by auto
    then show ?thesis
      using temp(5) obj k by (auto simp: fs_objs_def stored_def same_files_def agree_except_def objectPath_def fun_eq_iff)
  qed
  moreover have "fs_objs root s' = fs_objs root s \<and> (\<exists>e. r1 = Inl e)" if "\<not> renamed t1"
  proof -
    have "agree_except (tpath t) s1 s2" "agree_except (tpath t) s2 s'" "\<exists>e. r1 = Inl e"
      using U that TempFile_Close_agree [OF temp(7)] by auto
    then show ?thesis
      using temp(5) obj by (auto simp: fs_objs_def agree_except_def fun_eq_iff)
  qed
  moreover have "faults s' = [] \<and> r1 = Inr ()" if "faults s = []"
    using U that temp(5) TempFile_Close_agree [OF temp(7)] by (auto simp: agree_except_def)
  ultimately show ?thesis
    using temp(8) by (cases "renamed t1") auto
qed

lemma os_op_cases2: "os_op s = (r, s') \<Longrightarrow> same_files s s' \<and> (faults s = [] \<longrightarrow> r = Inr () \<and> s' = s)"
  using os_op_io [of s] os_op_clean [of s] by (auto simp: io_ok_def)

lemma fsb_GetObject_ok:
  assumes k: "fs_key (StorageKey v k)" and off: "0 \<le> off" and G: "fsb_GetObject root v k off len s = (r, s')"
  shows "fs_objs root s' = fs_objs root s \<and>
    (case r of Inr d \<Rightarrow> (\<exists>x. fs_objs root s (StorageKey v k) = Some x \<and> d = range_of x off len)
     | Inl e \<Rightarrow> faults s = [] \<longrightarrow> fs_objs root s (StorageKey v k) = None) \<and>
    (faults s = [] \<longrightarrow> faults s' = [])"
proof -
  let ?p = "objectPath root v k"
  obtain ro s1 where o: "os_Open ?p s = (ro, s1)" by (cases "os_Open ?p s")
  have o': "same_files s s1" by (rule os_Open_same [OF o])
  have oc: "faults s = [] \<Longrightarrow> s1 = s \<and> ro = (case get_file ?p s of None \<Rightarrow> Inl ErrNotExist | Some f \<Rightarrow> Inr (fdata f))"
    using o by (auto simp: os_Open_def split: option.splits)
  have obj: "fs_objs root s (StorageKey v k) = map_option fdata (get_file ?p s)"
    using k by (simp add: fs_objs_def objectPath_def)
  have same: "same_files s s' \<Longrightarrow> fs_objs root s' = fs_objs root s" by (simp add: fs_objs_def same_files_def fun_eq_iff)
  note e = G [unfolded fsb_GetObject_def o]
  show ?thesis
  proof (cases ro)
    case (Inl z)
    then have "r = Inl z" "s' = s1" using e by auto
    with o' oc same obj Inl show ?thesis by (auto split: option.splits)
  next
    case (Inr d)
    with os_Open_OkD [of ?p s d s1] o obj have d: "fs_objs root s (StorageKey v k) = Some d" by auto
    define body where "body = andThen (os_op s1) (\<lambda>_ s.
         let total = int (length d) in
         if off \<ge> total then (Inr [], s)
         else andThen (if off > 0 then os_op s else (Inr (), s)) (\<lambda>_ s.
           let len = (if len \<le> 0 \<or> off + len > total then total - off else len)
           in andThen (os_op s) (\<lambda>_ s. (Inr (take (nat len) (drop (nat off) d)), s))))"
    have io: "io_ok s1 body"
      unfolding body_def by (auto simp: Let_def intro!: io_ok_andThen)
    have val: "fst body = Inr x \<Longrightarrow> x = range_of d off len" for x
      unfolding body_def using off
      by (cases body) (auto simp: body_def Let_def range_of_def dest!: andThen_InrD split: if_splits)
    obtain rb s2 where b: "body = (rb, s2)" by (cases body)
    have "r = rb" "s' = snd (file_Close ?p s2)"
      using e Inr b [unfolded body_def] by auto
    moreover have "same_files s2 (snd (file_Close ?p s2))"
      by (cases "file_Close ?p s2") (simp add: file_Close_same)
    moreover have "faults s2 = [] \<Longrightarrow> faults (snd (file_Close ?p s2)) = []"
      by (simp add: file_Close_def)
    ultimately show ?thesis
      using io val b same d oc same_files_trans [OF same_files_trans [OF o'], of s2 s'] unfolding io_ok_def
      by (auto split: sum.splits)
  qed
qed

lemma fsb_DeleteObject_ok:
  assumes "fs_key (StorageKey v k)" "fsb_DeleteObject root v k s = (r, s')"
  shows "(fs_objs root s' = fs_objs root s \<or> fs_objs root s' = (fs_objs root s)(StorageKey v k := None)) \<and>
    (r = Inr () \<longrightarrow> fs_objs root s' = (fs_objs root s)(StorageKey v k := None)) \<and>
    (faults s = [] \<longrightarrow> faults s' = [] \<and> r = Inr ())"
  using assms
  by (auto simp: fsb_DeleteObject_def os_Remove_def pop_fault_def fs_objs_def objectPath_def fun_eq_iff
      split: list.splits fault.splits option.splits if_splits)

lemma set_walk_files:
  "k \<in> set (walk_files root s) \<longleftrightarrow> get_file (PathJoin root k) s \<noteq> None \<and> k \<noteq> [] \<and> last k \<noteq> CHR ''/''"
proof -
  have p: "HasPrefix p (PathJoin root []) \<longleftrightarrow> (\<exists>m. p = PathJoin root m)" for p
    by (auto simp: HasPrefix_def PathJoin_def) (metis append_take_drop_id append.assoc append_Cons append_Nil)
  have tr: "TrimPrefix (PathJoin root m) (PathJoin root []) = m" for m
    by (simp add: TrimPrefix_def HasPrefix_def PathJoin_def)
  have l: "last (PathJoin root m) = (if m = [] then CHR ''/'' else last m)" for m by (simp add: PathJoin_def)
  let ?F = "set (map fst (files s))"
  let ?T = "\<lambda>p. TrimPrefix p (PathJoin root [])"
  let ?S = "{p \<in> ?F. (\<exists>m. p = PathJoin root m) \<and> last p \<noteq> CHR ''/''}"
  have "set (walk_files root s) = ?T ` ?S"
    by (simp add: walk_files_def p)
  also have "\<dots> = {m. PathJoin root m \<in> ?F \<and> m \<noteq> [] \<and> last m \<noteq> CHR ''/''}"
  proof (intro equalityI subsetI CollectI)
    fix m assume "m \<in> ?T ` ?S"
    then obtain m' where "PathJoin root m' \<in> ?F" "m = ?T (PathJoin root m')" "last (PathJoin root m') \<noteq> CHR ''/''" by blast
    then show "PathJoin root m \<in> ?F \<and> m \<noteq> [] \<and> last m \<noteq> CHR ''/''" by (simp only: tr l) (simp split: if_splits)
  next
    fix m assume "m \<in> {m. PathJoin root m \<in> ?F \<and> m \<noteq> [] \<and> last m \<noteq> CHR ''/''}"
    then show "m \<in> ?T ` ?S"
      using tr [of m] by (intro image_eqI [of _ _ "PathJoin root m"]) (simp_all add: l)
  qed
  finally have "k \<in> set (walk_files root s) \<longleftrightarrow> PathJoin root k \<in> ?F \<and> k \<noteq> [] \<and> last k \<noteq> CHR ''/''" by simp
  then show ?thesis unfolding files_get_file .
qed

lemma distinct_walk_files: "distinct (walk_files root s)"
proof -
  have p: "HasPrefix p (PathJoin root []) \<Longrightarrow> \<exists>m. p = PathJoin root m" for p
    by (auto simp: HasPrefix_def PathJoin_def) (metis append_take_drop_id append.assoc append_Cons append_Nil)
  have "TrimPrefix (PathJoin root m) (PathJoin root []) = m" for m
    by (simp add: TrimPrefix_def HasPrefix_def PathJoin_def)
  then have "inj_on (\<lambda>p. TrimPrefix p (PathJoin root [])) {p. HasPrefix p (PathJoin root [])}"
    by (intro inj_onI) (auto dest!: p)
  then show ?thesis
    by (auto simp: walk_files_def distinct_map intro: inj_on_subset)
qed

lemma fsb_ListObjects_ok:
  assumes "fsb_ListObjects mtime root v p s = (r, s')"
  shows "fs_objs root s' = fs_objs root s \<and>
    (case r of Inr es \<Rightarrow> distinct (map Key es) \<and>
        (\<forall>k. k \<in> Key ` set es \<longleftrightarrow> HasPrefix k (StorageKey v p) \<and> fs_objs root s k \<noteq> None) \<and>
        (\<forall>e\<in>set es. \<exists>x. fs_objs root s (Key e) = Some x \<and> Size e = length x)
     | Inl _ \<Rightarrow> faults s \<noteq> []) \<and> (faults s = [] \<longrightarrow> faults s' = [])"
proof -
  obtain r0 s1 where o: "os_op s = (r0, s1)" by (cases "os_op s")
  note S = os_op_cases2 [OF o]
  then have g: "get_file q s1 = get_file q s" for q by (simp add: same_files_def)
  then have obj: "fs_objs root s1 = fs_objs root s" by (simp add: fs_objs_def fun_eq_iff)
  show ?thesis
  proof (cases r0)
    case (Inl z)
    with assms o S obj show ?thesis by (auto simp: fsb_ListObjects_def)
  next
    case (Inr u)
    let ?ks = "filter (\<lambda>k. \<not> HasPrefix (Base k) ''.tmp-upload-'' \<and> HasPrefix k (StorageKey v p)) (walk_files root s1)"
    let ?e = "\<lambda>k. \<lparr>Key = k, Size = length (file_data (PathJoin root k) s1), LastModified = mtime (PathJoin root k)\<rparr>"
    have r: "r = Inr (map ?e ?ks)" "s' = s1" using assms o Inr by (auto simp: fsb_ListObjects_def Let_def)
    have "distinct (map Key (map ?e ?ks))" by (simp add: o_def distinct_walk_files)
    moreover have "k \<in> Key ` set (map ?e ?ks) \<longleftrightarrow> HasPrefix k (StorageKey v p) \<and> fs_objs root s k \<noteq> None" for k
      by (auto simp: image_iff set_walk_files g fs_objs_def fs_key_def)
    moreover have "\<exists>x. fs_objs root s (Key e) = Some x \<and> Size e = length x" if "e \<in> set (map ?e ?ks)" for e
      using that by (auto simp: set_walk_files g fs_objs_def file_data_def fs_key_def)
    ultimately show ?thesis using S obj unfolding r sum.case by blast
  qed
qed

interpretation dirb: object_backend "fs_backend L mtime root" "fs_objs root" fs_key "\<lambda>s. faults s = []"
proof unfold_locales
  fix v k d b r b'
  assume "fs_key (StorageKey v k)" "PutObject (fs_backend L mtime root) v k d b = (r, b')"
  then show "(fs_objs root b' = fs_objs root b \<or> fs_objs root b' = (fs_objs root b)(StorageKey v k \<mapsto> d)) \<and>
      (\<forall>e. r = Inr e \<longrightarrow> fs_objs root b' = (fs_objs root b)(StorageKey v k \<mapsto> d)) \<and>
      (faults b = [] \<longrightarrow> faults b' = [] \<and> (\<exists>e. r = Inr e))"
    by (intro fsb_PutObject_ok) (simp_all add: fs_backend_def)
next
  fix v k off len b r b'
  assume "fs_key (StorageKey v k)" "(0::int) \<le> off" "GetObject (fs_backend L mtime root) v k off len b = (r, b')"
  then show "fs_objs root b' = fs_objs root b \<and>
      (case r of Inr d \<Rightarrow> (\<exists>x. fs_objs root b (StorageKey v k) = Some x \<and> d = range_of x off len)
       | Inl e \<Rightarrow> faults b = [] \<longrightarrow> fs_objs root b (StorageKey v k) = None) \<and> (faults b = [] \<longrightarrow> faults b' = [])"
    by (intro fsb_GetObject_ok) (simp_all add: fs_backend_def)
next
  fix v k b r b'
  assume "fs_key (StorageKey v k)" "DeleteObject (fs_backend L mtime root) v k b = (r, b')"
  then show "(fs_objs root b' = fs_objs root b \<or> fs_objs root b' = (fs_objs root b)(StorageKey v k := None)) \<and>
      (r = Inr () \<longrightarrow> fs_objs root b' = (fs_objs root b)(StorageKey v k := None)) \<and>
      (faults b = [] \<longrightarrow> faults b' = [] \<and> r = Inr ())"
    by (intro fsb_DeleteObject_ok) (simp_all add: fs_backend_def)
next
  fix v p b r b'
  assume "ListObjects (fs_backend L mtime root) v p b = (r, b')"
  then show "fs_objs root b' = fs_objs root b \<and>
      (case r of Inr es \<Rightarrow> distinct (map Key es) \<and>
          (\<forall>k. k \<in> Key ` set es \<longleftrightarrow> HasPrefix k (StorageKey v p) \<and> fs_objs root b k \<noteq> None) \<and>
          (\<forall>e\<in>set es. \<exists>x. fs_objs root b (Key e) = Some x \<and> Size e = length x)
       | Inl _ \<Rightarrow> \<not> faults b = []) \<and> (faults b = [] \<longrightarrow> faults b' = [])"
    by (intro fsb_ListObjects_ok [where mtime = mtime]) (simp add: fs_backend_def)
qed

end
