(* ===== verification/BlobStoreProps.thy ===== *)
theory BlobStoreProps
  imports BlobStore ObjectLaws PackProps
begin

text \<open>
  What the blob store promises: the index names the hash of every packed entry, a packed blob is
  checked against its hash whatever the backend returns, and over a backend that keeps the contract of
  object storage what was put is what is read.
\<close>

subsection \<open>The index\<close>

definition index_ok :: "Store \<Rightarrow> bool" where
  "index_ok st \<longleftrightarrow>
     (\<forall>h loc. map_of (shaToLocation st) h = Some loc \<longrightarrow> IsStandalone loc \<or> h = sha_hex (SHA256 (Entry loc)))"

lemma standalone_standalone [simp]: "IsStandalone standalone"
  by (simp add: standalone_def)

lemma index_ok_standalone:
  "index_ok st \<Longrightarrow> index_ok (st\<lparr>shaToLocation := AList.update h standalone (shaToLocation st)\<rparr>)"
  by (simp add: index_ok_def update_conv' standalone_def)

lemma fold_update_location:
  "map_of (fold (\<lambda>e. AList.update (sha_hex (SHA256 e)) \<lparr>IsStandalone = False, PackKey = key, PackVersion = v, Entry = e\<rparr>) es m) h =
   (case find (\<lambda>e. sha_hex (SHA256 e) = h) (rev es) of
      None \<Rightarrow> map_of m h
    | Some e \<Rightarrow> Some \<lparr>IsStandalone = False, PackKey = key, PackVersion = v, Entry = e\<rparr>)"
proof (induction es arbitrary: m)
  case (Cons e es)
  have f: "find P (xs @ [x]) = (case find P xs of None \<Rightarrow> if P x then Some x else None | Some y \<Rightarrow> Some y)" for P :: "BlobEntry \<Rightarrow> bool" and xs x
    by (induction xs) auto
  show ?case
    by (simp add: Cons f update_conv' split: option.splits)
qed simp

lemma index_pack_location:
  "map_of (shaToLocation (index_pack key v es st)) h =
   (case find (\<lambda>e. sha_hex (SHA256 e) = h) (rev es) of
      None \<Rightarrow> map_of (shaToLocation st) h
    | Some e \<Rightarrow> Some \<lparr>IsStandalone = False, PackKey = key, PackVersion = v, Entry = e\<rparr>)"
  by (simp add: index_pack_def fold_update_location)

lemma index_ok_pack: "index_ok st \<Longrightarrow> index_ok (index_pack key v es st)"
  unfolding index_ok_def index_pack_location
  by (auto split: option.splits dest!: find_Some_iff [THEN iffD1])

lemma index_ok_refresh_object: "refresh_object be obj st b = (r, st', b') \<Longrightarrow> index_ok st \<Longrightarrow> index_ok st'"
  by (auto simp: refresh_object_def Let_def index_ok_standalone index_ok_pack
      split: if_splits prod.splits sum.splits error.splits)

lemma index_ok_refresh: "refresh_loop be os st b = (r, st', b') \<Longrightarrow> index_ok st \<Longrightarrow> index_ok st'"
  by (induction be os st b rule: refresh_loop.induct)
    (auto split: prod.splits sum.splits dest: index_ok_refresh_object)

lemma index_ok_RefreshIndexes: "RefreshIndexes be st b = (r, st', b') \<Longrightarrow> index_ok st \<Longrightarrow> index_ok st'"
  by (auto simp: RefreshIndexes_def split: prod.splits sum.splits dest: index_ok_refresh)

lemma index_ok_put_loose: "put_loose be d b st w = (r, st', w') \<Longrightarrow> index_ok st \<Longrightarrow> index_ok st'"
  by (auto simp: put_loose_def Let_def index_ok_standalone split: prod.splits sum.splits option.splits)

lemma index_ok_put_loop: "put_loop L be blobs small st w = (r, st', w') \<Longrightarrow> index_ok st \<Longrightarrow> index_ok st'"
  by (induction L be blobs small st w rule: put_loop.induct)
    (auto split: prod.splits sum.splits if_splits dest: index_ok_put_loose)

lemma index_ok_put_small: "put_small L be small st w = (r, st', w') \<Longrightarrow> index_ok st \<Longrightarrow> index_ok st'"
  by (auto simp: put_small_def Let_def index_ok_pack split: prod.splits sum.splits option.splits)

lemma index_ok_PutBlobs: "PutBlobs L be blobs st w = (r, st', w') \<Longrightarrow> index_ok st \<Longrightarrow> index_ok st'"
  by (auto simp: PutBlobs_def split: prod.splits sum.splits if_splits dest: index_ok_put_loop index_ok_put_small)

lemma index_ok_PutPackFile: "PutPackFile be key s es lp st w = (r, st', w') \<Longrightarrow> index_ok st \<Longrightarrow> index_ok st'"
proof -
  have l: "index_ok (s\<lparr>localPacks := m\<rparr>) = index_ok s" for s m by (simp add: index_ok_def)
  show "PutPackFile be key s es lp st w = (r, st', w') \<Longrightarrow> index_ok st \<Longrightarrow> index_ok st'"
    by (auto simp: PutPackFile_def Let_def l index_ok_pack split: prod.splits sum.splits option.splits)
qed

lemma index_ok_NewStore: "index_ok (NewStore th)"
  by (simp add: index_ok_def NewStore_def)

lemma read_packed_verified:
  "read_packed L be loc w = (Inr d, w') \<Longrightarrow> PackVersion loc \<noteq> VersionV1 \<Longrightarrow> SHA256 (Entry loc) \<noteq> 0 \<Longrightarrow>
   Sum256 L d = SHA256 (Entry loc)"
  by (auto simp: read_packed_def verify_sha_def computeStreamSHA256_def Let_def split: prod.splits sum.splits if_splits)

text \<open>C24: A blob read from a packfile in object storage is the blob that was asked for, whatever the
  backend returns. For an arbitrary backend, \<^verbatim>\<open>GetBlob\<close> keeps the index in order, and if it returns data
  for a hash whose location is an entry of a version 2 pack that is not open locally, the SHA-256 of
  the data is the hash (the hash of all zeros, which the code does not check, apart).\<close>

theorem get_blob_verified:
  assumes "index_ok st" "GetBlob L be h st w = (Inr d, st', w')"
  shows "index_ok st' \<and>
    (\<forall>loc. map_of (shaToLocation st') h = Some loc \<and> \<not> IsStandalone loc \<and> PackVersion loc \<noteq> VersionV1 \<and>
       SHA256 (Entry loc) \<noteq> 0 \<and> map_of (localPacks st) (PackKey loc) = None \<longrightarrow> sha_hex (Sum256 L d) = h)"
proof (cases "map_of (shaToLocation st) h")
  case (Some loc)
  obtain r w1 where k: "get_known L be h loc st w = (r, w1)" by (cases "get_known L be h loc st w")
  with assms(2) Some have st: "st' = st" "r = Inr d" by (auto simp: GetBlob_def)
  have "read_packed L be loc w = (Inr d, w1)" if "\<not> IsStandalone loc" "map_of (localPacks st) (PackKey loc) = None"
    using k st that by (auto simp: get_known_def read_local_def split: if_splits prod.splits)
  with Some st assms(1) read_packed_verified [of L be loc w d w1] show ?thesis
    by (auto simp: index_ok_def)
next
  case None
  obtain ls w1 where l: "try_loose L be h w = (ls, w1)" by (cases "try_loose L be h w")
  show ?thesis
  proof (cases ls)
    case (Some x)
    with assms None l show ?thesis
      by (auto simp: GetBlob_def index_ok_standalone update_conv')
  next
    case n: None
    obtain rr st1 b1 where R: "RefreshIndexes be st (backend w1) = (rr, st1, b1)" by (cases "RefreshIndexes be st (backend w1)")
    from index_ok_RefreshIndexes [OF R assms(1)] have ok: "index_ok st1" .
    from assms(2) None l n R obtain loc where loc: "st' = st1" "map_of (shaToLocation st1) h = Some loc"
      "read_packed L be loc (w1\<lparr>backend := b1\<rparr>) = (Inr d, w')"
      by (auto simp: GetBlob_def split: sum.splits error.splits option.splits prod.splits)
    with ok read_packed_verified [OF loc(3)] show ?thesis by (auto simp: index_ok_def)
  qed
qed

theorem get_blob_verified_witness:
  "\<exists>(st :: Store) w d st' w' loc. index_ok st \<and> GetBlob demo_lib (mem_backend demo_lib) (sha_hex 1) st w = (Inr d, st', w') \<and>
     map_of (shaToLocation st') (sha_hex 1) = Some loc \<and> \<not> IsStandalone loc \<and> sha_hex (Sum256 demo_lib d) = sha_hex 1"
proof -
  let ?e = "\<lparr>SHA256 = 1, DataOffset = 1, StoredLength = 1, FinalLength = 1, Encoding = EncodingRaw\<rparr>"
  let ?loc = "\<lparr>IsStandalone = False, PackKey = ''k'', PackVersion = VersionV2, Entry = ?e\<rparr>"
  let ?st = "NewStore 0\<lparr>shaToLocation := [(sha_hex 1, ?loc)]\<rparr>"
  let ?w = "\<lparr>backend = \<lparr>objects = [(''k'', \<lparr>mdata = [0, 1], modTime = 0\<rparr>)], now = 0\<rparr>, disk = demo_disk,
     packs = (\<lambda>_. \<lparr>pfile = None, pslots = 0, poffset = 0, psealed = False, pentries = []\<rparr>), fullCount = 0\<rparr>"
  have i: "index_ok ?st" by (simp add: index_ok_def)
  have g: "\<exists>w'. GetBlob demo_lib (mem_backend demo_lib) (sha_hex 1) ?st ?w = (Inr [1], ?st, w')"
    by (simp add: GetBlob_def get_known_def read_local_def NewStore_def read_packed_def mem_backend_def mem_GetObject_def
       StorageKey_def versions_distinct decodePayloadToByteStream_def Let_def payload_reader_def EncodingRaw_def
       EncodingCompressed_def MemoryThreshold_def slice_def ReadFull_def verify_sha_def computeStreamSHA256_def
       demo_lib_def be_val_def)
  from g obtain w' where g: "GetBlob demo_lib (mem_backend demo_lib) (sha_hex 1) ?st ?w = (Inr [1], ?st, w')" by blast
  have "sha_hex (Sum256 demo_lib [1]) = sha_hex 1"
    using get_blob_verified [OF i g] by (auto simp: NewStore_def versions_distinct)
  moreover have "map_of (shaToLocation ?st) (sha_hex 1) = Some ?loc \<and> \<not> IsStandalone ?loc" by simp
  ultimately show ?thesis using i g by blast
qed

subsection \<open>Digests in keys\<close>

lemma of_hex_digit: "n < 16 \<Longrightarrow> (of_char (hex_digit n) :: nat) = (if n < 10 then 48 + n else 87 + n)"
  by (simp add: hex_digit_def)

lemma hex_digit_inj:
  assumes "a < 16" "b < 16"
  shows "hex_digit a = hex_digit b \<longleftrightarrow> a = b"
proof
  assume "hex_digit a = hex_digit b"
  then have "(if a < 10 then 48 + a else 87 + a) = (if b < 10 then 48 + b else 87 + b)"
    by (simp only: of_hex_digit [OF assms(1), symmetric] of_hex_digit [OF assms(2), symmetric])
  then show "a = b" by (auto split: if_splits)
qed simp

lemma hex_inj: "hex xs = hex ys \<longleftrightarrow> xs = ys"
proof (induction xs ys rule: list_induct2')
  case (4 x xs y ys)
  have d: "unat x div 16 < 16" "unat y div 16 < 16"
    using unat_byte_less [of x] unat_byte_less [of y] by (simp_all add: div_less_iff_less_mult)
  have "unat x div 16 = unat y div 16 \<and> unat x mod 16 = unat y mod 16 \<longleftrightarrow> x = y"
    by (metis mult_div_mod_eq word_unat_eq_iff)
  with 4 d show ?case by (auto simp: hex_def hex_digit_inj)
qed (simp_all add: hex_def)

lemma sha_hex_inj [simp]: "sha_hex a = sha_hex b \<longleftrightarrow> a = b"
  by (simp add: sha_hex_def hex_inj PutUint_inject)

lemma length_sha_hex [simp]: "length (sha_hex h) = 64"
  by (simp add: sha_hex_def hex_def length_concat_same [where k = 2])

lemma blobKey_not_packKey: "blobKey (sha_hex a) \<noteq> packKey (sha_hex b) n"
proof
  assume "blobKey (sha_hex a) = packKey (sha_hex b) n"
  then have "length (blobKey (sha_hex a)) = length (packKey (sha_hex b) n)" by simp
  then show False by (simp add: blobKey_def packKey_def)
qed

lemma blobKey_inj [simp]: "blobKey (sha_hex a) = blobKey (sha_hex b) \<longleftrightarrow> a = b"
  by (simp add: blobKey_def)

lemma StorageKey_empty [simp]: "StorageKey [] k = k"
  by (simp add: StorageKey_def)

definition batch_ok :: "lib \<Rightarrow> bytes list \<Rightarrow> bool" where
  \<comment> \<open>no two different blobs have the same hash, and together they fit below 4 GiB\<close>
  "batch_ok L ds \<longleftrightarrow> zlib_ok L \<and> inj_on (Sum256 L) (set ds) \<and>
     32 + pack_slots ds * 48 + (\<Sum>d\<leftarrow>ds. 16 + length d) < 2 ^ 32"

lemma sum_stream_le:
  "list_all2 (encodes L) sds small \<Longrightarrow> (\<Sum>b\<leftarrow>small. 16 + length (ebStream b)) \<le> (\<Sum>d\<leftarrow>sds. 16 + length d)"
  by (induction rule: list_all2_induct) (auto dest: encodes_length)

lemma batch_ok_small:
  assumes "batch_ok L ds" "list_all2 (encodes L) (filter P ds) small"
  shows "\<forall>d\<in>set (filter P ds). length d < 2 ^ 32"
    "32 + pack_slots small * 48 + (\<Sum>b\<leftarrow>small. 16 + length (ebStream b)) < 2 ^ 32"
proof -
  have sz: "32 + pack_slots ds * 48 + (\<Sum>d\<leftarrow>ds. 16 + length d) < 2 ^ 32" using assms(1) by (simp add: batch_ok_def)
  have "length x < 2 ^ 32" if "x \<in> set ds" for x
    using sz member_le_sum_list [of "16 + length x" "map (\<lambda>d. 16 + length d) ds"] that by auto
  then show "\<forall>d\<in>set (filter P ds). length d < 2 ^ 32" by auto
  have "length small \<le> length ds"
    using list_all2_lengthD [OF assms(2)] length_filter_le [of P ds] by simp
  then have "pack_slots small \<le> pack_slots ds" by (simp add: pack_slots_def max.coboundedI2)
  moreover have "(\<Sum>d\<leftarrow>filter P ds. 16 + length d) \<le> (\<Sum>d\<leftarrow>ds. 16 + length d)"
    by (induction ds) auto
  ultimately show "32 + pack_slots small * 48 + (\<Sum>b\<leftarrow>small. 16 + length (ebStream b)) < 2 ^ 32"
    using sz sum_stream_le [OF assms(2)] by linarith
qed

subsection \<open>Reading what a location describes\<close>

definition loc_data :: "lib \<Rightarrow> (string \<Rightarrow> bytes option) \<Rightarrow> string \<Rightarrow> BlobLocation \<Rightarrow> bytes \<Rightarrow> bool" where
  "loc_data L ob h loc d \<longleftrightarrow>
     (if IsStandalone loc then \<exists>b. encodes L d b \<and> length d < 2 ^ 63 \<and> ob (blobKey h) = Some (EncodeLooseBlob b)
      else PackVersion loc = VersionV2 \<and> StoredLength (Entry loc) \<noteq> 0 \<and>
        (\<exists>data lo hi. ob (PackKey loc) = Some data \<and> entry_ok L lo hi data (Entry loc) \<and> hi \<le> length data \<and>
           entry_reader L data (Entry loc) = Inr (Inr d)))"

locale blob_backend = object_backend +
  assumes blob_key: "ok_key (blobKey (sha_hex h))" and pack_key: "ok_key (packKey (sha_hex h) n)"
begin

lemma read_packed_ok:
  assumes "loc_data L (objs (backend w)) h loc d" "\<not> IsStandalone loc" "ok_key (PackKey loc)"
    and "read_packed L be loc w = (r, w')"
  shows "case r of Inr x \<Rightarrow> x = d | Inl e \<Rightarrow> \<not> (healthy (backend w) \<and> faults (disk w) = [])"
proof -
  let ?e = "Entry loc"
  let ?off = "unat (DataOffset ?e)" and ?len = "unat (StoredLength ?e)"
  from assms(1,2) obtain data lo hi where l: "PackVersion loc = VersionV2" "StoredLength ?e \<noteq> 0" "objs (backend w) (PackKey loc) = Some data"
    "entry_ok L lo hi data ?e" "hi \<le> length data" "entry_reader L data ?e = Inr (Inr d)" by (auto simp: loc_data_def)
  then have e: "?off + ?len \<le> length data" "unat (FinalLength ?e) = length d" "SHA256 ?e = Sum256 L d" "0 < ?len"
    by (auto simp: entry_ok_def unat_gt_0)
  obtain g b where G: "GetObject be [] (PackKey loc) (uint (DataOffset ?e)) (uint (StoredLength ?e)) (backend w) = (g, b)"
    by (cases "GetObject be [] (PackKey loc) (uint (DataOffset ?e)) (uint (StoredLength ?e)) (backend w)")
  note get' = get [of "[]" "PackKey loc", OF _ _ G]
  have rng: "range_of data (uint (DataOffset ?e)) (uint (StoredLength ?e)) = slice data ?off (?off + ?len)"
    using l(2) by (simp add: range_of_def slice_def unat_eq_nat_uint [symmetric] uint_0_iff)
  show ?thesis
  proof (cases g)
    case (Inl z)
    have "r = Inl z" using assms(4) unfolding read_packed_def G Inl by simp
    with get' Inl l(3) assms(3) show ?thesis by auto
  next
    case (Inr buf)
    with get' l(3) assms(3) rng have buf: "buf = slice data ?off (?off + ?len)" by simp
    have p: "payload_reader L buf (Encoding ?e) = Inr (Inr d)" using l(6) by (simp add: buf entry_reader_def)
    have fl: "uint (FinalLength ?e) = int (length d)" using e(2) by (metis uint_nat)
    obtain rd t where D: "decodePayloadToByteStream L buf (Encoding ?e) (int (length d)) (disk w) = (rd, t)"
      by (cases "decodePayloadToByteStream L buf (Encoding ?e) (int (length d)) (disk w)")
    have "length buf = ?len" using e(1) by (simp add: buf)
    then have "r = (case rd of Inl e \<Rightarrow> Inl e | Inr x \<Rightarrow> verify_sha L ?e x)"
      using assms(4) G Inr l(1) D fl by (auto simp: read_packed_def Let_def versions_distinct split: sum.splits)
    with decodePayload_io [OF p, of "disk w"] decodePayload_InrD [of L buf "Encoding ?e" "int (length d)" "disk w"] D p e(3)
    show ?thesis by (auto simp: io_ok_def verify_sha_def computeStreamSHA256_def split: sum.splits)
  qed
qed

lemma read_standalone_ok:
  assumes "loc_data L (objs (backend w)) (sha_hex h) loc d" "IsStandalone loc"
    and "GetObject be [] (blobKey (sha_hex h)) 0 0 (backend w) = (g, b)"
  shows "case g of
      Inl e \<Rightarrow> \<not> healthy (backend w)
    | Inr buf \<Rightarrow> (case read_loose L buf (w\<lparr>backend := b\<rparr>) of (r, _) \<Rightarrow> case r of Inr x \<Rightarrow> x = d | Inl e \<Rightarrow> faults (disk w) \<noteq> [])"
proof -
  from assms(1,2) obtain eb where eb: "encodes L d eb" "length d < 2 ^ 63"
    "objs (backend w) (blobKey (sha_hex h)) = Some (EncodeLooseBlob eb)" by (auto simp: loc_data_def)
  note get' = get [of "[]" "blobKey (sha_hex h)", OF _ _ assms(3)]
  show ?thesis
  proof (cases g)
    case (Inl z)
    with get' eb(3) blob_key show ?thesis by auto
  next
    case (Inr buf)
    with get' eb(3) blob_key have "buf = EncodeLooseBlob eb" by simp
    with Inr decodePayload_result [OF eb(1), of "disk w"] show ?thesis
      by (cases "decodePayloadToByteStream L (ebStream eb) (ebEncoding eb) (int (length d)) (disk w)")
        (auto simp: read_loose_def DecodeLooseBlob_Encode [OF eb(1,2)] split: sum.splits)
  qed
qed

lemma GetBlob_ok:
  assumes "map_of (shaToLocation st) (sha_hex h) = Some loc" "loc_data L (objs (backend w)) (sha_hex h) loc d"
    and "\<not> IsStandalone loc \<Longrightarrow> ok_key (PackKey loc)" "map_of (localPacks st) (PackKey loc) = None"
    and "GetBlob L be (sha_hex h) st w = (r, st', w')"
  shows "case r of Inr x \<Rightarrow> x = d | Inl e \<Rightarrow> \<not> (healthy (backend w) \<and> faults (disk w) = [])"
proof -
  have rl: "read_local L loc st w = (None, w)" using assms(4) by (simp add: read_local_def)
  show ?thesis
  proof (cases "IsStandalone loc")
    case True
    obtain g b where G: "GetObject be [] (blobKey (sha_hex h)) 0 0 (backend w) = (g, b)"
      by (cases "GetObject be [] (blobKey (sha_hex h)) 0 0 (backend w)")
    from read_standalone_ok [OF assms(2) True G] assms(1,5) True G rl show ?thesis
      by (auto simp: GetBlob_def get_known_def split: sum.splits prod.splits)
  next
    case False
    obtain r1 w1 where R: "read_packed L be loc w = (r1, w1)" by (cases "read_packed L be loc w")
    from read_packed_ok [OF assms(2) False assms(3) R] assms(1,5) False R rl show ?thesis
      by (auto simp: GetBlob_def get_known_def)
  qed
qed

end

subsection \<open>Writing a batch\<close>

definition sha_of :: "lib \<Rightarrow> bytes \<Rightarrow> string" where
  "sha_of L d = sha_hex (Sum256 L d)"

definition loose_ok :: "lib \<Rightarrow> (string \<Rightarrow> bytes option) \<Rightarrow> Store \<Rightarrow> bytes set \<Rightarrow> bool" where
  "loose_ok L ob st D \<longleftrightarrow>
     (\<forall>d\<in>D. map_of (shaToLocation st) (sha_of L d) = Some standalone \<and>
        (\<exists>b. encodes L d b \<and> ob (blobKey (sha_of L d)) = Some (EncodeLooseBlob b)))"

lemma packed_location:
  assumes ok: "pack_ok L p t" and f: "pfile p = Some f" and v: "pack_view L p t (Sum256 L d) = Some d" and ne: "d \<noteq> []" and z: "zlib_ok L"
    and ob: "ob key = Some (file_data f t)"
  shows "\<exists>e. map_of (shaToLocation (index_pack key VersionV2 (pentries p) st)) (sha_of L d) =
      Some \<lparr>IsStandalone = False, PackKey = key, PackVersion = VersionV2, Entry = e\<rparr> \<and>
    loc_data L ob (sha_of L d) \<lparr>IsStandalone = False, PackKey = key, PackVersion = VersionV2, Entry = e\<rparr> d"
proof -
  from ok f obtain x where x: "get_file f t = Some x" "pack_data_ok L p (fdata x)" "pack_view L p t = data_view L (pentries p) (fdata x)"
    by (auto elim: pack_okE)
  have fd: "file_data f t = fdata x" using x(1) by (simp add: file_data_def)
  from data_view_SomeD [OF x(2)] v x(3) obtain e where e: "lookup_entry (pentries p) (Sum256 L d) = Some e"
    "entry_reader L (fdata x) e = Inr (Inr d)" by metis
  note m = lookup_entry_Some [OF e(1)]
  have dist: "distinct (map SHA256 (pentries p))" and en: "entry_ok L (table_end (pslots p)) (poffset p) (fdata x) e"
    and len: "poffset p \<le> length (fdata x)"
    using x(2) m by (auto simp: pack_data_ok_def list_all_iff)
  have "find (\<lambda>e. sha_hex (SHA256 e) = sha_of L d) (rev (pentries p)) = Some e"
  proof -
    have u: "e' = e" if "e' \<in> set (pentries p)" "sha_hex (SHA256 e') = sha_of L d" for e'
      using that m dist by (auto simp: sha_of_def distinct_map inj_on_def)
    obtain e' where e': "find (\<lambda>e. sha_hex (SHA256 e) = sha_of L d) (rev (pentries p)) = Some e'"
      using m by (cases "find (\<lambda>e. sha_hex (SHA256 e) = sha_of L d) (rev (pentries p))") (auto simp: find_None_iff sha_of_def)
    from find_Some_iff [THEN iffD1, OF this] obtain i where "i < length (rev (pentries p))"
      "sha_hex (SHA256 e') = sha_of L d" "e' = rev (pentries p) ! i" by blast
    then have "e' = e" using u nth_mem [of i "rev (pentries p)"] by auto
    with e' show ?thesis by simp
  qed
  moreover have "StoredLength e \<noteq> 0"
  proof
    assume "StoredLength e = 0"
    then have "payload_reader L [] (Encoding e) = Inr (Inr d)" using e(2) by (simp add: entry_reader_def slice_def)
    with ne z show False by (auto simp: payload_reader_def zlib_ok_def split: if_splits)
  qed
  ultimately show ?thesis
    using e(2) en len ob by (auto simp: index_pack_location loc_data_def fd)
qed

lemma put_small_cases:
  assumes "put_small L be small st w = (Inr u, st', w')"
  obtains id and t :: TempFile and d1 full d2 and pf :: PackFile and d3 e b where "\<exists>x. get_file (tpath t) d1 = Some x \<and> fdata x = []"
    "WritePackfile (tpath t) small (fullCount w) d1 = (Inr pf, full, d2)" "same_files d2 d3"
    "PutObject be [] (packKey (sha_hex id) (length small)) (file_data (tpath t) d3) (backend w) = (Inr e, b)"
    "st' = index_pack (packKey (sha_hex id) (length small)) (pfVersion pf) (pfEntries pf) st" "backend w' = b"
proof -
  obtain nano d0 where T: "time_Now (disk w) = (nano, d0)" by (cases "time_Now (disk w)")
  define id where "id = Sum256 L (string_bytes (''pack-'' @ dec (length small) @ ''-'' @ dec nano))"
  obtain rt d1 where C: "tempfile_Create ''/tmp'' ''objectfs-pack-write-'' d0 = (rt, d1)"
    by (cases "tempfile_Create ''/tmp'' ''objectfs-pack-write-'' d0")
  note e = assms [unfolded put_small_def T prod.case Let_def id_def [symmetric] C]
  from e obtain t where t: "rt = Inr t" by (cases rt) auto
  obtain rw full d2 where W: "WritePackfile (tpath t) small (fullCount w) d1 = (rw, full, d2)"
    by (cases "WritePackfile (tpath t) small (fullCount w) d1")
  from e obtain pf where pf: "rw = Inr pf" by (cases rw) (auto simp: t W)
  obtain ro d3 where O3: "andThen (os_op d2) (\<lambda>_ d. os_op d) = (ro, d3)" by (cases "andThen (os_op d2) (\<lambda>_ d. os_op d)")
  have "io_ok d2 (ro, d3)" unfolding O3 [symmetric] by (intro io_ok_andThen) simp_all
  then have sf: "same_files d2 d3" by (simp add: io_ok_def)
  from e obtain u' where u': "ro = Inr u'" by (cases ro) (auto simp: t W pf O3)
  let ?k = "packKey (sha_hex id) (length small)"
  obtain rp b where P: "PutObject be [] ?k (file_data (tpath t) d3) (backend w) = (rp, b)"
    by (cases "PutObject be [] ?k (file_data (tpath t) d3) (backend w)")
  from e obtain z where z: "rp = Inr z" by (cases rp) (auto simp: t W pf O3 u' P)
  obtain c t' d4 where X: "TempFile_Close t d3 = (c, t', d4)" by (cases "TempFile_Close t d3")
  from e have c: "c = None" by (cases c) (auto simp: t W pf O3 u' P z X)
  from e have "st' = index_pack ?k (pfVersion pf) (pfEntries pf) st" "backend w' = b" by (auto simp: t W pf O3 u' P z X c)
  with temp_path_create [OF C [unfolded t]] W pf sf P z show ?thesis
    by (intro that [of t d1 pf full d2 d3 id z b]) auto
qed

context blob_backend
begin

lemma put_loose_ok:
  assumes "encodes L d b" "put_loose be d b st w = (Inr u, st', w')" "loose_ok L (objs (backend w)) st D"
    and "inj_on (Sum256 L) (insert d D)"
  shows "loose_ok L (objs (backend w')) st' (insert d D) \<and> localPacks st' = localPacks st \<and> largeThreshold st' = largeThreshold st"
proof -
  have sha: "sha_hex (ebSHA256 b) = sha_of L d" using assms(1) by (simp add: encodes_def sha_of_def)
  from assms(2) obtain e b1 where P: "PutObject be [] (blobKey (sha_of L d)) (EncodeLooseBlob b) (backend w) = (Inr e, b1)"
    and st: "st' = st\<lparr>shaToLocation := AList.update (sha_of L d) standalone (shaToLocation st)\<rparr>" and w: "backend w' = b1"
    by (auto simp: put_loose_def Let_def sha split: prod.splits sum.splits option.splits)
  from put [OF _ P] blob_key have o: "objs b1 = (objs (backend w))(blobKey (sha_of L d) \<mapsto> EncodeLooseBlob b)"
    by (simp add: sha_of_def)
  have "loose_ok L (objs b1) st' (insert d D)"
    unfolding loose_ok_def
  proof (intro ballI)
    fix x assume x: "x \<in> insert d D"
    show "map_of (shaToLocation st') (sha_of L x) = Some standalone \<and>
        (\<exists>b. encodes L x b \<and> objs b1 (blobKey (sha_of L x)) = Some (EncodeLooseBlob b))"
    proof (cases "x = d")
      case True
      then show ?thesis using assms(1) by (auto simp: st o update_conv')
    next
      case False
      with x assms(4) have "Sum256 L x \<noteq> Sum256 L d" by (auto simp: inj_on_def)
      then have "sha_of L x \<noteq> sha_of L d" "blobKey (sha_of L x) \<noteq> blobKey (sha_of L d)" by (simp_all add: sha_of_def)
      with x False assms(3) show ?thesis by (auto simp: st o loose_ok_def update_conv')
    qed
  qed
  then show ?thesis by (simp add: st w)
qed

lemma put_loop_ok:
  assumes "zlib_ok L" "put_loop L be ds small st w = (Inr small', st', w')" "loose_ok L (objs (backend w)) st D"
    and "inj_on (Sum256 L) (D \<union> set ds)" "list_all2 (encodes L) sds small"
  shows "list_all2 (encodes L) (sds @ filter (\<lambda>d. \<not> largeThreshold st < length d) ds) small' \<and>
    loose_ok L (objs (backend w')) st' (D \<union> {d \<in> set ds. largeThreshold st < length d}) \<and>
    localPacks st' = localPacks st"
  using assms(2-)
proof (induction ds arbitrary: small st w D sds)
  case (Cons d ds)
  obtain r0 t where E: "EncodeBlob L d True (disk w) = (r0, t)" by (cases "EncodeBlob L d True (disk w)")
  with Cons.prems(1) obtain b where r0: "r0 = Inr b" by (cases r0) auto
  have enc: "encodes L d b" using EncodeBlob_ok [OF assms(1)] E r0 by simp
  show ?case
  proof (cases "largeThreshold st < length d")
    case True
    with Cons.prems(1) E r0 obtain u st1 w1 where P: "put_loose be d b st (w\<lparr>disk := t\<rparr>) = (Inr u, st1, w1)"
      and L: "put_loop L be ds small st1 w1 = (Inr small', st', w')"
      by (auto split: prod.splits sum.splits)
    have "inj_on (Sum256 L) (insert d D)" using Cons.prems(3) by (rule inj_on_subset) auto
    from put_loose_ok [OF enc P _ this] Cons.prems(2)
    have 1: "loose_ok L (objs (backend w1)) st1 (insert d D)" "localPacks st1 = localPacks st" "largeThreshold st1 = largeThreshold st"
      by simp_all
    have "inj_on (Sum256 L) (insert d D \<union> set ds)" using Cons.prems(3) by simp
    note IH = Cons.IH [OF L 1(1) this Cons.prems(4), unfolded 1(2,3)]
    moreover have "D \<union> {x \<in> set (d # ds). largeThreshold st < length x} = insert d D \<union> {x \<in> set ds. largeThreshold st < length x}"
      using True by auto
    moreover have "filter (\<lambda>d. \<not> largeThreshold st < length d) (d # ds) = filter (\<lambda>d. \<not> largeThreshold st < length d) ds"
      using True by simp
    ultimately show ?thesis by (simp only:)
  next
    case False
    with Cons.prems(1) E r0 have L: "put_loop L be ds (small @ [b]) st (w\<lparr>disk := t\<rparr>) = (Inr small', st', w')" by simp
    have "inj_on (Sum256 L) (D \<union> set ds)" using Cons.prems(3) by (rule inj_on_subset) auto
    moreover have "list_all2 (encodes L) (sds @ [d]) (small @ [b])" using Cons.prems(4) enc by (simp add: list_all2_appendI)
    moreover have "loose_ok L (objs (backend (w\<lparr>disk := t\<rparr>))) st D" using Cons.prems(2) by simp
    ultimately have IH: "list_all2 (encodes L) ((sds @ [d]) @ filter (\<lambda>d. \<not> largeThreshold st < length d) ds) small'"
      "loose_ok L (objs (backend w')) st' (D \<union> {d \<in> set ds. largeThreshold st < length d})" "localPacks st' = localPacks st"
      using Cons.IH [OF L] by blast+
    moreover have "D \<union> {x \<in> set (d # ds). largeThreshold st < length x} = D \<union> {x \<in> set ds. largeThreshold st < length x}"
      using False by auto
    ultimately show ?thesis using False by simp
  qed
qed auto

lemma put_small_ok:
  assumes z: "zlib_ok L" and P: "put_small L be small st w = (Inr u, st', w')" and enc: "list_all2 (encodes L) sds small" and ne: "small \<noteq> []"
    and sz: "\<forall>d\<in>set sds. length d < 2 ^ 32" "32 + pack_slots small * 48 + (\<Sum>b\<leftarrow>small. 16 + length (ebStream b)) < 2 ^ 32"
    and D: "loose_ok L (objs (backend w)) st D" and inj: "inj_on (Sum256 L) (D \<union> set sds)" "D \<inter> set sds = {}"
  shows "loose_ok L (objs (backend w')) st' D \<and> localPacks st' = localPacks st \<and>
    (\<forall>d\<in>set sds. d \<noteq> [] \<longrightarrow> (\<exists>loc. map_of (shaToLocation st') (sha_of L d) = Some loc \<and> \<not> IsStandalone loc \<and>
       ok_key (PackKey loc) \<and> loc_data L (objs (backend w')) (sha_of L d) loc d))"
  using P
proof (cases rule: put_small_cases)
  case (1 id t d1 full d2 pf d3 e b)
  then obtain x where x: "get_file (tpath t) d1 = Some x" "fdata x = []" by blast
  let ?k = "packKey (sha_hex id) (length small)"
  from WritePackfile_ok [OF enc ne sz x 1(2)] obtain p where p: "pack_ok L p d2" "pfile p = Some (tpath t)"
    "pf = \<lparr>pfVersion = VersionV2, pfSlots = pslots p, pfFlags = PackFlagSealed, pfEntries = pentries p\<rparr>"
    "pack_view L p d2 = views L sds Map.empty" by auto
  have p3: "pack_ok L p d3" "pack_view L p d3 = views L sds Map.empty"
    using pack_ok_same_files [OF 1(3), of L p] p(1,4) by simp_all
  from put [OF _ 1(4)] pack_key have o: "objs b = (objs (backend w))(?k \<mapsto> file_data (tpath t) d3)" by simp
  have st: "st' = index_pack ?k VersionV2 (pentries p) st" using 1(5) p(3) by simp
  have small: "\<exists>loc. map_of (shaToLocation st') (sha_of L d) = Some loc \<and> \<not> IsStandalone loc \<and>
       ok_key (PackKey loc) \<and> loc_data L (objs (backend w')) (sha_of L d) loc d" if d: "d \<in> set sds" "d \<noteq> []" for d
  proof -
    have "\<forall>a\<in>set sds. \<forall>b\<in>set sds. Sum256 L a = Sum256 L b \<longrightarrow> a = b" using inj(1) by (auto simp: inj_on_def)
    from views_same [OF this d(1)] p3(2) have "pack_view L p d3 (Sum256 L d) = Some d" by simp
    from packed_location [OF p3(1) p(2) this d(2) z, of "objs b" ?k st] show ?thesis
      unfolding st 1(6) by (auto simp: o pack_key)
  qed
  have "map_of (shaToLocation st') (sha_of L d) = Some standalone \<and>
      (\<exists>b'. encodes L d b' \<and> objs b (blobKey (sha_of L d)) = Some (EncodeLooseBlob b'))" if d: "d \<in> D" for d
  proof -
    have "find (\<lambda>e. sha_hex (SHA256 e) = sha_of L d) (rev (pentries p)) = None"
    proof (rule ccontr)
      assume "find (\<lambda>e. sha_hex (SHA256 e) = sha_of L d) (rev (pentries p)) \<noteq> None"
      then obtain e where "e \<in> set (pentries p)" "SHA256 e = Sum256 L d"
        by (auto simp: find_None_iff sha_of_def)
      then have "Sum256 L d \<in> SHA256 ` set (pentries p)" by (metis imageI)
      then have "lookupLocked p (Sum256 L d) \<noteq> None" by (simp add: lookupLocked_def lookup_entry_None)
      then obtain y where "views L sds Map.empty (Sum256 L d) = Some y"
        using lookup_view_dom [OF p3(1), of "Sum256 L d"] p3(2) by auto
      from views_mem [OF this] have "y \<in> set sds" "Sum256 L y = Sum256 L d" by auto
      with inj d have "y = d" by (auto simp: inj_on_def)
      with \<open>y \<in> set sds\<close> d inj(2) show False by auto
    qed
    moreover have "blobKey (sha_of L d) \<noteq> ?k" unfolding sha_of_def by (rule blobKey_not_packKey)
    ultimately show ?thesis
      using D d by (simp add: st index_pack_location o loose_ok_def)
  qed
  then have "loose_ok L (objs (backend w')) st' D" unfolding loose_ok_def 1(6) by blast
  moreover have "localPacks st' = localPacks st" by (simp add: st index_pack_def)
  ultimately show ?thesis using small by blast
qed

lemma put_loop_clean:
  assumes "healthy (backend w)" "faults (disk w) = []"
  shows "\<exists>small' st' w'. put_loop L be ds small st w = (Inr small', st', w') \<and> healthy (backend w') \<and> faults (disk w') = []"
  using assms
proof (induction ds arbitrary: small st w)
  case (Cons d ds)
  from EncodeBlob_clean [OF Cons.prems(2)] obtain b where E: "EncodeBlob L d True (disk w) = (Inr b, disk w)" by blast
  let ?w = "w\<lparr>disk := disk w\<rparr>"
  have "\<exists>st1 w1. put_loose be d b st ?w = (Inr (), st1, w1) \<and> healthy (backend w1) \<and> faults (disk w1) = []"
  proof -
    let ?k = "blobKey (sha_hex (ebSHA256 b))"
    obtain r b1 where P: "PutObject be [] ?k (EncodeLooseBlob b) (backend w) = (r, b1)"
      by (cases "PutObject be [] ?k (EncodeLooseBlob b) (backend w)")
    with put [OF _ P] blob_key Cons.prems(1) obtain e where "r = Inr e" "healthy b1" by auto
    with P Cons.prems(2) close_blob_io [of "disk w" "is_temp d b"] show ?thesis
      by (simp add: put_loose_def Let_def)
  qed
  with E Cons show ?case by fastforce
qed simp

lemma put_small_clean:
  assumes enc: "list_all2 (encodes L) sds small" and ne: "small \<noteq> []" and sz: "\<forall>d\<in>set sds. length d < 2 ^ 32"
      "32 + pack_slots small * 48 + (\<Sum>b\<leftarrow>small. 16 + length (ebStream b)) < 2 ^ 32"
    and h: "healthy (backend w)" "faults (disk w) = []"
  shows "\<exists>st' w'. put_small L be small st w = (Inr (), st', w') \<and> healthy (backend w') \<and> faults (disk w') = []"
proof -
  obtain nano d0 where T: "time_Now (disk w) = (nano, d0)" "faults d0 = []" using h(2) by (auto simp: time_Now_def)
  obtain t d1 where C: "tempfile_Create ''/tmp'' ''objectfs-pack-write-'' d0 = (Inr t, d1)" "faults d1 = []"
    using T(2) by (auto simp: tempfile_Create_def os_Create_def Let_def)
  from temp_path_create [OF C(1)] obtain x where x: "get_file (tpath t) d1 = Some x" "fdata x = []" and t: "\<not> renamed t" "\<not> closed t" by blast
  obtain rw full d2 where W: "WritePackfile (tpath t) small (fullCount w) d1 = (rw, full, d2)"
    by (cases "WritePackfile (tpath t) small (fullCount w) d1")
  from WritePackfile_ok [OF enc ne sz x W] C(2) obtain pf p where pf: "rw = Inr pf" "pack_ok L p d2" "pfile p = Some (tpath t)" "faults d2 = []"
    by (cases rw) auto
  from pf(2,3) obtain y where y: "get_file (tpath t) d2 = Some y" by (auto elim: pack_okE)
  define id where "id = Sum256 L (string_bytes (''pack-'' @ dec (length small) @ ''-'' @ dec nano))"
  let ?k = "packKey (sha_hex id) (length small)"
  obtain r b where P: "PutObject be [] ?k (file_data (tpath t) d2) (backend w) = (r, b)"
    by (cases "PutObject be [] ?k (file_data (tpath t) d2) (backend w)")
  with put [OF _ P] pack_key h(1) obtain e where e: "r = Inr e" "healthy b" by auto
  have X: "TempFile_Close t d2 = (None, t\<lparr>closed := True\<rparr>, del_file (tpath t) d2)"
    using t y pf(4) by (simp add: TempFile_Close_def file_Close_def os_Remove_def map_filter_simps)
  show ?thesis
    unfolding put_small_def T(1) prod.case Let_def id_def [symmetric] C(1)
    using W pf(1,4) P e X by (simp add: os_op_clean)
qed

lemma put_get_blobs:
  assumes B: "batch_ok L ds" and lp: "localPacks st = []" and P: "PutBlobs L be ds st w = (Inr u, st', w')"
    and d: "d \<in> set ds" and ne: "d \<noteq> []" and G: "GetBlob L be (sha_of L d) st' w' = (r, st2, w2)"
  shows "case r of Inr x \<Rightarrow> x = d | Inl e \<Rightarrow> \<not> (healthy (backend w') \<and> faults (disk w') = [])"
proof -
  from B have z: "zlib_ok L" and inj: "inj_on (Sum256 L) (set ds)" by (simp_all add: batch_ok_def)
  from d have dne: "ds \<noteq> []" by auto
  obtain r1 st1 w1 where PL: "put_loop L be ds [] st w = (r1, st1, w1)" by (cases "put_loop L be ds [] st w")
  with P dne obtain small where r1: "r1 = Inr small" by (cases r1) (auto simp: PutBlobs_def)
  let ?large = "{d \<in> set ds. largeThreshold st < length d}"
  let ?small = "filter (\<lambda>d. \<not> largeThreshold st < length d) ds"
  from put_loop_ok [OF z PL [unfolded r1], of "{}" "[]"] inj
  have l: "list_all2 (encodes L) ?small small" "loose_ok L (objs (backend w1)) st1 ?large" "localPacks st1 = []"
    by (simp_all add: loose_ok_def lp)
  have "loose_ok L (objs (backend w')) st' ?large \<and> localPacks st' = [] \<and>
      (\<forall>d\<in>set ?small. d \<noteq> [] \<longrightarrow> (\<exists>loc. map_of (shaToLocation st') (sha_of L d) = Some loc \<and> \<not> IsStandalone loc \<and>
       ok_key (PackKey loc) \<and> loc_data L (objs (backend w')) (sha_of L d) loc d))"
  proof (cases "small = []")
    case True
    with P PL r1 dne have "st' = st1" "w' = w1" by (auto simp: PutBlobs_def)
    moreover have "?small = []" using l(1) True by simp
    ultimately show ?thesis using l(2,3) by (simp del: filter_empty_conv filter.simps)
  next
    case False
    with P PL r1 dne have PS: "put_small L be small st1 w1 = (Inr u, st', w')" by (auto simp: PutBlobs_def)
    have "inj_on (Sum256 L) (?large \<union> set ?small)" using inj by (rule inj_on_subset) auto
    moreover have "?large \<inter> set ?small = {}" by auto
    ultimately show ?thesis
      using put_small_ok [OF z PS l(1) False batch_ok_small [OF B l(1)] l(2)] l(3) by simp
  qed
  then have lo: "loose_ok L (objs (backend w')) st' ?large" and lp': "localPacks st' = []"
    and sm: "\<And>d. d \<in> set ?small \<Longrightarrow> d \<noteq> [] \<Longrightarrow> \<exists>loc. map_of (shaToLocation st') (sha_of L d) = Some loc \<and> \<not> IsStandalone loc \<and>
       ok_key (PackKey loc) \<and> loc_data L (objs (backend w')) (sha_of L d) loc d" by blast+
  have "length d < 2 ^ 63"
    using B member_le_sum_list [of "16 + length d" "map (\<lambda>d. 16 + length d) ds"] d by (auto simp: batch_ok_def)
  with lo d sm [of d] ne obtain loc where "map_of (shaToLocation st') (sha_of L d) = Some loc"
    "\<not> IsStandalone loc \<longrightarrow> ok_key (PackKey loc)" "loc_data L (objs (backend w')) (sha_of L d) loc d"
    by (cases "largeThreshold st < length d") (auto simp: loose_ok_def loc_data_def)
  with GetBlob_ok [of st' "Sum256 L d" loc L w' d r st2 w2] G lp' show ?thesis by (simp add: sha_of_def)
qed

lemma put_blobs_clean:
  assumes B: "batch_ok L ds" and h: "healthy (backend w)" "faults (disk w) = []"
  shows "\<exists>st' w'. PutBlobs L be ds st w = (Inr (), st', w') \<and> healthy (backend w') \<and> faults (disk w') = []"
proof (cases "ds = []")
  case True
  with h show ?thesis by (simp add: PutBlobs_def)
next
  case False
  from B have z: "zlib_ok L" and inj: "inj_on (Sum256 L) (set ds)" by (simp_all add: batch_ok_def)
  from put_loop_clean [OF h] obtain small st1 w1 where PL: "put_loop L be ds [] st w = (Inr small, st1, w1)"
    "healthy (backend w1)" "faults (disk w1) = []" by blast
  from put_loop_ok [OF z PL(1), of "{}" "[]"] inj
  have l: "list_all2 (encodes L) (filter (\<lambda>d. \<not> largeThreshold st < length d) ds) small" by (simp add: loose_ok_def)
  show ?thesis
    using False PL put_small_clean [OF l _ batch_ok_small [OF B l] PL(2,3)] by (auto simp: PutBlobs_def)
qed

end

text \<open>
  An empty blob in a pack cannot be read back. Its entry has a stored length of zero, which \<^verbatim>\<open>GetObject\<close>
  takes as ``up to the end of the object'', so the check of the stored length fails unless nothing
  follows the entry. The next lemmas follow one batch, the empty blob and another one, through
  \<^verbatim>\<open>WritePackfile\<close> and \<^verbatim>\<open>PutBlobs\<close>.
\<close>

lemma appendBlob_InrD:
  assumes "appendBlob b p s = (Inr e, p', s')" "lookupLocked p (ebSHA256 b) = None"
  shows "e = payload_entry (poffset p) b" "pentries p' = pentries p @ [e]"
    "poffset p' = poffset p + 16 + unat (ebStoredLength b)"
  using assms
  by (auto simp: appendBlob_def Let_def payload_entry_def BlobItemHeaderSize_def split: sum.splits prod.splits if_splits)

lemma WritePackfile_pair:
  assumes enc: "encodes L [] b1" "encodes L d b2" and ne: "Sum256 L d \<noteq> Sum256 L []" and sz: "length d < 2 ^ 31"
    and f: "get_file f s = Some x" "fdata x = []" and W: "WritePackfile f [b1, b2] full s = (Inr pf, full', s')"
  shows "\<exists>e e'. pfEntries pf = sort_key SHA256 [e, e'] \<and> pfVersion pf = VersionV2 \<and> SHA256 e = Sum256 L [] \<and>
    SHA256 e' = Sum256 L d \<and> StoredLength e = 0 \<and> unat (DataOffset e) < length (file_data f s')"
proof -
  have st: "ebStream b1 = []" "ebStoredLength b1 = 0" "ebSHA256 b1 = Sum256 L []" "ebSHA256 b2 = Sum256 L d"
    "length (ebStream b2) \<le> length d" "ebStoredLength b2 = word_of_nat (length (ebStream b2))"
    using enc by (auto simp: encodes_def)
  obtain r1 s1 where N: "NewIncrementalPackFromFile f DefaultPackSlots s = (r1, s1)"
    by (cases "NewIncrementalPackFromFile f DefaultPackSlots s")
  have slots: "\<not> DefaultPackSlots < 2" "unat DefaultPackSlots = 1024" "DefaultPackSlots \<noteq> 0"
    by (simp_all add: DefaultPackSlots_def)
  note e = W [unfolded WritePackfile_def WritePackfileWithSlots_def, simplified, unfolded Let_def]
  from e slots N obtain p where p: "r1 = Inr p" by (cases r1) auto
  from NewIncrementalPackFromFile_ok [OF f N, of L] p slots
  have P: "pack_ok L p s1" "pentries p = []" "poffset p = 32 + 1024 * 48" "\<not> psealed p" "pfile p = Some f"
    by (simp_all add: table_end_def)
  obtain r2 p2 s2 where A2: "appendBlob b1 p s1 = (r2, p2, s2)" by (cases "appendBlob b1 p s1")
  from e slots N p A2 obtain e1 where r2: "r2 = Inr e1" by (cases r2) auto
  obtain r3 p3 s3 where A3: "appendBlob b2 p2 s2 = (r3, p3, s3)" by (cases "appendBlob b2 p2 s2")
  from e slots N p A2 r2 A3 obtain e2 where r3: "r3 = Inr e2" by (cases r3) auto
  obtain r4 p4 full4 s4 where S: "Seal p3 full s3 = (r4, p4, full4, s4)" by (cases "Seal p3 full s3")
  from e slots N p A2 r2 A3 r3 S have r4: "pfEntries pf = pentries p4" "pfVersion pf = VersionV2" "s4 = s'"
    by (auto split: sum.splits)
  have l1: "e1 = payload_entry (poffset p) b1" "pentries p2 = [e1]" "poffset p2 = 32 + 1024 * 48 + 16"
    using appendBlob_InrD [OF A2 [unfolded r2]] P st by (simp_all add: lookupLocked_def)
  have sha1: "SHA256 e1 = Sum256 L []" using l1 st by (simp add: payload_entry_def)
  then have lk: "lookupLocked p2 (ebSHA256 b2) = None" using l1 st ne by (auto simp: lookupLocked_def)
  have l2: "e2 = payload_entry (poffset p2) b2" "pentries p3 = [e1, e2]"
    "poffset p3 = 32 + 1024 * 48 + 16 + 16 + length (ebStream b2)"
    using appendBlob_InrD [OF A3 [unfolded r3] lk] l1 st sz by (simp_all add: unat_word_of_nat_64)
  have a2: "pack_ok L p2 s2" "pfile p2 = Some f" "\<not> psealed p2"
    using appendBlob_ok [OF P(1) enc(1) _ _ A2] P st by (auto simp: append_spec_def)
  have "pack_ok L p3 s3 \<and> pfile p3 = Some f \<and> \<not> psealed p3"
    using appendBlob_ok [OF a2(1) enc(2) _ _ A3] a2 l1 st sz by (auto simp: append_spec_def)
  then have "pack_ok L p4 s'" "pfile p4 = Some f" "poffset p4 = poffset p3" "pentries p4 = sort_key SHA256 [e1, e2]"
    using Seal_ok [OF _ _ S, of L] l2 r4 by (auto simp: seal_spec_def)
  moreover from this have "poffset p3 \<le> length (file_data f s')"
    by (auto elim!: pack_okE simp: file_data_def pack_data_ok_def)
  moreover have "unat (DataOffset e1) = 32 + 1024 * 48 + 16" "StoredLength e1 = 0"
    using l1 P st by (simp_all add: payload_entry_def BlobItemHeaderSize_def)
  moreover have "SHA256 e2 = Sum256 L d" using l2 st by (simp add: payload_entry_def)
  ultimately show ?thesis using l2 r4 sha1 by (intro exI [of _ e1] exI [of _ e2]) simp
qed

context blob_backend
begin

lemma empty_blob_lost:
  assumes z: "zlib_ok L" and ne: "Sum256 L d \<noteq> Sum256 L []" and sz: "length d < 2 ^ 31" "length d \<le> largeThreshold st"
    and lp: "localPacks st = []" and P: "PutBlobs L be [[], d] st w = (Inr u, st', w')"
    and G: "GetBlob L be (sha_of L []) st' w' = (r, st2, w2)"
  shows "\<exists>e. r = Inl e"
proof -
  obtain r1 st1 w1 where PL: "put_loop L be [[], d] [] st w = (r1, st1, w1)" by (cases "put_loop L be [[], d] [] st w")
  with P obtain small where r1: "r1 = Inr small" by (cases r1) (auto simp: PutBlobs_def)
  have "inj_on (Sum256 L) {[], d}" using ne by (auto simp: inj_on_def)
  with put_loop_ok [OF z PL [unfolded r1], of "{}" "[]"] sz lp
  have "list_all2 (encodes L) [[], d] small" and lp1: "localPacks st1 = []" by (simp_all add: loose_ok_def)
  then obtain b1 b2 where enc: "small = [b1, b2]" "encodes L [] b1" "encodes L d b2"
    by (auto simp: list_all2_Cons1)
  with P PL r1 have PS: "put_small L be [b1, b2] st1 w1 = (Inr u, st', w')" by (simp add: PutBlobs_def)
  then show ?thesis
  proof (cases rule: put_small_cases)
    case (1 id t d1 full d2 pf d3 e b)
    let ?k = "packKey (sha_hex id) (length [b1, b2])"
    from 1(1) obtain x where x: "get_file (tpath t) d1 = Some x" "fdata x = []" by blast
    from WritePackfile_pair [OF enc(2,3) ne sz(1) x 1(2)] obtain a a' where
      a: "pfEntries pf = sort_key SHA256 [a, a']" "SHA256 a = Sum256 L []" "SHA256 a' = Sum256 L d" "pfVersion pf = VersionV2"
        "StoredLength a = 0" "unat (DataOffset a) < length (file_data (tpath t) d2)" by blast
    let ?loc = "\<lparr>IsStandalone = False, PackKey = ?k, PackVersion = VersionV2, Entry = a\<rparr>"
    have "map_of (shaToLocation st') (sha_of L []) = Some ?loc"
      using a ne by (auto simp: 1(5) index_pack_location sha_of_def)
    moreover have "localPacks st' = []" using lp1 by (simp add: 1(5) index_pack_def)
    moreover from this have "read_local L ?loc st' w' = (None, w')" by (simp add: read_local_def)
    ultimately have r: "r = fst (read_packed L be ?loc w')"
      using G by (cases "read_packed L be ?loc w'") (simp add: GetBlob_def get_known_def)
    from put [OF _ 1(4)] pack_key have o: "objs (backend w') ?k = Some (file_data (tpath t) d2)"
      using 1(3,6) by (simp add: same_files_def file_data_def get_file_def)
    obtain g b' where g: "GetObject be [] ?k (uint (DataOffset a)) 0 (backend w') = (g, b')"
      by (cases "GetObject be [] ?k (uint (DataOffset a)) 0 (backend w')")
    show ?thesis
    proof (cases g)
      case (Inl e)
      with r g a(5) show ?thesis by (simp add: read_packed_def)
    next
      case (Inr buf)
      with get [OF _ _ g] pack_key o have "buf = drop (unat (DataOffset a)) (file_data (tpath t) d2)"
        by (simp add: range_of_def)
      with r g a Inr show ?thesis by (simp add: read_packed_def Let_def versions_distinct)
    qed
  qed
qed

end

subsection \<open>The backends\<close>

lemma hex_chars: "c \<in> set (sha_hex h) \<Longrightarrow> (48 :: nat) \<le> of_char c"
proof -
  assume "c \<in> set (sha_hex h)"
  then obtain b :: byte where "c = hex_digit (unat b div 16) \<or> c = hex_digit (unat b mod 16)"
    by (auto simp: sha_hex_def hex_def)
  moreover have "unat b div 16 < 16" using unat_byte_less [of b] by (simp add: div_less_iff_less_mult)
  ultimately show ?thesis by (auto simp: of_hex_digit)
qed

lemma fs_key_blobs:
  assumes "CHR ''/'' \<notin> set x" "x \<noteq> []" "hd x \<noteq> CHR ''.''"
  shows "fs_key (''blobs/'' @ x)"
proof -
  have "Base (''blobs/'' @ x) = x" using Base_PathJoin [OF assms(2,1), of "''blobs''"] by (simp add: PathJoin_def)
  moreover have "last x \<noteq> CHR ''/''" using assms(1,2) last_in_set by metis
  moreover have "\<not> HasPrefix x ''.tmp-upload-''" using assms(2,3) by (cases x) (auto simp: HasPrefix_def)
  ultimately show ?thesis using assms(2) by (simp add: fs_key_def)
qed

lemma sha_hex_clean: "CHR ''/'' \<notin> set (sha_hex h)" "sha_hex h \<noteq> []" "hd (sha_hex h @ y) \<noteq> CHR ''.''"
proof -
  show n: "sha_hex h \<noteq> []" using length_sha_hex [of h] by (metis list.size(3) zero_neq_numeral)
  show "CHR ''/'' \<notin> set (sha_hex h)" using hex_chars [of "CHR ''/''" h] by auto
  have "CHR ''.'' \<notin> set (sha_hex h)" using hex_chars [of "CHR ''.''" h] by auto
  moreover have "hd (sha_hex h) \<in> set (sha_hex h)" using n by simp
  ultimately have "hd (sha_hex h) \<noteq> CHR ''.''" by metis
  then show "hd (sha_hex h @ y) \<noteq> CHR ''.''" using n by (simp add: hd_append)
qed

interpretation mem_blobs: blob_backend "mem_backend L" mem_objs "\<lambda>_. True" "\<lambda>_. True"
  by unfold_locales simp_all

interpretation dir_blobs: blob_backend "fs_backend L mtime root" "fs_objs root" fs_key "\<lambda>s. faults s = []"
proof unfold_locales
  show "fs_key (blobKey (sha_hex h))" for h
    unfolding blobKey_def using sha_hex_clean(1,2) [of h] sha_hex_clean(3) [of h "[]"] by (intro fs_key_blobs) simp_all
  show "fs_key (packKey (sha_hex h) n)" for h n
    unfolding packKey_def using sha_hex_clean(1) [of h] sha_hex_clean(3) [of h "''-'' @ dec n @ ''.pack''"] dec_no_slash [of n]
    by (intro fs_key_blobs) auto
qed

text \<open>C16: What is put into a blob store over a directory is what is read from it. If \<^verbatim>\<open>PutBlobs\<close> of a
  batch of blobs with different hashes succeeds, then \<^verbatim>\<open>GetBlob\<close> of the hash of each non-empty one of
  them returns exactly that blob, whether it was stored alone or in a packfile, raw or compressed;
  without faults both calls succeed.\<close>

theorem put_get_blobs_directory:
  assumes "batch_ok L ds" "localPacks st = []" "d \<in> set ds" "d \<noteq> []"
    and "PutBlobs L (fs_backend L mtime root) ds st w = (r0, st', w')"
    and "GetBlob L (fs_backend L mtime root) (sha_of L d) st' w' = (r, st2, w2)"
  shows "(r0 = Inr () \<longrightarrow> (case r of Inr x \<Rightarrow> x = d | Inl e \<Rightarrow> faults (backend w') \<noteq> [] \<or> faults (disk w') \<noteq> [])) \<and>
    (faults (backend w) = [] \<and> faults (disk w) = [] \<longrightarrow> r0 = Inr () \<and> r = Inr d)"
proof -
  have g: "case r of Inr x \<Rightarrow> x = d | Inl e \<Rightarrow> faults (backend w') \<noteq> [] \<or> faults (disk w') \<noteq> []" if "r0 = Inr ()"
    using dir_blobs.put_get_blobs [OF assms(1,2) _ assms(3,4,6)] assms(5) that by (cases r) auto
  moreover have "r0 = Inr () \<and> faults (backend w') = [] \<and> faults (disk w') = []" if "faults (backend w) = []" "faults (disk w) = []"
    using dir_blobs.put_blobs_clean [OF assms(1) that, of L mtime root st] assms(5) by auto
  ultimately show ?thesis by (cases r) auto
qed

definition demo_world :: "fs world" where
  "demo_world = \<lparr>backend = \<lparr>files = [], faults = [], clock = 0\<rparr>, disk = \<lparr>files = [], faults = [], clock = 0\<rparr>,
     packs = (\<lambda>_. \<lparr>pfile = None, pslots = 0, poffset = 0, psealed = False, pentries = []\<rparr>), fullCount = 0\<rparr>"

theorem put_get_blobs_directory_witness:
  "\<exists>st w st2 w2. PutBlobs demo_lib (fs_backend demo_lib (\<lambda>_. 0) ''/r'') [[1], [2]] (NewStore 0) demo_world = (Inr (), st, w) \<and>
     GetBlob demo_lib (fs_backend demo_lib (\<lambda>_. 0) ''/r'') (sha_of demo_lib [2]) st w = (Inr [2], st2, w2)"
proof -
  let ?be = "fs_backend demo_lib (\<lambda>_. 0) ''/r''"
  obtain r0 st w where P: "PutBlobs demo_lib ?be [[1], [2]] (NewStore 0) demo_world = (r0, st, w)"
    by (cases "PutBlobs demo_lib ?be [[1], [2]] (NewStore 0) demo_world")
  obtain r st2 w2 where G: "GetBlob demo_lib ?be (sha_of demo_lib [2]) st w = (r, st2, w2)"
    by (cases "GetBlob demo_lib ?be (sha_of demo_lib [2]) st w")
  have "batch_ok demo_lib [[1], [2]]"
    by (simp add: batch_ok_def demo_lib_def inj_on_def pack_slots_def be_val_def zlib_ok_def)
  from put_get_blobs_directory [OF this _ _ _ P G] P G show ?thesis
    by (simp add: NewStore_def demo_world_def)
qed

text \<open>C25: An empty blob stored in a pack is lost. After a successful \<^verbatim>\<open>PutBlobs\<close> of the empty blob and a
  second small one, into a blob store over a directory, \<^verbatim>\<open>GetBlob\<close> of the hash of the empty blob fails,
  also without any fault of the disk.\<close>

theorem empty_blob_unreadable:
  assumes "zlib_ok L" "Sum256 L d \<noteq> Sum256 L []" "length d < 2 ^ 31" "length d \<le> largeThreshold st" "localPacks st = []"
    and "PutBlobs L (fs_backend L mtime root) [[], d] st w = (Inr u, st', w')"
    and "GetBlob L (fs_backend L mtime root) (sha_of L []) st' w' = (r, st2, w2)"
  shows "\<exists>e. r = Inl e"
  by (rule dir_blobs.empty_blob_lost [OF assms])

theorem empty_blob_unreadable_witness:
  "\<exists>st w e st2 w2. PutBlobs demo_lib (fs_backend demo_lib (\<lambda>_. 0) ''/r'') [[], [1]] (NewStore 0) demo_world = (Inr (), st, w) \<and>
     GetBlob demo_lib (fs_backend demo_lib (\<lambda>_. 0) ''/r'') (sha_of demo_lib []) st w = (Inl e, st2, w2)"
proof -
  let ?be = "fs_backend demo_lib (\<lambda>_. 0) ''/r''"
  have "batch_ok demo_lib [[], [1]]"
    by (simp add: batch_ok_def demo_lib_def inj_on_def pack_slots_def be_val_def zlib_ok_def)
  from dir_blobs.put_blobs_clean [OF this, of demo_world demo_lib "\<lambda>_. 0" "''/r''" "NewStore 0"]
  obtain st w where P: "PutBlobs demo_lib ?be [[], [1]] (NewStore 0) demo_world = (Inr (), st, w)"
    by (auto simp: demo_world_def)
  obtain r st2 w2 where G: "GetBlob demo_lib ?be (sha_of demo_lib []) st w = (r, st2, w2)"
    by (cases "GetBlob demo_lib ?be (sha_of demo_lib []) st w")
  have "Sum256 demo_lib [1] \<noteq> Sum256 demo_lib []" by (simp add: demo_lib_def be_val_def)
  from empty_blob_unreadable [OF demo_lib_ok this _ _ _ P G] have "\<exists>e. r = Inl e" by (simp add: NewStore_def)
  with P G show ?thesis by blast
qed

end
