(* ===== verification/StreamWriter.thy ===== *)
theory StreamWriter
  imports WalNames WalScan ObjectStore
begin

text \<open>
  \<^verbatim>\<open>pkg/wal/buffer/stream_store.go\<close>, first part: the writer of one stream. Records wait in memory,
  are flushed to an open file of the stream, and the file is sealed (renamed after the last
  sequence number it holds) and uploaded to object storage. A method is one critical section of
  the writer's mutex and takes the writer, the local disk and the state of the backend.

  The backend is optional, as in the source. The metadata of sealed files are shared pointers in
  the source and values here: the only assignments are to elements of \<^verbatim>\<open>w.sealed\<close> under the mutex.
  \<^verbatim>\<open>google/uuid\<close> is not part of the sources: its \<^verbatim>\<open>String\<close> and \<^verbatim>\<open>Parse\<close> are the fields of the record
  \<open>uuids\<close>, with the documented law \<open>uuids_ok\<close>. \<^verbatim>\<open>sort.Slice\<close> does not say how it orders equal
  elements; the model keeps their order.
\<close>

record uuids =
  uuid_String :: "uuid \<Rightarrow> string"
  uuid_Parse :: "string \<Rightarrow> uuid option"

definition uuids_ok :: "uuids \<Rightarrow> bool" where
  \<comment> \<open>the text of a UUID parses back; it is a name without separators, of 36 characters\<close>
  "uuids_ok U \<longleftrightarrow>
     (\<forall>i. uuid_Parse U (uuid_String U i) = Some i \<and> CHR ''/'' \<notin> set (uuid_String U i) \<and>
        length (uuid_String U i) = 36)"

record StreamMeta =
  smFromSeq :: uint64
  smToSeq :: uint64
  smToPos :: uint64
  smPath :: string
  smKey :: string

record streamWriter =
  wStreamID :: uuid
  wDir :: string
  openFrom :: uint64
  lastSeq :: uint64
  firstPos :: uint64
  lastPos :: uint64
  recCount :: nat
  fileSize :: nat
  openTime :: "nat option"
  pending :: "LogRecord list"
  sealed :: "StreamMeta list"
  uploadedTo :: uint64
  uploadedPos :: uint64
  discovered :: bool
  sealedSinceLastPass :: bool
  evicted :: bool

subsection \<open>Flushing\<close>

definition appendRecords :: "LogRecord list \<Rightarrow> streamWriter \<Rightarrow> bool \<times> streamWriter" where
  "appendRecords records w =
     (if evicted w then (False, w) else (True, w\<lparr>pending := pending w @ records\<rparr>))"

definition note_seqs :: "LogRecord \<Rightarrow> streamWriter \<Rightarrow> streamWriter" where
  \<comment> \<open>the bookkeeping for one record in the loop of \<open>flushPendingLocked\<close>\<close>
  "note_seqs rec w =
     w\<lparr>lastSeq := (if StreamSeq rec > lastSeq w then StreamSeq rec else lastSeq w),
       firstPos := (if firstPos w = 0 \<or> Position rec < firstPos w then Position rec else firstPos w),
       lastPos := (if Position rec > lastPos w then Position rec else lastPos w),
       recCount := Suc (recCount w)\<rparr>"

definition open_path :: "streamWriter \<Rightarrow> string" where
  "open_path w = PathJoin (wDir w) (FormatStreamFileName (openFrom w) 0 False)"

definition start_file :: "streamWriter \<Rightarrow> fs \<Rightarrow> streamWriter \<times> fs" where
  \<comment> \<open>the sequence number and the time of opening, if the file is new\<close>
  "start_file w s =
     (let w = (if recCount w = 0 \<or> openFrom w = 0 then w\<lparr>openFrom := StreamSeq (hd (pending w))\<rparr> else w)
      in if openTime w = None then (let (t, s) = time_Now s in (w\<lparr>openTime := Some t\<rparr>, s)) else (w, s))"

definition flushPendingLocked :: "streamWriter \<Rightarrow> fs \<Rightarrow> error option \<times> streamWriter \<times> fs" where
  "flushPendingLocked w s =
     (if pending w = [] then (None, w, s)
      else case os_MkdirAll (wDir w) s of
        (Some e, s) \<Rightarrow> (Some e, w, s)
      | (None, s) \<Rightarrow>
          (case start_file w s of (w, s) \<Rightarrow>
           case os_Stat_size (open_path w) s of (stat, s) \<Rightarrow>
           case os_OpenAppend (open_path w) s of
             (Some e, s) \<Rightarrow> (Some e, w, s)
           | (None, s) \<Rightarrow>
               (let hdr = (case stat of
                      Inl _ \<Rightarrow> SegmentHeader_Encode DefaultSegmentHeader
                    | Inr n \<Rightarrow> if n = 0 then SegmentHeader_Encode DefaultSegmentHeader else []);
                    buf = hdr @ concat (map LogRecord_Encode (pending w));
                    w = (fold note_seqs (pending w) w)\<lparr>pending := []\<rparr>
                in case file_Write (open_path w) buf s of (writeErr, s) \<Rightarrow>
                   case file_Close (open_path w) s of (closeErr, s) \<Rightarrow>
                     (case writeErr of
                        Some e \<Rightarrow> (Some e, w, s)
                      | None \<Rightarrow>
                          (case closeErr of
                             Some e \<Rightarrow> (Some e, w, s)
                           | None \<Rightarrow> (None, w\<lparr>fileSize := fileSize w + length buf\<rparr>, s))))))"

subsection \<open>Sealing and uploading\<close>

definition uploadSealedMetaLocked ::
  "uuids \<Rightarrow> 'b Backend option \<Rightarrow> StreamMeta \<Rightarrow> streamWriter \<Rightarrow> fs \<Rightarrow> 'b \<Rightarrow>
   error option \<times> StreamMeta \<times> streamWriter \<times> fs \<times> 'b" where
  "uploadSealedMetaLocked U backend m w s b =
     (case backend of
        None \<Rightarrow> (None, m, w, s, b)
      | Some be \<Rightarrow>
          if smKey m \<noteq> '''' \<or> smPath m = '''' then (None, m, w, s, b)
          else case os_Open (smPath m) s of                            \<comment> \<open>os.ReadFile\<close>
            (Inl e, s) \<Rightarrow> (Some e, m, w, s, b)
          | (Inr data, s) \<Rightarrow>
              (let objKey = FormatStreamObjectKey (uuid_String U) (wStreamID w) (smFromSeq m) (smToSeq m)
               in case PutObject be '''' objKey data b of
                    (Inl e, b) \<Rightarrow> (Some e, m, w, s, b)
                  | (Inr _, b) \<Rightarrow>
                      (None, m\<lparr>smKey := objKey\<rparr>,
                       (if smToSeq m > uploadedTo w
                        then w\<lparr>uploadedTo := smToSeq m, uploadedPos := smToPos m\<rparr> else w), s, b)))"

definition seal_file :: "streamWriter \<Rightarrow> fs \<Rightarrow> error option \<times> fs" where
  \<comment> \<open>sync the open file and rename it\<close>
  "seal_file w s =
     (case os_Open (open_path w) s of
        (Inl e, s) \<Rightarrow> (Some e, s)
      | (Inr _, s) \<Rightarrow>
          (case file_Sync (open_path w) s of
             (Some e, s) \<Rightarrow> (Some e, snd (file_Close (open_path w) s))
           | (None, s) \<Rightarrow>
               (case file_Close (open_path w) s of
                  (Some e, s) \<Rightarrow> (Some e, s)
                | (None, s) \<Rightarrow>
                    os_Rename (open_path w)
                      (PathJoin (wDir w) (FormatStreamFileName (openFrom w) (lastSeq w) True)) s)))"

definition sealLocked ::
  "uuids \<Rightarrow> 'b Backend option \<Rightarrow> streamWriter \<Rightarrow> fs \<Rightarrow> 'b \<Rightarrow>
   (StreamMeta option \<times> error option) \<times> streamWriter \<times> fs \<times> 'b" where
  "sealLocked U backend w s b =
     (case flushPendingLocked w s of
        (Some e, w, s) \<Rightarrow> ((None, Some e), w, s, b)
      | (None, w, s) \<Rightarrow>
          if recCount w = 0 \<or> openFrom w = 0 then ((None, None), w, s, b)
          else case seal_file w s of
            (Some e, s) \<Rightarrow> ((None, Some e), w, s, b)
          | (None, s) \<Rightarrow>
              (let meta = \<lparr>smFromSeq = openFrom w, smToSeq = lastSeq w, smToPos = lastPos w,
                     smPath = PathJoin (wDir w) (FormatStreamFileName (openFrom w) (lastSeq w) True), smKey = ''''\<rparr>;
                   old = sealed w;
                   w = w\<lparr>openFrom := lastSeq w + 1, recCount := 0, fileSize := 0, openTime := None,
                         sealedSinceLastPass := True\<rparr>
               in case uploadSealedMetaLocked U backend meta w s b of
                    (e, meta, w, s, b) \<Rightarrow> ((Some meta, e), w\<lparr>sealed := old @ [meta]\<rparr>, s, b)))"

definition hasPendingSealedUploadsLocked :: "streamWriter \<Rightarrow> bool" where
  "hasPendingSealedUploadsLocked w = list_ex (\<lambda>m. smKey m = '''') (sealed w)"

fun upload_all ::
  "uuids \<Rightarrow> 'b Backend option \<Rightarrow> StreamMeta list \<Rightarrow> error option \<Rightarrow> streamWriter \<Rightarrow> fs \<Rightarrow> 'b \<Rightarrow>
   error option \<times> StreamMeta list \<times> streamWriter \<times> fs \<times> 'b" where
  "upload_all U backend [] firstErr w s b = (firstErr, [], w, s, b)"
| "upload_all U backend (m # ms) firstErr w s b =
     (case uploadSealedMetaLocked U backend m w s b of (e, m, w, s, b) \<Rightarrow>
      case upload_all U backend ms (if firstErr = None then e else firstErr) w s b of (e, ms, w, s, b) \<Rightarrow>
        (e, m # ms, w, s, b))"

definition uploadPendingSealedLocked ::
  "uuids \<Rightarrow> 'b Backend option \<Rightarrow> streamWriter \<Rightarrow> fs \<Rightarrow> 'b \<Rightarrow> error option \<times> streamWriter \<times> fs \<times> 'b" where
  "uploadPendingSealedLocked U backend w s b =
     (case upload_all U backend (sealed w) None w s b of (e, ms, w, s, b) \<Rightarrow> (e, w\<lparr>sealed := ms\<rparr>, s, b))"

subsection \<open>Discovering sealed files\<close>

fun update_first :: "('a \<Rightarrow> bool) \<Rightarrow> ('a \<Rightarrow> 'a) \<Rightarrow> 'a list \<Rightarrow> 'a list option" where
  \<comment> \<open>the search loop: update the first match, or None\<close>
  "update_first P f [] = None"
| "update_first P f (x # xs) = (if P x then Some (f x # xs) else map_option ((#) x) (update_first P f xs))"

definition note_sealed :: "StreamMeta \<Rightarrow> (StreamMeta \<Rightarrow> StreamMeta) \<Rightarrow> StreamMeta list \<Rightarrow> StreamMeta list" where
  "note_sealed m upd ms =
     (case update_first (\<lambda>sm. smFromSeq sm = smFromSeq m \<and> smToSeq sm = smToSeq m) upd ms of
        Some ms' \<Rightarrow> ms' | None \<Rightarrow> ms @ [m])"

definition discover_local :: "string \<times> bool \<Rightarrow> streamWriter \<Rightarrow> streamWriter" where
  "discover_local e w =
     (if snd e then w
      else case ParseStreamPath (fst e) of
        Inl _ \<Rightarrow> w
      | Inr (fromSeq, toSeq, isSealed) \<Rightarrow>
          if \<not> isSealed then w
          else
            let filePath = PathJoin (wDir w) (fst e) in
            w\<lparr>sealed := note_sealed \<lparr>smFromSeq = fromSeq, smToSeq = toSeq, smToPos = 0, smPath = filePath, smKey = ''''\<rparr>
                 (\<lambda>sm. if smPath sm = '''' then sm\<lparr>smPath := filePath\<rparr> else sm) (sealed w),
              lastSeq := (if toSeq > lastSeq w then toSeq else lastSeq w)\<rparr>)"

definition discover_remote :: "ObjectEntry \<Rightarrow> streamWriter \<Rightarrow> streamWriter" where
  "discover_remote entry w =
     (case ParseStreamPath (Key entry) of
        Inl _ \<Rightarrow> w
      | Inr (fromSeq, toSeq, isSealed) \<Rightarrow>
          if \<not> isSealed then w
          else
            w\<lparr>uploadedTo := (if toSeq > uploadedTo w then toSeq else uploadedTo w),
              lastSeq := (if toSeq > lastSeq w then toSeq else lastSeq w),
              sealed := note_sealed \<lparr>smFromSeq = fromSeq, smToSeq = toSeq, smToPos = 0, smPath = '''', smKey = Key entry\<rparr>
                 (\<lambda>sm. if smKey sm = '''' then sm\<lparr>smKey := Key entry\<rparr> else sm) (sealed w)\<rparr>)"

definition finish_discovery :: "streamWriter \<Rightarrow> streamWriter" where
  "finish_discovery w = w\<lparr>discovered := True, sealed := sort_key smFromSeq (sealed w)\<rparr>"

definition discoverRemoteSealedLocked ::
  "uuids \<Rightarrow> 'b Backend option \<Rightarrow> streamWriter \<Rightarrow> fs \<Rightarrow> 'b \<Rightarrow> streamWriter \<times> fs \<times> 'b" where
  "discoverRemoteSealedLocked U backend w s b =
     (case os_ReadDir (wDir w) s of (r, s) \<Rightarrow>
      let w = (case r of Inl _ \<Rightarrow> w | Inr entries \<Rightarrow> fold discover_local entries w) in
      case backend of
        None \<Rightarrow> (finish_discovery w, s, b)
      | Some be \<Rightarrow>
          (case ListObjects be '''' (''streams/'' @ uuid_String U (wStreamID w) @ ''/'') b of
             (Inl _, b) \<Rightarrow> (w, s, b)
           | (Inr entries, b) \<Rightarrow> (finish_discovery (fold discover_remote entries w), s, b)))"

definition getSealedMetas ::
  "uuids \<Rightarrow> 'b Backend option \<Rightarrow> streamWriter \<Rightarrow> fs \<Rightarrow> 'b \<Rightarrow> StreamMeta list \<times> streamWriter \<times> fs \<times> 'b" where
  "getSealedMetas U backend w s b =
     (case (if \<not> discovered w then discoverRemoteSealedLocked U backend w s b else (w, s, b)) of
        (w, s, b) \<Rightarrow> (sealed w, w, s, b))"

definition discover_once ::
  "uuids \<Rightarrow> 'b Backend option \<Rightarrow> streamWriter \<Rightarrow> fs \<Rightarrow> 'b \<Rightarrow> streamWriter \<times> fs \<times> 'b" where
  \<comment> \<open>the guard with which the store calls it\<close>
  "discover_once U backend w s b =
     (if \<not> discovered w \<and> sealed w = [] \<and> uploadedTo w = 0 then discoverRemoteSealedLocked U backend w s b
      else (w, s, b))"

subsection \<open>Recovery\<close>

definition recover_open :: "uint64 \<Rightarrow> LogRecord list \<Rightarrow> SegmentMeta \<Rightarrow> streamWriter \<Rightarrow> streamWriter" where
  "recover_open fromSeq recs meta w =
     (let w = w\<lparr>openFrom := fromSeq, recCount := RecordCount meta, fileSize := SegmentMeta.Size meta\<rparr>
      in if recs = [] then w
         else w\<lparr>firstPos := (if firstPos w = 0 \<or> Position (hd recs) < firstPos w then Position (hd recs) else firstPos w),
                lastSeq := (if StreamSeq (last recs) > lastSeq w then StreamSeq (last recs) else lastSeq w),
                lastPos := (if Position (last recs) > lastPos w then Position (last recs) else lastPos w)\<rparr>)"

fun recover_entries ::
  "bool \<Rightarrow> (string \<times> bool) list \<Rightarrow> streamWriter \<Rightarrow> fs \<Rightarrow> error option \<times> streamWriter \<times> fs" where
  "recover_entries acc [] w s = (None, w, s)"
| "recover_entries acc (e # es) w s =
     (if snd e then recover_entries acc es w s
      else case ParseStreamPath (fst e) of
        Inl _ \<Rightarrow> recover_entries acc es w s
      | Inr (fromSeq, toSeq, isSealed) \<Rightarrow>
          let filePath = PathJoin (wDir w) (fst e) in
          if isSealed then
            recover_entries acc es
              (w\<lparr>sealed := sealed w @ [\<lparr>smFromSeq = fromSeq, smToSeq = toSeq, smToPos = 0, smPath = filePath, smKey = ''''\<rparr>],
                 lastSeq := (if toSeq > lastSeq w then toSeq else lastSeq w)\<rparr>) s
          else case ScanLogSegmentFile filePath acc s of
            (Inl err, s) \<Rightarrow> (Some err, w, s)
          | (Inr (recs, meta), s) \<Rightarrow> recover_entries acc es (recover_open fromSeq recs meta w) s)"

definition recoverStream ::
  "uuids \<Rightarrow> 'b Backend option \<Rightarrow> LogRecord list \<Rightarrow> bool \<Rightarrow> streamWriter \<Rightarrow> fs \<Rightarrow> 'b \<Rightarrow>
   error option \<times> streamWriter \<times> fs \<times> 'b" where
  "recoverStream U backend aggRecords acc w s b =
     (case os_ReadDir (wDir w) s of
        (Inl e, s) \<Rightarrow> (Some e, w, s, b)
      | (Inr entries, s) \<Rightarrow>
          (case recover_entries acc entries w s of
             (Some e, w, s) \<Rightarrow> (Some e, w, s, b)
           | (None, w, s) \<Rightarrow>
               (case discoverRemoteSealedLocked U backend w s b of (w, s, b) \<Rightarrow>
                case uploadPendingSealedLocked U backend w s b of (_, w, s, b) \<Rightarrow>
                let w = w\<lparr>pending := pending w @
                       filter (\<lambda>rec. StreamID rec = wStreamID w \<and> StreamSeq rec > lastSeq w) aggRecords\<rparr> in
                case flushPendingLocked w s of (e, w, s) \<Rightarrow> (e, w, s, b))))"

subsection \<open>Reading\<close>

definition ReadRecordsFromOffset ::
  "string \<Rightarrow> nat \<Rightarrow> bool \<Rightarrow> fs \<Rightarrow> (LogRecord list \<times> nat \<times> error option) \<times> fs" where
  "ReadRecordsFromOffset path startOffset acceptUnversioned s =
     (case os_Open path s of
        (Inl e, s) \<Rightarrow> (([], startOffset, if e = ErrNotExist then None else Some e), s)
      | (Inr data, s) \<Rightarrow>
          (case (if startOffset = 0 then
                   (case ReadSegmentHeader data acceptUnversioned of
                      Inl e \<Rightarrow> (Inl ([], 0, if e = ErrEOF then None else Some e), s)
                    | Inr (_, hdrOffset, r) \<Rightarrow> (Inr (hdrOffset, r), s))
                 else
                   (case os_op s of                                    \<comment> \<open>f.Seek\<close>
                      (Inl e, s) \<Rightarrow> (Inl ([], startOffset, Some e), s)
                    | (Inr _, s) \<Rightarrow> (Inr (startOffset, drop startOffset data), s))) of
             (res, s) \<Rightarrow>
               ((case res of
                   Inl x \<Rightarrow> x
                 | Inr (nextOffset, r) \<Rightarrow>
                     let records = fst (decode_loop DecodeLogRecord r)
                     in (records, nextOffset + sum_list (map log_size records), None)),
                snd (file_Close path s))))"

end
