(* ===== verification/StreamStore.thy ===== *)
theory StreamStore
  imports StreamWriter "HOL-Library.Product_Lexorder"
begin

text \<open>
  \<^verbatim>\<open>pkg/wal/buffer/stream_store.go\<close>, second part, and \<^verbatim>\<open>segments.go\<close>: the store of all streams, with its
  background worker, the garbage collection of aggregated segments, and the reading of aggregated
  segments from object storage. A map of the source is an association list; the order in which
  the source iterates over it is not specified, and the theorems hold for every order of the list.

  The callback \<^verbatim>\<open>evictHook\<close> only reads the store and is left out, and so are the channels, except
  that \<^verbatim>\<open>writeNotify\<close>, which has room for one element, is a flag. \<^verbatim>\<open>LoadCoverage\<close> is not modelled.
\<close>

definition DefaultStreamSealInterval :: int where "DefaultStreamSealInterval = 3600 * 1000000000"
definition DefaultStreamSealBytes :: int where "DefaultStreamSealBytes = 64 * 1024 * 1024"

record StreamStore =
  dataDir :: string
  sealInterval :: int
  sealBytes :: int
  ssAcceptUnversioned :: bool
  streams :: "(string \<times> streamWriter) list"
  writeNotify :: bool
  segmentReqs :: "(string \<times> (string \<times> uint64) list) list"

definition NewStreamStore :: "string \<Rightarrow> int \<Rightarrow> int \<Rightarrow> StreamStore" where
  "NewStreamStore d interval nbytes =
     \<lparr>dataDir = d, sealInterval = (if interval \<le> 0 then DefaultStreamSealInterval else interval),
      sealBytes = (if nbytes \<le> 0 then DefaultStreamSealBytes else nbytes), ssAcceptUnversioned = False, streams = [],
      writeNotify = False, segmentReqs = []\<rparr>"

definition SetAcceptUnversioned :: "bool \<Rightarrow> StreamStore \<Rightarrow> StreamStore" where
  "SetAcceptUnversioned accept st = st\<lparr>ssAcceptUnversioned := accept\<rparr>"

subsection \<open>Writers\<close>

definition new_writer :: "uuids \<Rightarrow> string \<Rightarrow> uuid \<Rightarrow> streamWriter" where
  "new_writer U d streamID =
     \<lparr>wStreamID = streamID, wDir = PathJoin (PathJoin d ''streams'') (uuid_String U streamID), openFrom = 0, lastSeq = 0,
      firstPos = 0, lastPos = 0, recCount = 0, fileSize = 0, openTime = None, pending = [], sealed = [],
      uploadedTo = 0, uploadedPos = 0, discovered = False, sealedSinceLastPass = False, evicted = False\<rparr>"

definition getStream :: "uuids \<Rightarrow> uuid \<Rightarrow> StreamStore \<Rightarrow> streamWriter option" where
  "getStream U streamID st = map_of (streams st) (uuid_String U streamID)"

definition put_writer :: "uuids \<Rightarrow> uuid \<Rightarrow> streamWriter \<Rightarrow> StreamStore \<Rightarrow> StreamStore" where
  \<comment> \<open>an assignment through the pointer in the map\<close>
  "put_writer U streamID w st = st\<lparr>streams := AList.update (uuid_String U streamID) w (streams st)\<rparr>"

definition getOrCreateStream :: "uuids \<Rightarrow> uuid \<Rightarrow> StreamStore \<Rightarrow> streamWriter \<times> StreamStore" where
  "getOrCreateStream U streamID st =
     (case getStream U streamID st of
        Some w \<Rightarrow> (w, st)
      | None \<Rightarrow> let w = new_writer U (dataDir st) streamID in (w, put_writer U streamID w st))"

fun each_writer ::
  "(streamWriter \<Rightarrow> fs \<Rightarrow> 'b \<Rightarrow> 'o \<times> streamWriter \<times> fs \<times> 'b) \<Rightarrow> (string \<times> streamWriter) list \<Rightarrow> fs \<Rightarrow> 'b \<Rightarrow>
   'o list \<times> (string \<times> streamWriter) list \<times> fs \<times> 'b" where
  \<comment> \<open>the loop over \<open>allWriters()\<close>\<close>
  "each_writer f [] s b = ([], [], s, b)"
| "each_writer f ((sid, w) # ws) s b =
     (case f w s b of (r, w, s, b) \<Rightarrow>
      case each_writer f ws s b of (rs, ws, s, b) \<Rightarrow> (r # rs, (sid, w) # ws, s, b))"

partial_function (option) append_loop :: "uuids \<Rightarrow> uuid \<Rightarrow> LogRecord list \<Rightarrow> StreamStore \<Rightarrow> StreamStore option" where
  \<comment> \<open>the loop that looks the writer up again when it was evicted in between\<close>
  "append_loop U streamID recs st =
     (let (w, st) = getOrCreateStream U streamID st; (ok, w) = appendRecords recs w
      in if ok then Some (put_writer U streamID w st) else append_loop U streamID recs st)"

fun append_groups :: "uuids \<Rightarrow> (uuid \<times> LogRecord list) list \<Rightarrow> StreamStore \<Rightarrow> StreamStore option" where
  "append_groups U [] st = Some st"
| "append_groups U ((i, recs) # gs) st =
     (case append_loop U i recs st of None \<Rightarrow> None | Some st \<Rightarrow> append_groups U gs st)"

definition AppendRecords :: "uuids \<Rightarrow> LogRecord list \<Rightarrow> StreamStore \<Rightarrow> StreamStore option" where
  \<comment> \<open>None: the loop does not end\<close>
  "AppendRecords U records st =
     (if records = [] then Some st
      else
        let byStream = map (\<lambda>i. (i, filter (\<lambda>r. StreamID r = i) records)) (remdups (map StreamID records))
        in map_option (\<lambda>st. st\<lparr>writeNotify := True\<rparr>) (append_groups U byStream st))"

subsection \<open>Coverage\<close>

definition coverage_json :: "uint64 \<Rightarrow> bytes" where
  \<comment> \<open>\<open>json.Marshal(StreamCoverage{...})\<close>\<close>
  "coverage_json pos =
     string_bytes (CHR ''{'' # CHR 0x22 # ''covered_position'' @ CHR 0x22 # '':'' @ dec (unat pos) @ ''}'')"

definition writeCoverageFile :: "uint64 \<Rightarrow> StreamStore \<Rightarrow> fs \<Rightarrow> error option \<times> fs" where
  "writeCoverageFile coveredPos st s = os_WriteFile (PathJoin (dataDir st) ''coverage.json'') (coverage_json coveredPos) s"

definition writer_coverage :: "streamWriter \<Rightarrow> uint64 option" where
  "writer_coverage w =
     (if firstPos w = 0 \<and> uploadedPos w = 0 then None
      else Some (if uploadedPos w = 0 \<and> firstPos w > 0 then firstPos w - 1 else uploadedPos w))"

definition covered_position :: "(string \<times> streamWriter) list \<Rightarrow> uint64 option" where
  "covered_position ws =
     foldl (\<lambda>acc (_, w).
        case writer_coverage w of
          None \<Rightarrow> acc
        | Some covPos \<Rightarrow> (case acc of None \<Rightarrow> Some covPos | Some minPos \<Rightarrow> Some (if covPos < minPos then covPos else minPos)))
       None ws"

definition saveCoverage :: "StreamStore \<Rightarrow> fs \<Rightarrow> fs" where
  "saveCoverage st s =
     (case covered_position (streams st) of None \<Rightarrow> s | Some pos \<Rightarrow> snd (writeCoverageFile pos st s))"

definition seq_of :: "(string \<times> uint64) list \<Rightarrow> string \<Rightarrow> uint64" where
  "seq_of reqs sid = (case map_of reqs sid of Some q \<Rightarrow> q | None \<Rightarrow> 0)"

definition note_req :: "uuids \<Rightarrow> LogRecord \<Rightarrow> (string \<times> uint64) list \<Rightarrow> (string \<times> uint64) list" where
  "note_req U rec reqs =
     (let sid = uuid_String U (StreamID rec)
      in if StreamSeq rec > seq_of reqs sid then AList.update sid (StreamSeq rec) reqs else reqs)"

definition TrackSegmentCoverage :: "uuids \<Rightarrow> string \<Rightarrow> LogRecord list \<Rightarrow> StreamStore \<Rightarrow> StreamStore" where
  "TrackSegmentCoverage U segPath records st =
     st\<lparr>segmentReqs := AList.update segPath (fold (note_req U) records []) (segmentReqs st)\<rparr>"

subsection \<open>Garbage collection of aggregated segments\<close>

definition req_covered :: "uuids \<Rightarrow> StreamStore \<Rightarrow> string \<times> uint64 \<Rightarrow> bool" where
  "req_covered U st req =
     (case uuid_Parse U (fst req) of
        None \<Rightarrow> True
      | Some i \<Rightarrow>
          (case getStream U i st of
             None \<Rightarrow> False
           | Some w \<Rightarrow> discovered w \<and> \<not> uploadedTo w < snd req))"

fun gc_loop ::
  "uuids \<Rightarrow> 'b Backend option \<Rightarrow> StreamStore \<Rightarrow> (string \<times> (string \<times> uint64) list) list \<Rightarrow> 'b \<Rightarrow>
   string list \<times> error list \<times> (string \<times> (string \<times> uint64) list) list \<times> 'b" where
  "gc_loop U backend st [] b = ([], [], [], b)"
| "gc_loop U backend st ((segPath, reqs) # rest) b =
     (if list_all (req_covered U st) reqs \<and> reqs \<noteq> [] then
        (case (case backend of None \<Rightarrow> (Inr (), b) | Some be \<Rightarrow> DeleteObject be '''' segPath b) of
           (Inl e, b) \<Rightarrow>
             (case gc_loop U backend st rest b of (del, errs, rest, b) \<Rightarrow> (del, e # errs, (segPath, reqs) # rest, b))
         | (Inr _, b) \<Rightarrow>
             (case gc_loop U backend st rest b of (del, errs, rest, b) \<Rightarrow> (segPath # del, errs, rest, b)))
      else case gc_loop U backend st rest b of (del, errs, rest, b) \<Rightarrow> (del, errs, (segPath, reqs) # rest, b))"

definition CheckSegmentGC ::
  "uuids \<Rightarrow> 'b Backend option \<Rightarrow> StreamStore \<Rightarrow> 'b \<Rightarrow> (string list \<times> error option) \<times> StreamStore \<times> 'b" where
  "CheckSegmentGC U backend st b =
     (case gc_loop U backend st (segmentReqs st) b of
        (deleted, errs, reqs, b) \<Rightarrow> ((deleted, Join errs), st\<lparr>segmentReqs := reqs\<rparr>, b))"

subsection \<open>Sealing and eviction\<close>

definition flush_writer :: "streamWriter \<Rightarrow> fs \<Rightarrow> 'b \<Rightarrow> error option \<times> streamWriter \<times> fs \<times> 'b" where
  "flush_writer w s b = (case flushPendingLocked w s of (e, w, s) \<Rightarrow> (e, w, s, b))"

definition flushAllPending :: "StreamStore \<Rightarrow> fs \<Rightarrow> StreamStore \<times> fs" where
  "flushAllPending st s =
     (case each_writer (\<lambda>w s b. if pending w \<noteq> [] then flush_writer w s b else (None, w, s, b)) (streams st) s () of
        (_, ws, s, _) \<Rightarrow> (st\<lparr>streams := ws\<rparr>, s))"

definition seal_due :: "StreamStore \<Rightarrow> streamWriter \<Rightarrow> fs \<Rightarrow> bool \<times> fs" where
  "seal_due st w s =
     (if recCount w = 0 then (False, s)
      else if int (fileSize w) \<ge> sealBytes st then (True, s)
      else case openTime w of
        None \<Rightarrow> (False, s)
      | Some t \<Rightarrow> (case time_Now s of (t', s) \<Rightarrow> (int t' - int t \<ge> sealInterval st, s)))"

definition seal_pass ::
  "uuids \<Rightarrow> 'b Backend option \<Rightarrow> StreamStore \<Rightarrow> streamWriter \<Rightarrow> fs \<Rightarrow> 'b \<Rightarrow> unit \<times> streamWriter \<times> fs \<times> 'b" where
  "seal_pass U backend st w s b =
     (case discover_once U backend w s b of (w, s, b) \<Rightarrow>
      case flushPendingLocked w s of (_, w, s) \<Rightarrow>
      case uploadPendingSealedLocked U backend w s b of (_, w, s, b) \<Rightarrow>
      case seal_due st w s of (due, s) \<Rightarrow>
      if due then (case sealLocked U backend w s b of (_, w, s, b) \<Rightarrow> ((), w, s, b)) else ((), w, s, b))"

definition idle :: "streamWriter \<Rightarrow> bool" where
  "idle w \<longleftrightarrow> pending w = [] \<and> recCount w = 0 \<and> \<not> sealedSinceLastPass w \<and> \<not> hasPendingSealedUploadsLocked w"

definition evictIdleWritersLocked :: "StreamStore \<Rightarrow> StreamStore" where
  \<comment> \<open>an evicted writer is no longer in the map\<close>
  "evictIdleWritersLocked st =
     st\<lparr>streams := map (\<lambda>(sid, w). (sid, w\<lparr>sealedSinceLastPass := False\<rparr>)) (filter (\<lambda>(_, w). \<not> idle w) (streams st))\<rparr>"

definition canEvictStream :: "uuids \<Rightarrow> uuid \<Rightarrow> uint64 \<Rightarrow> uint64 \<Rightarrow> StreamStore \<Rightarrow> bool" where
  "canEvictStream U streamID witnessSeq s3Seq st =
     (case getStream U streamID st of
        None \<Rightarrow> True
      | Some w \<Rightarrow> if \<not> idle w then False else witnessSeq \<le> uploadedTo w \<and> s3Seq \<le> uploadedTo w)"

definition checkSealsAndGC ::
  "uuids \<Rightarrow> 'b Backend option \<Rightarrow> StreamStore \<Rightarrow> fs \<Rightarrow> 'b \<Rightarrow> StreamStore \<times> fs \<times> 'b" where
  "checkSealsAndGC U backend st s b =
     (case each_writer (seal_pass U backend st) (streams st) s b of (_, ws, s, b) \<Rightarrow>
      case CheckSegmentGC U backend (st\<lparr>streams := ws\<rparr>) b of (_, st, b) \<Rightarrow>
      let st = evictIdleWritersLocked st in (st, saveCoverage st s, b))"

definition EnsureDiscovered ::
  "uuids \<Rightarrow> 'b Backend option \<Rightarrow> uuid \<Rightarrow> StreamStore \<Rightarrow> fs \<Rightarrow> 'b \<Rightarrow> uint64 \<times> StreamStore \<times> fs \<times> 'b" where
  "EnsureDiscovered U backend streamID st s b =
     (case getOrCreateStream U streamID st of (w, st) \<Rightarrow>
      case discover_once U backend w s b of (w, s, b) \<Rightarrow> (uploadedTo w, put_writer U streamID w st, s, b))"

definition SealStream ::
  "uuids \<Rightarrow> 'b Backend option \<Rightarrow> uuid \<Rightarrow> StreamStore \<Rightarrow> fs \<Rightarrow> 'b \<Rightarrow>
   (StreamMeta option \<times> error option) \<times> StreamStore \<times> fs \<times> 'b" where
  "SealStream U backend streamID st s b =
     (case getOrCreateStream U streamID st of (w, st) \<Rightarrow>
      case discover_once U backend w s b of (w, s, b) \<Rightarrow>
      case uploadPendingSealedLocked U backend w s b of (_, w, s, b) \<Rightarrow>
      case sealLocked U backend w s b of (r, w, s, b) \<Rightarrow>
      let st = put_writer U streamID w st in (r, st, saveCoverage st s, b))"

definition seal_one ::
  "uuids \<Rightarrow> 'b Backend option \<Rightarrow> streamWriter \<Rightarrow> fs \<Rightarrow> 'b \<Rightarrow>
   (StreamMeta option \<times> error list) \<times> streamWriter \<times> fs \<times> 'b" where
  "seal_one U backend w s b =
     (case discover_once U backend w s b of (w, s, b) \<Rightarrow>
      case uploadPendingSealedLocked U backend w s b of (e1, w, s, b) \<Rightarrow>
      case sealLocked U backend w s b of ((m, e2), w, s, b) \<Rightarrow> ((m, List.map_filter id [e1, e2]), w, s, b))"

definition SealAll ::
  "uuids \<Rightarrow> 'b Backend option \<Rightarrow> StreamStore \<Rightarrow> fs \<Rightarrow> 'b \<Rightarrow> (StreamMeta list \<times> error option) \<times> StreamStore \<times> fs \<times> 'b" where
  "SealAll U backend st s b =
     (case each_writer (seal_one U backend) (streams st) s b of (rs, ws, s, b) \<Rightarrow>
      let st = st\<lparr>streams := ws\<rparr>
      in ((List.map_filter fst rs, Join (concat (map snd rs))), st, saveCoverage st s, b))"

definition StreamStore_Close :: "StreamStore \<Rightarrow> fs \<Rightarrow> error option \<times> StreamStore \<times> fs" where
  "StreamStore_Close st s =
     (case each_writer flush_writer (streams st) s () of
        (es, ws, s, _) \<Rightarrow>
          (case List.map_filter id es of [] \<Rightarrow> None | e # _ \<Rightarrow> Some e, st\<lparr>streams := ws\<rparr>, s))"

subsection \<open>Recovery and retention\<close>

fun recover_streams ::
  "uuids \<Rightarrow> 'b Backend option \<Rightarrow> LogRecord list \<Rightarrow> uuid list \<Rightarrow> StreamStore \<Rightarrow> fs \<Rightarrow> 'b \<Rightarrow>
   error list \<times> StreamStore \<times> fs \<times> 'b" where
  "recover_streams U backend agg [] st s b = ([], st, s, b)"
| "recover_streams U backend agg (i # ids) st s b =
     (case getOrCreateStream U i st of (w, st) \<Rightarrow>
      case recoverStream U backend agg (ssAcceptUnversioned st) w s b of (e, w, s, b) \<Rightarrow>
      case recover_streams U backend agg ids (put_writer U i w st) s b of (es, st, s, b) \<Rightarrow>
        ((case e of None \<Rightarrow> es | Some e \<Rightarrow> e # es), st, s, b))"

definition Recover ::
  "uuids \<Rightarrow> 'b Backend option \<Rightarrow> LogRecord list \<Rightarrow> StreamStore \<Rightarrow> fs \<Rightarrow> 'b \<Rightarrow> error option \<times> StreamStore \<times> fs \<times> 'b" where
  "Recover U backend aggRecords st s b =
     (case os_ReadDir (PathJoin (dataDir st) ''streams'') s of
        (Inl e, s) \<Rightarrow> (Some e, st, s, b)
      | (Inr entries, s) \<Rightarrow>
          if list_ex (\<lambda>(sid, _). uuid_Parse U sid = None) (streams st)
          then (Some (ErrMsg ''invalid stream UUID''), st, s, b)
          else
            (let fromDirs = List.map_filter (\<lambda>(n, isDir). if isDir then uuid_Parse U n else None) entries;
                 known = List.map_filter (\<lambda>(sid, _). uuid_Parse U sid) (streams st)
             in case recover_streams U backend aggRecords (remdups (fromDirs @ map StreamID aggRecords @ known)) st s b of
                  (errs, st, s, b) \<Rightarrow> (Join errs, st, s, b)))"

fun trim_loop ::
  "'b Backend option \<Rightarrow> uint64 \<Rightarrow> uint64 \<Rightarrow> StreamMeta list \<Rightarrow> 'b \<Rightarrow> string list \<times> StreamMeta list \<times> error list \<times> 'b" where
  "trim_loop backend trimSeq snapshotSeq [] b = ([], [], [], b)"
| "trim_loop backend trimSeq snapshotSeq (sm # ms) b =
     (if smToSeq sm \<le> trimSeq \<and> smToSeq sm \<le> snapshotSeq \<and> smKey sm \<noteq> '''' then
        (case (case backend of None \<Rightarrow> (Inr (), b) | Some be \<Rightarrow> DeleteObject be '''' (smKey sm) b) of
           (Inl e, b) \<Rightarrow>
             (case trim_loop backend trimSeq snapshotSeq ms b of (del, rem, errs, b) \<Rightarrow> (del, sm # rem, e # errs, b))
         | (Inr _, b) \<Rightarrow>
             (case trim_loop backend trimSeq snapshotSeq ms b of (del, rem, errs, b) \<Rightarrow> (smKey sm # del, rem, errs, b)))
      else case trim_loop backend trimSeq snapshotSeq ms b of (del, rem, errs, b) \<Rightarrow> (del, sm # rem, errs, b))"

definition TrimStreamHistory ::
  "uuids \<Rightarrow> 'b Backend option \<Rightarrow> uuid \<Rightarrow> uint64 \<Rightarrow> uint64 \<Rightarrow> StreamStore \<Rightarrow> 'b \<Rightarrow>
   (string list \<times> error option) \<times> StreamStore \<times> 'b" where
  "TrimStreamHistory U backend streamID trimSeq snapshotSeq st b =
     (if snapshotSeq = 0 \<or> trimSeq = 0 then (([], None), st, b)
      else
        let trimSeq = (if trimSeq > snapshotSeq then snapshotSeq else trimSeq) in
        case getStream U streamID st of
          None \<Rightarrow> (([], None), st, b)
        | Some w \<Rightarrow>
            (case trim_loop backend trimSeq snapshotSeq (sealed w) b of
               (deleted, remaining, errs, b) \<Rightarrow>
                 ((deleted, Join errs), put_writer U streamID (w\<lparr>sealed := remaining\<rparr>) st, b)))"

subsection \<open>The background worker\<close>

inductive worker_step ::
  "uuids \<Rightarrow> 'b Backend option \<Rightarrow> StreamStore \<times> fs \<times> 'b \<Rightarrow> StreamStore \<times> fs \<times> 'b \<Rightarrow> bool"
  for U backend where
  \<comment> \<open>one round of the loop of \<open>periodicWorker\<close>\<close>
  notified: "writeNotify st \<Longrightarrow> flushAllPending (st\<lparr>writeNotify := False\<rparr>) s = (st', s') \<Longrightarrow>
    worker_step U backend (st, s, b) (st', s', b)"
| flush_tick: "flushAllPending st s = (st', s') \<Longrightarrow> worker_step U backend (st, s, b) (st', s', b)"
| seal_tick: "checkSealsAndGC U backend st s b = (st', s', b') \<Longrightarrow> worker_step U backend (st, s, b) (st', s', b')"

subsection \<open>Aggregated segments\<close>

definition SegmentsPrefix :: string where "SegmentsPrefix = ''streams/wal/segments/''"

definition segment_key :: "uint64 \<Rightarrow> uint64 \<Rightarrow> string" where
  \<comment> \<open>the name under which the server uploads an aggregated segment\<close>
  "segment_key firstP lastP = SegmentsPrefix @ pad0 12 (dec (unat firstP)) @ ''-'' @ pad0 12 (dec (unat lastP)) @ ''.wal''"

definition seg_entry :: "ObjectEntry \<Rightarrow> (string \<times> uint64 \<times> uint64) option" where
  "seg_entry entry =
     (if \<not> HasPrefix (Key entry) SegmentsPrefix \<or> \<not> HasSuffix (Key entry) ''.wal'' then None
      else case ParseSegmentPath (Key entry) of
        Inl _ \<Rightarrow> None
      | Inr (firstP, lastP) \<Rightarrow> Some (Key entry, firstP, lastP))"

definition ListSegmentsFromBackend :: "'b Backend \<Rightarrow> 'b \<Rightarrow> (error + string list \<times> uint64) \<times> 'b" where
  "ListSegmentsFromBackend be b =
     andThen (ListObjects be '''' SegmentsPrefix b) (\<lambda>entries b.
       let validEntries = List.map_filter seg_entry entries
       in (Inr (map fst (sort_key snd validEntries), fold max (map (snd \<circ> snd) validEntries) 0), b))"

definition ReadSegmentFromBackend :: "'b Backend \<Rightarrow> string \<Rightarrow> bool \<Rightarrow> 'b \<Rightarrow> (error + LogRecord list) \<times> 'b" where
  "ReadSegmentFromBackend be segPath acceptUnversioned b =
     andThen (GetObject be '''' segPath 0 0 b) (\<lambda>buf b.
       ((case ReadSegmentHeader buf acceptUnversioned of
           Inl e \<Rightarrow> if e = ErrEOF then Inr [] else Inl e
         | Inr (_, _, r) \<Rightarrow>
             (case decode_loop DecodeLogRecord r of (recs, e) \<Rightarrow> if e = ErrEOF then Inr recs else Inl e)), b))"

definition flush_segment ::
  "uuids \<Rightarrow> 'b Backend \<Rightarrow> LogRecord list \<Rightarrow> StreamStore \<Rightarrow> 'b \<Rightarrow> error option \<times> StreamStore \<times> 'b" where
  \<comment> \<open>what \<open>doFlush\<close> of the server does to object storage and to this store\<close>
  "flush_segment U be records st b =
     (if records = [] then (None, st, b)
      else
        let segPath = segment_key (Position (hd records)) (Position (last records));
            segBuf = SegmentHeader_Encode DefaultSegmentHeader @ concat (map LogRecord_Encode records)
        in case PutObject be '''' segPath segBuf b of
             (Inl e, b) \<Rightarrow> (Some e, st, b)
           | (Inr _, b) \<Rightarrow>
               (case CheckSegmentGC U (Some be) (TrackSegmentCoverage U segPath records st) b of
                  (_, st, b) \<Rightarrow> (None, st, b)))"

end
