(* ===== verification/StreamLib.thy ===== *)
theory StreamLib
  imports StreamStore ObjectLaws
begin

text \<open>
  What a stream is, on the local disk and in object storage, when no operation fails: its records
  are those of its sealed files, then those of its open file, then the pending ones, and every
  sealed file is in object storage. The lemmas show that every operation of a writer keeps this.
\<close>

subsection \<open>Names\<close>

definition opath :: "string \<Rightarrow> uint64 \<Rightarrow> string" where
  "opath D q = PathJoin D (FormatStreamFileName q 0 False)"

definition part_path :: "string \<Rightarrow> LogRecord list \<Rightarrow> string" where
  "part_path D rs = PathJoin D (FormatStreamFileName (StreamSeq (hd rs)) (StreamSeq (last rs)) True)"

definition part_key :: "uuids \<Rightarrow> uuid \<Rightarrow> LogRecord list \<Rightarrow> string" where
  "part_key U i rs = FormatStreamObjectKey (uuid_String U) i (StreamSeq (hd rs)) (StreamSeq (last rs))"

definition stream_prefix :: "uuids \<Rightarrow> uuid \<Rightarrow> string" where
  "stream_prefix U i = ''streams/'' @ uuid_String U i @ ''/''"

definition stream_dir :: "uuids \<Rightarrow> string \<Rightarrow> uuid \<Rightarrow> string" where
  "stream_dir U d i = PathJoin (PathJoin d ''streams'') (uuid_String U i)"

lemma stream_name_parse [simp]: "ParseStreamPath (FormatStreamFileName a b c) = Inr (a, if c then b else 0, c)"
proof (rule ParseStreamPath_name)
  let ?n = "FormatStreamFileName a b c"
  show "\<not> reserved_path ?n"
    by (simp add: reserved_path_def FormatStreamFileName_def TrimPrefix_def HasPrefix_def)
  have "?n \<noteq> []" by (simp add: FormatStreamFileName_def)
  then have tw: "takeWhile (\<lambda>c. c \<noteq> CHR ''/'') (rev ?n) = rev ?n" "dropWhile (\<lambda>c. c = CHR ''/'') (rev ?n) = rev ?n"
    using stream_name_no_slash [of a b c] last_in_set [OF \<open>?n \<noteq> []\<close>]
    by (auto simp: takeWhile_eq_all_conv dropWhile_eq_self_iff hd_rev simp del: last_in_set)
  with \<open>?n \<noteq> []\<close> show "Base ?n = ?n" by (simp only: Base_def Let_def tw rev_rev_ident if_False)
qed

lemma stream_name_inject [simp]:
  "FormatStreamFileName a b c = FormatStreamFileName a' b' c' \<longleftrightarrow> a = a' \<and> c = c' \<and> (c \<longrightarrow> b = b')"
proof
  assume "FormatStreamFileName a b c = FormatStreamFileName a' b' c'"
  then have "ParseStreamPath (FormatStreamFileName a b c) = ParseStreamPath (FormatStreamFileName a' b' c')" by simp
  then show "a = a' \<and> c = c' \<and> (c \<longrightarrow> b = b')" by (auto split: if_splits)
qed (auto simp: FormatStreamFileName_def)

lemma part_key_parse:
  assumes "uuids_ok U"
  shows "ParseStreamPath (part_key U i rs) = Inr (StreamSeq (hd rs), StreamSeq (last rs), True)"
proof -
  let ?n = "FormatStreamFileName (StreamSeq (hd rs)) (StreamSeq (last rs)) True"
  have "CHR ''/'' \<notin> set (uuid_String U i)" "length (uuid_String U i) = 36" using assms by (auto simp: uuids_ok_def)
  then have "\<not> reserved_path (PathJoin (''streams/'' @ uuid_String U i) ?n)" by (intro stream_key_not_reserved) auto
  moreover have "Base (PathJoin (''streams/'' @ uuid_String U i) ?n) = ?n"
    by (rule Base_PathJoin) (simp add: FormatStreamFileName_def, rule stream_name_no_slash)
  ultimately show ?thesis
    using ParseStreamPath_name by (simp add: part_key_def FormatStreamObjectKey_eq)
qed

lemma part_key_prefix [simp]: "HasPrefix (part_key U i rs) (stream_prefix U i)"
  by (simp add: part_key_def FormatStreamObjectKey_def stream_prefix_def HasPrefix_def)

lemma open_path_opath: "open_path w = opath (wDir w) (openFrom w)"
  by (simp add: open_path_def opath_def)

lemma stream_prefix_disjoint:
  assumes "uuids_ok U" "HasPrefix k (stream_prefix U i)" "HasPrefix k (stream_prefix U j)"
  shows "i = j"
proof -
  have l: "length (uuid_String U x) = 36" for x using assms(1) by (simp add: uuids_ok_def)
  have "take 45 k = stream_prefix U i" "take 45 k = stream_prefix U j"
    using assms(2,3) by (simp_all add: HasPrefix_def stream_prefix_def l)
  then have "uuid_String U i = uuid_String U j" by (simp add: stream_prefix_def)
  then have "uuid_Parse U (uuid_String U i) = uuid_Parse U (uuid_String U j)" by simp
  with assms(1) show ?thesis by (simp add: uuids_ok_def)
qed

lemma uuid_String_inject: "uuids_ok U \<Longrightarrow> uuid_String U i = uuid_String U j \<longleftrightarrow> i = j"
  by (metis uuids_ok_def option.inject)

lemma stream_dir_disjoint:
  assumes "uuids_ok U" "PathJoin (stream_dir U d i) n = PathJoin (stream_dir U d j) m"
  shows "i = j"
proof -
  have l: "length (uuid_String U x) = 36" for x using assms(1) by (simp add: uuids_ok_def)
  from assms(2) have "uuid_String U i @ CHR ''/'' # n = uuid_String U j @ CHR ''/'' # m"
    by (simp add: stream_dir_def PathJoin_def)
  then have "uuid_String U i = uuid_String U j" using l by (simp add: append_eq_append_conv)
  with assms(1) show ?thesis by (simp add: uuid_String_inject)
qed

lemma segment_not_stream:
  assumes "uuids_ok U" "HasPrefix k SegmentsPrefix"
  shows "\<not> HasPrefix k (stream_prefix U i)"
proof
  assume p: "HasPrefix k (stream_prefix U i)"
  have l: "length (uuid_String U i) = 36" "CHR ''/'' \<notin> set (uuid_String U i)" using assms(1) by (auto simp: uuids_ok_def)
  have "k ! 11 = CHR ''/''"
    using arg_cong [OF assms(2) [unfolded HasPrefix_def], of "\<lambda>x. x ! 11"] by (simp add: SegmentsPrefix_def)
  moreover have "k ! 11 = uuid_String U i ! 3"
    using arg_cong [OF p [unfolded HasPrefix_def], of "\<lambda>x. x ! 11"] l(1) by (simp add: stream_prefix_def nth_append)
  moreover have "uuid_String U i ! 3 \<in> set (uuid_String U i)" using l(1) by simp
  ultimately show False using l(2) by simp
qed

subsection \<open>Contents\<close>

definition content :: "string \<Rightarrow> fs \<Rightarrow> bytes option" where
  "content p s = map_option fdata (get_file p s)"

lemma content_ops [simp]:
  "content q (set_file p f s) = (if q = p then Some (fdata f) else content q s)"
  "content q (del_file p s) = (if q = p then None else content q s)"
  "content q (append_file p d s) = (if q = p then map_option (\<lambda>x. x @ d) (content q s) else content q s)"
  "content q (s\<lparr>clock := c\<rparr>) = content q s"
  by (auto simp: content_def option.map_comp comp_def split: option.splits)

lemma content_None: "content p s = None \<longleftrightarrow> get_file p s = None"
  by (simp add: content_def)

lemma clean_Open: "faults s = [] \<Longrightarrow> os_Open p s = (case content p s of None \<Rightarrow> Inl ErrNotExist | Some d \<Rightarrow> Inr d, s)"
  by (auto simp: os_Open_def content_def split: option.splits)

lemma clean_Stat: "faults s = [] \<Longrightarrow> os_Stat_size p s = (case content p s of None \<Rightarrow> Inl ErrNotExist | Some d \<Rightarrow> Inr (length d), s)"
  by (auto simp: os_Stat_size_def content_def split: option.splits)

lemma clean_OpenAppend:
  "faults s = [] \<Longrightarrow> \<exists>s'. os_OpenAppend p s = (None, s') \<and> faults s' = [] \<and>
     (\<forall>q. content q s' = (if q = p \<and> content p s = None then Some [] else content q s))"
  by (cases "get_file p s") (auto simp: os_OpenAppend_def content_None content_def)

lemma clean_Sync: "faults s = [] \<Longrightarrow> \<exists>s'. file_Sync p s = (None, s') \<and> faults s' = [] \<and> (\<forall>q. content q s' = content q s)"
  by (auto simp: file_Sync_def content_def split: option.splits)

lemma clean_Rename:
  "faults s = [] \<Longrightarrow> content a s = Some d \<Longrightarrow> \<exists>s'. os_Rename a b s = (None, s') \<and> faults s' = [] \<and>
     (\<forall>q. content q s' = (if q = b then Some d else if q = a then None else content q s))"
  by (auto simp: os_Rename_def content_def split: option.splits)

lemma clean_calls:
  "faults s = [] \<Longrightarrow> os_MkdirAll d s = (None, s)"
  "faults s = [] \<Longrightarrow> file_Close p s = (None, s)"
  "faults s = [] \<Longrightarrow> file_Write p x s = (None, append_file p x s)"
  "faults s = [] \<Longrightarrow> os_ReadDir d s = (Inr (dir_list d s), s)"
  by (simp_all add: os_MkdirAll_def file_Close_def file_Write_def os_ReadDir_def)

lemma faults_append_file [simp]: "faults (append_file p d s) = faults s"
  by (simp add: append_file_def split: option.splits)

subsection \<open>Well-formed streams\<close>

definition seg_bytes :: "LogRecord list \<Rightarrow> bytes" where
  "seg_bytes rs = SegmentHeader_Encode DefaultSegmentHeader @ concat (map LogRecord_Encode rs)"

definition hist_ok :: "uuid \<Rightarrow> LogRecord list \<Rightarrow> bool" where
  \<comment> \<open>what the server appends to a stream: well-formed records with increasing sequence numbers\<close>
  "hist_ok i hist \<longleftrightarrow>
     sorted_wrt (<) (map StreamSeq hist) \<and> (\<forall>r\<in>set hist. 0 < StreamSeq r \<and> StreamID r = i \<and> log_ok r)"

definition part_of :: "LogRecord list list \<Rightarrow> uint64 \<Rightarrow> uint64 \<Rightarrow> bool" where
  "part_of parts f t \<longleftrightarrow> (\<exists>rs\<in>set parts. f = StreamSeq (hd rs) \<and> t = StreamSeq (last rs))"

definition disk_ok :: "string \<Rightarrow> LogRecord list list \<Rightarrow> LogRecord list \<Rightarrow> fs \<Rightarrow> bool" where
  "disk_ok D parts opn s \<longleftrightarrow>
     (\<forall>rs\<in>set parts. content (part_path D rs) s = Some (seg_bytes rs)) \<and>
     (\<forall>n f t. CHR ''/'' \<notin> set n \<and> content (PathJoin D n) s \<noteq> None \<and> ParseStreamPath n = Inr (f, t, True) \<longrightarrow> part_of parts f t) \<and>
     (\<forall>q. content (opath D q) s = (if opn \<noteq> [] \<and> q = StreamSeq (hd opn) then Some (seg_bytes opn) else None))"

definition remote_ok :: "uuids \<Rightarrow> uuid \<Rightarrow> LogRecord list list \<Rightarrow> (string \<Rightarrow> bytes option) \<Rightarrow> bool" where
  "remote_ok U i parts ob \<longleftrightarrow>
     (\<forall>rs\<in>set parts. ob (part_key U i rs) = Some (seg_bytes rs)) \<and>
     (\<forall>k f t. ob k \<noteq> None \<and> HasPrefix k (stream_prefix U i) \<and> ParseStreamPath k = Inr (f, t, True) \<longrightarrow> part_of parts f t)"

definition writer_ok :: "string \<Rightarrow> uuid \<Rightarrow> LogRecord list list \<Rightarrow> LogRecord list \<Rightarrow> streamWriter \<Rightarrow> bool" where
  "writer_ok D i parts opn w \<longleftrightarrow>
     wStreamID w = i \<and> wDir w = D \<and> \<not> evicted w \<and> recCount w = length opn \<and>
     (lastSeq w = 0 \<or> lastSeq w \<in> StreamSeq ` set (concat parts @ opn)) \<and>
     (opn \<noteq> [] \<longrightarrow> openFrom w = StreamSeq (hd opn) \<and> lastSeq w = StreamSeq (last opn)) \<and>
     (if discovered w
      then list_all (\<lambda>m. smKey m \<noteq> []) (sealed w) \<and> (uploadedTo w = 0 \<or> (\<exists>f. part_of parts f (uploadedTo w)))
      else sealed w = [] \<and> uploadedTo w = 0)"

definition stream_ok ::
  "uuids \<Rightarrow> string \<Rightarrow> uuid \<Rightarrow> LogRecord list \<Rightarrow> streamWriter \<Rightarrow> fs \<Rightarrow> (string \<Rightarrow> bytes option) \<Rightarrow> bool" where
  "stream_ok U D i hist w s ob \<longleftrightarrow>
     hist_ok i hist \<and>
     (\<exists>parts opn. hist = concat parts @ opn @ pending w \<and> [] \<notin> set parts \<and>
        disk_ok D parts opn s \<and> remote_ok U i parts ob \<and> writer_ok D i parts opn w)"

lemma seg_bytes_append: "seg_bytes (a @ b) = seg_bytes a @ concat (map LogRecord_Encode b)"
  by (simp add: seg_bytes_def)

lemma stream_okE:
  assumes "stream_ok U D i hist w s ob"
  obtains parts opn where "hist_ok i hist" "hist = concat parts @ opn @ pending w" "[] \<notin> set parts"
    "disk_ok D parts opn s" "remote_ok U i parts ob" "writer_ok D i parts opn w"
  using assms unfolding stream_ok_def by blast

lemma stream_okI:
  assumes "hist_ok i hist" "hist = concat parts @ opn @ pending w" "[] \<notin> set parts"
    "disk_ok D parts opn s" "remote_ok U i parts ob" "writer_ok D i parts opn w"
  shows "stream_ok U D i hist w s ob"
  using assms unfolding stream_ok_def by blast

lemma disk_okD:
  "disk_ok D parts opn s \<Longrightarrow> CHR ''/'' \<notin> set n \<Longrightarrow> content (PathJoin D n) s \<noteq> None \<Longrightarrow>
   ParseStreamPath n = Inr (f, t, True) \<Longrightarrow> part_of parts f t"
  unfolding disk_ok_def by blast

lemma remote_okD:
  "remote_ok U i parts ob \<Longrightarrow> ob k \<noteq> None \<Longrightarrow> HasPrefix k (stream_prefix U i) \<Longrightarrow>
   ParseStreamPath k = Inr (f, t, True) \<Longrightarrow> part_of parts f t"
  unfolding remote_ok_def by blast

lemma stream_ok_frame:
  assumes "stream_ok U D i hist w s ob" "\<And>n. content (PathJoin D n) s' = content (PathJoin D n) s"
    and "\<And>k. HasPrefix k (stream_prefix U i) \<Longrightarrow> ob' k = ob k"
  shows "stream_ok U D i hist w s' ob'"
proof -
  have "disk_ok D parts opn s' = disk_ok D parts opn s" for parts opn
    by (simp add: disk_ok_def part_path_def opath_def assms(2))
  moreover have "(ob' k \<noteq> None \<and> HasPrefix k (stream_prefix U i) \<and> X) = (ob k \<noteq> None \<and> HasPrefix k (stream_prefix U i) \<and> X)" for k X
    using assms(3) [of k] by (cases "HasPrefix k (stream_prefix U i)") simp_all
  then have "remote_ok U i parts ob' = remote_ok U i parts ob" for parts
    by (simp only: remote_ok_def assms(3) [OF part_key_prefix])
  ultimately show ?thesis using assms(1) by (simp add: stream_ok_def)
qed

lemma sorted_seq_less:
  assumes "hist_ok i (a @ b)" "x \<in> set a" "y \<in> set b"
  shows "StreamSeq x < StreamSeq y"
  using assms by (auto simp: hist_ok_def sorted_wrt_append)

lemma sorted_seq_le_last:
  assumes "hist_ok i a" "x \<in> set a"
  shows "StreamSeq x \<le> StreamSeq (last a)"
proof -
  from assms(2) have a: "a = butlast a @ [last a]" by (metis append_butlast_last_id empty_iff empty_set)
  show ?thesis
  proof (cases "x \<in> set (butlast a)")
    case True
    with sorted_seq_less [of i "butlast a" "[last a]" x] assms(1) a show ?thesis by (simp add: less_imp_le)
  next
    case False
    with a assms(2) have "x = last a" by (metis Un_iff empty_iff insert_iff list.simps(15) set_append empty_set)
    then show ?thesis by simp
  qed
qed

lemma hist_ok_appendD: "hist_ok i (a @ b) \<Longrightarrow> hist_ok i a \<and> hist_ok i b"
  by (auto simp: hist_ok_def sorted_wrt_append)

text \<open>Appending, and a writer that was evicted and created again.\<close>

lemma append_ok:
  assumes "stream_ok U D i hist w s ob" "hist_ok i (hist @ rs)"
  shows "stream_ok U D i (hist @ rs) (w\<lparr>pending := pending w @ rs\<rparr>) s ob"
  using assms(1)
proof (rule stream_okE)
  fix parts opn
  assume "hist = concat parts @ opn @ pending w" "[] \<notin> set parts" "disk_ok D parts opn s" "remote_ok U i parts ob"
    "writer_ok D i parts opn w"
  with assms(2) show ?thesis
    by (intro stream_okI [where parts = parts and opn = opn]) (simp_all add: writer_ok_def)
qed

lemma evict_ok:
  assumes "stream_ok U D i hist w s ob" "idle w" "D = stream_dir U d i"
  shows "stream_ok U D i hist (new_writer U d i) s ob"
  using assms(1)
proof (rule stream_okE)
  fix parts opn
  assume "hist_ok i hist" "hist = concat parts @ opn @ pending w" "[] \<notin> set parts" "disk_ok D parts opn s" "remote_ok U i parts ob"
    "writer_ok D i parts opn w"
  with assms(2,3) show ?thesis
    by (intro stream_okI [where parts = parts and opn = "[]"])
      (simp_all add: writer_ok_def new_writer_def stream_dir_def idle_def)
qed

subsection \<open>Flushing\<close>

lemma fold_note_seqs [simp]:
  "wStreamID (fold note_seqs rs w) = wStreamID w" "wDir (fold note_seqs rs w) = wDir w"
  "openFrom (fold note_seqs rs w) = openFrom w" "sealed (fold note_seqs rs w) = sealed w"
  "uploadedTo (fold note_seqs rs w) = uploadedTo w" "discovered (fold note_seqs rs w) = discovered w"
  "evicted (fold note_seqs rs w) = evicted w" "recCount (fold note_seqs rs w) = recCount w + length rs"
  "openTime (fold note_seqs rs w) = openTime w"
  by (induction rs arbitrary: w) (simp_all add: note_seqs_def)

lemma lastSeq_note_seqs: "lastSeq (note_seqs r w) = (if StreamSeq r > lastSeq w then StreamSeq r else lastSeq w)"
  by (simp add: note_seqs_def)

lemma lastSeq_fold:
  assumes "rs \<noteq> []" "hist_ok i rs" "\<forall>r\<in>set rs. lastSeq w < StreamSeq r"
  shows "lastSeq (fold note_seqs rs w) = StreamSeq (last rs)"
  using assms
proof (induction rs rule: rev_induct)
  case (snoc r rs)
  show ?case
  proof (cases "rs = []")
    case True
    with snoc.prems(3) show ?thesis by (simp add: lastSeq_note_seqs)
  next
    case False
    with snoc have "lastSeq (fold note_seqs rs w) = StreamSeq (last rs)" by (auto dest: hist_ok_appendD)
    moreover have "StreamSeq (last rs) < StreamSeq r" using sorted_seq_less [OF snoc.prems(2), of "last rs" r] False by simp
    ultimately show ?thesis by (simp add: lastSeq_note_seqs)
  qed
qed simp

lemma start_file_clean:
  "\<exists>s' t. start_file w s = (w\<lparr>openFrom := (if recCount w = 0 \<or> openFrom w = 0 then StreamSeq (hd (pending w)) else openFrom w),
       openTime := t\<rparr>, s') \<and> faults s' = faults s \<and> (\<forall>q. content q s' = content q s)"
proof (cases "openTime w")
  case None
  then show ?thesis by (auto simp: start_file_def Let_def time_Now_def)
next
  case (Some a)
  then have "w\<lparr>openFrom := q, openTime := Some a\<rparr> = w\<lparr>openFrom := q\<rparr>" "w\<lparr>openFrom := openFrom w\<rparr> = w" for q
    by (cases w; simp)+
  with Some show ?thesis by (intro exI [of _ s] exI [of _ "Some a"]) (simp add: start_file_def Let_def)
qed

lemma flush_ok:
  assumes ok: "stream_ok U D i hist w s ob" and cl: "faults s = []" and F: "flushPendingLocked w s = (e, w', s')"
  shows "e = None \<and> faults s' = [] \<and> stream_ok U D i hist w' s' ob \<and> pending w' = [] \<and> discovered w' = discovered w \<and>
    sealed w' = sealed w \<and> (\<forall>p. (\<forall>n. p \<noteq> PathJoin D n) \<longrightarrow> content p s' = content p s)"
proof (cases "pending w = []")
  case True
  with ok cl F show ?thesis by (auto simp: flushPendingLocked_def)
next
  case False
  from ok obtain parts opn where H: "hist_ok i hist" "hist = concat parts @ opn @ pending w" "[] \<notin> set parts"
    "disk_ok D parts opn s" "remote_ok U i parts ob" and W: "writer_ok D i parts opn w" by (rule stream_okE)
  define Q where "Q = (if recCount w = 0 \<or> openFrom w = 0 then StreamSeq (hd (pending w)) else openFrom w)"
  let ?opn = "opn @ pending w"
  have pos: "0 < StreamSeq r" if "r \<in> set hist" for r using H(1) that by (simp add: hist_ok_def)
  have q: "Q = StreamSeq (hd ?opn)"
  proof (cases "opn = []")
    case True
    with W show ?thesis by (simp add: writer_ok_def Q_def)
  next
    case False
    then have "StreamSeq (hd opn) \<noteq> 0" using pos [of "hd opn"] H(2) by (auto simp: word_gt_0)
    with W False show ?thesis by (simp add: writer_ok_def Q_def)
  qed
  obtain s1 t where S: "start_file w s = (w\<lparr>openFrom := Q, openTime := t\<rparr>, s1)" "faults s1 = []" "\<And>q. content q s1 = content q s"
    using start_file_clean [of w s] cl unfolding Q_def [symmetric] by auto
  let ?w = "w\<lparr>openFrom := Q, openTime := t\<rparr>"
  have D: "wDir w = D" using W by (simp add: writer_ok_def)
  let ?p = "opath D Q"
  obtain s2 where O2: "os_OpenAppend ?p s1 = (None, s2)" "faults s2 = []"
    "\<And>q. content q s2 = (if q = ?p \<and> content ?p s1 = None then Some [] else content q s1)"
    using clean_OpenAppend [OF S(2), of ?p] by auto
  have old: "content ?p s = (if opn = [] then None else Some (seg_bytes opn))"
    using H(2,4) q pos sorted_seq_less [of i opn "pending w" "hd opn" "hd (pending w)"] hist_ok_appendD [of i "concat parts"] H(1) False
    by (auto simp: disk_ok_def)
  define hdr where "hdr = (if opn = [] then SegmentHeader_Encode DefaultSegmentHeader else [])"
  let ?buf = "hdr @ concat (map LogRecord_Encode (pending w))"
  have stat: "(case (case content ?p s1 of None \<Rightarrow> Inl ErrNotExist | Some d \<Rightarrow> Inr (length d)) of
      Inl _ \<Rightarrow> SegmentHeader_Encode DefaultSegmentHeader
    | Inr n \<Rightarrow> if n = 0 then SegmentHeader_Encode DefaultSegmentHeader else []) = hdr"
    using old S(3) by (auto simp: seg_bytes_def hdr_def)
  define w1 where "w1 = (fold note_seqs (pending w) ?w)\<lparr>pending := []\<rparr>"
  have op: "open_path ?w = ?p" "open_path w1 = ?p" using D by (simp_all add: open_path_opath w1_def)
  have res: "e = None" "w' = w1\<lparr>fileSize := fileSize w1 + length ?buf\<rparr>" "s' = append_file ?p ?buf s2"
    using F False
    unfolding flushPendingLocked_def clean_calls(1) [OF cl] S(1) prod.case option.case op clean_Stat [OF S(2)] O2(1) Let_def
      streamWriter.simps stat clean_calls(3) [OF O2(2)]
    by (auto simp: clean_calls(2) O2(2) w1_def op(2) [unfolded w1_def])
  have c: "content q s' = (if q = ?p then Some (seg_bytes ?opn) else content q s)" for q
    using old by (simp add: res(3) O2(3) S(3) seg_bytes_def hdr_def)
  have disk: "disk_ok D parts ?opn s'"
    using H(4) False unfolding disk_ok_def c q
    by (auto simp: part_path_def opath_def split: if_splits)
  have lt: "lastSeq w < StreamSeq r" if "r \<in> set (pending w)" for r
  proof -
    from W consider "lastSeq w = 0" | x where "x \<in> set (concat parts @ opn)" "lastSeq w = StreamSeq x"
      unfolding writer_ok_def by blast
    then show ?thesis
      using that pos [of r] sorted_seq_less [of i "concat parts @ opn" "pending w" _ r] H(1,2) by cases simp_all
  qed
  have ls: "lastSeq w1 = StreamSeq (last (pending w))"
    using lastSeq_fold [of "pending w" i ?w] False lt hist_ok_appendD [of i "concat parts @ opn" "pending w"] H(1,2) by (simp add: w1_def)
  have "writer_ok D i parts ?opn w'"
    using W False ls q unfolding res(2) writer_ok_def by (simp add: w1_def)
  moreover have "pending w' = []" by (simp add: res(2) w1_def)
  ultimately have "stream_ok U D i hist w' s' ob"
    using H disk by (intro stream_okI [where parts = parts and opn = ?opn]) simp_all
  moreover have "content p s' = content p s" if "\<forall>n. p \<noteq> PathJoin D n" for p
    using that by (simp add: c opath_def)
  ultimately show ?thesis using res O2(2) by (simp add: w1_def)
qed

subsection \<open>Discovery\<close>

abbreviation meta_id :: "StreamMeta \<Rightarrow> uint64 \<times> uint64" where
  "meta_id m \<equiv> (smFromSeq m, smToSeq m)"

definition known_ok :: "LogRecord list list \<Rightarrow> streamWriter \<Rightarrow> streamWriter \<Rightarrow> bool" where
  \<comment> \<open>what discovery may change of the writer \<open>w0\<close>\<close>
  "known_ok parts w0 w \<longleftrightarrow>
     wStreamID w = wStreamID w0 \<and> wDir w = wDir w0 \<and> openFrom w = openFrom w0 \<and> recCount w = recCount w0 \<and>
     pending w = pending w0 \<and> evicted w = evicted w0 \<and>
     distinct (map meta_id (sealed w)) \<and> (\<forall>m\<in>set (sealed w). part_of parts (smFromSeq m) (smToSeq m)) \<and>
     lastSeq w0 \<le> lastSeq w \<and> (lastSeq w = lastSeq w0 \<or> (\<exists>f. part_of parts f (lastSeq w))) \<and>
     (uploadedTo w = 0 \<or> (\<exists>f. part_of parts f (uploadedTo w)))"

lemma update_first_None: "update_first P f xs = None \<longleftrightarrow> (\<forall>x\<in>set xs. \<not> P x)"
  by (induction xs) auto

lemma update_first_distinct:
  assumes "distinct (map g xs)" "\<And>x. P x \<longleftrightarrow> g x = k" "k \<in> g ` set xs"
  shows "update_first P f xs = Some (map (\<lambda>x. if g x = k then f x else x) xs)"
  using assms(1,3)
proof (induction xs)
  case (Cons x xs)
  show ?case
  proof (cases "g x = k")
    case True
    with Cons.prems(1) have "k \<notin> g ` set xs" by simp
    then have "map (\<lambda>x. if g x = k then f x else x) xs = xs" by (intro map_idI) (auto simp: image_iff)
    with True show ?thesis by (simp add: assms(2))
  next
    case False
    with Cons show ?thesis by (auto simp: assms(2))
  qed
qed simp

lemma note_sealed_eq:
  assumes "distinct (map meta_id ms)"
  shows "note_sealed m upd ms =
    (if meta_id m \<in> meta_id ` set ms then map (\<lambda>x. if meta_id x = meta_id m then upd x else x) ms else ms @ [m])"
proof (cases "meta_id m \<in> meta_id ` set ms")
  case True
  from update_first_distinct [OF assms _ True, of "\<lambda>sm. smFromSeq sm = smFromSeq m \<and> smToSeq sm = smToSeq m" upd]
  show ?thesis using True by (simp add: note_sealed_def)
next
  case False
  then have "update_first (\<lambda>sm. smFromSeq sm = smFromSeq m \<and> smToSeq sm = smToSeq m) upd ms = None"
    by (auto simp: update_first_None image_iff)
  with False show ?thesis by (simp only: note_sealed_def option.case if_False)
qed

lemma note_sealed_ids:
  assumes "distinct (map meta_id ms)" "\<And>x. meta_id (upd x) = meta_id x"
  shows "distinct (map meta_id (note_sealed m upd ms))"
    "meta_id ` set (note_sealed m upd ms) = insert (meta_id m) (meta_id ` set ms)"
proof -
  let ?ms = "map (\<lambda>x. if meta_id x = meta_id m then upd x else x) ms"
  have 1: "map meta_id ?ms = map meta_id ms"
    using assms(2) by (auto simp: list.map_comp comp_def)
  have 2: "meta_id ` set ?ms = meta_id ` set ms" unfolding set_map [symmetric] 1 ..
  show "distinct (map meta_id (note_sealed m upd ms))"
    "meta_id ` set (note_sealed m upd ms) = insert (meta_id m) (meta_id ` set ms)"
    using assms(1) 1 2 unfolding note_sealed_eq [OF assms(1)]
    by (cases "meta_id m \<in> meta_id ` set ms"; simp only: if_True if_False insert_absorb; simp add: image_iff)+
qed

lemma note_sealed_parts:
  assumes "distinct (map meta_id ms)" "\<And>x. meta_id (upd x) = meta_id x" "part_of parts (smFromSeq m) (smToSeq m)"
    and "\<forall>x\<in>set ms. part_of parts (smFromSeq x) (smToSeq x)"
  shows "\<forall>x\<in>set (note_sealed m upd ms). part_of parts (smFromSeq x) (smToSeq x)"
proof
  fix x assume "x \<in> set (note_sealed m upd ms)"
  then have "meta_id x \<in> insert (meta_id m) (meta_id ` set ms)" using note_sealed_ids(2) [OF assms(1,2)] by blast
  with assms(3,4) show "part_of parts (smFromSeq x) (smToSeq x)" by auto
qed

lemma known_ok_note:
  assumes "known_ok parts w0 w" "\<And>x. meta_id (upd x) = meta_id x" "part_of parts (smFromSeq m) (smToSeq m)"
    and "u = uploadedTo w \<or> u = smToSeq m" "l = (if smToSeq m > lastSeq w then smToSeq m else lastSeq w)"
  shows "known_ok parts w0 (w\<lparr>lastSeq := l, sealed := note_sealed m upd (sealed w), uploadedTo := u\<rparr>)"
proof -
  have d: "distinct (map meta_id (sealed w))" "\<forall>x\<in>set (sealed w). part_of parts (smFromSeq x) (smToSeq x)"
    using assms(1) by (simp_all add: known_ok_def)
  have l: "lastSeq w0 \<le> l \<and> (l = lastSeq w0 \<or> (\<exists>f. part_of parts f l))" "u = 0 \<or> (\<exists>f. part_of parts f u)"
    using assms(1,3,4,5) by (auto simp: known_ok_def)
  note note_sealed_ids(1) [OF d(1), where upd = upd, OF assms(2), of m]
    note_sealed_parts [OF d(1), where upd = upd, OF assms(2,3) d(2)]
  with assms(1) l show ?thesis by (simp add: known_ok_def)
qed

lemma discover_local_ok:
  assumes "known_ok parts w0 w"
    "\<And>f t. \<not> snd e \<Longrightarrow> ParseStreamPath (fst e) = Inr (f, t, True) \<Longrightarrow> part_of parts f t"
  shows "known_ok parts w0 (discover_local e w)"
proof (cases "\<exists>f t. \<not> snd e \<and> ParseStreamPath (fst e) = Inr (f, t, True)")
  case False
  then have "discover_local e w = w" by (auto simp: discover_local_def split: sum.splits)
  with assms(1) show ?thesis by simp
next
  case True
  then obtain f t where e: "\<not> snd e" "ParseStreamPath (fst e) = Inr (f, t, True)" by blast
  let ?m = "\<lparr>smFromSeq = f, smToSeq = t, smToPos = 0, smPath = PathJoin (wDir w) (fst e), smKey = []\<rparr>"
  let ?u = "\<lambda>sm. if smPath sm = [] then sm\<lparr>smPath := PathJoin (wDir w) (fst e)\<rparr> else sm"
  have p: "part_of parts f t" using assms(2) e by blast
  have "discover_local e w = w\<lparr>lastSeq := (if smToSeq ?m > lastSeq w then smToSeq ?m else lastSeq w),
      sealed := note_sealed ?m ?u (sealed w), uploadedTo := uploadedTo w\<rparr>"
    by (intro streamWriter.equality) (simp_all add: discover_local_def e Let_def)
  then show ?thesis using known_ok_note [OF assms(1), of ?u ?m "uploadedTo w"] p by simp
qed

lemma fold_discover_local:
  assumes "known_ok parts w0 w" "\<And>n f t. (n, False) \<in> set es \<Longrightarrow> ParseStreamPath n = Inr (f, t, True) \<Longrightarrow> part_of parts f t"
  shows "known_ok parts w0 (fold discover_local es w)"
  using assms
proof (induction es arbitrary: w)
  case (Cons e es)
  have "known_ok parts w0 (discover_local e w)"
    using Cons.prems(1)
  proof (rule discover_local_ok)
    fix f t assume "\<not> snd e" "ParseStreamPath (fst e) = Inr (f, t, True)"
    with Cons.prems(2) [of "fst e" f t] show "part_of parts f t" by (cases e) simp
  qed
  from Cons.IH [OF this Cons.prems(2) [OF list.set_intros(2)]] show ?case by simp
qed simp

definition keyed :: "ObjectEntry list \<Rightarrow> streamWriter \<Rightarrow> bool" where
  \<comment> \<open>the metadata that have an object among the entries have their key\<close>
  "keyed es w \<longleftrightarrow> (\<forall>m\<in>set (sealed w). smKey m = [] \<longrightarrow>
     (\<forall>e\<in>set es. ParseStreamPath (Key e) \<noteq> Inr (smFromSeq m, smToSeq m, True)))"

lemma ParseStreamPath_Nil: "ParseStreamPath [] = Inr x \<Longrightarrow> False"
  by (simp add: ParseStreamPath_def TrimPrefix_def HasPrefix_def Base_def HasSuffix_def)

lemma discover_remote_ok:
  assumes "known_ok parts w0 w" "keyed es w" "\<And>f t. ParseStreamPath (Key e) = Inr (f, t, True) \<Longrightarrow> part_of parts f t"
  shows "known_ok parts w0 (discover_remote e w) \<and> keyed (es @ [e]) (discover_remote e w)"
proof (cases "\<exists>f t. ParseStreamPath (Key e) = Inr (f, t, True)")
  case False
  then have "discover_remote e w = w" by (auto simp: discover_remote_def split: sum.splits)
  with False assms(1,2) show ?thesis by (auto simp: keyed_def)
next
  case True
  then obtain f t where e: "ParseStreamPath (Key e) = Inr (f, t, True)" by blast
  then have key: "Key e \<noteq> []" by (metis ParseStreamPath_Nil)
  let ?m = "\<lparr>smFromSeq = f, smToSeq = t, smToPos = 0, smPath = [], smKey = Key e\<rparr>"
  let ?u = "\<lambda>sm. if smKey sm = [] then sm\<lparr>smKey := Key e\<rparr> else sm"
  have d: "distinct (map meta_id (sealed w))" using assms(1) by (simp add: known_ok_def)
  have p: "part_of parts f t" using assms(3) e by blast
  have "discover_remote e w = w\<lparr>lastSeq := (if smToSeq ?m > lastSeq w then smToSeq ?m else lastSeq w),
      sealed := note_sealed ?m ?u (sealed w), uploadedTo := (if t > uploadedTo w then t else uploadedTo w)\<rparr>"
    by (intro streamWriter.equality) (simp_all add: discover_remote_def e)
  then have "known_ok parts w0 (discover_remote e w)"
    using known_ok_note [OF assms(1), of ?u ?m "if t > uploadedTo w then t else uploadedTo w"] p by simp
  moreover have s: "sealed (discover_remote e w) = note_sealed ?m ?u (sealed w)" by (simp add: discover_remote_def e)
  have "keyed (es @ [e]) (discover_remote e w)"
    unfolding keyed_def
  proof (intro ballI impI)
    fix m a assume m: "m \<in> set (sealed (discover_remote e w))" "smKey m = []" and a: "a \<in> set (es @ [e])"
    have "m \<in> set (sealed w) \<and> meta_id m \<noteq> (f, t)"
      using m key unfolding s note_sealed_eq [OF d] by (auto split: if_splits)
    with a m(2) assms(2) e show "ParseStreamPath (Key a) \<noteq> Inr (smFromSeq m, smToSeq m, True)"
      by (auto simp: keyed_def)
  qed
  ultimately show ?thesis by blast
qed

lemma fold_discover_remote:
  assumes "known_ok parts w0 w" "\<And>e f t. e \<in> set es \<Longrightarrow> ParseStreamPath (Key e) = Inr (f, t, True) \<Longrightarrow> part_of parts f t"
  shows "known_ok parts w0 (fold discover_remote es w) \<and> keyed es (fold discover_remote es w)"
  using assms(2)
proof (induction es rule: rev_induct)
  case Nil
  with assms(1) show ?case by (simp add: keyed_def)
next
  case (snoc e es)
  have "known_ok parts w0 (fold discover_remote es w) \<and> keyed es (fold discover_remote es w)"
    by (rule snoc.IH) (rule snoc.prems, simp_all)
  then show ?case
    using discover_remote_ok [of parts w0 "fold discover_remote es w" es e] snoc.prems [of e] by simp
qed

lemma known_ok_stream:
  assumes H: "hist_ok i hist" "hist = concat parts @ opn @ pending w0" "[] \<notin> set parts"
    and W: "writer_ok D i parts opn w0" and K: "known_ok parts w0 w" "list_all (\<lambda>m. smKey m \<noteq> []) (sealed w)"
  shows "writer_ok D i parts opn (finish_discovery w)"
proof -
  have mem: "t \<in> StreamSeq ` set (concat parts)" if "part_of parts f t" for f t
    using that H(3) last_in_set unfolding part_of_def set_concat by (metis (no_types, lifting) UN_I image_eqI)
  have "lastSeq w = lastSeq w0" if "opn \<noteq> []"
  proof (rule ccontr)
    assume "lastSeq w \<noteq> lastSeq w0"
    with K obtain x where x: "x \<in> set (concat parts)" "lastSeq w = StreamSeq x"
      using mem unfolding known_ok_def by blast
    have "StreamSeq x < StreamSeq (last opn)"
      using sorted_seq_less [of i "concat parts" "opn @ pending w0" x "last opn"] H(1,2) x(1) that by simp
    moreover have "lastSeq w0 = StreamSeq (last opn)" using W that by (simp add: writer_ok_def)
    moreover have "lastSeq w0 \<le> lastSeq w" using K(1) by (simp add: known_ok_def)
    ultimately show False using x(2) by simp
  qed
  moreover have "lastSeq w = 0 \<or> lastSeq w \<in> StreamSeq ` set (concat parts @ opn)"
  proof -
    have "lastSeq w = lastSeq w0 \<or> lastSeq w \<in> StreamSeq ` set (concat parts)"
      using K(1) mem unfolding known_ok_def by blast
    moreover have "lastSeq w0 = 0 \<or> lastSeq w0 \<in> StreamSeq ` set (concat parts @ opn)" using W by (simp add: writer_ok_def)
    ultimately show ?thesis by auto
  qed
  ultimately show ?thesis
    using K W by (simp add: writer_ok_def known_ok_def finish_discovery_def list_all_iff)
qed

subsection \<open>Writers over a backend\<close>

locale stream_backend = object_backend +
  fixes U :: uuids
  assumes stream_key: "uuids_ok U \<Longrightarrow> ok_key (FormatStreamObjectKey (uuid_String U) i a b)"
    and seg_key: "ok_key (segment_key x y)"
begin

abbreviation keeps :: "string \<Rightarrow> uuid \<Rightarrow> fs \<Rightarrow> 'a \<Rightarrow> fs \<Rightarrow> 'a \<Rightarrow> bool" where
  \<comment> \<open>no fault, and only the directory and the objects of the stream have changed\<close>
  "keeps D i s b s' b' \<equiv> faults s' = [] \<and> healthy b' \<and>
     (\<forall>p. (\<forall>n. p \<noteq> PathJoin D n) \<longrightarrow> content p s' = content p s) \<and>
     (\<forall>k. \<not> HasPrefix k (stream_prefix U i) \<longrightarrow> objs b' k = objs b k) \<and> objs b \<subseteq>\<^sub>m objs b'"

lemma discover_ok:
  assumes U: "uuids_ok U" and ok: "stream_ok U D i hist w s (objs b)" and cl: "faults s = []" "healthy b"
    and d: "discover_once U (Some be) w s b = (w', s', b')"
  shows "stream_ok U D i hist w' s' (objs b') \<and> discovered w' \<and> pending w' = pending w \<and> keeps D i s b s' b'"
proof (cases "discovered w")
  case True
  with assms show ?thesis by (simp add: discover_once_def)
next
  case False
  from ok obtain parts opn where H: "hist_ok i hist" "hist = concat parts @ opn @ pending w" "[] \<notin> set parts"
    "disk_ok D parts opn s" "remote_ok U i parts (objs b)" and W: "writer_ok D i parts opn w" by (rule stream_okE)
  from W False have w: "sealed w = []" "uploadedTo w = 0" "wDir w = D" "wStreamID w = i" by (simp_all add: writer_ok_def)
  define w1 where "w1 = fold discover_local (dir_list D s) w"
  obtain r b1 where L: "ListObjects be [] (stream_prefix U i) b = (r, b1)" by (cases "ListObjects be [] (stream_prefix U i) b")
  from list [OF L] cl(2) obtain es where es: "r = Inr es" "objs b1 = objs b" "healthy b1"
    "\<And>k. k \<in> Key ` set es \<longleftrightarrow> HasPrefix k (stream_prefix U i) \<and> objs b k \<noteq> None"
    by (cases r) (auto simp: StorageKey_def)
  have K1: "known_ok parts w w1"
    unfolding w1_def
  proof (rule fold_discover_local)
    fix n f t assume "(n, False) \<in> set (dir_list D s)" "ParseStreamPath n = Inr (f, t, True)"
    with disk_okD [OF H(4), of n f t] show "part_of parts f t" by (simp add: dir_list_file content_None)
  qed (use w in \<open>simp add: known_ok_def\<close>)
  then have wi: "wStreamID w1 = i" using w by (simp add: known_ok_def)
  have K: "known_ok parts w (fold discover_remote es w1)" "keyed es (fold discover_remote es w1)"
    using fold_discover_remote [OF K1, of es] es(4) remote_okD [OF H(5)] by blast+
  let ?w = "fold discover_remote es w1"
  have "w' = finish_discovery ?w" "s' = s" "b' = b1"
    using d False w L es(1) wi cl(1)
    by (auto simp: discover_once_def discoverRemoteSealedLocked_def clean_calls w1_def [symmetric] stream_prefix_def)
  moreover have "list_all (\<lambda>m. smKey m \<noteq> []) (sealed ?w)"
    unfolding list_all_iff
  proof (intro ballI notI)
    fix m assume m: "m \<in> set (sealed ?w)" "smKey m = []"
    with K(1) obtain rs where rs: "rs \<in> set parts" "smFromSeq m = StreamSeq (hd rs)" "smToSeq m = StreamSeq (last rs)"
      by (auto simp: known_ok_def part_of_def)
    then have "objs b (part_key U i rs) \<noteq> None" using H(5) by (simp add: remote_ok_def)
    then obtain e where "e \<in> set es" "Key e = part_key U i rs" using es(4) [of "part_key U i rs"] by auto
    moreover from this have "ParseStreamPath (Key e) \<noteq> Inr (smFromSeq m, smToSeq m, True)"
      using K(2) m unfolding keyed_def by blast
    ultimately show False using rs part_key_parse [OF U, of i rs] by simp
  qed
  note known_ok_stream [OF H(1-3) W K(1) this]
  moreover have "pending ?w = pending w" using K(1) by (simp add: known_ok_def)
  ultimately have "stream_ok U D i hist w' s' (objs b')"
    using H es(2) by (intro stream_okI [where parts = parts and opn = opn]) (simp_all add: finish_discovery_def)
  with \<open>w' = _\<close> \<open>s' = s\<close> \<open>b' = b1\<close> \<open>pending ?w = _\<close> es cl show ?thesis by (simp add: finish_discovery_def)
qed

lemma upload_all_keyed:
  "list_all (\<lambda>m. smKey m \<noteq> []) ms \<Longrightarrow> upload_all U (Some be) ms e w s b = (e, ms, w, s, b)"
  by (induction ms) (simp_all add: uploadSealedMetaLocked_def)

lemma upload_pending_ok:
  assumes "stream_ok U D i hist w s ob" "discovered w" "uploadPendingSealedLocked U (Some be) w s b = (e, w', s', b')"
  shows "e = None \<and> w' = w \<and> s' = s \<and> b' = b"
  using assms(1)
proof (rule stream_okE)
  fix parts opn assume "writer_ok D i parts opn w"
  with assms(2) have "list_all (\<lambda>m. smKey m \<noteq> []) (sealed w)" by (simp add: writer_ok_def)
  with assms(3) show ?thesis by (simp add: uploadPendingSealedLocked_def upload_all_keyed)
qed

end

lemma part_less:
  assumes "hist_ok i (concat parts @ opn @ rest)" "[] \<notin> set parts" "rs \<in> set parts" "opn \<noteq> []"
  shows "StreamSeq (hd rs) < StreamSeq (hd opn)"
proof -
  have "rs \<noteq> []" using assms(2,3) by metis
  then have "hd rs \<in> set (concat parts)" using assms(3) hd_in_set [of rs] unfolding set_concat by blast
  then show ?thesis using sorted_seq_less [of i "concat parts" "opn @ rest" "hd rs" "hd opn"] assms(1,4) by simp
qed

lemma seal_file_clean:
  assumes "faults s = []" "content (open_path w) s = Some d"
  shows "\<exists>s'. seal_file w s = (None, s') \<and> faults s' = [] \<and>
    (\<forall>q. content q s' = (if q = PathJoin (wDir w) (FormatStreamFileName (openFrom w) (lastSeq w) True) then Some d
       else if q = open_path w then None else content q s))"
proof -
  let ?p = "open_path w"
  let ?q = "PathJoin (wDir w) (FormatStreamFileName (openFrom w) (lastSeq w) True)"
  from clean_Sync [OF assms(1), of ?p] obtain s1 where
    s1: "file_Sync ?p s = (None, s1)" "faults s1 = []" "\<And>q. content q s1 = content q s" by blast
  from clean_Rename [OF s1(2), of ?p d ?q] assms(2) s1(3) obtain s2 where
    "os_Rename ?p ?q s1 = (None, s2)" "faults s2 = []"
    "\<And>q. content q s2 = (if q = ?q then Some d else if q = ?p then None else content q s1)" by auto
  with s1 assms show ?thesis
    by (simp add: seal_file_def clean_Open clean_calls)
qed

lemma seal_result:
  assumes "flushPendingLocked w s = (None, w1, s1)" "recCount w1 \<noteq> 0" "openFrom w1 \<noteq> 0" "seal_file w1 s1 = (None, s2)"
    and p: "p = PathJoin (wDir w1) (FormatStreamFileName (openFrom w1) (lastSeq w1) True)" and "os_Open p s2 = (Inr d, s2)"
    and k: "k = FormatStreamObjectKey (uuid_String U) (wStreamID w1) (openFrom w1) (lastSeq w1)"
    and "PutObject be [] k d b = (Inr x, b2)" and u: "u = (lastSeq w1 > uploadedTo w1)"
    and m: "m = \<lparr>smFromSeq = openFrom w1, smToSeq = lastSeq w1, smToPos = lastPos w1, smPath = p, smKey = k\<rparr>"
  shows "sealLocked U (Some be) w s b = ((Some m, None),
    w1\<lparr>openFrom := lastSeq w1 + 1, recCount := 0, fileSize := 0, openTime := None, sealedSinceLastPass := True,
       uploadedTo := (if u then lastSeq w1 else uploadedTo w1), uploadedPos := (if u then lastPos w1 else uploadedPos w1),
       sealed := sealed w1 @ [m]\<rparr>, s2, b2)"
proof -
  have "p \<noteq> []" by (simp add: p PathJoin_def)
  with assms show ?thesis
    by (simp add: sealLocked_def uploadSealedMetaLocked_def Let_def)
qed

lemma sealed_disk_ok:
  assumes "disk_ok D parts opn s" "opn \<noteq> []" "\<forall>rs\<in>set parts. StreamSeq (hd rs) < StreamSeq (hd opn)"
    and c: "\<And>q. content q s' = (if q = part_path D opn then Some (seg_bytes opn)
       else if q = opath D (StreamSeq (hd opn)) then None else content q s)"
  shows "disk_ok D (parts @ [opn]) [] s'"
  unfolding disk_ok_def
proof (intro conjI ballI allI impI)
  fix rs assume "rs \<in> set (parts @ [opn])"
  with assms(1,3) show "content (part_path D rs) s' = Some (seg_bytes rs)"
    by (auto simp: c part_path_def opath_def disk_ok_def)
next
  fix n f t
  assume n: "CHR ''/'' \<notin> set n \<and> content (PathJoin D n) s' \<noteq> None \<and> ParseStreamPath n = Inr (f, t, True)"
  show "part_of (parts @ [opn]) f t"
  proof (cases "PathJoin D n = part_path D opn")
    case True
    with n show ?thesis by (auto simp: part_path_def part_of_def)
  next
    case False
    with n c have "content (PathJoin D n) s \<noteq> None" by (simp split: if_splits)
    with n disk_okD [OF assms(1)] have "part_of parts f t" by blast
    then show ?thesis by (auto simp: part_of_def)
  qed
next
  fix q show "content (opath D q) s' = (if [] \<noteq> [] \<and> q = StreamSeq (hd []) then Some (seg_bytes []) else None)"
    using assms(1) by (simp add: c part_path_def opath_def disk_ok_def)
qed

lemma sealed_remote_ok:
  assumes "uuids_ok U" "remote_ok U i parts ob" "\<forall>rs\<in>set parts. StreamSeq (hd rs) < StreamSeq (hd opn)"
  shows "remote_ok U i (parts @ [opn]) (ob(part_key U i opn \<mapsto> seg_bytes opn))"
  unfolding remote_ok_def
proof (intro conjI ballI allI impI)
  fix rs assume rs: "rs \<in> set (parts @ [opn])"
  have "part_key U i rs \<noteq> part_key U i opn" if "rs \<in> set parts"
    using part_key_parse [OF assms(1), of i rs] part_key_parse [OF assms(1), of i opn] assms(3) that by auto
  with rs assms(2) show "(ob(part_key U i opn \<mapsto> seg_bytes opn)) (part_key U i rs) = Some (seg_bytes rs)"
    by (auto simp: remote_ok_def)
next
  fix k f t
  assume k: "(ob(part_key U i opn \<mapsto> seg_bytes opn)) k \<noteq> None \<and> HasPrefix k (stream_prefix U i) \<and> ParseStreamPath k = Inr (f, t, True)"
  show "part_of (parts @ [opn]) f t"
  proof (cases "k = part_key U i opn")
    case True
    with k part_key_parse [OF assms(1), of i opn] show ?thesis by (auto simp: part_of_def)
  next
    case False
    with k remote_okD [OF assms(2), of k f t] have "part_of parts f t" by simp
    then show ?thesis by (auto simp: part_of_def)
  qed
qed

context stream_backend
begin

lemma seal_ok:
  assumes U: "uuids_ok U" and ok: "stream_ok U D i hist w s (objs b)" and cl: "faults s = []" "healthy b" and dis: "discovered w"
    and S: "sealLocked U (Some be) w s b = (r, w', s', b')"
  shows "stream_ok U D i hist w' s' (objs b') \<and> snd r = None \<and> discovered w' \<and> pending w' = [] \<and> recCount w' = 0 \<and>
    keeps D i s b s' b'"
proof -
  obtain e w1 s1 where F: "flushPendingLocked w s = (e, w1, s1)" by (cases "flushPendingLocked w s")
  note f = flush_ok [OF ok cl(1) F]
  from f have ok1: "stream_ok U D i hist w1 s1 (objs b)" by blast
  from ok1 obtain parts opn where H: "hist_ok i hist" "hist = concat parts @ opn @ pending w1" "[] \<notin> set parts"
    "disk_ok D parts opn s1" "remote_ok U i parts (objs b)" and W: "writer_ok D i parts opn w1" by (rule stream_okE)
  show ?thesis
  proof (cases "opn = []")
    case True
    then have "recCount w1 = 0" using W by (simp add: writer_ok_def)
    with S F f cl dis show ?thesis by (auto simp: sealLocked_def)
  next
    case False
    have w1: "wDir w1 = D" "wStreamID w1 = i" "openFrom w1 = StreamSeq (hd opn)" "lastSeq w1 = StreamSeq (last opn)"
      "recCount w1 \<noteq> 0" "\<not> evicted w1" using W False by (simp_all add: writer_ok_def)
    have pos: "StreamSeq (hd opn) \<noteq> 0" using H(1,2) False by (auto simp: hist_ok_def word_gt_0)
    have less: "\<forall>rs\<in>set parts. StreamSeq (hd rs) < StreamSeq (hd opn)"
      using part_less [of i parts opn "pending w1"] H False by blast
    have cp: "content (open_path w1) s1 = Some (seg_bytes opn)"
      using H(4) False w1 by (simp add: open_path_opath disk_ok_def)
    from seal_file_clean [OF _ cp] f obtain s2 where s2: "seal_file w1 s1 = (None, s2)" "faults s2 = []"
      "\<And>q. content q s2 = (if q = part_path D opn then Some (seg_bytes opn)
         else if q = opath D (StreamSeq (hd opn)) then None else content q s1)"
      by (auto simp: w1 part_path_def open_path_opath)
    let ?k = "part_key U i opn"
    obtain p b2 where P: "PutObject be [] ?k (seg_bytes opn) b = (p, b2)" by (cases "PutObject be [] ?k (seg_bytes opn) b")
    from put [OF _ P] stream_key [OF U] cl(2) obtain x where p: "p = Inr x" "healthy b2" "objs b2 = (objs b)(?k \<mapsto> seg_bytes opn)"
      by (auto simp: StorageKey_def part_key_def)
    let ?m = "\<lparr>smFromSeq = StreamSeq (hd opn), smToSeq = StreamSeq (last opn), smToPos = lastPos w1, smPath = part_path D opn, smKey = ?k\<rparr>"
    have Op: "os_Open (part_path D opn) s2 = (Inr (seg_bytes opn), s2)" using s2 by (simp add: clean_Open)
    define u where "u = (lastSeq w1 > uploadedTo w1)"
    have res: "r = (Some ?m, None)" "s' = s2" "b' = b2"
      "w' = w1\<lparr>openFrom := lastSeq w1 + 1, recCount := 0, fileSize := 0, openTime := None, sealedSinceLastPass := True,
         uploadedTo := (if u then lastSeq w1 else uploadedTo w1), uploadedPos := (if u then lastPos w1 else uploadedPos w1),
         sealed := sealed w1 @ [?m]\<rparr>"
      using S seal_result [of w s w1 s1 s2 "part_path D opn" "seg_bytes opn" ?k U be b x b2 u ?m] F f s2(1) Op P p pos w1
      by (simp_all add: part_path_def part_key_def u_def)
    have "writer_ok D i (parts @ [opn]) [] w'"
      using W res(4) f dis False unfolding writer_ok_def
      by (auto simp: part_of_def part_key_def FormatStreamObjectKey_def)
    then have "stream_ok U D i hist w' s' (objs b')"
      using sealed_disk_ok [OF H(4) False less s2(3)] sealed_remote_ok [OF U H(5) less] H res p(3) f False
      by (intro stream_okI [where parts = "parts @ [opn]" and opn = "[]"]) simp_all
    moreover have "content q s2 = content q s" if "\<forall>n. q \<noteq> PathJoin D n" for q
      using that f by (simp add: s2(3) part_path_def opath_def)
    moreover have "objs b2 k = objs b k" if "\<not> HasPrefix k (stream_prefix U i)" for k
      using that by (auto simp: p(3))
    moreover have "\<not> part_of parts (StreamSeq (hd opn)) (StreamSeq (last opn))" using less by (auto simp: part_of_def)
    then have "objs b ?k = None"
      using remote_okD [OF H(5), of ?k] part_key_parse [OF U, of i opn] by force
    then have "objs b \<subseteq>\<^sub>m objs b2" by (auto simp: p(3) map_le_def)
    ultimately show ?thesis using res s2(2) p(2) f dis by simp
  qed
qed

end

end
