(* ===== verification/StreamRun.thy ===== *)
theory StreamRun
  imports StreamLib
begin

text \<open>
  The store of all streams in a run without faults: what is appended, the background worker, the
  sealing calls and the garbage collection, as one transition relation with the records that were
  appended to every stream and those of every aggregated segment as history. The invariant of
  \<open>StreamLib\<close> holds for every stream in every state of a run.
\<close>

definition wr :: "uuids \<Rightarrow> string \<Rightarrow> (string \<times> streamWriter) list \<Rightarrow> uuid \<Rightarrow> streamWriter" where
  \<comment> \<open>the writer of a stream; a stream without one will get a new one\<close>
  "wr U d ws i = (case map_of ws (uuid_String U i) of Some w \<Rightarrow> w | None \<Rightarrow> new_writer U d i)"

definition streams_ok ::
  "uuids \<Rightarrow> ('b \<Rightarrow> string \<Rightarrow> bytes option) \<Rightarrow> ('b \<Rightarrow> bool) \<Rightarrow> string \<Rightarrow> (uuid \<Rightarrow> LogRecord list) \<Rightarrow>
   (string \<times> streamWriter) list \<Rightarrow> fs \<Rightarrow> 'b \<Rightarrow> bool" where
  "streams_ok U objs healthy d hist ws s b \<longleftrightarrow>
     faults s = [] \<and> healthy b \<and> distinct (map fst ws) \<and> (\<forall>(sid, w)\<in>set ws. sid = uuid_String U (wStreamID w)) \<and>
     (\<forall>i. stream_ok U (stream_dir U d i) i (hist i) (wr U d ws i) s (objs b))"

lemma new_writer_id [simp]: "wStreamID (new_writer U d i) = i"
  by (simp add: new_writer_def)

lemma stream_ok_id: "stream_ok U D i hist w s ob \<Longrightarrow> wStreamID w = i \<and> wDir w = D \<and> \<not> evicted w"
  by (auto simp: stream_ok_def writer_ok_def)

lemma wr_update: "uuids_ok U \<Longrightarrow> wr U d (AList.update (uuid_String U i) w ws) j = (if j = i then w else wr U d ws j)"
  by (simp add: wr_def update_conv' uuid_String_inject)

lemma set_update_distinct:
  "distinct (map fst xs) \<Longrightarrow> set (AList.update k v xs) = insert (k, v) {(k', v') \<in> set xs. k' \<noteq> k}"
  by (induction xs) (auto simp: image_iff)

lemma streams_ok_update:
  assumes U: "uuids_ok U" and S: "streams_ok U objs healthy d hist ws s b"
    and i: "stream_ok U (stream_dir U d i) i h w' s' (objs b')" and cl: "faults s' = []" "healthy b'"
    and c: "\<And>p. (\<forall>n. p \<noteq> PathJoin (stream_dir U d i) n) \<Longrightarrow> content p s' = content p s"
    and o: "\<And>k. \<not> HasPrefix k (stream_prefix U i) \<Longrightarrow> objs b' k = objs b k"
  shows "streams_ok U objs healthy d (hist(i := h)) (AList.update (uuid_String U i) w' ws) s' b'"
proof -
  have "stream_ok U (stream_dir U d j) j (hist j) (wr U d ws j) s' (objs b')" if "j \<noteq> i" for j
  proof (rule stream_ok_frame)
    show "stream_ok U (stream_dir U d j) j (hist j) (wr U d ws j) s (objs b)" using S by (simp add: streams_ok_def)
    show "content (PathJoin (stream_dir U d j) n) s' = content (PathJoin (stream_dir U d j) n) s" for n
      using stream_dir_disjoint [OF U, of d j n i] that by (intro c) blast
    show "objs b' k = objs b k" if k: "HasPrefix k (stream_prefix U j)" for k
      using stream_prefix_disjoint [OF U k, of i] \<open>j \<noteq> i\<close> by (intro o) blast
  qed
  moreover have "wStreamID w' = i" using stream_ok_id [OF i] by blast
  ultimately show ?thesis
    using S i cl unfolding streams_ok_def
    by (auto simp: wr_update [OF U] set_update_distinct distinct_update)
qed

lemma streams_ok_frame:
  assumes "streams_ok U objs healthy d hist ws s b" "faults s' = []" "healthy b'"
    and "\<And>i n. content (PathJoin (stream_dir U d i) n) s' = content (PathJoin (stream_dir U d i) n) s"
    and "\<And>i k. HasPrefix k (stream_prefix U i) \<Longrightarrow> objs b' k = objs b k"
  shows "streams_ok U objs healthy d hist ws s' b'"
  using assms unfolding streams_ok_def by (auto intro: stream_ok_frame)

subsection \<open>The loop over the writers\<close>

lemma update_middle:
  "k \<notin> set (map fst pre) \<Longrightarrow> AList.update k v (pre @ (k, v') # post) = pre @ (k, v) # post"
  by (induction pre) auto

lemma wr_middle:
  assumes "distinct (map fst (pre @ (sid, w) # post))" "sid = uuid_String U (wStreamID w)"
  shows "wr U d (pre @ (sid, w) # post) (wStreamID w) = w"
proof -
  have "map_of pre sid = None" using assms(1) by (auto simp: map_of_eq_None_iff)
  with assms(2) show ?thesis by (simp add: wr_def map_add_def)
qed

lemma each_writer_ok:
  assumes U: "uuids_ok U"
    and f: "\<And>i w s b r w' s' b'. stream_ok U (stream_dir U d i) i (hist i) w s (objs b) \<Longrightarrow> faults s = [] \<Longrightarrow> healthy b \<Longrightarrow>
      f w s b = (r, w', s', b') \<Longrightarrow>
      stream_ok U (stream_dir U d i) i (hist i) w' s' (objs b') \<and> faults s' = [] \<and> healthy b' \<and>
      (\<forall>p. (\<forall>n. p \<noteq> PathJoin (stream_dir U d i) n) \<longrightarrow> content p s' = content p s) \<and>
      (\<forall>k. \<not> HasPrefix k (stream_prefix U i) \<longrightarrow> objs b' k = objs b k) \<and> objs b \<subseteq>\<^sub>m objs b'"
    and "streams_ok U objs healthy d hist (pre @ ws) s b" "each_writer f ws s b = (rs, ws', s', b')"
  shows "streams_ok U objs healthy d hist (pre @ ws') s' b' \<and> objs b \<subseteq>\<^sub>m objs b' \<and>
    (\<forall>k. HasPrefix k SegmentsPrefix \<longrightarrow> objs b' k = objs b k)"
  using assms(3,4)
proof (induction ws arbitrary: pre s b rs ws')
  case (Cons x ws)
  obtain sid w where x: "x = (sid, w)" by (cases x)
  obtain r w1 s1 b1 where F: "f w s b = (r, w1, s1, b1)" by (cases "f w s b")
  obtain rs1 ws1 where E: "each_writer f ws s1 b1 = (rs1, ws1, s', b')" "ws' = (sid, w1) # ws1"
    using Cons.prems(2) F x by (cases "each_writer f ws s1 b1") auto
  let ?i = "wStreamID w"
  have d: "distinct (map fst (pre @ (sid, w) # ws))" "sid = uuid_String U ?i"
    using Cons.prems(1) by (auto simp: streams_ok_def x)
  have ok: "stream_ok U (stream_dir U d ?i) ?i (hist ?i) w s (objs b)" "faults s = []" "healthy b"
    using Cons.prems(1) wr_middle [OF d, of d] by (auto simp: streams_ok_def x dest: spec [of _ ?i])
  note g = f [OF ok F]
  have "streams_ok U objs healthy d (hist(?i := hist ?i)) (AList.update (uuid_String U ?i) w1 (pre @ (sid, w) # ws)) s1 b1"
    using g by (intro streams_ok_update [OF U Cons.prems(1) [unfolded x]]) blast+
  then have "streams_ok U objs healthy d hist ((pre @ [(sid, w1)]) @ ws) s1 b1"
    using d update_middle [of sid pre w1 w ws] by simp
  from Cons.IH [OF this E(1)] E(2) g segment_not_stream [OF U] show ?case by (auto intro: map_le_trans)
qed simp

subsection \<open>One writer\<close>

lemma seal_due_clean: "seal_due st w s = (due, s') \<Longrightarrow> faults s' = faults s \<and> (\<forall>q. content q s' = content q s)"
  by (auto simp: seal_due_def time_Now_def split: if_splits option.splits)

lemma flush_writer_ok:
  assumes "stream_ok U D i hist w s ob" "faults s = []" "flush_writer w s b = (e, w', s', b')"
  shows "e = None \<and> stream_ok U D i hist w' s' ob \<and> faults s' = [] \<and> b' = b \<and>
    (\<forall>p. (\<forall>n. p \<noteq> PathJoin D n) \<longrightarrow> content p s' = content p s)"
proof -
  obtain e1 w1 s1 where F: "flushPendingLocked w s = (e1, w1, s1)" by (cases "flushPendingLocked w s")
  with flush_ok [OF assms(1,2) F] assms(3) show ?thesis by (simp add: flush_writer_def)
qed

context stream_backend
begin

lemma keeps_trans: "keeps D i s b s1 b1 \<Longrightarrow> keeps D i s1 b1 s2 b2 \<Longrightarrow> keeps D i s b s2 b2"
  by (auto simp: map_le_def dom_def)

lemma seal_pass_ok:
  assumes U: "uuids_ok U" and ok: "stream_ok U D i hist w s (objs b)" and cl: "faults s = []" "healthy b"
    and P: "seal_pass U (Some be) st w s b = (r, w', s', b')"
  shows "stream_ok U D i hist w' s' (objs b') \<and> keeps D i s b s' b'"
proof -
  obtain w1 s1 b1 where 1: "discover_once U (Some be) w s b = (w1, s1, b1)" by (cases "discover_once U (Some be) w s b")
  note d = discover_ok [OF U ok cl 1]
  obtain e w2 s2 where 2: "flushPendingLocked w1 s1 = (e, w2, s2)" by (cases "flushPendingLocked w1 s1")
  note f = flush_ok [OF conjunct1 [OF d] _ 2]
  obtain e' w3 s3 b3 where 3: "uploadPendingSealedLocked U (Some be) w2 s2 b1 = (e', w3, s3, b3)"
    by (cases "uploadPendingSealedLocked U (Some be) w2 s2 b1")
  have u: "w3 = w2" "s3 = s2" "b3 = b1" using upload_pending_ok [OF _ _ 3, of D i hist "objs b1"] d f by auto
  obtain due s4 where 4: "seal_due st w2 s2 = (due, s4)" by (cases "seal_due st w2 s2")
  note s4 = seal_due_clean [OF 4]
  have f': "stream_ok U D i hist w2 s2 (objs b1)" "discovered w2" "keeps D i s1 b1 s2 b1" using d f by simp_all
  have ok4: "stream_ok U D i hist w2 s4 (objs b1)" using s4 by (intro stream_ok_frame [OF f'(1)]) simp_all
  have k4: "keeps D i s b s4 b1" using keeps_trans [OF _ f'(3), of s b] d s4 by simp
  obtain r5 w5 s5 b5 where 5: "sealLocked U (Some be) w2 s4 b1 = (r5, w5, s5, b5)" by (cases "sealLocked U (Some be) w2 s4 b1")
  have l: "stream_ok U D i hist w5 s5 (objs b5)" "keeps D i s4 b1 s5 b5" using seal_ok [OF U ok4 _ _ _ 5] k4 f'(2) by simp_all
  have "(w', s', b') = (if due then (w5, s5, b5) else (w2, s4, b1))"
    using P by (simp add: seal_pass_def 1 2 3 u 4 5 split: if_splits)
  then show ?thesis using ok4 k4 l(1) keeps_trans [OF k4 l(2)] by (cases due) simp_all
qed

lemma seal_one_ok:
  assumes U: "uuids_ok U" and ok: "stream_ok U D i hist w s (objs b)" and cl: "faults s = []" "healthy b"
    and P: "seal_one U (Some be) w s b = (r, w', s', b')"
  shows "stream_ok U D i hist w' s' (objs b') \<and> snd r = [] \<and> pending w' = [] \<and> recCount w' = 0 \<and> keeps D i s b s' b'"
proof -
  obtain w1 s1 b1 where 1: "discover_once U (Some be) w s b = (w1, s1, b1)" by (cases "discover_once U (Some be) w s b")
  note d = discover_ok [OF U ok cl 1]
  obtain e' w3 s3 b3 where 3: "uploadPendingSealedLocked U (Some be) w1 s1 b1 = (e', w3, s3, b3)"
    by (cases "uploadPendingSealedLocked U (Some be) w1 s1 b1")
  have u: "e' = None" "w3 = w1" "s3 = s1" "b3 = b1" using upload_pending_ok [OF _ _ 3, of D i hist "objs b1"] d by auto
  obtain m e5 w5 s5 b5 where 5: "sealLocked U (Some be) w1 s1 b1 = ((m, e5), w5, s5, b5)" by (cases "sealLocked U (Some be) w1 s1 b1") auto
  note l = seal_ok [OF U conjunct1 [OF d] _ _ _ 5]
  have k: "stream_ok U D i hist w5 s5 (objs b5)" "keeps D i s1 b1 s5 b5" "keeps D i s b s1 b1" and e: "e5 = None" "pending w5 = []" "recCount w5 = 0"
    using l d by simp_all
  have "r = (m, [])" "w' = w5" "s' = s5" "b' = b5"
    using P by (simp_all add: seal_one_def 1 3 u 5 e List.map_filter_simps)
  with k(1) e keeps_trans [OF k(3,2)] show ?thesis by simp
qed

end

subsection \<open>Appending\<close>

lemma getOrCreate_ok:
  assumes U: "uuids_ok U" and S: "streams_ok U objs healthy (dataDir st) hist (streams st) s b"
    and G: "getOrCreateStream U i st = (w, st')"
  shows "w = wr U (dataDir st) (streams st) i \<and> st' = st\<lparr>streams := streams st'\<rparr> \<and>
    streams_ok U objs healthy (dataDir st) hist (streams st') s b \<and>
    stream_ok U (stream_dir U (dataDir st) i) i (hist i) w s (objs b)"
proof -
  have w: "stream_ok U (stream_dir U (dataDir st) i) i (hist i) (wr U (dataDir st) (streams st) i) s (objs b)"
    using S by (simp add: streams_ok_def)
  show ?thesis
  proof (cases "map_of (streams st) (uuid_String U i)")
    case None
    then have n: "wr U (dataDir st) (streams st) i = new_writer U (dataDir st) i" by (simp add: wr_def)
    have "streams_ok U objs healthy (dataDir st) (hist(i := hist i))
        (AList.update (uuid_String U i) (new_writer U (dataDir st) i) (streams st)) s b"
      using S w n by (intro streams_ok_update [OF U S]) (simp_all add: streams_ok_def)
    with None G w n show ?thesis by (auto simp: getOrCreateStream_def getStream_def put_writer_def Let_def)
  next
    case (Some x)
    with G S w show ?thesis by (simp add: getOrCreateStream_def getStream_def wr_def)
  qed
qed

lemma append_loop_ok:
  assumes U: "uuids_ok U" and S: "streams_ok U objs healthy (dataDir st) hist (streams st) s b"
    and h: "hist_ok i (hist i @ rs)"
  shows "\<exists>st'. append_loop U i rs st = Some st' \<and> st' = st\<lparr>streams := streams st'\<rparr> \<and>
    streams_ok U objs healthy (dataDir st) (hist(i := hist i @ rs)) (streams st') s b"
proof -
  obtain w st1 where G: "getOrCreateStream U i st = (w, st1)" by (cases "getOrCreateStream U i st")
  note g = getOrCreate_ok [OF U S G]
  then have ev: "\<not> evicted w" using stream_ok_id by blast
  let ?w = "w\<lparr>pending := pending w @ rs\<rparr>"
  have L: "append_loop U i rs st = Some (put_writer U i ?w st1)"
    using ev by (simp add: append_loop.simps G appendRecords_def)
  have "streams_ok U objs healthy (dataDir st) (hist(i := hist i @ rs)) (AList.update (uuid_String U i) ?w (streams st1)) s b"
    using g append_ok [OF _ h] S
    by (intro streams_ok_update [OF U, where s = s and b = b]) (simp_all add: streams_ok_def)
  moreover have "put_writer U i ?w st1 = st\<lparr>streams := AList.update (uuid_String U i) ?w (streams st1)\<rparr>"
    using g by (cases st1) (auto simp: put_writer_def)
  ultimately show ?thesis using L by simp
qed

lemma append_groups_ok:
  assumes U: "uuids_ok U" and "streams_ok U objs healthy (dataDir st) hist (streams st) s b"
    and "distinct (map fst gs)" "\<forall>(i, rs)\<in>set gs. hist_ok i (hist i @ rs)"
  shows "\<exists>st'. append_groups U gs st = Some st' \<and> st' = st\<lparr>streams := streams st'\<rparr> \<and>
    streams_ok U objs healthy (dataDir st) (\<lambda>i. hist i @ (case map_of gs i of None \<Rightarrow> [] | Some rs \<Rightarrow> rs)) (streams st') s b"
  using assms(2-4)
proof (induction gs arbitrary: hist st)
  case Nil
  then show ?case by simp
next
  case (Cons g gs)
  obtain i rs where g: "g = (i, rs)" by (cases g)
  obtain st1 where 1: "append_loop U i rs st = Some st1" "st1 = st\<lparr>streams := streams st1\<rparr>"
    "streams_ok U objs healthy (dataDir st) (hist(i := hist i @ rs)) (streams st1) s b"
    using append_loop_ok [OF U Cons.prems(1), of i rs] Cons.prems(3) g by auto
  let ?h = "hist(i := hist i @ rs)"
  have i: "i \<notin> fst ` set gs" using Cons.prems(2) g by simp
  have d: "dataDir st1 = dataDir st" by (metis 1(2) StreamStore.select_convs(1) StreamStore.surjective StreamStore.update_convs(5))
  have "hist_ok j (?h j @ xs)" if "(j, xs) \<in> set gs" for j xs
  proof -
    have "j \<noteq> i" using that i by (metis fst_conv image_eqI)
    moreover have "hist_ok j (hist j @ xs)" using that Cons.prems(3) by auto
    ultimately show ?thesis by simp
  qed
  then have "\<forall>(j, rs)\<in>set gs. hist_ok j (?h j @ rs)" by blast
  from Cons.IH [OF 1(3) [folded d] _ this] d Cons.prems(2) obtain st' where
    2: "append_groups U gs st1 = Some st'" "st' = st1\<lparr>streams := streams st'\<rparr>"
    "streams_ok U objs healthy (dataDir st) (\<lambda>j. ?h j @ (case map_of gs j of None \<Rightarrow> [] | Some rs \<Rightarrow> rs)) (streams st') s b"
    by auto
  have "map_of gs i = None" using i by (simp add: map_of_eq_None_iff)
  then have "(\<lambda>j. ?h j @ (case map_of gs j of None \<Rightarrow> [] | Some rs \<Rightarrow> rs)) =
      (\<lambda>j. hist j @ (case map_of (g # gs) j of None \<Rightarrow> [] | Some rs \<Rightarrow> rs))" by (auto simp: g fun_eq_iff)
  moreover have "st' = st\<lparr>streams := streams st'\<rparr>" using 1(2) 2(2) by (cases st, cases st1, cases st') auto
  ultimately show ?case using 1(1) 2 by (auto simp: g)
qed

lemma map_of_groups:
  "(case map_of (map (\<lambda>i. (i, filter (\<lambda>r. StreamID r = i) recs)) (remdups (map StreamID recs))) i of None \<Rightarrow> [] | Some rs \<Rightarrow> rs) =
   filter (\<lambda>r. StreamID r = i) recs"
  by (auto simp: map_of_map_restrict restrict_map_def filter_empty_conv eq_commute [of "[]"])

lemma AppendRecords_ok:
  assumes U: "uuids_ok U" and S: "streams_ok U objs healthy (dataDir st) hist (streams st) s b"
    and h: "\<forall>i. hist_ok i (hist i @ filter (\<lambda>r. StreamID r = i) recs)"
  shows "\<exists>st'. AppendRecords U recs st = Some st' \<and> st' = st\<lparr>streams := streams st', writeNotify := writeNotify st'\<rparr> \<and>
    streams_ok U objs healthy (dataDir st) (\<lambda>i. hist i @ filter (\<lambda>r. StreamID r = i) recs) (streams st') s b"
proof (cases "recs = []")
  case True
  then show ?thesis using S by (simp add: AppendRecords_def)
next
  case False
  let ?gs = "map (\<lambda>i. (i, filter (\<lambda>r. StreamID r = i) recs)) (remdups (map StreamID recs))"
  have "map fst ?gs = remdups (map StreamID recs)" by (simp add: comp_def)
  then have "distinct (map fst ?gs)" by (simp only: distinct_remdups)
  then obtain st' where "append_groups U ?gs st = Some st'" "st' = st\<lparr>streams := streams st'\<rparr>"
    "streams_ok U objs healthy (dataDir st) (\<lambda>i. hist i @ filter (\<lambda>r. StreamID r = i) recs) (streams st') s b"
    using append_groups_ok [OF U S, of ?gs] h by (auto simp only: map_of_groups set_map image_iff)
  with False show ?thesis
    by (intro exI [of _ "st'\<lparr>writeNotify := True\<rparr>"]) (auto simp: AppendRecords_def Let_def)
qed

subsection \<open>Eviction and coverage\<close>

lemma sealedSince_ok: "stream_ok U D i hist (w\<lparr>sealedSinceLastPass := x\<rparr>) s ob \<longleftrightarrow> stream_ok U D i hist w s ob"
proof -
  have "writer_ok D i parts opn (w\<lparr>sealedSinceLastPass := x\<rparr>) = writer_ok D i parts opn w" for parts opn
    by (simp add: writer_ok_def)
  then show ?thesis by (simp add: stream_ok_def)
qed

lemma evict_streams_ok:
  assumes S: "streams_ok U objs healthy d hist ws s b"
  shows "streams_ok U objs healthy d hist
    (map (\<lambda>(sid, w). (sid, w\<lparr>sealedSinceLastPass := False\<rparr>)) (filter (\<lambda>(_, w). \<not> idle w) ws)) s b"
proof -
  let ?f = "\<lambda>(sid, w). (sid, w\<lparr>sealedSinceLastPass := False\<rparr>)" and ?F = "filter (\<lambda>(_, w). \<not> idle w) ws"
  have fst: "map fst (map ?f ?F) = map fst ?F" by (induction ws) auto
  have d: "distinct (map fst ws)" using S by (simp add: streams_ok_def)
  then have d': "distinct (map fst ?F)" by (induction ws) (auto simp: image_iff)
  have "stream_ok U (stream_dir U d i) i (hist i) (wr U d (map ?f ?F) i) s (objs b)" for i
  proof -
    have w: "stream_ok U (stream_dir U d i) i (hist i) (wr U d ws i) s (objs b)" using S by (simp add: streams_ok_def)
    have mo: "map_of (map ?f ?F) k = map_option (\<lambda>w. w\<lparr>sealedSinceLastPass := False\<rparr>) (map_of ?F k)" for k
      by (induction ws) auto
    have mF: "map_of ?F k = (case map_of ws k of Some w \<Rightarrow> if idle w then None else Some w | None \<Rightarrow> None)" for k
      using d by (induction ws) (auto simp: map_of_eq_None_iff image_iff split: option.splits dest: map_of_SomeD)
    show ?thesis
    proof (cases "map_of ws (uuid_String U i)")
      case None
      with w show ?thesis unfolding wr_def mo mF by simp
    next
      case (Some x)
      show ?thesis
      proof (cases "idle x")
        case True
        with w Some show ?thesis using evict_ok [of U _ i "hist i" x s "objs b" d] unfolding wr_def mo mF by simp
      next
        case False
        with w Some show ?thesis unfolding wr_def mo mF by (simp add: sealedSince_ok)
      qed
    qed
  qed
  then show ?thesis using S d' unfolding streams_ok_def fst by auto
qed

lemma saveCoverage_clean:
  assumes "uuids_ok U" "faults s = []"
  shows "faults (saveCoverage st s) = [] \<and>
    content (PathJoin (stream_dir U (dataDir st) i) n) (saveCoverage st s) = content (PathJoin (stream_dir U (dataDir st) i) n) s"
proof -
  have "PathJoin (stream_dir U (dataDir st) i) n \<noteq> PathJoin (dataDir st) ''coverage.json''"
    by (simp add: stream_dir_def PathJoin_def)
  with assms(2) show ?thesis
    by (simp add: saveCoverage_def writeCoverageFile_def os_WriteFile_def split: option.splits)
qed

end
