(* ===== verification/StreamGC.thy ===== *)
theory StreamGC
  imports StreamRun
begin

text \<open>
  Runs of the store of streams without faults: appending, the background worker, the sealing calls,
  the uploads of aggregated segments and their garbage collection, in any order. A record that was
  once uploaded in an aggregated segment stays readable from object storage: when the segment is
  collected, the record is in an object of its stream.
\<close>

subsection \<open>What a segment requires\<close>

lemma seq_of_note_req: "seq_of (note_req U r reqs) sid =
    (if sid = uuid_String U (StreamID r) \<and> StreamSeq r > seq_of reqs sid then StreamSeq r else seq_of reqs sid)"
  by (auto simp: note_req_def seq_of_def Let_def update_conv')

lemma seq_of_fold_mono: "seq_of reqs sid \<le> seq_of (fold (note_req U) rs reqs) sid"
proof (induction rs arbitrary: reqs)
  case (Cons r rs)
  have "seq_of reqs sid \<le> seq_of (note_req U r reqs) sid" by (auto simp: seq_of_note_req less_imp_le)
  also have "\<dots> \<le> seq_of (fold (note_req U) rs (note_req U r reqs)) sid" by (rule Cons.IH)
  finally show ?case by simp
qed simp

lemma seq_of_fold: "r \<in> set rs \<Longrightarrow> StreamSeq r \<le> seq_of (fold (note_req U) rs reqs) (uuid_String U (StreamID r))"
proof (induction rs arbitrary: reqs)
  case (Cons x rs)
  have "StreamSeq r \<le> seq_of (fold (note_req U) rs (note_req U x reqs)) (uuid_String U (StreamID r))" if "x = r"
    using seq_of_fold_mono [of "note_req U x reqs" "uuid_String U (StreamID r)" U rs] that
    by (auto simp: seq_of_note_req split: if_splits intro: order_trans)
  with Cons show ?case by auto
qed simp

lemma fold_note_req:
  assumes "r \<in> set rs" "0 < StreamSeq r"
  shows "\<exists>q. (uuid_String U (StreamID r), q) \<in> set (fold (note_req U) rs []) \<and> StreamSeq r \<le> q"
proof -
  let ?sid = "uuid_String U (StreamID r)" and ?reqs = "fold (note_req U) rs []"
  have le: "StreamSeq r \<le> seq_of ?reqs ?sid" using assms(1) by (rule seq_of_fold)
  with assms(2) have "seq_of ?reqs ?sid \<noteq> 0" by (auto simp: word_gt_0)
  then have "map_of ?reqs ?sid = Some (seq_of ?reqs ?sid)" by (auto simp: seq_of_def split: option.splits)
  with le show ?thesis by (blast dest: map_of_SomeD)
qed

subsection \<open>Records in the objects of their stream\<close>

definition archived :: "uuids \<Rightarrow> (string \<Rightarrow> bytes option) \<Rightarrow> LogRecord \<Rightarrow> bool" where
  "archived U ob r \<longleftrightarrow>
     (\<exists>rs. r \<in> set rs \<and> (\<forall>x\<in>set rs. log_ok x) \<and> ob (part_key U (StreamID r) rs) = Some (seg_bytes rs))"

lemma archivedI:
  "r \<in> set rs \<Longrightarrow> \<forall>x\<in>set rs. log_ok x \<Longrightarrow> ob (part_key U (StreamID r) rs) = Some (seg_bytes rs) \<Longrightarrow> archived U ob r"
  unfolding archived_def by blast

lemma archivedE:
  assumes "archived U ob r"
  obtains rs where "r \<in> set rs" "\<forall>x\<in>set rs. log_ok x" "ob (part_key U (StreamID r) rs) = Some (seg_bytes rs)"
  using assms unfolding archived_def by blast

lemma archived_mono:
  assumes "archived U ob r" "\<And>i k d. HasPrefix k (stream_prefix U i) \<Longrightarrow> ob k = Some d \<Longrightarrow> ob' k = Some d"
  shows "archived U ob' r"
  using assms(1)
proof (rule archivedE)
  fix rs assume "r \<in> set rs" "\<forall>x\<in>set rs. log_ok x" "ob (part_key U (StreamID r) rs) = Some (seg_bytes rs)"
  with assms(2) [OF part_key_prefix] show ?thesis by (intro archivedI)
qed

lemma uploaded_archived:
  assumes "stream_ok U D i hist w s ob" "discovered w" "r \<in> set hist" "StreamSeq r \<le> uploadedTo w"
  shows "archived U ob r"
  using assms(1)
proof (rule stream_okE)
  fix parts opn
  assume H: "hist_ok i hist" "hist = concat parts @ opn @ pending w" "[] \<notin> set parts" "remote_ok U i parts ob"
    and W: "writer_ok D i parts opn w"
  have r: "0 < StreamSeq r" "StreamID r = i" using H(1) assms(3) by (simp_all add: hist_ok_def)
  then have "uploadedTo w \<noteq> 0" using assms(4) by (auto simp: word_gt_0)
  with W assms(2) obtain rs where rs: "rs \<in> set parts" "uploadedTo w = StreamSeq (last rs)"
    by (auto simp: writer_ok_def part_of_def)
  then have "rs \<noteq> []" using H(3) by metis
  with rs(1) have l: "last rs \<in> set (concat parts)" using last_in_set unfolding set_concat by blast
  have "r \<in> set (concat parts)"
  proof (rule ccontr)
    assume "r \<notin> set (concat parts)"
    then have "r \<in> set (opn @ pending w)" using H(2) assms(3) by simp
    from sorted_seq_less [OF _ l this, of i] H(1,2) rs assms(4) show False by simp
  qed
  then obtain xs where xs: "xs \<in> set parts" "r \<in> set xs" by auto
  then have "\<forall>x\<in>set xs. log_ok x" using H(1,2) by (auto simp: hist_ok_def)
  with xs H(4) r show ?thesis by (intro archivedI [of r xs]) (simp_all add: remote_ok_def)
qed

lemma covered_archived:
  assumes U: "uuids_ok U" and S: "streams_ok U objs healthy (dataDir st) hist (streams st) s b"
    and c: "list_all (req_covered U st) (fold (note_req U) recs [])" and r: "r \<in> set recs" "r \<in> set (hist (StreamID r))"
  shows "archived U (objs b) r"
proof -
  let ?i = "StreamID r"
  have so: "stream_ok U (stream_dir U (dataDir st) ?i) ?i (hist ?i) (wr U (dataDir st) (streams st) ?i) s (objs b)"
    using S by (simp add: streams_ok_def)
  have "0 < StreamSeq r" using so r(2) unfolding stream_ok_def hist_ok_def by blast
  from fold_note_req [OF r(1) this] obtain q where q: "(uuid_String U ?i, q) \<in> set (fold (note_req U) recs [])" "StreamSeq r \<le> q"
    by blast
  with c have "req_covered U st (uuid_String U ?i, q)" unfolding list_all_iff by blast
  then obtain w where w: "map_of (streams st) (uuid_String U ?i) = Some w" "discovered w" "q \<le> uploadedTo w"
    using U by (auto simp: req_covered_def getStream_def uuids_ok_def split: option.splits)
  with so uploaded_archived [of U _ ?i "hist ?i" w s "objs b" r] r(2) q(2) show ?thesis by (simp add: wr_def)
qed

subsection \<open>The state of a run\<close>

definition segs_ok ::
  "uuids \<Rightarrow> (uuid \<Rightarrow> LogRecord list) \<Rightarrow> (string \<Rightarrow> LogRecord list option) \<Rightarrow> (string \<times> (string \<times> uint64) list) list \<Rightarrow>
   (string \<Rightarrow> bytes option) \<Rightarrow> bool" where
  \<comment> \<open>\<open>segs\<close> are the segments that were ever uploaded\<close>
  "segs_ok U hist segs reqs ob \<longleftrightarrow>
     distinct (map fst reqs) \<and>
     (\<forall>(p, rq)\<in>set reqs. \<exists>recs. segs p = Some recs \<and> rq = fold (note_req U) recs []) \<and>
     (\<forall>p recs. segs p = Some recs \<longrightarrow>
        (\<exists>x y. p = segment_key x y) \<and> (\<forall>r\<in>set recs. r \<in> set (hist (StreamID r)) \<and> log_ok r) \<and>
        ((p \<in> fst ` set reqs \<and> ob p = Some (seg_bytes recs)) \<or> (\<forall>r\<in>set recs. archived U ob r)))"

lemma segment_key_prefix [simp]: "HasPrefix (segment_key x y) SegmentsPrefix"
  by (simp add: segment_key_def HasPrefix_def)

lemma segs_okD:
  assumes "segs_ok U hist segs reqs ob" "segs p = Some recs"
  shows "\<exists>x y. p = segment_key x y" "r \<in> set recs \<Longrightarrow> r \<in> set (hist (StreamID r))" "r \<in> set recs \<Longrightarrow> log_ok r"
    "(p \<in> fst ` set reqs \<and> ob p = Some (seg_bytes recs)) \<or> (\<forall>r\<in>set recs. archived U ob r)"
  using assms unfolding segs_ok_def by blast+

lemma segs_ok_frame:
  assumes S: "segs_ok U hist segs reqs ob" and le: "\<And>k d. ob k = Some d \<Longrightarrow> ob' k = Some d" and "\<And>i. set (hist i) \<subseteq> set (hist' i)"
  shows "segs_ok U hist' segs reqs ob'"
proof -
  have "(p \<in> fst ` set reqs \<and> ob' p = Some (seg_bytes recs)) \<or> (\<forall>r\<in>set recs. archived U ob' r)" if "segs p = Some recs" for p recs
    using segs_okD(4) [OF S that] le archived_mono [of U ob _ ob', OF _ le] by blast
  then show ?thesis using S assms(3) unfolding segs_ok_def by blast
qed

definition run_ok ::
  "uuids \<Rightarrow> ('b \<Rightarrow> string \<Rightarrow> bytes option) \<Rightarrow> ('b \<Rightarrow> bool) \<Rightarrow> (uuid \<Rightarrow> LogRecord list) \<Rightarrow>
   (string \<Rightarrow> LogRecord list option) \<Rightarrow> StreamStore \<Rightarrow> fs \<Rightarrow> 'b \<Rightarrow> bool" where
  "run_ok U objs healthy hist segs st s b \<longleftrightarrow>
     streams_ok U objs healthy (dataDir st) hist (streams st) s b \<and> segs_ok U hist segs (segmentReqs st) (objs b)"

lemma segs_ok_reqD:
  assumes "segs_ok U hist segs reqs ob" "(p, rq) \<in> set reqs"
  obtains recs where "segs p = Some recs" "rq = fold (note_req U) recs []"
  using assms unfolding segs_ok_def by blast

lemma segs_ok_reqs_seg: 
  assumes "segs_ok U hist segs reqs ob" "p \<in> fst ` set reqs"
  shows "\<exists>x y. p = segment_key x y"
proof -
  from assms(2) obtain rq where "(p, rq) \<in> set reqs" by auto
  with assms(1) obtain recs where "segs p = Some recs" by (rule segs_ok_reqD)
  with assms(1) show ?thesis by (rule segs_okD(1))
qed

lemma segs_ok_reqs_prefix: "segs_ok U hist segs reqs ob \<Longrightarrow> p \<in> fst ` set reqs \<Longrightarrow> HasPrefix p SegmentsPrefix"
  using segs_ok_reqs_seg [of U hist segs reqs ob p] by (elim meta_impE exE) simp_all

lemma segs_ok_collect:
  assumes U: "uuids_ok U" and S: "segs_ok U hist segs reqs ob"
    and c: "\<And>p recs r. gone (p, fold (note_req U) recs []) \<Longrightarrow> r \<in> set recs \<Longrightarrow>
      r \<in> set (hist (StreamID r)) \<Longrightarrow> archived U ob r"
    and o: "\<And>k. ob' k = (if k \<in> fst ` set (filter gone reqs) then None else ob k)"
  shows "segs_ok U hist segs (filter (\<lambda>x. \<not> gone x) reqs) ob'"
proof -
  have d: "distinct (map fst reqs)" using S by (simp add: segs_ok_def)
  have keep: "archived U ob' r" if "archived U ob r" for r
  proof (rule archived_mono [OF that])
    fix i k d assume k: "HasPrefix k (stream_prefix U i)" "ob k = Some d"
    have "k \<notin> fst ` set reqs" using segment_not_stream [OF U, of k i] k(1) segs_ok_reqs_prefix [OF S, of k] by blast
    then have "k \<notin> fst ` set (filter gone reqs)" by auto
    with o [of k] k(2) show "ob' k = Some d" by simp
  qed
  have "(p \<in> fst ` set (filter (\<lambda>x. \<not> gone x) reqs) \<and> ob' p = Some (seg_bytes recs)) \<or> (\<forall>r\<in>set recs. archived U ob' r)"
    if p: "segs p = Some recs" for p recs
  proof (cases "p \<in> fst ` set reqs \<and> ob p = Some (seg_bytes recs)")
    case False
    then show ?thesis using segs_okD(4) [OF S p] keep by blast
  next
    case True
    then obtain rq where rq: "(p, rq) \<in> set reqs" by auto
    from S rq obtain recs' where "segs p = Some recs'" "rq = fold (note_req U) recs' []" by (rule segs_ok_reqD)
    with p have rq': "rq = fold (note_req U) recs []" by simp
    show ?thesis
    proof (cases "gone (p, rq)")
      case True
      then have "archived U ob r" if "r \<in> set recs" for r
        using c [OF _ that segs_okD(2) [OF S p that]] rq' by blast
      then show ?thesis using keep by blast
    next
      case False
      have "p \<notin> fst ` set (filter gone reqs)"
        using False rq d by (auto dest: eq_key_imp_eq_value)
      then have "ob' p = ob p" using o [of p] by simp
      moreover have "p \<in> fst ` set (filter (\<lambda>x. \<not> gone x) reqs)" using False rq by force
      ultimately show ?thesis using True by simp
    qed
  qed
  then show ?thesis using S distinct_map_filter [OF d] unfolding segs_ok_def set_filter by blast
qed

lemma update_nonkey: "k \<notin> fst ` set xs \<Longrightarrow> AList.update k v xs = xs @ [(k, v)]"
  by (induction xs) auto

lemma segs_ok_new:
  assumes Q: "segs_ok U hist segs reqs ob" and np: "p \<notin> fst ` set reqs" "segs p = None" and p: "p = segment_key x y"
    and h: "\<forall>r\<in>set recs. r \<in> set (hist (StreamID r))" and l: "\<And>r. r \<in> set recs \<Longrightarrow> log_ok r"
    and ns: "\<And>i. \<not> HasPrefix p (stream_prefix U i)"
  shows "segs_ok U hist (segs(p \<mapsto> recs)) (reqs @ [(p, fold (note_req U) recs [])]) (ob(p \<mapsto> seg_bytes recs))"
proof -
  let ?ob = "ob(p \<mapsto> seg_bytes recs)"
  have keep: "archived U ?ob r" if "archived U ob r" for r
    using ns by (intro archived_mono [OF that]) auto
  have d: "distinct (map fst (reqs @ [(p, fold (note_req U) recs [])]))" using Q np(1) by (simp add: segs_ok_def)
  have r: "\<exists>xs. (segs(p \<mapsto> recs)) q = Some xs \<and> rq = fold (note_req U) xs []"
    if m: "(q, rq) \<in> set (reqs @ [(p, fold (note_req U) recs [])])" for q rq
  proof (cases "(q, rq) \<in> set reqs")
    case True
    then have "q \<noteq> p" using np(1) by force
    moreover from Q True obtain xs where "segs q = Some xs" "rq = fold (note_req U) xs []" by (rule segs_ok_reqD)
    ultimately show ?thesis by simp
  next
    case False
    with m show ?thesis by simp
  qed
  have "(q \<in> fst ` set (reqs @ [(p, fold (note_req U) recs [])]) \<and> ?ob q = Some (seg_bytes xs)) \<or> (\<forall>r\<in>set xs. archived U ?ob r)"
    if "(segs(p \<mapsto> recs)) q = Some xs" for q xs
  proof (cases "q = p")
    case True
    with that show ?thesis by simp
  next
    case False
    with that have "segs q = Some xs" by simp
    from segs_okD(4) [OF Q this] show ?thesis using False keep by auto
  qed
  moreover have "(\<exists>x y. q = segment_key x y) \<and> (\<forall>r\<in>set xs. r \<in> set (hist (StreamID r)) \<and> log_ok r)"
    if "(segs(p \<mapsto> recs)) q = Some xs" for q xs
    using that p h l segs_okD(1-3) [OF Q, of q xs] by (auto split: if_splits)
  ultimately show ?thesis using d r unfolding segs_ok_def by blast
qed

context stream_backend
begin

abbreviation collectable :: "StreamStore \<Rightarrow> (string \<times> uint64) list \<Rightarrow> bool" where
  "collectable st rq \<equiv> list_all (req_covered U st) rq \<and> rq \<noteq> []"

lemma gc_loop_ok:
  assumes "healthy b" "\<forall>(p, rq)\<in>set reqs. \<exists>x y. p = segment_key x y" "gc_loop U (Some be) st reqs b = (del, errs, rest, b')"
  shows "errs = [] \<and> healthy b' \<and> del = map fst (filter (\<lambda>(p, rq). collectable st rq) reqs) \<and>
    rest = filter (\<lambda>(p, rq). \<not> collectable st rq) reqs \<and> (\<forall>k. objs b' k = (if k \<in> set del then None else objs b k))"
  using assms
proof (induction reqs arbitrary: b del errs rest)
  case (Cons e reqs)
  obtain p rq where e: "e = (p, rq)" by (cases e)
  show ?case
  proof (cases "collectable st rq")
    case True
    obtain u b1 where D: "DeleteObject be [] p b = (u, b1)" by (cases "DeleteObject be [] p b")
    have "ok_key (StorageKey [] p)" using Cons.prems(2) seg_key by (auto simp: e StorageKey_def)
    from delete [OF this D] Cons.prems(1) have 1: "healthy b1" "u = Inr ()" "objs b1 = (objs b)(p := None)"
      by (simp_all add: StorageKey_def)
    obtain del1 errs1 rest1 where L: "gc_loop U (Some be) st reqs b1 = (del1, errs1, rest1, b')"
      using Cons.prems(3) True D 1(2) by (cases "gc_loop U (Some be) st reqs b1") (auto simp: e)
    note IH = Cons.IH [OF 1(1) _ L]
    have "del = p # del1" "errs = errs1" "rest = rest1" using Cons.prems(3) True D 1(2) L by (auto simp: e)
    then show ?thesis using IH 1 True Cons.prems(2) by (simp add: e)
  next
    case False
    obtain del1 errs1 rest1 where L: "gc_loop U (Some be) st reqs b = (del1, errs1, rest1, b')"
      using Cons.prems(3) False by (cases "gc_loop U (Some be) st reqs b") (auto simp: e)
    note IH = Cons.IH [OF Cons.prems(1) _ L]
    have "del = del1" "errs = errs1" "rest = (p, rq) # rest1" using Cons.prems(3) False L by (auto simp: e)
    then show ?thesis using IH False Cons.prems(2) by (simp add: e)
  qed
qed simp

lemma CheckSegmentGC_ok:
  assumes U: "uuids_ok U" and R: "run_ok U objs healthy hist segs st s b"
    and G: "CheckSegmentGC U (Some be) st b = (r, st', b')"
  shows "run_ok U objs healthy hist segs st' s b' \<and> snd r = None \<and> dataDir st' = dataDir st \<and> streams st' = streams st"
proof -
  obtain del errs rest b1 where L: "gc_loop U (Some be) st (segmentReqs st) b = (del, errs, rest, b1)"
    by (cases "gc_loop U (Some be) st (segmentReqs st) b")
  have S: "streams_ok U objs healthy (dataDir st) hist (streams st) s b" and Q: "segs_ok U hist segs (segmentReqs st) (objs b)"
    using R by (simp_all add: run_ok_def)
  have h: "healthy b" "faults s = []" using S by (simp_all add: streams_ok_def)
  have k: "\<exists>x y. p = segment_key x y" if "(p, rq) \<in> set (segmentReqs st)" for p rq
    using segs_ok_reqs_seg [OF Q, of p] that by force
  then have "\<forall>(p, rq)\<in>set (segmentReqs st). \<exists>x y. p = segment_key x y" by blast
  note g = gc_loop_ok [OF h(1) this L]
  let ?gone = "\<lambda>(p, rq). collectable st rq"
  have rest: "rest = filter (\<lambda>x. \<not> ?gone x) (segmentReqs st)" using g by (simp add: case_prod_unfold)
  have o: "objs b1 k = (if k \<in> fst ` set (filter ?gone (segmentReqs st)) then None else objs b k)" for k
    using g by simp
  have "segs_ok U hist segs rest (objs b1)"
    unfolding rest using covered_archived [OF U S] by (intro segs_ok_collect [OF U Q _ o]) auto
  moreover have "streams_ok U objs healthy (dataDir st) hist (streams st) s b1"
  proof (rule streams_ok_frame [OF S])
    fix i k assume "HasPrefix k (stream_prefix U i)"
    then have "k \<notin> fst ` set (segmentReqs st)"
      using segment_not_stream [OF U, of k i] segs_ok_reqs_prefix [OF Q, of k] by blast
    then show "objs b1 k = objs b k" unfolding o by auto
  qed (use h g in simp_all)
  moreover have "r = (del, None)" "st' = st\<lparr>segmentReqs := rest\<rparr>" "b' = b1"
    using G g by (auto simp: CheckSegmentGC_def L Join_def)
  ultimately show ?thesis by (simp add: run_ok_def)
qed

lemma flush_segment_ok:
  assumes U: "uuids_ok U" and R: "run_ok U objs healthy hist segs st s b" and ne: "recs \<noteq> []"
    and p: "p = segment_key (Position (hd recs)) (Position (last recs))" "segs p = None"
    and h: "\<forall>r\<in>set recs. r \<in> set (hist (StreamID r))"
    and F: "flush_segment U be recs st b = (e, st', b')"
  shows "e = None \<and> run_ok U objs healthy hist (segs(p \<mapsto> recs)) st' s b'"
proof -
  have S: "streams_ok U objs healthy (dataDir st) hist (streams st) s b" and Q: "segs_ok U hist segs (segmentReqs st) (objs b)"
    using R by (simp_all add: run_ok_def)
  have c: "healthy b" "faults s = []" using S by (simp_all add: streams_ok_def)
  obtain x b1 where P: "PutObject be [] p (seg_bytes recs) b = (x, b1)" by (cases "PutObject be [] p (seg_bytes recs) b")
  from put [OF _ P] seg_key c(1) obtain y where 1: "x = Inr y" "healthy b1" "objs b1 = (objs b)(p \<mapsto> seg_bytes recs)"
    by (auto simp: StorageKey_def p(1))
  let ?st = "TrackSegmentCoverage U p recs st"
  have np: "p \<notin> fst ` set (segmentReqs st)" using p(2) by (auto elim: segs_ok_reqD [OF Q])
  have "HasPrefix p SegmentsPrefix" by (simp add: p(1))
  then have ns: "\<not> HasPrefix p (stream_prefix U i)" for i by (rule segment_not_stream [OF U])
  have lo: "log_ok r" if "r \<in> set recs" for r
    using S h that unfolding streams_ok_def stream_ok_def hist_ok_def by blast
  have "streams_ok U objs healthy (dataDir st) hist (streams st) s b1"
  proof (rule streams_ok_frame [OF S])
    fix i k assume "HasPrefix k (stream_prefix U i)"
    with ns [of i] have "k \<noteq> p" by blast
    then show "objs b1 k = objs b k" by (simp add: 1(3))
  qed (simp_all add: c(2) 1(2))
  moreover have "segs_ok U hist (segs(p \<mapsto> recs)) (segmentReqs ?st) (objs b1)"
    using segs_ok_new [OF Q np p(2,1) h lo ns] by (simp add: TrackSegmentCoverage_def update_nonkey [OF np] 1(3))
  moreover have "dataDir ?st = dataDir st" "streams ?st = streams st" by (simp_all add: TrackSegmentCoverage_def)
  ultimately have R1: "run_ok U objs healthy hist (segs(p \<mapsto> recs)) ?st s b1" by (simp add: run_ok_def)
  obtain r2 st2 b2 where G: "CheckSegmentGC U (Some be) ?st b1 = (r2, st2, b2)" by (cases "CheckSegmentGC U (Some be) ?st b1")
  have "e = None" "st' = st2" "b' = b2"
    using F ne P [unfolded seg_bytes_def] G by (simp_all add: flush_segment_def Let_def p(1) [symmetric] 1(1))
  then show ?thesis using CheckSegmentGC_ok [OF U R1 G] by simp
qed

end

subsection \<open>Runs\<close>

inductive stream_run ::
  "uuids \<Rightarrow> 'b Backend \<Rightarrow> ('b \<Rightarrow> string \<Rightarrow> bytes option) \<Rightarrow> ('b \<Rightarrow> bool) \<Rightarrow>
   (uuid \<Rightarrow> LogRecord list) \<Rightarrow> (string \<Rightarrow> LogRecord list option) \<Rightarrow> StreamStore \<Rightarrow> fs \<Rightarrow> 'b \<Rightarrow> bool"
  for U be objs healthy where
  start: "faults s = [] \<Longrightarrow> healthy b \<Longrightarrow> \<forall>i n. content (PathJoin (stream_dir U d i) n) s = None \<Longrightarrow>
    \<forall>i k. HasPrefix k (stream_prefix U i) \<longrightarrow> objs b k = None \<Longrightarrow>
    stream_run U be objs healthy (\<lambda>_. []) (\<lambda>_. None) (NewStreamStore d interval nbytes) s b"
| append: "stream_run U be objs healthy hist segs st s b \<Longrightarrow>
    \<forall>i. hist_ok i (hist i @ filter (\<lambda>r. StreamID r = i) recs) \<Longrightarrow> AppendRecords U recs st = Some st' \<Longrightarrow>
    stream_run U be objs healthy (\<lambda>i. hist i @ filter (\<lambda>r. StreamID r = i) recs) segs st' s b"
| work: "stream_run U be objs healthy hist segs st s b \<Longrightarrow> worker_step U (Some be) (st, s, b) (st', s', b') \<Longrightarrow>
    stream_run U be objs healthy hist segs st' s' b'"
| seal: "stream_run U be objs healthy hist segs st s b \<Longrightarrow> SealStream U (Some be) i st s b = (r, st', s', b') \<Longrightarrow>
    stream_run U be objs healthy hist segs st' s' b'"
| seal_all: "stream_run U be objs healthy hist segs st s b \<Longrightarrow> SealAll U (Some be) st s b = (rs, st', s', b') \<Longrightarrow>
    stream_run U be objs healthy hist segs st' s' b'"
| discover: "stream_run U be objs healthy hist segs st s b \<Longrightarrow> EnsureDiscovered U (Some be) i st s b = (q, st', s', b') \<Longrightarrow>
    stream_run U be objs healthy hist segs st' s' b'"
| segment: "stream_run U be objs healthy hist segs st s b \<Longrightarrow> recs \<noteq> [] \<Longrightarrow>
    \<forall>r\<in>set recs. r \<in> set (hist (StreamID r)) \<Longrightarrow> segs (segment_key (Position (hd recs)) (Position (last recs))) = None \<Longrightarrow>
    flush_segment U be recs st b = (e, st', b') \<Longrightarrow>
    stream_run U be objs healthy hist (segs(segment_key (Position (hd recs)) (Position (last recs)) \<mapsto> recs)) st' s b'"
| collect: "stream_run U be objs healthy hist segs st s b \<Longrightarrow> CheckSegmentGC U (Some be) st b = (g, st', b') \<Longrightarrow>
    stream_run U be objs healthy hist segs st' s b'"

lemma start_ok:
  assumes "faults s = []" "healthy b" "\<forall>i n. content (PathJoin (stream_dir U d i) n) s = None"
    "\<forall>i k. HasPrefix k (stream_prefix U i) \<longrightarrow> objs b k = None"
  shows "run_ok U objs healthy (\<lambda>_. []) (\<lambda>_. None) (NewStreamStore d interval nbytes) s b"
proof -
  have "stream_ok U (stream_dir U d i) i [] (new_writer U d i) s (objs b)" for i
  proof (rule stream_okI [where parts = "[]" and opn = "[]"])
    show "disk_ok (stream_dir U d i) [] [] s" using assms(3) by (simp add: disk_ok_def opath_def)
    show "remote_ok U i [] (objs b)" using assms(4) unfolding remote_ok_def by auto
  qed (simp_all add: hist_ok_def new_writer_def writer_ok_def stream_dir_def)
  with assms(1,2) show ?thesis by (simp add: run_ok_def streams_ok_def segs_ok_def wr_def NewStreamStore_def)
qed

lemma flushAllPending_ok:
  assumes U: "uuids_ok U" and R: "run_ok U objs healthy hist segs st s b" and F: "flushAllPending st s = (st', s')"
  shows "run_ok U objs healthy hist segs st' s' b"
proof -
  let ?f = "\<lambda>w s b. if pending w \<noteq> [] then flush_writer w s b else (None, w, s, b)"
  obtain rs ws s1 where E: "each_writer ?f (streams st) s () = (rs, ws, s1, ())" by (cases "each_writer ?f (streams st) s ()") auto
  have S: "streams_ok U (\<lambda>_. objs b) (\<lambda>_. True) (dataDir st) hist (streams st) s ()" and hb: "healthy b"
    using R by (simp_all add: run_ok_def streams_ok_def)
  have "streams_ok U (\<lambda>_. objs b) (\<lambda>_. True) (dataDir st) hist ([] @ ws) s1 () \<and> objs b \<subseteq>\<^sub>m objs b \<and>
      (\<forall>k. HasPrefix k SegmentsPrefix \<longrightarrow> objs b k = objs b k)"
  proof (rule each_writer_ok [OF U, where f = ?f and s = s and b = "()" and ws = "streams st" and rs = rs])
    fix i w s and u :: unit and r w' s' and u' :: unit
    assume A: "stream_ok U (stream_dir U (dataDir st) i) i (hist i) w s (objs b)" "faults s = []"
      and W: "(if pending w \<noteq> [] then flush_writer w s u else (None, w, s, u)) = (r, w', s', u')"
    show "stream_ok U (stream_dir U (dataDir st) i) i (hist i) w' s' (objs b) \<and> faults s' = [] \<and> True \<and>
      (\<forall>p. (\<forall>n. p \<noteq> PathJoin (stream_dir U (dataDir st) i) n) \<longrightarrow> content p s' = content p s) \<and>
      (\<forall>k. \<not> HasPrefix k (stream_prefix U i) \<longrightarrow> objs b k = objs b k) \<and> objs b \<subseteq>\<^sub>m objs b"
      using W A flush_writer_ok [OF A, of u r w' s' u'] by (cases "pending w = []") simp_all
  qed (use S E in simp_all)
  moreover have "st' = st\<lparr>streams := ws\<rparr>" "s' = s1" using F E by (simp_all add: flushAllPending_def)
  ultimately show ?thesis using R hb by (simp add: run_ok_def streams_ok_def)
qed

lemma run_ok_grow:
  assumes R: "run_ok U objs healthy hist segs st s b"
    and "streams_ok U objs healthy (dataDir st') hist (streams st') s' b'" "segmentReqs st' = segmentReqs st" "objs b \<subseteq>\<^sub>m objs b'"
  shows "run_ok U objs healthy hist segs st' s' b'"
  using assms segs_ok_frame [of U hist segs "segmentReqs st" "objs b" "objs b'" hist]
  by (simp add: run_ok_def map_le_def dom_def)

lemma saveCoverage_ok:
  assumes U: "uuids_ok U" and R: "run_ok U objs healthy hist segs st s b"
  shows "run_ok U objs healthy hist segs st (saveCoverage st s) b"
proof -
  have S: "streams_ok U objs healthy (dataDir st) hist (streams st) s b" using R by (simp add: run_ok_def)
  then have f: "faults s = []" "healthy b" by (simp_all add: streams_ok_def)
  show ?thesis using saveCoverage_clean [OF U f(1), of st] f(2)
    by (intro run_ok_grow [OF R] streams_ok_frame [OF S]) simp_all
qed

lemma evict_run_ok:
  "run_ok U objs healthy hist segs st s b \<Longrightarrow> run_ok U objs healthy hist segs (evictIdleWritersLocked st) s b"
  using evict_streams_ok by (fastforce simp: run_ok_def evictIdleWritersLocked_def)

context stream_backend
begin

lemma each_writer_run_ok:
  assumes U: "uuids_ok U" and R: "run_ok U objs healthy hist segs st s b"
    and f: "\<And>i w s b r w' s' b'. stream_ok U (stream_dir U (dataDir st) i) i (hist i) w s (objs b) \<Longrightarrow> faults s = [] \<Longrightarrow> healthy b \<Longrightarrow>
      f w s b = (r, w', s', b') \<Longrightarrow>
      stream_ok U (stream_dir U (dataDir st) i) i (hist i) w' s' (objs b') \<and> keeps (stream_dir U (dataDir st) i) i s b s' b'"
    and E: "each_writer f (streams st) s b = (rs, ws, s', b')"
  shows "run_ok U objs healthy hist segs (st\<lparr>streams := ws\<rparr>) s' b'"
proof -
  have S: "streams_ok U objs healthy (dataDir st) hist ([] @ streams st) s b" using R by (simp add: run_ok_def)
  have "streams_ok U objs healthy (dataDir st) hist ([] @ ws) s' b' \<and> objs b \<subseteq>\<^sub>m objs b' \<and>
      (\<forall>k. HasPrefix k SegmentsPrefix \<longrightarrow> objs b' k = objs b k)"
    by (rule each_writer_ok [OF U _ S E]) (use f in blast)
  then show ?thesis by (intro run_ok_grow [OF R]) simp_all
qed

lemma put_writer_run_ok:
  assumes U: "uuids_ok U" and R: "run_ok U objs healthy hist segs st s b" and G: "getOrCreateStream U i st = (w, st1)"
    and w: "stream_ok U (stream_dir U (dataDir st) i) i (hist i) w' s' (objs b')" "keeps (stream_dir U (dataDir st) i) i s b s' b'"
  shows "run_ok U objs healthy hist segs (put_writer U i w' st1) s' b'"
proof -
  have S: "streams_ok U objs healthy (dataDir st) hist (streams st) s b" using R by (simp add: run_ok_def)
  from getOrCreate_ok [OF U S G] have g: "st1 = st\<lparr>streams := streams st1\<rparr>"
    "streams_ok U objs healthy (dataDir st) hist (streams st1) s b" by simp_all
  from streams_ok_update [OF U g(2) w(1)] w(2)
  have "streams_ok U objs healthy (dataDir st) (hist(i := hist i)) (AList.update (uuid_String U i) w' (streams st1)) s' b'" by blast
  moreover have "put_writer U i w' st1 = st\<lparr>streams := AList.update (uuid_String U i) w' (streams st1)\<rparr>"
    using g(1) by (cases st1) (auto simp: put_writer_def)
  ultimately show ?thesis using w(2) by (intro run_ok_grow [OF R]) simp_all
qed

lemma run_ok_writer:
  assumes U: "uuids_ok U" and R: "run_ok U objs healthy hist segs st s b" and G: "getOrCreateStream U i st = (w, st1)"
  shows "stream_ok U (stream_dir U (dataDir st) i) i (hist i) w s (objs b)" "faults s = []" "healthy b"
  using getOrCreate_ok [OF U _ G, of objs healthy hist s b] R by (simp_all add: run_ok_def streams_ok_def)

lemma EnsureDiscovered_ok:
  assumes U: "uuids_ok U" and R: "run_ok U objs healthy hist segs st s b"
    and E: "EnsureDiscovered U (Some be) i st s b = (q, st', s', b')"
  shows "run_ok U objs healthy hist segs st' s' b'"
proof -
  obtain w st1 where G: "getOrCreateStream U i st = (w, st1)" by (cases "getOrCreateStream U i st")
  obtain w1 s1 b1 where D: "discover_once U (Some be) w s b = (w1, s1, b1)" by (cases "discover_once U (Some be) w s b")
  note d = discover_ok [OF U run_ok_writer [OF U R G] D]
  have "st' = put_writer U i w1 st1" "s' = s1" "b' = b1" using E by (simp_all add: EnsureDiscovered_def G D)
  then show ?thesis using put_writer_run_ok [OF U R G] d by blast
qed

lemma SealStream_ok:
  assumes U: "uuids_ok U" and R: "run_ok U objs healthy hist segs st s b"
    and E: "SealStream U (Some be) i st s b = (r, st', s', b')"
  shows "run_ok U objs healthy hist segs st' s' b' \<and> snd r = None"
proof -
  obtain w st1 where G: "getOrCreateStream U i st = (w, st1)" by (cases "getOrCreateStream U i st")
  obtain m w1 s1 b1 where O: "seal_one U (Some be) w s b = (m, w1, s1, b1)" by (cases "seal_one U (Some be) w s b") auto
  note o = seal_one_ok [OF U run_ok_writer [OF U R G] O]
  have "st' = put_writer U i w1 st1 \<and> s' = saveCoverage st' s1 \<and> b' = b1 \<and> List.map_filter id [snd r] = []"
    using E O o by (auto simp: SealStream_def seal_one_def G Let_def List.map_filter_simps split: prod.splits option.splits)
  moreover have "run_ok U objs healthy hist segs (put_writer U i w1 st1) s1 b1" using put_writer_run_ok [OF U R G] o by blast
  ultimately show ?thesis using saveCoverage_ok [OF U] by (auto simp: List.map_filter_simps split: option.splits)
qed

lemma SealAll_ok:
  assumes U: "uuids_ok U" and R: "run_ok U objs healthy hist segs st s b"
    and E: "SealAll U (Some be) st s b = (r, st', s', b')"
  shows "run_ok U objs healthy hist segs st' s' b'"
proof -
  obtain rs ws s1 b1 where W: "each_writer (seal_one U (Some be)) (streams st) s b = (rs, ws, s1, b1)"
    by (cases "each_writer (seal_one U (Some be)) (streams st) s b")
  have "run_ok U objs healthy hist segs (st\<lparr>streams := ws\<rparr>) s1 b1"
    by (rule each_writer_run_ok [OF U R _ W]) (use seal_one_ok [OF U] in blast)
  then show ?thesis using saveCoverage_ok [OF U] E W by (auto simp: SealAll_def Let_def)
qed

lemma checkSealsAndGC_ok:
  assumes U: "uuids_ok U" and R: "run_ok U objs healthy hist segs st s b"
    and E: "checkSealsAndGC U (Some be) st s b = (st', s', b')"
  shows "run_ok U objs healthy hist segs st' s' b'"
proof -
  obtain rs ws s1 b1 where W: "each_writer (seal_pass U (Some be) st) (streams st) s b = (rs, ws, s1, b1)"
    by (cases "each_writer (seal_pass U (Some be) st) (streams st) s b")
  have R1: "run_ok U objs healthy hist segs (st\<lparr>streams := ws\<rparr>) s1 b1"
    by (rule each_writer_run_ok [OF U R _ W]) (use seal_pass_ok [OF U] in blast)
  obtain g st2 b2 where G: "CheckSegmentGC U (Some be) (st\<lparr>streams := ws\<rparr>) b1 = (g, st2, b2)"
    by (cases "CheckSegmentGC U (Some be) (st\<lparr>streams := ws\<rparr>) b1")
  have "run_ok U objs healthy hist segs (evictIdleWritersLocked st2) s1 b2"
    using CheckSegmentGC_ok [OF U R1 G] by (intro evict_run_ok) simp
  then show ?thesis using saveCoverage_ok [OF U] E W G by (auto simp: checkSealsAndGC_def Let_def)
qed

lemma stream_run_ok:
  assumes U: "uuids_ok U"
  shows "stream_run U be objs healthy hist segs st s b \<Longrightarrow> run_ok U objs healthy hist segs st s b"
proof (induction rule: stream_run.induct)
  case (start s b d interval nbytes)
  then show ?case by (rule start_ok)
next
  case (append hist segs st s b recs st')
  have S: "streams_ok U objs healthy (dataDir st) hist (streams st) s b" and Q: "segs_ok U hist segs (segmentReqs st) (objs b)"
    using append.IH by (simp_all add: run_ok_def)
  obtain st1 where A: "AppendRecords U recs st = Some st1" "st1 = st\<lparr>streams := streams st1, writeNotify := writeNotify st1\<rparr>"
    "streams_ok U objs healthy (dataDir st) (\<lambda>i. hist i @ filter (\<lambda>r. StreamID r = i) recs) (streams st1) s b"
    using AppendRecords_ok [OF U S append.hyps(2)] by blast
  have "segs_ok U (\<lambda>i. hist i @ filter (\<lambda>r. StreamID r = i) recs) segs (segmentReqs st) (objs b)"
    by (rule segs_ok_frame [OF Q]) simp_all
  moreover have "dataDir st1 = dataDir st" "segmentReqs st1 = segmentReqs st" using A(2) by (cases st, cases st1, simp)+
  ultimately show ?case using A append.hyps(3) by (simp add: run_ok_def)
next
  case (work hist segs st s b st' s' b')
  from work.hyps(2) show ?case
  proof cases
    case notified
    moreover have "run_ok U objs healthy hist segs (st\<lparr>writeNotify := False\<rparr>) s b" using work.IH by (simp add: run_ok_def)
    ultimately show ?thesis using flushAllPending_ok [OF U, of objs healthy hist segs _ s b st' s'] by simp
  next
    case flush_tick
    then show ?thesis using flushAllPending_ok [OF U work.IH] by simp
  next
    case seal_tick
    then show ?thesis using checkSealsAndGC_ok [OF U work.IH] by blast
  qed
next
  case (segment hist segs st s b recs e st' b')
  then show ?case using flush_segment_ok [OF U segment.IH segment.hyps(2) refl segment.hyps(4,3,5)] by blast
next
  case (seal hist segs st s b i r st' s' b')
  then show ?case using SealStream_ok [OF U seal.IH seal.hyps(2)] by simp
next
  case (seal_all hist segs st s b rs st' s' b')
  then show ?case using SealAll_ok [OF U seal_all.IH seal_all.hyps(2)] by simp
next
  case (discover hist segs st s b i q st' s' b')
  then show ?case using EnsureDiscovered_ok [OF U discover.IH discover.hyps(2)] by simp
next
  case (collect hist segs st s b g st' b')
  then show ?case using CheckSegmentGC_ok [OF U collect.IH collect.hyps(2)] by simp
qed

end

subsection \<open>Reading\<close>

context stream_backend
begin

lemma ReadSegment_ok:
  assumes "ok_key k" "healthy b" "objs b k = Some (seg_bytes rs)" "\<forall>r\<in>set rs. log_ok r"
  shows "\<exists>b'. ReadSegmentFromBackend be k False b = (Inr rs, b') \<and> objs b' = objs b \<and> healthy b'"
proof -
  obtain g b' where G: "GetObject be [] k 0 0 b = (g, b')" by (cases "GetObject be [] k 0 0 b")
  from get [of "[]" k 0, OF _ _ G] assms(1-3) have g: "g = Inr (seg_bytes rs)" "objs b' = objs b" "healthy b'"
    by (auto simp: StorageKey_def split: sum.splits)
  have "decode_loop DecodeLogRecord (concat (map LogRecord_Encode rs)) = (rs, ErrEOF)"
    using log_codec.decode_loop_enc_all [of rs "[]"] assms(4) by (simp add: log_codec.enc_all_def list_all_iff)
  then show ?thesis using G g by (auto simp: ReadSegmentFromBackend_def andThen_def seg_bytes_def)
qed

lemma archived_readable:
  assumes U: "uuids_ok U" and "healthy b" "archived U (objs b) r"
  shows "\<exists>k rs b'. HasPrefix k (stream_prefix U (StreamID r)) \<and> ReadSegmentFromBackend be k False b = (Inr rs, b') \<and> r \<in> set rs"
  using assms(3)
proof (rule archivedE)
  fix rs assume rs: "r \<in> set rs" "\<forall>x\<in>set rs. log_ok x" "objs b (part_key U (StreamID r) rs) = Some (seg_bytes rs)"
  have "ok_key (part_key U (StreamID r) rs)" using stream_key [OF U] by (simp add: part_key_def)
  from ReadSegment_ok [OF this assms(2) rs(3,2)] rs(1) part_key_prefix [of U "StreamID r" rs] show ?thesis by blast
qed

lemma segment_record_readable:
  assumes U: "uuids_ok U" and R: "stream_run U be objs healthy hist segs st s b" and p: "segs p = Some recs" and r: "r \<in> set recs"
  shows "\<exists>k rs b'. (k = p \<or> HasPrefix k (stream_prefix U (StreamID r))) \<and>
    ReadSegmentFromBackend be k False b = (Inr rs, b') \<and> r \<in> set rs"
proof -
  from stream_run_ok [OF U R] have h: "healthy b" and Q: "segs_ok U hist segs (segmentReqs st) (objs b)"
    by (simp_all add: run_ok_def streams_ok_def)
  from segs_okD(4) [OF Q p] show ?thesis
  proof
    assume "p \<in> fst ` set (segmentReqs st) \<and> objs b p = Some (seg_bytes recs)"
    moreover have "ok_key p" using segs_okD(1) [OF Q p] seg_key by auto
    ultimately show ?thesis using ReadSegment_ok [of p b recs] h r segs_okD(3) [OF Q p] by blast
  next
    assume "\<forall>r\<in>set recs. archived U (objs b) r"
    then show ?thesis using archived_readable [OF U h] r by blast
  qed
qed

lemma each_writer_sealed:
  assumes U: "uuids_ok U" and "streams_ok U objs healthy d hist (pre @ ws) s b" "each_writer (seal_one U (Some be)) ws s b = (rs, ws', s', b')"
  shows "concat (map snd rs) = [] \<and> map fst ws' = map fst ws \<and> (\<forall>(sid, w)\<in>set ws'. pending w = [] \<and> recCount w = 0)"
  using assms(2,3)
proof (induction ws arbitrary: pre s b rs ws')
  case (Cons x ws)
  obtain sid w where x: "x = (sid, w)" by (cases x)
  obtain r w1 s1 b1 where F: "seal_one U (Some be) w s b = (r, w1, s1, b1)" by (cases "seal_one U (Some be) w s b")
  obtain rs1 ws1 where E: "each_writer (seal_one U (Some be)) ws s1 b1 = (rs1, ws1, s', b')" "ws' = (sid, w1) # ws1" "rs = r # rs1"
    using Cons.prems(2) F x by (cases "each_writer (seal_one U (Some be)) ws s1 b1") auto
  let ?i = "wStreamID w"
  have d: "distinct (map fst (pre @ (sid, w) # ws))" "sid = uuid_String U ?i"
    using Cons.prems(1) by (auto simp: streams_ok_def x)
  have ok: "stream_ok U (stream_dir U d ?i) ?i (hist ?i) w s (objs b)" "faults s = []" "healthy b"
    using Cons.prems(1) wr_middle [OF d, of d] by (auto simp: streams_ok_def x dest: spec [of _ ?i])
  note g = seal_one_ok [OF U ok F]
  have "streams_ok U objs healthy d (hist(?i := hist ?i)) (AList.update (uuid_String U ?i) w1 (pre @ (sid, w) # ws)) s1 b1"
    using g by (intro streams_ok_update [OF U Cons.prems(1) [unfolded x]]) blast+
  then have "streams_ok U objs healthy d hist ((pre @ [(sid, w1)]) @ ws) s1 b1"
    using d update_middle [of sid pre w1 w ws] by simp
  from Cons.IH [OF this E(1)] E(2,3) g show ?case by (simp add: x)
qed simp

lemma drained_archived:
  assumes "stream_ok U D i hist w s ob" "pending w = []" "recCount w = 0" "r \<in> set hist"
  shows "archived U ob r"
  using assms(1)
proof (rule stream_okE)
  fix parts opn
  assume H: "hist_ok i hist" "hist = concat parts @ opn @ pending w" "remote_ok U i parts ob" "writer_ok D i parts opn w"
  then have "r \<in> set (concat parts)" using assms(2-4) by (simp add: writer_ok_def)
  then obtain rs where rs: "rs \<in> set parts" "r \<in> set rs" by auto
  moreover have "StreamID r = i" "\<forall>x\<in>set rs. log_ok x" using H(1,2) rs assms(4) by (auto simp: hist_ok_def)
  ultimately show ?thesis using H(3) by (intro archivedI [of r rs]) (simp_all add: remote_ok_def)
qed

lemma SealAll_archives:
  assumes U: "uuids_ok U" and R: "stream_run U be objs healthy hist segs st s b" and E: "SealAll U (Some be) st s b = (m, st', s', b')"
    and r: "r \<in> set (hist i)"
  shows "snd m = None" "\<exists>k rs b2. HasPrefix k (stream_prefix U i) \<and> ReadSegmentFromBackend be k False b' = (Inr rs, b2) \<and> r \<in> set rs"
proof -
  obtain rs ws s1 b1 where W: "each_writer (seal_one U (Some be)) (streams st) s b = (rs, ws, s1, b1)"
    by (cases "each_writer (seal_one U (Some be)) (streams st) s b")
  have S: "streams_ok U objs healthy (dataDir st) hist ([] @ streams st) s b" using stream_run_ok [OF U R] by (simp add: run_ok_def)
  note w = each_writer_sealed [OF U S W]
  then show "snd m = None" using E W by (auto simp: SealAll_def Let_def)
  have st': "st' = st\<lparr>streams := ws\<rparr>" "b' = b1" using E W by (simp_all add: SealAll_def Let_def)
  have R': "run_ok U objs healthy hist segs st' s' b'" using SealAll_ok [OF U stream_run_ok [OF U R] E] .
  let ?w = "wr U (dataDir st') (streams st') i"
  have so: "stream_ok U (stream_dir U (dataDir st') i) i (hist i) ?w s' (objs b')" "healthy b'"
    using R' by (simp_all add: run_ok_def streams_ok_def)
  have "pending ?w = [] \<and> recCount ?w = 0"
    using w unfolding wr_def st' by (auto simp: new_writer_def split: option.splits dest!: map_of_SomeD)
  then have "archived U (objs b') r" using drained_archived [OF so(1)] r by blast
  moreover have "StreamID r = i" using so(1) r unfolding stream_ok_def hist_ok_def by blast
  ultimately show "\<exists>k rs b2. HasPrefix k (stream_prefix U i) \<and> ReadSegmentFromBackend be k False b' = (Inr rs, b2) \<and> r \<in> set rs"
    using archived_readable [OF U so(2), of r] by blast
qed

end

end
