(* ===== verification/StreamProps.thy ===== *)
theory StreamProps
  imports StreamGC PackProps
begin

text \<open>
  The backends of the sources satisfy what the store of streams needs, and what this gives: the
  invariant of a stream, the safety of the garbage collection, the effect of sealing, and the
  behaviour of the store when a call of the operating system fails.
\<close>

subsection \<open>The backends\<close>

interpretation mem_streams: stream_backend "mem_backend L" mem_objs "\<lambda>_. True" "\<lambda>_. True" U
  by unfold_locales simp_all

lemma Base_stream_key: "Base (FormatStreamObjectKey u i a b) = FormatStreamFileName a b True"
  unfolding FormatStreamObjectKey_eq
  by (rule Base_PathJoin) (simp add: FormatStreamFileName_def, rule stream_name_no_slash)

lemma segment_key_eq:
  "segment_key x y = PathJoin ''streams/wal/segments'' (pad0 12 (dec (unat x)) @ ''-'' @ pad0 12 (dec (unat y)) @ ''.wal'')"
  by (simp add: segment_key_def SegmentsPrefix_def PathJoin_def)

lemma Base_segment_key: "Base (segment_key x y) = pad0 12 (dec (unat x)) @ ''-'' @ pad0 12 (dec (unat y)) @ ''.wal''"
  unfolding segment_key_eq
  by (rule Base_PathJoin) (use digits_no_char [of "CHR ''/''"] in \<open>simp_all add: pad0_def\<close>)

lemma digits_not_dot: "list_all is_digit xs \<Longrightarrow> \<not> HasPrefix (xs @ CHR ''-'' # ys) ''.tmp-upload-''"
  by (cases xs) (auto simp: HasPrefix_def is_digit_def)

interpretation dir_streams: stream_backend "fs_backend L mtime root" "fs_objs root" fs_key "\<lambda>s. faults s = []" U
proof unfold_locales
  fix i a b
  show "fs_key (FormatStreamObjectKey (uuid_String U) i a b)"
    unfolding fs_key_def Base_stream_key
    by (simp add: FormatStreamObjectKey_def FormatStreamFileName_def HasPrefix_def)
next
  fix x y
  show "fs_key (segment_key x y)"
    using digits_not_dot [OF pad0_digits] unfolding fs_key_def Base_segment_key by (simp add: segment_key_def)
qed

subsection \<open>A concrete UUID library\<close>

definition uuid_digit :: "nat \<Rightarrow> char" where
  "uuid_digit n = ''0123456789abcdef'' ! (n mod 16)"

definition uuid_undigit :: "char \<Rightarrow> nat" where
  "uuid_undigit c = length (takeWhile (\<lambda>x. x \<noteq> c) ''0123456789abcdef'')"

fun uuid_unhex :: "string \<Rightarrow> bytes" where
  "uuid_unhex (a # b # cs) = word_of_nat (uuid_undigit a * 16 + uuid_undigit b) # uuid_unhex cs"
| "uuid_unhex cs = []"

definition uuid_hex :: "bytes \<Rightarrow> string" where
  "uuid_hex bs = concat (map (\<lambda>b. [uuid_digit (unat b div 16), uuid_digit (unat b)]) bs)"

definition demo_uuids :: uuids where
  "demo_uuids =
     \<lparr>uuid_String = (\<lambda>i. let h = uuid_hex (PutUint i) in
        take 8 h @ ''-'' @ take 4 (drop 8 h) @ ''-'' @ take 4 (drop 12 h) @ ''-'' @ take 4 (drop 16 h) @ ''-'' @ drop 20 h),
      uuid_Parse = (\<lambda>s. if length s = 36 then Some (Uint (uuid_unhex (filter (\<lambda>c. c \<noteq> CHR ''-'') s))) else None)\<rparr>"

lemma less16_cases: "n < 16 \<Longrightarrow> n \<in> {0, 1, 2, 3, 4, 5, 6, 7, 8, 9, 10, 11, 12, 13, 14, 15}" for n :: nat
  by (simp only: insert_iff empty_iff) presburger

lemma uuid_digit_inverse [simp]: "uuid_undigit (uuid_digit n) = n mod 16"
proof -
  have "n mod 16 \<in> {0, 1, 2, 3, 4, 5, 6, 7, 8, 9, 10, 11, 12, 13, 14, 15}" by (rule less16_cases) simp
  then show ?thesis by (auto simp: uuid_digit_def uuid_undigit_def nth_Cons')
qed

lemma uuid_digit_plain: "uuid_digit n \<noteq> CHR ''-''" "uuid_digit n \<noteq> CHR ''/''"
proof -
  have "n mod 16 \<in> {0, 1, 2, 3, 4, 5, 6, 7, 8, 9, 10, 11, 12, 13, 14, 15}" by (rule less16_cases) simp
  then show "uuid_digit n \<noteq> CHR ''-''" "uuid_digit n \<noteq> CHR ''/''" by (auto simp: uuid_digit_def nth_Cons')
qed

lemma uuid_unhex_hex: "uuid_unhex (uuid_hex bs) = bs"
proof (induction bs)
  case (Cons b bs)
  have "unat b < 256" using unsigned_less [where w = b] by simp
  then have "unat b div 16 mod 16 * 16 + unat b mod 16 = unat b" by simp
  then show ?case using Cons by (simp add: uuid_hex_def)
qed (simp add: uuid_hex_def)

lemma length_uuid_hex: "length (uuid_hex bs) = 2 * length bs"
  by (induction bs) (simp_all add: uuid_hex_def)

lemma uuid_hex_plain: "CHR ''-'' \<notin> set (uuid_hex bs)" "CHR ''/'' \<notin> set (uuid_hex bs)"
  using uuid_digit_plain by (auto simp: uuid_hex_def dest: sym)

lemma demo_uuids_ok: "uuids_ok demo_uuids"
  unfolding uuids_ok_def
proof (intro allI)
  fix i :: uuid
  let ?h = "uuid_hex (PutUint i)"
  have l: "length ?h = 32" by (simp add: length_uuid_hex)
  have f: "filter (\<lambda>c. c \<noteq> CHR ''-'') (take n (drop m ?h)) = take n (drop m ?h)" for n m
    using uuid_hex_plain(1) [of "PutUint i"] by (auto simp: filter_id_conv dest: in_set_takeD in_set_dropD)
  have j: "take 8 ?h @ take 4 (drop 8 ?h) @ take 4 (drop 12 ?h) @ take 4 (drop 16 ?h) @ take 12 (drop 20 ?h) = ?h"
    using l append_take_drop_id [of 20 ?h] append_take_drop_id [of 4 "drop 16 ?h"] append_take_drop_id [of 4 "drop 12 ?h"]
      append_take_drop_id [of 4 "drop 8 ?h"] append_take_drop_id [of 8 ?h] by simp
  have s: "uuid_String demo_uuids i = take 8 (drop 0 ?h) @ ''-'' @ take 4 (drop 8 ?h) @ ''-'' @ take 4 (drop 12 ?h) @ ''-'' @
      take 4 (drop 16 ?h) @ ''-'' @ take 12 (drop 20 ?h)"
    using l by (simp add: demo_uuids_def Let_def)
  have "filter (\<lambda>c. c \<noteq> CHR ''-'') (uuid_String demo_uuids i) = ?h"
    unfolding s filter_append f using j by simp
  moreover have "length (uuid_String demo_uuids i) = 36" unfolding s using l by simp
  moreover have "CHR ''/'' \<notin> set (uuid_String demo_uuids i)"
    unfolding s using uuid_hex_plain(2) [of "PutUint i"] by (auto dest: in_set_takeD in_set_dropD)
  ultimately show "uuid_Parse demo_uuids (uuid_String demo_uuids i) = Some i \<and> CHR ''/'' \<notin> set (uuid_String demo_uuids i) \<and>
      length (uuid_String demo_uuids i) = 36"
    by (simp add: demo_uuids_def uuid_unhex_hex)
qed

subsection \<open>A run\<close>

definition demo_rec :: LogRecord where
  "demo_rec = (let r = \<lparr>Position = 1, StreamID = 1, StreamSeq = 1, Payload = [7], CRC32C = 0\<rparr>
     in r\<lparr>CRC32C := LogRecord_ComputeCRC32C r\<rparr>)"

abbreviation demo_dir :: "fs Backend" where
  "demo_dir \<equiv> fs_backend demo_lib (\<lambda>_. 0) ''/objects''"

abbreviation demo_run :: "(uuid \<Rightarrow> LogRecord list) \<Rightarrow> (string \<Rightarrow> LogRecord list option) \<Rightarrow> StreamStore \<Rightarrow> fs \<Rightarrow> fs \<Rightarrow> bool" where
  "demo_run \<equiv> stream_run demo_uuids demo_dir (fs_objs ''/objects'') (\<lambda>b. faults b = [])"

lemma demo_rec_simps [simp]:
  "StreamID demo_rec = 1" "StreamSeq demo_rec = 1" "Position demo_rec = 1" "log_ok demo_rec"
  by (simp_all add: demo_rec_def Let_def log_ok_def LogRecord_ComputeCRC32C_def)

lemma demo_run_exists:
  "\<exists>st s b. demo_run (\<lambda>i. if i = 1 then [demo_rec] else []) ((\<lambda>_. None)(segment_key 1 1 \<mapsto> [demo_rec])) st s b"
proof -
  let ?s = "\<lparr>files = [], faults = [], clock = 0\<rparr>" and ?st = "NewStreamStore ''/data'' 0 0"
  have 0: "demo_run (\<lambda>_. []) (\<lambda>_. None) ?st ?s ?s"
    by (rule stream_run.start) (simp_all add: content_def get_file_def fs_objs_def)
  let ?h = "\<lambda>i. [] @ filter (\<lambda>r. StreamID r = i) [demo_rec]"
  have h: "\<forall>i. hist_ok i (?h i)" by (simp add: hist_ok_def)
  have "streams_ok demo_uuids (fs_objs ''/objects'') (\<lambda>b. faults b = []) (dataDir ?st) (\<lambda>_. []) (streams ?st) ?s ?s"
    using dir_streams.stream_run_ok [OF demo_uuids_ok 0] by (simp add: run_ok_def)
  from AppendRecords_ok [OF demo_uuids_ok this h] obtain st1 where
    "AppendRecords demo_uuids [demo_rec] ?st = Some st1" by blast
  from stream_run.append [OF 0 h this] have 1: "demo_run ?h (\<lambda>_. None) st1 ?s ?s" .
  obtain e st2 b2 where F: "flush_segment demo_uuids demo_dir [demo_rec] st1 ?s = (e, st2, b2)"
    by (cases "flush_segment demo_uuids demo_dir [demo_rec] st1 ?s")
  have "?h = (\<lambda>i. if i = 1 then [demo_rec] else [])" by auto
  with stream_run.segment [OF 1 _ _ _ F] show ?thesis by auto
qed

subsection \<open>Properties\<close>

text \<open>C28: No record is lost by the garbage collection of aggregated segments. In every run of the store without
  faults over the directory backend - appending, the background worker, sealing, uploads of aggregated segments,
  collections, in any order and any number - every record of every segment that was ever uploaded can be read from
  object storage: from the segment, or, when that has been deleted, from a sealed object of the record's stream.\<close>

theorem stream_gc_safe:
  assumes "uuids_ok U"
    and "stream_run U (fs_backend L mtime root) (fs_objs root) (\<lambda>b. faults b = []) hist segs st s b"
    and "segs p = Some recs" and "r \<in> set recs"
  shows "\<exists>k rs b'. (k = p \<or> HasPrefix k (stream_prefix U (StreamID r))) \<and>
    ReadSegmentFromBackend (fs_backend L mtime root) k False b = (Inr rs, b') \<and> r \<in> set rs"
  using assms by (rule dir_streams.segment_record_readable)

theorem stream_gc_safe_witness:
  "\<exists>hist st s b k rs b'. demo_run hist ((\<lambda>_. None)(segment_key 1 1 \<mapsto> [demo_rec])) st s b \<and>
     (k = segment_key 1 1 \<or> HasPrefix k (stream_prefix demo_uuids 1)) \<and>
     ReadSegmentFromBackend demo_dir k False b = (Inr rs, b') \<and> demo_rec \<in> set rs"
proof -
  from demo_run_exists obtain st s b where
    r: "demo_run (\<lambda>i. if i = 1 then [demo_rec] else []) ((\<lambda>_. None)(segment_key 1 1 \<mapsto> [demo_rec])) st s b" by blast
  from stream_gc_safe [OF demo_uuids_ok r, of "segment_key 1 1" "[demo_rec]" demo_rec] r show ?thesis
    unfolding demo_rec_simps by fastforce
qed

text \<open>C29: The invariant of a stream. In every run of the store without faults, the records appended to a stream are,
  in order, those of its sealed files, those of its open file and those still in memory; the files hold exactly these
  records after a header; every sealed file has its object under the name that its sequence numbers give, and the
  counters of the writer (records in the open file, last sequence number, uploaded position) agree with them.\<close>

theorem stream_history_invariant:
  assumes "uuids_ok U"
    and "stream_run U (fs_backend L mtime root) (fs_objs root) (\<lambda>b. faults b = []) hist segs st s b"
  shows "stream_ok U (stream_dir U (dataDir st) i) i (hist i) (wr U (dataDir st) (streams st) i) s (fs_objs root b)"
  using dir_streams.stream_run_ok [OF assms] by (simp add: run_ok_def streams_ok_def)

theorem stream_history_invariant_witness:
  "\<exists>segs st s b. demo_run (\<lambda>i. if i = 1 then [demo_rec] else []) segs st s b \<and>
     stream_ok demo_uuids (stream_dir demo_uuids (dataDir st) 1) 1 [demo_rec] (wr demo_uuids (dataDir st) (streams st) 1) s
       (fs_objs ''/objects'' b)"
proof -
  from demo_run_exists obtain st s b where
    r: "demo_run (\<lambda>i. if i = 1 then [demo_rec] else []) ((\<lambda>_. None)(segment_key 1 1 \<mapsto> [demo_rec])) st s b" by blast
  from stream_history_invariant [OF demo_uuids_ok r, of 1] r show ?thesis by auto
qed

text \<open>C30: Sealing makes everything durable. In every state of a run, \<open>SealAll\<close> reports no error, and afterwards every
  record that was ever appended to a stream can be read from an object of that stream.\<close>

theorem seal_all_durable:
  assumes "uuids_ok U"
    and "stream_run U (fs_backend L mtime root) (fs_objs root) (\<lambda>b. faults b = []) hist segs st s b"
    and "SealAll U (Some (fs_backend L mtime root)) st s b = (m, st', s', b')" and "r \<in> set (hist i)"
  shows "snd m = None \<and> (\<exists>k rs b2. HasPrefix k (stream_prefix U i) \<and>
    ReadSegmentFromBackend (fs_backend L mtime root) k False b' = (Inr rs, b2) \<and> r \<in> set rs)"
  using dir_streams.SealAll_archives [OF assms] by blast

theorem seal_all_durable_witness:
  "\<exists>hist segs st s b m st' s' b'. demo_run hist segs st s b \<and> hist 1 = [demo_rec] \<and>
     SealAll demo_uuids (Some demo_dir) st s b = (m, st', s', b') \<and> snd m = None \<and>
     (\<exists>k rs b2. HasPrefix k (stream_prefix demo_uuids 1) \<and> ReadSegmentFromBackend demo_dir k False b' = (Inr rs, b2) \<and> demo_rec \<in> set rs)"
proof -
  let ?h = "\<lambda>i :: uuid. if i = 1 then [demo_rec] else []"
  from demo_run_exists obtain st s b where
    r: "demo_run ?h ((\<lambda>_. None)(segment_key 1 1 \<mapsto> [demo_rec])) st s b" by blast
  obtain m st' s' b' where S: "SealAll demo_uuids (Some demo_dir) st s b = (m, st', s', b')"
    by (cases "SealAll demo_uuids (Some demo_dir) st s b")
  have "demo_rec \<in> set (?h 1)" "?h 1 = [demo_rec]" by simp_all
  with seal_all_durable [OF demo_uuids_ok r S this(1)] r S show ?thesis by blast
qed

text \<open>The loop of \<open>AppendRecords\<close> ends when no writer in the map has been evicted.\<close>

lemma set_update_subset: "set (AList.update k v xs) \<subseteq> insert (k, v) (set xs)"
  by (induction xs) auto

abbreviation live :: "(string \<times> streamWriter) list \<Rightarrow> bool" where
  "live ws \<equiv> \<forall>sid w. (sid, w) \<in> set ws \<longrightarrow> \<not> evicted w"

lemma live_update: "live ws \<Longrightarrow> \<not> evicted w \<Longrightarrow> live (AList.update k w ws)"
  using set_update_subset [of k w ws] by blast

lemma append_loop_pending:
  assumes U: "uuids_ok U" and l: "live (streams st)"
  shows "\<exists>st'. append_loop U i rs st = Some st' \<and> dataDir st' = dataDir st \<and> live (streams st') \<and>
    (\<forall>j. pending (wr U (dataDir st) (streams st') j) =
       pending (wr U (dataDir st) (streams st) j) @ (if j = i then rs else []))"
proof -
  obtain w st1 where G: "getOrCreateStream U i st = (w, st1)" by (cases "getOrCreateStream U i st")
  have ev: "\<not> evicted (new_writer U (dataDir st) i)" by (simp add: new_writer_def)
  have g: "w = wr U (dataDir st) (streams st) i" "\<not> evicted w" "dataDir st1 = dataDir st" "live (streams st1)"
    "wr U (dataDir st) (streams st1) j = wr U (dataDir st) (streams st) j" for j
    using G l ev live_update [OF l ev]
    by (auto simp: getOrCreateStream_def getStream_def wr_def put_writer_def Let_def update_conv' uuid_String_inject [OF U]
        split: option.splits if_splits dest: map_of_SomeD)
  let ?w = "w\<lparr>pending := pending w @ rs\<rparr>"
  have "append_loop U i rs st = Some (put_writer U i ?w st1)"
    using g(2) by (simp add: append_loop.simps G appendRecords_def)
  moreover have "live (AList.update (uuid_String U i) ?w (streams st1))" using g(2,4) by (intro live_update) simp_all
  ultimately show ?thesis using g by (simp add: put_writer_def wr_update [OF U])
qed

lemma append_groups_pending:
  assumes U: "uuids_ok U" and "live (streams st)" "distinct (map fst gs)"
  shows "\<exists>st'. append_groups U gs st = Some st' \<and> dataDir st' = dataDir st \<and>
    (\<forall>j. pending (wr U (dataDir st) (streams st') j) =
       pending (wr U (dataDir st) (streams st) j) @ (case map_of gs j of None \<Rightarrow> [] | Some rs \<Rightarrow> rs))"
  using assms(2,3)
proof (induction gs arbitrary: st)
  case (Cons g gs)
  obtain i rs where g: "g = (i, rs)" by (cases g)
  from append_loop_pending [OF U Cons.prems(1), of i rs] obtain st1 where
    1: "append_loop U i rs st = Some st1" "dataDir st1 = dataDir st" "live (streams st1)"
    "\<And>j. pending (wr U (dataDir st) (streams st1) j) = pending (wr U (dataDir st) (streams st) j) @ (if j = i then rs else [])"
    by blast
  have "map_of gs i = None" using Cons.prems(2) g by (simp add: map_of_eq_None_iff)
  moreover from Cons.IH [OF 1(3)] Cons.prems(2) obtain st' where "append_groups U gs st1 = Some st'" "dataDir st' = dataDir st1"
    "\<And>j. pending (wr U (dataDir st1) (streams st') j) =
       pending (wr U (dataDir st1) (streams st1) j) @ (case map_of gs j of None \<Rightarrow> [] | Some rs \<Rightarrow> rs)" by auto
  ultimately show ?case using 1 by (auto simp: g)
qed simp

text \<open>C31: Appending always returns, and puts every record into the buffer of its own stream: when no writer of the
  store has been evicted, the retry loop of \<open>AppendRecords\<close> ends, the records of a stream are added behind those that
  wait there, in the order of the batch, and no other stream changes.\<close>

theorem append_records_returns:
  assumes "uuids_ok U" and "\<forall>sid w. (sid, w) \<in> set (streams st) \<longrightarrow> \<not> evicted w"
  shows "\<exists>st'. AppendRecords U recs st = Some st' \<and>
    (\<forall>i. pending (wr U (dataDir st) (streams st') i) =
       pending (wr U (dataDir st) (streams st) i) @ filter (\<lambda>r. StreamID r = i) recs)"
proof (cases "recs = []")
  case True
  then show ?thesis by (simp add: AppendRecords_def)
next
  case False
  let ?gs = "map (\<lambda>i. (i, filter (\<lambda>r. StreamID r = i) recs)) (remdups (map StreamID recs))"
  have "map fst ?gs = remdups (map StreamID recs)" by (simp add: comp_def)
  then have "distinct (map fst ?gs)" by (simp only: distinct_remdups)
  from append_groups_pending [OF assms this] obtain st' where
    "append_groups U ?gs st = Some st'" "\<And>j. pending (wr U (dataDir st) (streams st') j) =
       pending (wr U (dataDir st) (streams st) j) @ (case map_of ?gs j of None \<Rightarrow> [] | Some rs \<Rightarrow> rs)" by blast
  with False show ?thesis
    by (intro exI [of _ "st'\<lparr>writeNotify := True\<rparr>"]) (simp add: AppendRecords_def Let_def map_of_groups)
qed

theorem append_records_returns_witness:
  "\<exists>st'. AppendRecords demo_uuids [demo_rec] (NewStreamStore ''/data'' 0 0) = Some st' \<and>
     pending (wr demo_uuids ''/data'' (streams st') 1) = [demo_rec]"
  using append_records_returns [OF demo_uuids_ok, of "NewStreamStore ''/data'' 0 0" "[demo_rec]"]
  by (auto simp: NewStreamStore_def wr_def new_writer_def)

text \<open>C32: A failed write loses records. When the write of a flush fails, the records are neither in the file nor in the
  buffer any more, while the writer counts them and has advanced its last sequence number past them: the next seal
  names and uploads a file as if it held them, and \<open>CheckSegmentGC\<close> then deletes the segment with the only copy.\<close>

theorem flush_failure_drops_records:
  assumes "pending w \<noteq> []" and "faults s = [NoFault, NoFault, NoFault, Fail]"
  shows "case flushPendingLocked w s of (e, w', s') \<Rightarrow>
    e = Some ErrIO \<and> pending w' = [] \<and> recCount w' = recCount w + length (pending w) \<and>
    (\<forall>r\<in>set (pending w). StreamSeq r \<le> lastSeq w') \<and>
    (\<forall>p. content p s' = content p s \<or> content p s = None \<and> content p s' = Some [])"
proof -
  have seq: "\<forall>r\<in>set rs. StreamSeq r \<le> lastSeq (fold note_seqs rs w)" for rs and w :: streamWriter
  proof (induction rs rule: rev_induct)
    case (snoc r rs)
    then show ?case by (auto simp: lastSeq_note_seqs)
  qed simp
  obtain s1 t where S: "start_file w (s\<lparr>faults := [NoFault, NoFault, Fail]\<rparr>) =
      (w\<lparr>openFrom := (if recCount w = 0 \<or> openFrom w = 0 then StreamSeq (hd (pending w)) else openFrom w), openTime := t\<rparr>, s1)"
    "faults s1 = [NoFault, NoFault, Fail]" "\<And>q. content q s1 = content q s"
    using start_file_clean [of w "s\<lparr>faults := [NoFault, NoFault, Fail]\<rparr>"] by (auto simp: content_def)
  define W where "W = w\<lparr>openFrom := (if recCount w = 0 \<or> openFrom w = 0 then StreamSeq (hd (pending w)) else openFrom w), openTime := t\<rparr>"
  have W: "pending W = pending w" "recCount W = recCount w" by (simp_all add: W_def)
  have n: "get_file (open_path W) s1 = None \<longleftrightarrow> get_file (open_path W) s = None"
    using S(3) [of "open_path W"] by (simp flip: content_None)
  have m: "os_MkdirAll (wDir w) s = (None, s\<lparr>faults := [NoFault, NoFault, Fail]\<rparr>)"
    using assms(2) by (simp add: os_MkdirAll_def pop_fault_def)
  show ?thesis
    using assms(1) seq [of "pending w" W] W S(2,3) n
    by (auto simp: flushPendingLocked_def m S(1) [folded W_def] os_Stat_size_def os_OpenAppend_def file_Write_def file_Close_def
        pop_fault_def content_def split: option.splits prod.splits sum.splits)
qed

theorem flush_failure_drops_records_witness:
  "\<exists>w' s'. flushPendingLocked ((new_writer demo_uuids ''/d'' 1)\<lparr>pending := [demo_rec]\<rparr>)
     \<lparr>files = [], faults = [NoFault, NoFault, NoFault, Fail], clock = 0\<rparr> = (Some ErrIO, w', s') \<and> pending w' = [] \<and> recCount w' = 1"
proof -
  let ?w = "(new_writer demo_uuids ''/d'' 1)\<lparr>pending := [demo_rec]\<rparr>"
  let ?s = "\<lparr>files = [], faults = [NoFault, NoFault, NoFault, Fail], clock = 0\<rparr>"
  have "case flushPendingLocked ?w ?s of (e, w', s') \<Rightarrow> e = Some ErrIO \<and> pending w' = [] \<and> recCount w' = recCount ?w + length (pending ?w)"
    using flush_failure_drops_records [of ?w ?s] by (auto split: prod.splits)
  then show ?thesis by (cases "flushPendingLocked ?w ?s") (simp add: new_writer_def)
qed

end
