(* ===== verification/SdsFrame.thy ===== *)
theory SdsFrame
  imports Prelude
begin

text \<open>
  \<^verbatim>\<open>pkg/sds/record/frame.go\<close>: the frame of a record of a structured data stream, a type id as a varint
  followed by the body, with the varints of \<^verbatim>\<open>encoding/binary\<close>.
\<close>

subsection \<open>Varints\<close>

lemma unat_drop_bit: "unat (drop_bit n (x :: uint64)) = unat x div 2 ^ n"
  unfolding unat_drop_bit_eq by (simp add: drop_bit_eq_div)

function PutUvarint :: "uint64 \<Rightarrow> bytes" where
  \<comment> \<open>what \<open>binary.PutUvarint\<close> writes into a buffer that is long enough\<close>
  "PutUvarint x = (if x < 0x80 then [ucast x] else (ucast x OR 0x80) # PutUvarint (drop_bit 7 x))"
  by auto

termination
proof (relation "measure unat")
  fix x :: uint64 assume "\<not> x < 0x80"
  then have "0x80 \<le> unat x" by (simp add: word_less_nat_alt not_less)
  then show "(drop_bit 7 x, x) \<in> measure unat" by (simp add: unat_drop_bit)
qed simp

declare PutUvarint.simps [simp del]

fun uvarint_loop :: "nat \<Rightarrow> nat \<Rightarrow> uint64 \<Rightarrow> bytes \<Rightarrow> uint64 \<times> int" where
  "uvarint_loop i s x [] = (0, 0)"
| "uvarint_loop i s x (b # bs) =
     (if i = 10 then (0, - int (i + 1))
      else if b < 0x80 then
        if i = 9 \<and> b > 1 then (0, - int (i + 1)) else (x OR push_bit s (ucast b), int (i + 1))
      else uvarint_loop (i + 1) (s + 7) (x OR push_bit s (ucast (b AND 0x7f))) bs)"

definition Uvarint :: "bytes \<Rightarrow> uint64 \<times> int" where
  \<comment> \<open>the value and the number of bytes read; not positive for an incomplete or too large number\<close>
  "Uvarint buf = uvarint_loop 0 0 0 buf"

subsection \<open>Frames\<close>

definition TypeIDInvalid :: uint32 where "TypeIDInvalid = 0"
definition TypeIDTypeDefinition :: uint32 where "TypeIDTypeDefinition = 1"
definition TypeIDTxCommit :: uint32 where "TypeIDTxCommit = 2"
definition TypeIDSnapshotPointer :: uint32 where "TypeIDSnapshotPointer = 3"
definition TypeIDPadding :: uint32 where "TypeIDPadding = 4"
definition TypeIDOpRecord :: uint32 where "TypeIDOpRecord = 5"
definition TypeIDStreamHeader :: uint32 where "TypeIDStreamHeader = 6"
definition MinReservedTypeID :: uint32 where "MinReservedTypeID = 7"
definition MaxReservedTypeID :: uint32 where "MaxReservedTypeID = 15"
definition MinAppTypeID :: uint32 where "MinAppTypeID = 16"

lemmas TypeID_defs = TypeIDInvalid_def TypeIDTypeDefinition_def TypeIDTxCommit_def TypeIDSnapshotPointer_def
  TypeIDPadding_def TypeIDOpRecord_def TypeIDStreamHeader_def MinReservedTypeID_def MaxReservedTypeID_def MinAppTypeID_def

abbreviation ErrInvalidTypeID :: error where "ErrInvalidTypeID \<equiv> ErrMsg ''invalid type ID 0''"
abbreviation ErrReservedTypeID :: error where "ErrReservedTypeID \<equiv> ErrMsg ''reserved type ID''"
abbreviation ErrEmptyPayload :: error where "ErrEmptyPayload \<equiv> ErrMsg ''empty payload''"
abbreviation ErrMalformedVarint :: error where "ErrMalformedVarint \<equiv> ErrMsg ''malformed varint type ID in frame''"
abbreviation ErrTypeNotRegistered :: error where "ErrTypeNotRegistered \<equiv> ErrMsg ''type ID used before definition''"

definition ValidateTypeID :: "uint32 \<Rightarrow> error option" where
  "ValidateTypeID typeID =
     (if typeID = TypeIDInvalid then Some ErrInvalidTypeID
      else if typeID \<ge> MinReservedTypeID \<and> typeID \<le> MaxReservedTypeID then Some ErrReservedTypeID
      else None)"

definition EncodeFrame :: "uint32 \<Rightarrow> bytes \<Rightarrow> error + bytes" where
  "EncodeFrame typeID body =
     (case ValidateTypeID typeID of
        Some e \<Rightarrow> Inl e
      | None \<Rightarrow> Inr (PutUvarint (ucast typeID) @ body))"

definition SplitFrame :: "bytes \<Rightarrow> error + uint32 \<times> bytes" where
  "SplitFrame payload =
     (if payload = [] then Inl ErrEmptyPayload
      else case Uvarint payload of (i, n) \<Rightarrow>
        if n \<le> 0 then Inl ErrMalformedVarint
        else if i > 0xffffffff then Inl (ErrMsg ''type ID overflows uint32'')
        else case ValidateTypeID (ucast i) of
          Some e \<Rightarrow> Inl e
        | None \<Rightarrow> Inr (ucast i, drop (nat n) payload))"

subsection \<open>Reading what was written\<close>

lemma ucast_byte_small: "x < 0x80 \<Longrightarrow> ucast (ucast (x :: uint64) :: byte) = x"
  by (rule word_unat_eq_iff [THEN iffD2])
    (simp add: unsigned_ucast_eq unsigned_take_bit_eq word_less_nat_alt take_bit_nat_eq_self)

lemma low_bits: "ucast (((ucast (x :: uint64) :: byte) OR 0x80) AND 0x7f) = take_bit 7 x"
  by (rule bit_word_eqI) (auto simp: bit_simps numeral_eq_Suc less_Suc_eq)

lemma high_byte: "\<not> ((ucast (x :: uint64) :: byte) OR 0x80) < 0x80"
proof
  let ?b = "(ucast x :: byte) OR 0x80"
  assume "?b < 0x80"
  then have "\<not> bit (unat ?b) 7" by (simp add: word_less_nat_alt bit_iff_odd)
  then have "\<not> bit ?b 7" by (simp add: bit_unsigned_iff)
  then show False by (simp add: bit_simps numeral_eq_Suc)
qed

lemma split_bits: "push_bit s (take_bit 7 x) OR push_bit (s + 7) (drop_bit 7 x) = push_bit s (x :: uint64)"
proof (rule bit_word_eqI)
  fix n assume "n < LENGTH(64)"
  show "bit (push_bit s (take_bit 7 x) OR push_bit (s + 7) (drop_bit 7 x)) n = bit (push_bit s x) n"
  proof (cases "s + 7 \<le> n")
    case True
    then have "7 + (n - (s + 7)) = n - s" "\<not> n - s < 7" by simp_all
    with True show ?thesis by (simp add: bit_simps)
  next
    case False
    then show ?thesis by (auto simp: bit_simps)
  qed
qed

lemma uvarint_loop_PutUvarint:
  assumes "7 * i \<le> 63" "unat x < 2 ^ (64 - 7 * i)"
  shows "uvarint_loop i (7 * i) acc (PutUvarint x @ rest) = (acc OR push_bit (7 * i) x, int (i + length (PutUvarint x)))"
  using assms
proof (induction x arbitrary: i acc rule: PutUvarint.induct)
  case (1 x)
  have i: "i \<le> 9" using "1.prems"(1) by simp
  show ?case
  proof (cases "x < 0x80")
    case True
    have "\<not> (i = 9 \<and> (ucast x :: byte) > 1)"
    proof (intro notI, elim conjE)
      assume "i = 9" "1 < (ucast x :: byte)"
      with "1.prems"(2) have "unat x < 2" by simp
      moreover have "unat (ucast x :: byte) = unat x"
        using True by (simp add: unsigned_ucast_eq unsigned_take_bit_eq word_less_nat_alt take_bit_nat_eq_self)
      ultimately show False using \<open>1 < (ucast x :: byte)\<close> by (simp add: word_less_nat_alt)
    qed
    moreover have "(ucast x :: byte) < 0x80"
      using True by (simp add: word_less_nat_alt unsigned_ucast_eq unsigned_take_bit_eq take_bit_nat_eq_self)
    ultimately show ?thesis using True i by (simp add: PutUvarint.simps [of x] ucast_byte_small)
  next
    case False
    have x: "0x80 \<le> unat x" using False by (simp add: word_less_nat_alt not_less)
    have "i < 9"
    proof (rule ccontr)
      assume "\<not> i < 9"
      with i have "i = 9" by simp
      with "1.prems"(2) x show False by simp
    qed
    have e: "64 - 7 * i = 7 + (64 - 7 * Suc i)" using \<open>i < 9\<close> by simp
    have "unat (drop_bit 7 x) < 2 ^ (64 - 7 * Suc i)"
      using "1.prems"(2) unfolding e power_add by (simp add: unat_drop_bit less_mult_imp_div_less mult.commute)
    from "1.IH" [OF False _ this, of "acc OR push_bit (7 * i) (take_bit 7 x)"] \<open>i < 9\<close> i
    show ?thesis
      using False high_byte [of x] split_bits [of "7 * i" x]
      by (simp add: PutUvarint.simps [of x] low_bits add.commute or.assoc)
  qed
qed

lemma Uvarint_PutUvarint: "Uvarint (PutUvarint x @ rest) = (x, int (length (PutUvarint x)))"
  using uvarint_loop_PutUvarint [of 0 x 0 rest] unsigned_less [of x] by (simp add: Uvarint_def)

lemma PutUvarint_neq_Nil [simp]: "PutUvarint x \<noteq> []"
  by (subst PutUvarint.simps) simp

lemma SplitFrame_EncodeFrame:
  assumes "EncodeFrame t body = Inr p"
  shows "SplitFrame p = Inr (t, body)"
proof -
  have v: "ValidateTypeID t = None" "p = PutUvarint (ucast t) @ body" using assms by (auto simp: EncodeFrame_def split: option.splits)
  have "\<not> (ucast t :: uint64) > 0xffffffff"
  proof -
    have "unat t < 2 ^ 32" using unsigned_less [of t] by simp
    moreover from this have "take_bit 64 (unat t) = unat t" by (simp add: take_bit_nat_eq_self)
    ultimately show ?thesis by (simp add: word_less_nat_alt unsigned_ucast_eq)
  qed
  moreover have "ucast (ucast t :: uint64) = t" by (rule bit_word_eqI) (simp add: bit_simps)
  moreover have "0 < int (length (PutUvarint (ucast t)))" by simp
  ultimately show ?thesis
    using v by (simp add: SplitFrame_def Uvarint_PutUvarint)
qed

end
