(* ===== verification/SdsProto.thy ===== *)
theory SdsProto
  imports SdsFrame Blob
begin

text \<open>
  What structured data streams use of \<^verbatim>\<open>google.golang.org/protobuf\<close>, which is not part of the sources.
  Descriptors are data: a message descriptor is a name with the finite pool of messages its file set
  defines, in which the fields refer to other messages by name, and the file it is declared in with
  its imports. Messages are of an arbitrary type \<open>'m\<close> with field values of type \<open>'v\<close>, and file
  descriptor protos of an arbitrary type \<open>'p\<close>. The operations on them, the codecs of the messages of
  \<^verbatim>\<open>proto/sds.proto\<close> and the registries of compiled types are the fields of the record \<open>protobuf\<close>.

  A field number (\<^verbatim>\<open>int32\<close>) is an integer: nothing is computed with it. Pointers to messages and
  definitions are never nil, as everywhere in the callers.
\<close>

subsection \<open>Descriptors\<close>

datatype Kind =
    BoolKind | EnumKind | Int32Kind | Sint32Kind | Uint32Kind | Int64Kind | Sint64Kind | Uint64Kind
  | Sfixed32Kind | Fixed32Kind | FloatKind | Sfixed64Kind | Fixed64Kind | DoubleKind | StringKind | BytesKind
  | MessageKind | GroupKind

datatype Cardinality = Optional | Required | Repeated

record FieldDescriptor =
  fNumber :: int
  fName :: string
  fKind :: Kind
  fCardinality :: Cardinality
  fIsList :: bool
  fIsMap :: bool
  fMapKey :: Kind
  fMapValue :: "Kind \<times> string"
    \<comment> \<open>its kind, and the name of the message for a map to messages\<close>
  fContainingOneof :: "(string \<times> bool) option"
    \<comment> \<open>its name, and whether it is synthetic\<close>
  fMessage :: string
  fEnum :: string

record MessageInfo =
  miFields :: "FieldDescriptor list"
  miReserved :: "(int \<times> int) list"
    \<comment> \<open>half-open ranges\<close>

datatype 'p File = File (Path: string) (ToFileDescriptorProto: 'p) (Imports: "'p File list")

record 'p MessageDescriptor =
  mdName :: string
  mdPool :: "(string \<times> MessageInfo) list"
  mdFile :: "'p File"
  mdCompiled :: bool
    \<comment> \<open>from the registry of compiled types: a descriptor built at run time is never identical to one\<close>

datatype 'p MessageType = CompiledType "'p MessageDescriptor" | DynamicType "'p MessageDescriptor"

definition info :: "(string \<times> MessageInfo) list \<Rightarrow> string \<Rightarrow> MessageInfo" where
  "info pool name = (case map_of pool name of Some i \<Rightarrow> i | None \<Rightarrow> \<lparr>miFields = [], miReserved = []\<rparr>)"

definition Fields :: "'p MessageDescriptor \<Rightarrow> FieldDescriptor list" where
  "Fields md = miFields (info (mdPool md) (mdName md))"

definition ByNumber :: "int \<Rightarrow> FieldDescriptor list \<Rightarrow> FieldDescriptor option" where
  "ByNumber n fs = find (\<lambda>f. fNumber f = n) fs"

definition RangesHas :: "(int \<times> int) list \<Rightarrow> int \<Rightarrow> bool" where
  "RangesHas rs n = list_ex (\<lambda>(a, b). a \<le> n \<and> n < b) rs"

definition first_error :: "('a \<Rightarrow> error option) \<Rightarrow> 'a list \<Rightarrow> error option" where
  \<comment> \<open>a loop that returns the first error\<close>
  "first_error f xs = (case List.map_filter f xs of [] \<Rightarrow> None | e # _ \<Rightarrow> Some e)"

lemma first_error_None: "first_error f xs = None \<longleftrightarrow> (\<forall>x \<in> set xs. f x = None)"
  by (induction xs) (auto simp: first_error_def List.map_filter_simps split: option.splits list.splits)

subsection \<open>The messages of the format\<close>

record 'p TypeDefinition =
  tdId :: uint32
  tdName :: string
  tdFingerprint :: bytes
  tdDescriptors :: "'p list option"
  tdKeyFields :: "int list"

datatype Op = CREATE | UPDATE | DELETE | UnknownOp int

record OpRecord =
  orOp :: Op
  orTypeId :: uint32
  orTxId :: uint64
  orKey :: bytes
  orValue :: bytes

record TxCommit =
  tcTxId :: uint64
  tcCommitTime :: nat

record SnapshotPointer =
  spPosition :: uint64
  spFormat :: string
  spLocation :: string
  spRegistryFingerprint :: bytes
  spName :: string
  spCreatedAt :: nat
  spRestoredFrom :: string
  spClonedFrom :: string

record StreamHeader =
  shFormatVersion :: uint32
  shCreatorVersion :: string
  shCreatedAt :: nat

record ('p, 'v, 'm) protobuf = lib +
  FileName :: "'p \<Rightarrow> string"
  MarshalFileSet :: "'p list \<Rightarrow> error + bytes"
  NewFiles :: "'p list \<Rightarrow> error + (string \<Rightarrow> error + 'p MessageDescriptor option)"
    \<comment> \<open>then \<open>FindDescriptorByName\<close>: an error, something that is not a message, or a message\<close>
  GlobalFiles :: "string \<Rightarrow> 'p MessageDescriptor option"
  GlobalTypes :: "string \<Rightarrow> 'p MessageDescriptor option"
  New :: "'p MessageType \<Rightarrow> 'm"
  MessageTypeOf :: "'m \<Rightarrow> 'p MessageType"
  Has :: "'m \<Rightarrow> int \<Rightarrow> bool"
  Get :: "'m \<Rightarrow> int \<Rightarrow> 'v"
  SetField :: "'m \<Rightarrow> int \<Rightarrow> 'v \<Rightarrow> 'm"
  GetUnknown :: "'m \<Rightarrow> bytes"
  CheckInitialized :: "'m \<Rightarrow> error option"
    \<comment> \<open>an error if a required field is not set: what a call without \<open>AllowPartial\<close> checks\<close>
  Marshal :: "'m \<Rightarrow> error + bytes"
    \<comment> \<open>deterministic, partial messages allowed\<close>
  Unmarshal :: "bool \<Rightarrow> bytes \<Rightarrow> 'm \<Rightarrow> error + 'm"
    \<comment> \<open>merged into the message; the flag allows partial messages\<close>
  MarshalTypeDefinition :: "'p TypeDefinition \<Rightarrow> error + bytes"
  UnmarshalTypeDefinition :: "bytes \<Rightarrow> error + 'p TypeDefinition"
  MarshalOpRecord :: "OpRecord \<Rightarrow> error + bytes"
  UnmarshalOpRecord :: "bytes \<Rightarrow> error + OpRecord"
  MarshalTxCommit :: "TxCommit \<Rightarrow> error + bytes"
  UnmarshalTxCommit :: "bytes \<Rightarrow> error + TxCommit"
  MarshalSnapshotPointer :: "SnapshotPointer \<Rightarrow> error + bytes"
  UnmarshalSnapshotPointer :: "bytes \<Rightarrow> error + SnapshotPointer"
  MarshalStreamHeader :: "StreamHeader \<Rightarrow> error + bytes"
  UnmarshalStreamHeader :: "bytes \<Rightarrow> error + StreamHeader"

definition type_descriptor :: "'p MessageType \<Rightarrow> 'p MessageDescriptor" where
  "type_descriptor t = (case t of CompiledType md \<Rightarrow> md | DynamicType md \<Rightarrow> md)"

definition MsgDescriptor :: "('p, 'v, 'm) protobuf \<Rightarrow> 'm \<Rightarrow> 'p MessageDescriptor" where
  \<comment> \<open>\<open>msg.ProtoReflect().Descriptor()\<close>\<close>
  "MsgDescriptor P m = type_descriptor (MessageTypeOf P m)"

end
