(* ===== verification/SdsRegistry.thy ===== *)
theory SdsRegistry
  imports SdsProto GoStd
begin

text \<open>
  \<^verbatim>\<open>pkg/sds/record/fingerprint.go\<close>, \<^verbatim>\<open>compatibility.go\<close> and \<^verbatim>\<open>registry.go\<close>: the types of a stream.

  The cache of interned definitions is a variable of the process, shared by all registries; it is an
  argument and a result of the operations. The caches of fingerprints of compiled types and of parsed
  descriptor sets only remember results of functions and are left out. A registry swaps immutable
  snapshots under a mutex, so that an operation is a function on the current snapshot.
\<close>

subsection \<open>Fingerprints\<close>

fun walk :: "'p File \<Rightarrow> string list \<times> 'p list \<Rightarrow> string list \<times> 'p list" where
  "walk (File path proto imports) (visited, out) =
     (if path \<in> set visited then (visited, out)
      else case fold walk imports (path # visited, out) of (visited, out) \<Rightarrow> (visited, out @ [proto]))"

definition CollectFileDescriptors :: "('p, 'v, 'm) protobuf \<Rightarrow> 'p File \<Rightarrow> 'p list" where
  "CollectFileDescriptors P rootFD = sort_key (FileName P) (snd (walk rootFD ([], [])))"

definition ExtractFileDescriptorSet :: "('p, 'v, 'm) protobuf \<Rightarrow> 'p MessageDescriptor \<Rightarrow> 'p list" where
  "ExtractFileDescriptorSet P md = CollectFileDescriptors P (mdFile md)"

definition CanonicalMarshalFileDescriptorSet :: "('p, 'v, 'm) protobuf \<Rightarrow> 'p list option \<Rightarrow> error + bytes" where
  "CanonicalMarshalFileDescriptorSet P fds =
     (case fds of
        None \<Rightarrow> Inl (ErrMsg ''nil FileDescriptorSet'')
      | Some fs \<Rightarrow> MarshalFileSet P (sort_key (FileName P) fs))"

definition ComputeFingerprint :: "('p, 'v, 'm) protobuf \<Rightarrow> 'p list option \<Rightarrow> error + bytes" where
  "ComputeFingerprint P fds =
     (case CanonicalMarshalFileDescriptorSet P fds of
        Inl e \<Rightarrow> Inl e
      | Inr canonicalBytes \<Rightarrow> Inr (PutUint (Sum256 P canonicalBytes)))"

definition ComputeMessageFingerprint ::
  "('p, 'v, 'm) protobuf \<Rightarrow> 'p MessageDescriptor \<Rightarrow> error + bytes \<times> 'p list" where
  "ComputeMessageFingerprint P md =
     (let fds = ExtractFileDescriptorSet P md
      in case ComputeFingerprint P (Some fds) of Inl e \<Rightarrow> Inl e | Inr fp \<Rightarrow> Inr (fp, fds))"

definition getCompiledFingerprint :: "('p, 'v, 'm) protobuf \<Rightarrow> 'p MessageDescriptor \<Rightarrow> error + bytes" where
  "getCompiledFingerprint P md =
     (case ComputeMessageFingerprint P md of Inl e \<Rightarrow> Inl e | Inr (fp, _) \<Rightarrow> Inr fp)"

subsection \<open>Interned definitions\<close>

type_synonym 'p typeDefCache = "((string \<times> bytes) \<times> 'p TypeDefinition) list"

abbreviation typeDefKey :: "'p TypeDefinition \<Rightarrow> string \<times> bytes" where
  "typeDefKey def \<equiv> (tdName def, tdFingerprint def)"

definition from_interned :: "uint32 \<Rightarrow> int list \<Rightarrow> 'p TypeDefinition \<Rightarrow> 'p TypeDefinition" where
  \<comment> \<open>the interned definition itself, or a copy that shares its descriptors\<close>
  "from_interned typeID keyFields interned =
     (if typeID = tdId interned \<and> keyFields = tdKeyFields interned then interned
      else \<lparr>tdId = typeID, tdName = tdName interned, tdFingerprint = tdFingerprint interned,
            tdDescriptors = tdDescriptors interned, tdKeyFields = keyFields\<rparr>)"

definition internOrCloneTypeDef :: "'p typeDefCache \<Rightarrow> 'p TypeDefinition \<Rightarrow> 'p TypeDefinition" where
  "internOrCloneTypeDef cache def =
     (case map_of cache (typeDefKey def) of
        Some interned \<Rightarrow> from_interned (tdId def) (tdKeyFields def) interned
      | None \<Rightarrow> def)"

definition LoadOrStore :: "'k \<Rightarrow> 'a \<Rightarrow> ('k \<times> 'a) list \<Rightarrow> ('k \<times> 'a) list" where
  "LoadOrStore k v m = (if map_of m k = None then (k, v) # m else m)"

definition maybeInternTypeDef :: "'p TypeDefinition \<Rightarrow> 'p typeDefCache \<Rightarrow> 'p typeDefCache" where
  "maybeInternTypeDef def cache =
     (if tdName def = '''' \<or> tdFingerprint def = [] \<or> tdDescriptors def = None then cache
      else LoadOrStore (typeDefKey def) def cache)"

definition BuildTypeDefinition ::
  "('p, 'v, 'm) protobuf \<Rightarrow> uint32 \<Rightarrow> 'p MessageDescriptor \<Rightarrow> int list \<Rightarrow> 'p typeDefCache \<Rightarrow>
   (error + 'p TypeDefinition) \<times> 'p typeDefCache" where
  "BuildTypeDefinition P typeID md keyFields cache =
     (let compute =
        (case ComputeMessageFingerprint P md of
           Inl e \<Rightarrow> (Inl e, cache)
         | Inr (fp, fds) \<Rightarrow>
             (case map_of cache (mdName md, fp) of
                Some interned \<Rightarrow> (Inr (from_interned typeID keyFields interned), cache)
              | None \<Rightarrow>
                  let def = \<lparr>tdId = typeID, tdName = mdName md, tdFingerprint = fp, tdDescriptors = Some fds,
                             tdKeyFields = keyFields\<rparr>
                  in (Inr def, LoadOrStore (mdName md, fp) def cache)))
      in if GlobalFiles P (mdName md) = Some md then
           (case getCompiledFingerprint P md of
              Inl e \<Rightarrow> (Inl e, cache)
            | Inr fp \<Rightarrow>
                (case map_of cache (mdName md, fp) of
                   Some interned \<Rightarrow> (Inr (from_interned typeID keyFields interned), cache)
                 | None \<Rightarrow> compute))
         else compute)"

subsection \<open>Compatibility of schemas\<close>

datatype compat_frame =
    Call string
  | OldField string FieldDescriptor
  | OldOneof string FieldDescriptor
  | OldEnum string FieldDescriptor
  | NewField string FieldDescriptor
  \<comment> \<open>what is left to do: a call, or a part of the round of the loop for a field of the named message\<close>

definition real_oneof :: "FieldDescriptor \<Rightarrow> string option" where
  "real_oneof f = (case fContainingOneof f of Some (n, False) \<Rightarrow> Some n | _ \<Rightarrow> None)"

definition incompatible :: "error option" where
  "incompatible = Some (ErrMsg ''incompatible schema'')"

fun frame_size :: "compat_frame \<Rightarrow> nat" where
  "frame_size (Call _) = 1"
| "frame_size (OldField _ _) = 5"
| "frame_size (OldOneof _ _) = 3"
| "frame_size (OldEnum _ _) = 1"
| "frame_size (NewField _ _) = 1"

lemma info_unknown: "m \<notin> fst ` set pool \<Longrightarrow> miFields (info pool m) = []"
proof -
  assume "m \<notin> fst ` set pool"
  then have "map_of pool m = None" by (simp add: map_of_eq_None_iff)
  then show ?thesis by (simp add: info_def)
qed

function compat_loop ::
  "(string \<times> MessageInfo) list \<Rightarrow> (string \<times> MessageInfo) list \<Rightarrow> compat_frame list \<Rightarrow> string list \<Rightarrow> error option" where
  \<comment> \<open>the recursion of \<open>checkMessageCompatibility\<close> with an explicit stack\<close>
  "compat_loop old new [] visited = None"
| "compat_loop old new (Call m # st) visited =
     (if m \<in> set visited then compat_loop old new st visited
      else compat_loop old new (map (OldField m) (miFields (info old m)) @ map (NewField m) (miFields (info new m)) @ st)
             (m # visited))"
| "compat_loop old new (OldField m f # st) visited =
     (case ByNumber (fNumber f) (miFields (info new m)) of
        None \<Rightarrow>
          if \<not> RangesHas (miReserved (info new m)) (fNumber f) then incompatible
          else compat_loop old new st visited
      | Some g \<Rightarrow>
          if fKind f \<noteq> fKind g \<or> fCardinality f \<noteq> fCardinality g \<or> fIsList f \<noteq> fIsList g \<or> fIsMap f \<noteq> fIsMap g
          then incompatible
          else if fIsMap f then
            if fMapKey f \<noteq> fMapKey g \<or> fst (fMapValue f) \<noteq> fst (fMapValue g) then incompatible
            else if fst (fMapValue f) = MessageKind then
              if snd (fMapValue f) \<noteq> snd (fMapValue g) then incompatible
              else compat_loop old new (Call (snd (fMapValue f)) # OldOneof m f # st) visited
            else compat_loop old new (OldOneof m f # st) visited
          else compat_loop old new (OldOneof m f # st) visited)"
| "compat_loop old new (OldOneof m f # st) visited =
     (case ByNumber (fNumber f) (miFields (info new m)) of
        None \<Rightarrow> compat_loop old new st visited
      | Some g \<Rightarrow>
          if real_oneof f \<noteq> real_oneof g then incompatible
          else if fKind f = MessageKind \<and> \<not> fIsMap f then
            if fMessage f \<noteq> fMessage g then incompatible
            else compat_loop old new (Call (fMessage f) # OldEnum m f # st) visited
          else compat_loop old new (OldEnum m f # st) visited)"
| "compat_loop old new (OldEnum m f # st) visited =
     (case ByNumber (fNumber f) (miFields (info new m)) of
        None \<Rightarrow> compat_loop old new st visited
      | Some g \<Rightarrow>
          if fKind f = EnumKind \<and> fEnum f \<noteq> fEnum g then incompatible
          else compat_loop old new st visited)"
| "compat_loop old new (NewField m g # st) visited =
     (if ByNumber (fNumber g) (miFields (info old m)) = None \<and> RangesHas (miReserved (info old m)) (fNumber g)
      then incompatible
      else compat_loop old new st visited)"
  by pat_completeness auto

termination
proof (relation "(\<lambda>(old, new, st, visited). card ((fst ` set old \<union> fst ` set new) - set visited)) <*mlex*>
    measure (\<lambda>(old, new, st, visited). sum_list (map frame_size st))", goal_cases)
  case (3 old new m st visited)
  let ?U = "fst ` set old \<union> fst ` set new"
  show ?case
  proof (cases "m \<in> ?U")
    case True
    then have "card (?U - set (m # visited)) < card (?U - set visited)"
      using 3 by (intro psubset_card_mono) auto
    then show ?thesis by (simp add: mlex_prod_def)
  next
    case False
    then have "?U - set (m # visited) = ?U - set visited" "miFields (info old m) = []" "miFields (info new m) = []"
      using info_unknown [of m old] info_unknown [of m new] by auto
    then show ?thesis by (intro mlex_leq) simp_all
  qed
qed (auto simp: mlex_prod_def wf_mlex)

definition FindDescriptorByName ::
  "(string \<Rightarrow> error + 'p MessageDescriptor option) \<Rightarrow> string \<Rightarrow> error + 'p MessageDescriptor" where
  \<comment> \<open>with the assertion that it is a message\<close>
  "FindDescriptorByName reg name =
     (case reg name of
        Inl e \<Rightarrow> Inl e
      | Inr None \<Rightarrow> Inl (ErrMsg ''not a message descriptor'')
      | Inr (Some md) \<Rightarrow> Inr md)"

definition checkMessageCompatibility :: "'p MessageDescriptor \<Rightarrow> 'p MessageDescriptor \<Rightarrow> error option" where
  "checkMessageCompatibility oldMD newMD = compat_loop (mdPool oldMD) (mdPool newMD) [Call (mdName oldMD)] []"

definition CheckMessageCompatibility :: "'p MessageDescriptor \<Rightarrow> 'p MessageDescriptor \<Rightarrow> error option" where
  "CheckMessageCompatibility oldMD newMD =
     (if mdName oldMD \<noteq> mdName newMD then Some (ErrMsg ''message name mismatch'')
      else checkMessageCompatibility oldMD newMD)"

definition CheckCompatibility ::
  "('p, 'v, 'm) protobuf \<Rightarrow> 'p TypeDefinition \<Rightarrow> 'p TypeDefinition \<Rightarrow> error option" where
  "CheckCompatibility P oldDef newDef =
     (if tdName oldDef \<noteq> tdName newDef then Some (ErrMsg ''message name mismatch'')
      else if tdKeyFields oldDef \<noteq> tdKeyFields newDef then Some (ErrMsg ''key_fields mismatch'')
      else case (tdDescriptors oldDef, tdDescriptors newDef) of
        (Some oldFds, Some newFds) \<Rightarrow>
          (case NewFiles P oldFds of Inl e \<Rightarrow> Some e | Inr oldFiles \<Rightarrow>
           case NewFiles P newFds of Inl e \<Rightarrow> Some e | Inr newFiles \<Rightarrow>
           case FindDescriptorByName oldFiles (tdName oldDef) of Inl e \<Rightarrow> Some e | Inr oldMD \<Rightarrow>
           case FindDescriptorByName newFiles (tdName newDef) of Inl e \<Rightarrow> Some e | Inr newMD \<Rightarrow>
             checkMessageCompatibility oldMD newMD)
      | _ \<Rightarrow> Some (ErrMsg ''missing descriptors in TypeDefinition''))"

subsection \<open>The registry\<close>

abbreviation ErrMissingDescriptors :: error where "ErrMissingDescriptors \<equiv> ErrMsg ''missing FileDescriptorSet for new type registration''"
abbreviation ErrTypeIDTooLow :: error where "ErrTypeIDTooLow \<equiv> ErrMsg ''application type ID must be >= 16''"
abbreviation ErrTypeConflict :: error where "ErrTypeConflict \<equiv> ErrMsg ''conflicting type registration''"

record 'p typeEntry =
  teId :: uint32
  teDef :: "'p TypeDefinition"
  teDescriptor :: "'p MessageDescriptor"
  teResolvedType :: "'p MessageType"

record 'p Registry =
  types :: "(uint32 \<times> 'p typeEntry) list"
  byName :: "(string \<times> uint32) list"
  nextID :: uint32

definition NewRegistry :: "'p Registry" where
  "NewRegistry = \<lparr>types = [], byName = [], nextID = MinAppTypeID\<rparr>"

definition getOrCreateFiles ::
  "('p, 'v, 'm) protobuf \<Rightarrow> 'p list option \<Rightarrow> error + (string \<Rightarrow> error + 'p MessageDescriptor option)" where
  "getOrCreateFiles P fds =
     (case fds of
        None \<Rightarrow> Inl ErrMissingDescriptors
      | Some fs \<Rightarrow> (case MarshalFileSet P fs of Inl e \<Rightarrow> Inl e | Inr _ \<Rightarrow> NewFiles P fs))"

definition resolveMessageDescriptor ::
  "('p, 'v, 'm) protobuf \<Rightarrow> 'p TypeDefinition \<Rightarrow> error + 'p MessageDescriptor" where
  "resolveMessageDescriptor P def =
     (let parsed =
        (case getOrCreateFiles P (tdDescriptors def) of
           Inl e \<Rightarrow> Inl e
         | Inr reg \<Rightarrow> FindDescriptorByName reg (tdName def))
      in case GlobalFiles P (tdName def) of
        None \<Rightarrow> parsed
      | Some md \<Rightarrow>
          if getCompiledFingerprint P md = Inr (tdFingerprint def) then Inr md else parsed)"

definition resolveMessageType ::
  "('p, 'v, 'm) protobuf \<Rightarrow> 'p TypeDefinition \<Rightarrow> 'p MessageDescriptor \<Rightarrow> error + 'p MessageType" where
  "resolveMessageType P def md =
     (case GlobalTypes P (tdName def) of
        None \<Rightarrow> Inr (DynamicType md)
      | Some compiledMD \<Rightarrow>
          if compiledMD = md then Inr (CompiledType compiledMD)
          else case getCompiledFingerprint P compiledMD of
            Inl e \<Rightarrow> Inl e
          | Inr compiledFP \<Rightarrow> Inr (if compiledFP = tdFingerprint def then CompiledType compiledMD else DynamicType md))"

definition verify_fingerprint ::
  "('p, 'v, 'm) protobuf \<Rightarrow> 'p typeDefCache \<Rightarrow> 'p TypeDefinition \<Rightarrow> error option" where
  "verify_fingerprint P cache def =
     (if map_of cache (typeDefKey def) \<noteq> None then None
      else case ComputeFingerprint P (tdDescriptors def) of
        Inl e \<Rightarrow> Some e
      | Inr expectedFP \<Rightarrow>
          if expectedFP \<noteq> tdFingerprint def then Some (ErrMsg ''fingerprint mismatch'') else None)"

definition check_key_field :: "'p MessageDescriptor \<Rightarrow> int \<Rightarrow> error option" where
  "check_key_field md kf =
     (case ByNumber kf (Fields md) of
        None \<Rightarrow> Some (ErrMsg ''key_field not found'')
      | Some f \<Rightarrow>
          if fIsList f then Some (ErrMsg ''key_field cannot be repeated'')
          else if fIsMap f then Some (ErrMsg ''key_field cannot be a map'')
          else if fKind f = MessageKind \<or> fKind f = GroupKind then Some (ErrMsg ''key_field must be a scalar'')
          else None)"

definition check_key_fields :: "'p MessageDescriptor \<Rightarrow> int list \<Rightarrow> error option" where
  "check_key_fields md kfs = first_error (check_key_field md) kfs"

definition store_type ::
  "('p, 'v, 'm) protobuf \<Rightarrow> 'p TypeDefinition \<Rightarrow> 'p MessageDescriptor \<Rightarrow> 'p Registry \<Rightarrow> 'p typeDefCache \<Rightarrow>
   (error + 'p Registry) \<times> 'p typeDefCache" where
  \<comment> \<open>the end of both branches; \<open>nextID\<close> does not change for an id that is known\<close>
  "store_type P def md s cache =
     (case resolveMessageType P def md of
        Inl e \<Rightarrow> (Inl e, cache)
      | Inr msgType \<Rightarrow>
          (Inr (s\<lparr>types := AList.update (tdId def)
                    \<lparr>teId = tdId def, teDef = def, teDescriptor = md, teResolvedType = msgType\<rparr> (types s),
                  byName := AList.update (tdName def) (tdId def) (byName s)\<rparr>),
           maybeInternTypeDef def cache))"

definition registerIntoSnapshot ::
  "('p, 'v, 'm) protobuf \<Rightarrow> 'p TypeDefinition \<Rightarrow> 'p Registry \<Rightarrow> 'p typeDefCache \<Rightarrow> (error + 'p Registry) \<times> 'p typeDefCache" where
  "registerIntoSnapshot P def s cache =
     (if tdId def < MinAppTypeID then (Inl ErrTypeIDTooLow, cache)
      else if tdName def = '''' then (Inl (ErrMsg ''empty type name in TypeDefinition''), cache)
      else if tdFingerprint def = [] then (Inl (ErrMsg ''empty fingerprint in TypeDefinition''), cache)
      else if (case map_of (types s) (tdId def) of Some ex \<Rightarrow> tdName (teDef ex) \<noteq> tdName def | None \<Rightarrow> False)
        then (Inl ErrTypeConflict, cache)
      else if (case map_of (byName s) (tdName def) of Some i \<Rightarrow> i \<noteq> tdId def | None \<Rightarrow> False)
        then (Inl ErrTypeConflict, cache)
      else case map_of (types s) (tdId def) of
        Some ex \<Rightarrow>
          if tdFingerprint (teDef ex) = tdFingerprint def then (Inr s, cache)
          else (case CheckCompatibility P (teDef ex) def of Some e \<Rightarrow> (Inl e, cache) | None \<Rightarrow>
                case verify_fingerprint P cache def of Some e \<Rightarrow> (Inl e, cache) | None \<Rightarrow>
                case resolveMessageDescriptor P def of Inl e \<Rightarrow> (Inl e, cache) | Inr md \<Rightarrow>
                  store_type P def md s cache)
      | None \<Rightarrow>
          if tdDescriptors def = None then (Inl ErrMissingDescriptors, cache)
          else (case verify_fingerprint P cache def of Some e \<Rightarrow> (Inl e, cache) | None \<Rightarrow>
                case resolveMessageDescriptor P def of Inl e \<Rightarrow> (Inl e, cache) | Inr md \<Rightarrow>
                case check_key_fields md (tdKeyFields def) of Some e \<Rightarrow> (Inl e, cache) | None \<Rightarrow>
                case store_type P def md s cache of
                  (Inl e, cache) \<Rightarrow> (Inl e, cache)
                | (Inr s, cache) \<Rightarrow>
                    (Inr (if tdId def \<ge> nextID s then s\<lparr>nextID := tdId def + 1\<rparr> else s), cache)))"

definition Register ::
  "('p, 'v, 'm) protobuf \<Rightarrow> 'p TypeDefinition \<Rightarrow> 'p Registry \<Rightarrow> 'p typeDefCache \<Rightarrow>
   error option \<times> 'p Registry \<times> 'p typeDefCache" where
  \<comment> \<open>with \<open>update\<close>: the snapshot is swapped only if the function succeeds\<close>
  "Register P def r cache =
     (case registerIntoSnapshot P (internOrCloneTypeDef cache def) r cache of
        (Inl e, cache) \<Rightarrow> (Some e, r, cache)
      | (Inr s, cache) \<Rightarrow> (None, s, cache))"

definition RegisterDescriptor ::
  "('p, 'v, 'm) protobuf \<Rightarrow> 'p MessageDescriptor \<Rightarrow> int list \<Rightarrow> 'p Registry \<Rightarrow> 'p typeDefCache \<Rightarrow>
   (error + 'p TypeDefinition) \<times> 'p Registry \<times> 'p typeDefCache" where
  "RegisterDescriptor P md keyFields r cache =
     (let typeID = (case map_of (byName r) (mdName md) of Some i \<Rightarrow> i | None \<Rightarrow> nextID r)
      in case BuildTypeDefinition P typeID md keyFields cache of
        (Inl e, cache) \<Rightarrow> (Inl e, r, cache)
      | (Inr def, cache) \<Rightarrow>
          (case registerIntoSnapshot P def r cache of
             (Inl e, cache) \<Rightarrow> (Inl e, r, cache)
           | (Inr s, cache) \<Rightarrow> (Inr def, s, cache)))"

definition RegisterMessage ::
  "('p, 'v, 'm) protobuf \<Rightarrow> 'm \<Rightarrow> int list \<Rightarrow> 'p Registry \<Rightarrow> 'p typeDefCache \<Rightarrow>
   (error + 'p TypeDefinition) \<times> 'p Registry \<times> 'p typeDefCache" where
  "RegisterMessage P msg = RegisterDescriptor P (MsgDescriptor P msg)"

definition LookupByID :: "'p Registry \<Rightarrow> uint32 \<Rightarrow> ('p TypeDefinition \<times> 'p MessageDescriptor) option" where
  "LookupByID r i = map_option (\<lambda>e. (teDef e, teDescriptor e)) (map_of (types r) i)"

definition LookupByName :: "'p Registry \<Rightarrow> string \<Rightarrow> ('p TypeDefinition \<times> 'p MessageDescriptor) option" where
  "LookupByName r name = (case map_of (byName r) name of None \<Rightarrow> None | Some i \<Rightarrow> LookupByID r i)"

definition ResolveMessageType :: "'p Registry \<Rightarrow> uint32 \<Rightarrow> error + 'p MessageType" where
  "ResolveMessageType r i =
     (case map_of (types r) i of None \<Rightarrow> Inl ErrTypeNotRegistered | Some e \<Rightarrow> Inr (teResolvedType e))"

definition Export :: "'p Registry \<Rightarrow> 'p TypeDefinition list" where
  "Export r = sort_key tdId (map (teDef \<circ> snd) (types r))"

fun import_loop ::
  "('p, 'v, 'm) protobuf \<Rightarrow> 'p TypeDefinition list \<Rightarrow> 'p Registry \<Rightarrow> 'p typeDefCache \<Rightarrow>
   (error + 'p Registry) \<times> 'p typeDefCache" where
  "import_loop P [] s cache = (Inr s, cache)"
| "import_loop P (def # defs) s cache =
     (case registerIntoSnapshot P (internOrCloneTypeDef cache def) s cache of
        (Inl e, cache) \<Rightarrow> (Inl e, cache)
      | (Inr s, cache) \<Rightarrow> import_loop P defs s cache)"

definition Import ::
  "('p, 'v, 'm) protobuf \<Rightarrow> 'p TypeDefinition list \<Rightarrow> 'p Registry \<Rightarrow> 'p typeDefCache \<Rightarrow>
   error option \<times> 'p Registry \<times> 'p typeDefCache" where
  "Import P defs r cache =
     (case import_loop P defs r cache of
        (Inl e, cache) \<Rightarrow> (Some e, r, cache)
      | (Inr s, cache) \<Rightarrow> (None, s, cache))"

subsection \<open>Well-formed registries\<close>

definition registry_ok :: "'p Registry \<Rightarrow> bool" where
  \<comment> \<open>ids and names are in one-to-one correspondence, and the next id is free\<close>
  "registry_ok r \<longleftrightarrow>
     (\<forall>i e. map_of (types r) i = Some e \<longrightarrow>
        teId e = i \<and> tdId (teDef e) = i \<and> MinAppTypeID \<le> i \<and> map_of (byName r) (tdName (teDef e)) = Some i) \<and>
     (\<forall>n i. map_of (byName r) n = Some i \<longrightarrow> (\<exists>e. map_of (types r) i = Some e \<and> tdName (teDef e) = n))"

definition ids_below :: "'p Registry \<Rightarrow> bool" where
  "ids_below r \<longleftrightarrow> (\<forall>i. map_of (types r) i \<noteq> None \<longrightarrow> i < nextID r) \<and> MinAppTypeID \<le> nextID r"

lemma registerIntoSnapshot_cases:
  assumes "registerIntoSnapshot P def s cache = (Inr s', cache')"
  shows "s' = s \<or> (\<exists>e n. s' = \<lparr>types = AList.update (tdId def) e (types s), byName = AList.update (tdName def) (tdId def) (byName s),
       nextID = n\<rparr> \<and> teId e = tdId def \<and> teDef e = def \<and>
       n = (if map_of (types s) (tdId def) = None \<and> tdId def \<ge> nextID s then tdId def + 1 else nextID s))"
    "MinAppTypeID \<le> tdId def"
    "map_of (types s) (tdId def) = Some x \<Longrightarrow> tdName (teDef x) = tdName def"
    "map_of (byName s) (tdName def) = Some i \<Longrightarrow> i = tdId def"
proof -
  obtain ts bs n where s: "s = \<lparr>types = ts, byName = bs, nextID = n\<rparr>" by (cases s) simp
  show "s' = s \<or> (\<exists>e n. s' = \<lparr>types = AList.update (tdId def) e (types s),
      byName = AList.update (tdName def) (tdId def) (byName s), nextID = n\<rparr> \<and> teId e = tdId def \<and> teDef e = def \<and>
       n = (if map_of (types s) (tdId def) = None \<and> tdId def \<ge> nextID s then tdId def + 1 else nextID s))"
    using assms
    by (simp add: s registerIntoSnapshot_def store_type_def split: if_splits option.splits sum.splits prod.splits)
      force+
qed (use assms in \<open>auto simp: registerIntoSnapshot_def not_less split: if_splits option.splits\<close>)

lemma registry_ok_register:
  assumes "registry_ok s" "registerIntoSnapshot P def s cache = (Inr s', cache')"
  shows "registry_ok s'"
proof (cases "s' = s")
  case False
  then obtain e where s': "types s' = AList.update (tdId def) e (types s)" "teId e = tdId def" "teDef e = def"
      "byName s' = AList.update (tdName def) (tdId def) (byName s)"
    using registerIntoSnapshot_cases(1) [OF assms(2)] by auto
  note r = registerIntoSnapshot_cases(2-4) [OF assms(2)]
  have ok: "\<And>i e. map_of (types s) i = Some e \<Longrightarrow> teId e = i \<and> tdId (teDef e) = i \<and> MinAppTypeID \<le> i \<and>
      map_of (byName s) (tdName (teDef e)) = Some i"
    and names: "\<And>n i. map_of (byName s) n = Some i \<Longrightarrow> \<exists>e. map_of (types s) i = Some e \<and> tdName (teDef e) = n"
    using assms(1) by (auto simp: registry_ok_def)
  have 1: "teId x = i \<and> tdId (teDef x) = i \<and> MinAppTypeID \<le> i \<and> map_of (byName s') (tdName (teDef x)) = Some i"
    if "map_of (types s') i = Some x" for i x
  proof (cases "i = tdId def")
    case True
    then show ?thesis using that r(1) s' by (simp add: update_conv)
  next
    case False
    then have "map_of (types s) i = Some x" using that s' by (simp add: update_conv)
    from ok [OF this] show ?thesis using r(3) False by (auto simp: s' update_conv)
  qed
  have 2: "\<exists>x. map_of (types s') i = Some x \<and> tdName (teDef x) = n" if "map_of (byName s') n = Some i" for n i
  proof (cases "n = tdName def")
    case True
    then show ?thesis using that s' by (auto simp: update_conv)
  next
    case False
    then have "map_of (byName s) n = Some i" using that s' by (simp add: update_conv)
    from names [OF this] show ?thesis using r(2) False by (auto simp: s' update_conv)
  qed
  show ?thesis unfolding registry_ok_def using 1 2 by blast
qed (use assms in simp)

lemma ids_below_register:
  assumes "ids_below s" "registerIntoSnapshot P def s cache = (Inr s', cache')" "tdId def \<noteq> - 1"
  shows "ids_below s'"
proof (cases "s' = s")
  case False
  then obtain e where s': "types s' = AList.update (tdId def) e (types s)"
      "nextID s' = (if map_of (types s) (tdId def) = None \<and> tdId def \<ge> nextID s then tdId def + 1 else nextID s)"
    using registerIntoSnapshot_cases(1) [OF assms(2)] by auto
  have lt: "tdId def < tdId def + 1"
  proof -
    have "1 + tdId def \<noteq> 0" using assms(3) max_word_wrap [of "tdId def"] by (auto simp: add.commute)
    then show ?thesis using unatSuc [of "tdId def"] by (simp add: word_less_nat_alt add.commute)
  qed
  show ?thesis
    using assms(1) lt registerIntoSnapshot_cases(2) [OF assms(2)]
    unfolding ids_below_def s' update_conv
    by (auto simp: fun_upd_apply not_le intro: less_trans le_less_trans)
qed (use assms in simp)

lemma registry_ok_import: "import_loop P defs s cache = (Inr s', cache') \<Longrightarrow> registry_ok s \<Longrightarrow> registry_ok s'"
  by (induction P defs s cache rule: import_loop.induct)
    (auto split: sum.splits prod.splits dest: registry_ok_register)

lemma registry_ok_NewRegistry: "registry_ok NewRegistry"
  by (simp add: registry_ok_def NewRegistry_def)

lemma registry_ok_ops:
  assumes "registry_ok r"
  shows "registry_ok (fst (snd (Register P def r cache)))"
    "registry_ok (fst (snd (RegisterDescriptor P md kfs r cache)))"
    "registry_ok (fst (snd (Import P defs r cache)))"
  using assms
  by (auto simp: Register_def RegisterDescriptor_def Import_def Let_def split: sum.splits prod.splits
      dest: registry_ok_register registry_ok_import)

lemma LookupByName_ok:
  assumes "registry_ok r"
  shows "LookupByName r n = Some (def, md) \<longleftrightarrow> tdName def = n \<and> LookupByID r (tdId def) = Some (def, md)"
proof -
  have 1: "tdName (teDef e) = n \<and> tdId (teDef e) = i" if "map_of (byName r) n = Some i" "map_of (types r) i = Some e" for i e
    using assms that by (fastforce simp: registry_ok_def)
  have 2: "map_of (byName r) (tdName (teDef e)) = Some i" if "map_of (types r) i = Some e" for i e
    using assms that by (simp add: registry_ok_def)
  show ?thesis
  proof
    assume "LookupByName r n = Some (def, md)"
    then show "tdName def = n \<and> LookupByID r (tdId def) = Some (def, md)"
      by (auto simp: LookupByName_def LookupByID_def dest: 1 split: option.splits)
  next
    assume "tdName def = n \<and> LookupByID r (tdId def) = Some (def, md)"
    then show "LookupByName r n = Some (def, md)"
      using 2 [of "tdId def"] by (auto simp: LookupByName_def LookupByID_def)
  qed
qed

end
