(* ===== verification/SdsKeys.thy ===== *)
theory SdsKeys
  imports SdsRegistry
begin

text \<open>
  \<^verbatim>\<open>pkg/sds/keys.go\<close> and \<^verbatim>\<open>types.go\<close>: primary keys. A row is split into a message with its key fields and
  a message with the other ones; the bytes of the first are the key.
\<close>

abbreviation ErrMissingPrimaryKey :: error where "ErrMissingPrimaryKey \<equiv> ErrMsg ''missing primary key field''"
abbreviation ErrInvalidKeyBytes :: error where "ErrInvalidKeyBytes \<equiv> ErrMsg ''key bytes do not match key_fields''"

datatype Key = MkKey (raw: bytes)

definition NewKeyFromBytes :: "bytes \<Rightarrow> Key" where
  "NewKeyFromBytes b = MkKey b"

definition IsZero :: "Key \<Rightarrow> bool" where
  "IsZero k \<longleftrightarrow> raw k = []"

definition ValidateKeyBytes ::
  "('p, 'v, 'm) protobuf \<Rightarrow> 'p MessageDescriptor \<Rightarrow> int list \<Rightarrow> bytes \<Rightarrow> error option" where
  "ValidateKeyBytes P md keyFields keyBytes =
     (if keyBytes = [] then if keyFields = [] then None else Some ErrInvalidKeyBytes
      else case Unmarshal P False keyBytes (New P (DynamicType md)) of
        Inl e \<Rightarrow> Some ErrInvalidKeyBytes
      | Inr keyMsg \<Rightarrow>
          (case first_error
                  (\<lambda>kf. case ByNumber kf (Fields md) of
                     None \<Rightarrow> Some ErrInvalidKeyBytes
                   | Some f \<Rightarrow> if \<not> Has P keyMsg (fNumber f) then Some ErrInvalidKeyBytes else None) keyFields of
             Some e \<Rightarrow> Some e
           | None \<Rightarrow>
               let extraFields = filter (\<lambda>f. Has P keyMsg (fNumber f) \<and> fNumber f \<notin> set keyFields) (Fields md)
               in if extraFields \<noteq> [] then Some ErrInvalidKeyBytes
                  else if GetUnknown P keyMsg \<noteq> [] then Some ErrInvalidKeyBytes
                  else None))"

record PrimaryKey =
  fieldNumbers :: "int list"

definition NewPrimaryKey :: "int list \<Rightarrow> PrimaryKey" where
  "NewPrimaryKey keyFields = \<lparr>fieldNumbers = sort keyFields\<rparr>"

definition SplitKey :: "('p, 'v, 'm) protobuf \<Rightarrow> PrimaryKey \<Rightarrow> 'm \<Rightarrow> error + bytes \<times> bytes" where
  "SplitKey P pk m =
     (let fields = Fields (MsgDescriptor P m)
      in case first_error
                (\<lambda>kf. case ByNumber kf fields of
                   None \<Rightarrow> Some (ErrMsg ''key field number not found'')
                 | Some f \<Rightarrow> if \<not> Has P m (fNumber f) then Some ErrMissingPrimaryKey else None) (fieldNumbers pk) of
           Some e \<Rightarrow> Inl e
         | None \<Rightarrow>
             let (keyMsg, valMsg) =
                   fold (\<lambda>f (keyMsg, valMsg).
                       if \<not> Has P m (fNumber f) then (keyMsg, valMsg)
                       else if fNumber f \<in> set (fieldNumbers pk)
                         then (SetField P keyMsg (fNumber f) (Get P m (fNumber f)), valMsg)
                         else (keyMsg, SetField P valMsg (fNumber f) (Get P m (fNumber f))))
                     fields (New P (MessageTypeOf P m), New P (MessageTypeOf P m))
             in case Marshal P keyMsg of Inl e \<Rightarrow> Inl e | Inr keyBytes \<Rightarrow>
                case Marshal P valMsg of Inl e \<Rightarrow> Inl e | Inr valBytes \<Rightarrow> Inr (keyBytes, valBytes))"

definition Extract :: "('p, 'v, 'm) protobuf \<Rightarrow> PrimaryKey \<Rightarrow> 'm \<Rightarrow> error + Key" where
  "Extract P pk msg = (case SplitKey P pk msg of Inl e \<Rightarrow> Inl e | Inr (keyBytes, _) \<Rightarrow> Inr (NewKeyFromBytes keyBytes))"

definition ExtractKey :: "('p, 'v, 'm) protobuf \<Rightarrow> 'm \<Rightarrow> int list \<Rightarrow> error + Key" where
  "ExtractKey P msg keyFields = Extract P (NewPrimaryKey keyFields) msg"

definition SplitKeyAndNonKey :: "('p, 'v, 'm) protobuf \<Rightarrow> 'm \<Rightarrow> int list \<Rightarrow> error + bytes \<times> bytes" where
  "SplitKeyAndNonKey P msg keyFields = SplitKey P (NewPrimaryKey keyFields) msg"

definition MergeKeyAndNonKey :: "('p, 'v, 'm) protobuf \<Rightarrow> 'm \<Rightarrow> bytes \<Rightarrow> bytes \<Rightarrow> error + 'm" where
  "MergeKeyAndNonKey P target keyBytes valBytes =
     (case if keyBytes \<noteq> [] then Unmarshal P True keyBytes target else Inr target of
        Inl e \<Rightarrow> Inl e
      | Inr target \<Rightarrow> if valBytes \<noteq> [] then Unmarshal P True valBytes target else Inr target)"

definition EncodeKeyPrefix :: "('p, 'v, 'm) protobuf \<Rightarrow> 'm \<Rightarrow> int list \<Rightarrow> error + bytes" where
  "EncodeKeyPrefix P m prefixKeyFields =
     (let fields = Fields (MsgDescriptor P m);
          marshal = (\<lambda>msg. case CheckInitialized P msg of Some e \<Rightarrow> Inl e | None \<Rightarrow> Marshal P msg)
      in if prefixKeyFields = [] then marshal m
         else marshal
           (fold (\<lambda>fn prefixMsg. case ByNumber fn fields of
                None \<Rightarrow> prefixMsg
              | Some f \<Rightarrow>
                  if Has P m (fNumber f) then SetField P prefixMsg (fNumber f) (Get P m (fNumber f)) else prefixMsg)
             (sort prefixKeyFields) (New P (MessageTypeOf P m))))"

subsection \<open>Messages as maps of fields\<close>

definition fields_of :: "('p, 'v, 'm) protobuf \<Rightarrow> 'm \<Rightarrow> int \<Rightarrow> 'v option" where
  "fields_of P m n = (if Has P m n then Some (Get P m n) else None)"

definition similar :: "'p MessageDescriptor \<Rightarrow> 'p MessageDescriptor \<Rightarrow> bool" where
  \<comment> \<open>descriptors of the same schema, compiled or built at run time\<close>
  "similar md md' \<longleftrightarrow> mdName md = mdName md' \<and> mdPool md = mdPool md'"

definition messages_ok :: "('p, 'v, 'm) protobuf \<Rightarrow> bool" where
  \<comment> \<open>what the library documents of messages: only fields of the descriptor are populated, a new message
     is empty, \<open>Set\<close> populates a field (and clears none, unless they share a oneof, which fields
     populated in the same message do not), and \<open>Unmarshal\<close> merges what \<open>Marshal\<close> wrote\<close>
  "messages_ok P \<longleftrightarrow>
     (\<forall>m n. Has P m n \<longrightarrow> (\<exists>f \<in> set (Fields (MsgDescriptor P m)). fNumber f = n)) \<and>
     (\<forall>t. MessageTypeOf P (New P t) = t \<and> GetUnknown P (New P t) = [] \<and> (\<forall>n. \<not> Has P (New P t) n)) \<and>
     (\<forall>m m0 n. MessageTypeOf P m = MessageTypeOf P m0 \<and> Has P m0 n \<and> (\<forall>k. Has P m k \<longrightarrow> Has P m0 k) \<longrightarrow>
        MessageTypeOf P (SetField P m n (Get P m0 n)) = MessageTypeOf P m \<and>
        GetUnknown P (SetField P m n (Get P m0 n)) = GetUnknown P m \<and>
        fields_of P (SetField P m n (Get P m0 n)) = (fields_of P m)(n \<mapsto> Get P m0 n)) \<and>
     (\<forall>t. Unmarshal P True [] t = Inr t) \<and>
     (\<forall>m t b. Marshal P m = Inr b \<and> similar (MsgDescriptor P m) (MsgDescriptor P t) \<and>
          (\<forall>n. Has P m n \<longrightarrow> \<not> Has P t n) \<longrightarrow>
        (\<exists>t'. Unmarshal P True b t = Inr t' \<and> MessageTypeOf P t' = MessageTypeOf P t \<and>
              GetUnknown P t' = GetUnknown P t @ GetUnknown P m \<and> fields_of P t' = fields_of P t ++ fields_of P m \<and>
              ((\<forall>i \<in> snd ` set (mdPool (MsgDescriptor P t)). \<forall>f \<in> set (miFields i). fCardinality f \<noteq> Required) \<longrightarrow>
               Unmarshal P False b t = Inr t')))"

lemma ByNumber_SomeD: "ByNumber n fs = Some f \<Longrightarrow> f \<in> set fs \<and> fNumber f = n"
  by (auto simp: ByNumber_def find_Some_iff)

lemma messages_okD:
  assumes "messages_ok P"
  shows "Has P m n \<Longrightarrow> \<exists>f \<in> set (Fields (MsgDescriptor P m)). fNumber f = n"
    "MessageTypeOf P (New P t) = t" "GetUnknown P (New P t) = []" "fields_of P (New P t) = Map.empty"
    "Unmarshal P True [] m = Inr m"
  using assms by (auto simp: messages_ok_def fields_of_def fun_eq_iff)

lemma SetField_ok:
  assumes "messages_ok P" "MessageTypeOf P m = MessageTypeOf P m0" "Has P m0 n" "\<And>k. Has P m k \<Longrightarrow> Has P m0 k"
  shows "MessageTypeOf P (SetField P m n (Get P m0 n)) = MessageTypeOf P m"
    "GetUnknown P (SetField P m n (Get P m0 n)) = GetUnknown P m"
    "fields_of P (SetField P m n (Get P m0 n)) = (fields_of P m)(n \<mapsto> Get P m0 n)"
  using assms by (auto simp: messages_ok_def)

lemma Unmarshal_Marshal:
  assumes "messages_ok P" "Marshal P m = Inr b" "similar (MsgDescriptor P m) (MsgDescriptor P t)"
    "dom (fields_of P m) \<inter> dom (fields_of P t) = {}"
  obtains t' where "Unmarshal P True b t = Inr t'" "MessageTypeOf P t' = MessageTypeOf P t"
    "GetUnknown P t' = GetUnknown P t @ GetUnknown P m" "fields_of P t' = fields_of P t ++ fields_of P m"
    "(\<forall>i \<in> snd ` set (mdPool (MsgDescriptor P t)). \<forall>f \<in> set (miFields i). fCardinality f \<noteq> Required) \<Longrightarrow>
     Unmarshal P False b t = Inr t'"
proof -
  have "\<forall>n. Has P m n \<longrightarrow> \<not> Has P t n" using assms(4) by (auto simp: fields_of_def dom_def)
  then show thesis using assms(1-3) that unfolding messages_ok_def by blast
qed

lemma Has_fields_of: "Has P m n \<longleftrightarrow> n \<in> dom (fields_of P m)"
  by (simp add: fields_of_def dom_def)

definition part_of :: "('p, 'v, 'm) protobuf \<Rightarrow> 'm \<Rightarrow> int set \<Rightarrow> 'm \<Rightarrow> bool" where
  \<comment> \<open>a message of the type of \<open>m\<close> with the fields of \<open>m\<close> in \<open>ns\<close>\<close>
  "part_of P m ns x \<longleftrightarrow> MessageTypeOf P x = MessageTypeOf P m \<and> GetUnknown P x = [] \<and> fields_of P x = fields_of P m |` ns"

lemma part_of_New: "messages_ok P \<Longrightarrow> part_of P m {} (New P (MessageTypeOf P m))"
  by (simp add: part_of_def messages_okD)

lemma part_of_SetField:
  assumes "messages_ok P" "part_of P m ns x" "Has P m n"
  shows "part_of P m (insert n ns) (SetField P x n (Get P m n))"
proof -
  have "Has P m k" if "Has P x k" for k
    using that assms(2) by (auto simp: part_of_def Has_fields_of)
  moreover have "(fields_of P m |` ns)(n \<mapsto> Get P m n) = fields_of P m |` insert n ns"
    using assms(3) by (auto simp: fun_eq_iff restrict_map_def fields_of_def)
  ultimately show ?thesis
    using SetField_ok [OF assms(1), of x m n] assms(2,3) by (simp add: part_of_def)
qed

lemma part_of_skip: "part_of P m ns x \<Longrightarrow> \<not> Has P m n \<Longrightarrow> part_of P m (insert n ns) x"
  by (auto simp: part_of_def fun_eq_iff restrict_map_def fields_of_def)

lemma split_fold:
  assumes "messages_ok P" "part_of P m A k" "part_of P m B v"
  shows "\<exists>k' v'. fold (\<lambda>f (k, v). if \<not> Has P m (fNumber f) then (k, v)
        else if fNumber f \<in> K then (SetField P k (fNumber f) (Get P m (fNumber f)), v)
        else (k, SetField P v (fNumber f) (Get P m (fNumber f)))) fs (k, v) = (k', v') \<and>
      part_of P m (A \<union> (fNumber ` set fs \<inter> K)) k' \<and> part_of P m (B \<union> (fNumber ` set fs - K)) v'"
  using assms(2,3)
proof (induction fs arbitrary: k v A B)
  case (Cons f fs)
  note IH = Cons.IH [of "if fNumber f \<in> K then insert (fNumber f) A else A" _ "if fNumber f \<in> K then B else insert (fNumber f) B"]
  show ?case
  proof (cases "Has P m (fNumber f)")
    case False
    with Cons.prems IH [of k v] part_of_skip [of P m _ _ "fNumber f"] show ?thesis
      by (cases "fNumber f \<in> K") (simp_all add: insert_Diff_if)
  next
    case True
    with Cons.prems part_of_SetField [OF assms(1) _ True] show ?thesis
      using IH [of "SetField P k (fNumber f) (Get P m (fNumber f))" v]
        IH [of k "SetField P v (fNumber f) (Get P m (fNumber f))"]
      by (cases "fNumber f \<in> K") (simp_all add: insert_Diff_if)
  qed
qed auto

lemma part_of_all:
  assumes "messages_ok P" "part_of P m (fNumber ` set (Fields (MsgDescriptor P m)) \<inter> K) x"
  shows "part_of P m K x"
proof -
  have "fields_of P m |` (fNumber ` set (Fields (MsgDescriptor P m)) \<inter> K) = fields_of P m |` K"
    using messages_okD(1) [OF assms(1), of m] by (auto simp: fun_eq_iff restrict_map_def fields_of_def)
  then show ?thesis using assms(2) by (simp add: part_of_def)
qed

lemma Split_parts:
  assumes "messages_ok P" "SplitKeyAndNonKey P m kfs = Inr (kb, vb)"
  obtains k v where "Marshal P k = Inr kb" "Marshal P v = Inr vb" "part_of P m (set kfs) k" "part_of P m (- set kfs) v"
    "\<And>n. n \<in> set kfs \<Longrightarrow> Has P m n"
proof -
  let ?fs = "Fields (MsgDescriptor P m)"
  have has: "Has P m n" if "n \<in> set kfs" for n
  proof -
    have "case ByNumber n ?fs of None \<Rightarrow> False | Some f \<Rightarrow> Has P m (fNumber f)"
      using assms(2) that
      by (auto simp: SplitKeyAndNonKey_def NewPrimaryKey_def SplitKey_def first_error_None Let_def
          split: option.splits if_splits)
    then show ?thesis by (auto dest: ByNumber_SomeD split: option.splits)
  qed
  obtain k v where kv: "fold (\<lambda>f (k, v). if \<not> Has P m (fNumber f) then (k, v)
        else if fNumber f \<in> set kfs then (SetField P k (fNumber f) (Get P m (fNumber f)), v)
        else (k, SetField P v (fNumber f) (Get P m (fNumber f)))) ?fs
        (New P (MessageTypeOf P m), New P (MessageTypeOf P m)) = (k, v)"
      "part_of P m ({} \<union> (fNumber ` set ?fs \<inter> set kfs)) k" "part_of P m ({} \<union> (fNumber ` set ?fs - set kfs)) v"
    using split_fold [OF assms(1) part_of_New [OF assms(1)] part_of_New [OF assms(1)], where fs = ?fs and K = "set kfs"] by blast
  have "part_of P m (set kfs) k" "part_of P m (- set kfs) v"
    using kv(2,3) by (auto intro!: part_of_all [OF assms(1)] simp: Diff_eq)
  moreover have "Marshal P k = Inr kb" "Marshal P v = Inr vb"
    using assms(2)
    unfolding SplitKeyAndNonKey_def NewPrimaryKey_def SplitKey_def Let_def PrimaryKey.simps set_sort kv(1)
    by (auto split: option.splits sum.splits)
  ultimately show thesis using has that by blast
qed
definition no_required :: "'p MessageDescriptor \<Rightarrow> bool" where
  "no_required md \<longleftrightarrow> (\<forall>i \<in> snd ` set (mdPool md). \<forall>f \<in> set (miFields i). fCardinality f \<noteq> Required)"

lemma MsgDescriptor_New: "messages_ok P \<Longrightarrow> MsgDescriptor P (New P t) = type_descriptor t"
  by (simp add: MsgDescriptor_def messages_okD)

lemma Unmarshal_part:
  assumes ok: "messages_ok P" and "Marshal P x = Inr b" "part_of P m ns x" "similar (MsgDescriptor P m) (MsgDescriptor P t)"
    "ns \<inter> dom (fields_of P t) = {}"
  obtains t' where "(if b \<noteq> [] then Unmarshal P True b t else Inr t) = Inr t'" "MessageTypeOf P t' = MessageTypeOf P t"
    "GetUnknown P t' = GetUnknown P t" "fields_of P t' = fields_of P t ++ (fields_of P m |` ns)"
    "no_required (MsgDescriptor P t) \<Longrightarrow> Unmarshal P False b t = Inr t'"
proof -
  have x: "MsgDescriptor P x = MsgDescriptor P m" "GetUnknown P x = []" "fields_of P x = fields_of P m |` ns"
    using assms(3) by (simp_all add: part_of_def MsgDescriptor_def)
  obtain t' where t': "Unmarshal P True b t = Inr t'" "MessageTypeOf P t' = MessageTypeOf P t"
    "GetUnknown P t' = GetUnknown P t @ GetUnknown P x" "fields_of P t' = fields_of P t ++ fields_of P x"
    "(\<forall>i \<in> snd ` set (mdPool (MsgDescriptor P t)). \<forall>f \<in> set (miFields i). fCardinality f \<noteq> Required) \<Longrightarrow>
     Unmarshal P False b t = Inr t'"
    using assms(4,5) x by (rule_tac Unmarshal_Marshal [OF ok assms(2), of t]) auto
  have "(if b \<noteq> [] then Unmarshal P True b t else Inr t) = Inr t'"
    using t'(1) messages_okD(5) [OF ok] by auto
  then show thesis using t' x that unfolding no_required_def by simp
qed

lemma similar_sym: "similar a b \<Longrightarrow> similar b a"
  by (simp add: similar_def)

lemma Merge_Split:
  assumes ok: "messages_ok P" and split: "SplitKeyAndNonKey P m kfs = Inr (kb, vb)"
    and "similar (MsgDescriptor P m) (type_descriptor t)"
  shows "\<exists>row. MergeKeyAndNonKey P (New P t) kb vb = Inr row \<and> MessageTypeOf P row = t \<and> fields_of P row = fields_of P m"
    and "\<exists>row. MergeKeyAndNonKey P (New P t) kb [] = Inr row \<and> MessageTypeOf P row = t \<and>
        fields_of P row = fields_of P m |` set kfs"
proof -
  obtain k v where kv: "Marshal P k = Inr kb" "Marshal P v = Inr vb" "part_of P m (set kfs) k" "part_of P m (- set kfs) v"
    using Split_parts [OF ok split] by blast
  obtain t1 where t1: "(if kb \<noteq> [] then Unmarshal P True kb (New P t) else Inr (New P t)) = Inr t1" "MessageTypeOf P t1 = t"
      "fields_of P t1 = fields_of P m |` set kfs"
    using assms(3) by (rule_tac Unmarshal_part [OF ok kv(1,3), of "New P t"]) (auto simp: MsgDescriptor_New messages_okD ok)
  obtain t2 where t2: "(if vb \<noteq> [] then Unmarshal P True vb t1 else Inr t1) = Inr t2" "MessageTypeOf P t2 = t"
      "fields_of P t2 = (fields_of P m |` set kfs) ++ (fields_of P m |` (- set kfs))"
    using assms(3) t1(2,3) by (rule_tac Unmarshal_part [OF ok kv(2,4), of t1]) (auto simp: MsgDescriptor_def)
  have "(fields_of P m |` set kfs) ++ (fields_of P m |` (- set kfs)) = fields_of P m"
    by (auto simp: fun_eq_iff restrict_map_def map_add_def split: option.splits)
  then show "\<exists>row. MergeKeyAndNonKey P (New P t) kb vb = Inr row \<and> MessageTypeOf P row = t \<and> fields_of P row = fields_of P m"
    and "\<exists>row. MergeKeyAndNonKey P (New P t) kb [] = Inr row \<and> MessageTypeOf P row = t \<and>
        fields_of P row = fields_of P m |` set kfs"
    using t1 t2 by (simp_all add: MergeKeyAndNonKey_def)
qed

lemma ValidateKeyBytes_Split:
  assumes ok: "messages_ok P" and split: "SplitKeyAndNonKey P m kfs = Inr (kb, vb)"
    and sim: "similar (MsgDescriptor P m) md" and "no_required md"
  shows "ValidateKeyBytes P md kfs kb = None"
proof -
  obtain k where k: "Marshal P k = Inr kb" "part_of P m (set kfs) k" "\<And>n. n \<in> set kfs \<Longrightarrow> Has P m n"
    using Split_parts [OF ok split] by blast
  have md: "MsgDescriptor P (New P (DynamicType md)) = md"
    by (simp add: MsgDescriptor_New ok type_descriptor_def)
  obtain t where t: "(if kb \<noteq> [] then Unmarshal P True kb (New P (DynamicType md)) else Inr (New P (DynamicType md))) = Inr t"
      "GetUnknown P t = []" "fields_of P t = fields_of P m |` set kfs" "Unmarshal P False kb (New P (DynamicType md)) = Inr t"
    using sim assms(4)
    by (rule_tac Unmarshal_part [OF ok k(1,2), of "New P (DynamicType md)"]) (auto simp: md messages_okD ok)
  have fields: "Fields (MsgDescriptor P m) = Fields md"
    using sim by (simp add: similar_def Fields_def)
  have has: "Has P t n \<longleftrightarrow> n \<in> set kfs" for n
    using k(3) t(3) by (auto simp: Has_fields_of)
  have "kfs = []" if "kb = []"
  proof -
    have "t = New P (DynamicType md)" using that t(1) by simp
    then show ?thesis using has messages_okD(4) [OF ok] by (cases kfs) (auto simp: Has_fields_of)
  qed
  moreover
  have "\<exists>f. ByNumber n (Fields md) = Some f \<and> fNumber f = n" if "n \<in> set kfs" for n
  proof -
    have "\<exists>f \<in> set (Fields md). fNumber f = n"
      using messages_okD(1) [OF ok k(3) [OF that]] fields by simp
    then have "ByNumber n (Fields md) \<noteq> None"
      by (auto simp: ByNumber_def find_None_iff)
    then show ?thesis using ByNumber_SomeD by fastforce
  qed
  then have "first_error (\<lambda>kf. case ByNumber kf (Fields md) of None \<Rightarrow> Some ErrInvalidKeyBytes
      | Some f \<Rightarrow> if \<not> Has P t (fNumber f) then Some ErrInvalidKeyBytes else None) kfs = None"
    using has by (fastforce simp: first_error_None)
  ultimately show ?thesis
    using t(2,4) by (simp add: ValidateKeyBytes_def has)
qed

end
