(* ===== verification/SdsRecord.thy ===== *)
theory SdsRecord
  imports SdsKeys
begin

text \<open>
  \<^verbatim>\<open>pkg/sds/record/decoder.go\<close> and \<^verbatim>\<open>writer.go\<close>: reading and writing the records of a stream.

  A writer appends through an \<^verbatim>\<open>Appender\<close>, an interface whose state is the field \<open>rwAppender\<close> and whose
  method is an argument \<open>app\<close> of the operations. The time, of which an operation reads at most one value, is
  the argument \<open>now\<close>. The state of an operation that may register a type includes the cache of the process.
\<close>

subsection \<open>Decoding\<close>

datatype ('p, 'm) Message =
    NilMessage
  | TypeDefinitionMessage "'p TypeDefinition"
  | TxCommitMessage TxCommit
  | SnapshotPointerMessage SnapshotPointer
  | StreamHeaderMessage StreamHeader
  | OpRecordMessage OpRecord
  | AppMessage 'm

record ('p, 'm) Record =
  recTypeID :: uint32
  recMessage :: "('p, 'm) Message"
  recOpRecord :: "OpRecord option"
  recRaw :: bytes

definition Decode ::
  "('p, 'v, 'm) protobuf \<Rightarrow> bytes \<Rightarrow> 'p Registry \<Rightarrow> 'p typeDefCache \<Rightarrow>
   (error + ('p, 'm) Record) \<times> 'p Registry \<times> 'p typeDefCache" where
  "Decode P payload reg cache =
     (case SplitFrame payload of
        Inl e \<Rightarrow> (Inl e, reg, cache)
      | Inr (typeID, body) \<Rightarrow>
          let rec = (\<lambda>msg. (Inr \<lparr>recTypeID = typeID, recMessage = msg, recOpRecord = None, recRaw = body\<rparr>, reg, cache))
          in if typeID = TypeIDTypeDefinition then
               (case UnmarshalTypeDefinition P body of
                  Inl e \<Rightarrow> (Inl e, reg, cache)
                | Inr def \<Rightarrow>
                    (case Register P def reg cache of
                       (Some e, reg, cache) \<Rightarrow> (Inl e, reg, cache)
                     | (None, reg, cache) \<Rightarrow>
                         (Inr \<lparr>recTypeID = TypeIDTypeDefinition, recMessage = TypeDefinitionMessage def,
                               recOpRecord = None, recRaw = body\<rparr>, reg, cache)))
             else if typeID = TypeIDTxCommit then
               (case UnmarshalTxCommit P body of Inl e \<Rightarrow> (Inl e, reg, cache) | Inr commit \<Rightarrow> rec (TxCommitMessage commit))
             else if typeID = TypeIDSnapshotPointer then
               (case UnmarshalSnapshotPointer P body of
                  Inl e \<Rightarrow> (Inl e, reg, cache)
                | Inr ptr \<Rightarrow> rec (SnapshotPointerMessage ptr))
             else if typeID = TypeIDPadding then rec NilMessage
             else if typeID = TypeIDStreamHeader then
               (case UnmarshalStreamHeader P body of
                  Inl e \<Rightarrow> (Inl e, reg, cache)
                | Inr hdr \<Rightarrow> rec (StreamHeaderMessage hdr))
             else if typeID = TypeIDOpRecord then
               (case UnmarshalOpRecord P body of
                  Inl e \<Rightarrow> (Inl e, reg, cache)
                | Inr opRec \<Rightarrow>
                    if LookupByID reg (orTypeId opRec) = None then (Inl ErrTypeNotRegistered, reg, cache)
                    else (Inr \<lparr>recTypeID = TypeIDOpRecord, recMessage = OpRecordMessage opRec,
                               recOpRecord = Some opRec, recRaw = body\<rparr>, reg, cache))
             else
               (case ResolveMessageType reg typeID of
                  Inl e \<Rightarrow> (Inl e, reg, cache)
                | Inr msgType \<Rightarrow>
                    (case Unmarshal P False body (New P msgType) of
                       Inl e \<Rightarrow> (Inl e, reg, cache)
                     | Inr msg \<Rightarrow> rec (AppMessage msg))))"

subsection \<open>Writing\<close>

type_synonym 'a Append = "bytes \<Rightarrow> 'a \<Rightarrow> (error + uint64) \<times> 'a"

record ('p, 'a) RecordWriter =
  rwAppender :: 'a
  rwRegistry :: "'p Registry"
  announced :: "(uint32 \<times> bytes) list"
  headerEmitted :: bool
  skipHeader :: bool
  customHeader :: "StreamHeader option"

definition NewRecordWriter :: "'a \<Rightarrow> ('p, 'a) RecordWriter" where
  \<comment> \<open>the options set the fields of the result\<close>
  "NewRecordWriter appender =
     \<lparr>rwAppender = appender, rwRegistry = NewRegistry, announced = [], headerEmitted = False, skipHeader = False,
      customHeader = None\<rparr>"

definition StreamFormatVersion :: uint32 where "StreamFormatVersion = 1"
definition DefaultCreatorVersion :: string where "DefaultCreatorVersion = ''in-cluster-storage/1.0''"

definition append_payload ::
  "'a Append \<Rightarrow> bytes \<Rightarrow> ('p, 'a) RecordWriter \<Rightarrow> (error + uint64) \<times> ('p, 'a) RecordWriter" where
  \<comment> \<open>\<open>w.appender.Append\<close>\<close>
  "append_payload app payload w = (case app payload (rwAppender w) of (r, a) \<Rightarrow> (r, w\<lparr>rwAppender := a\<rparr>))"

definition frame :: "uint32 \<Rightarrow> error + bytes \<Rightarrow> error + bytes" where
  \<comment> \<open>a marshalled body in a frame\<close>
  "frame typeID marshalled = (case marshalled of Inl e \<Rightarrow> Inl e | Inr body \<Rightarrow> EncodeFrame typeID body)"

definition ensureStreamHeaderLocked ::
  "('p, 'v, 'm) protobuf \<Rightarrow> 'a Append \<Rightarrow> nat \<Rightarrow> ('p, 'a) RecordWriter \<Rightarrow> (error + unit) \<times> ('p, 'a) RecordWriter" where
  "ensureStreamHeaderLocked P app now w =
     (if headerEmitted w \<or> skipHeader w then (Inr (), w)
      else
        let hdr = (case customHeader w of
              Some hdr \<Rightarrow> hdr
            | None \<Rightarrow> \<lparr>shFormatVersion = StreamFormatVersion, shCreatorVersion = DefaultCreatorVersion, shCreatedAt = now\<rparr>)
        in case frame TypeIDStreamHeader (MarshalStreamHeader P hdr) of
          Inl e \<Rightarrow> (Inl e, w)
        | Inr payload \<Rightarrow>
            andThen (append_payload app payload w) (\<lambda>_ w. (Inr (), w\<lparr>headerEmitted := True\<rparr>)))"

definition AppendStreamHeader ::
  "('p, 'v, 'm) protobuf \<Rightarrow> 'a Append \<Rightarrow> StreamHeader \<Rightarrow> ('p, 'a) RecordWriter \<Rightarrow> (error + uint64) \<times> ('p, 'a) RecordWriter" where
  "AppendStreamHeader P app hdr w =
     (case frame TypeIDStreamHeader (MarshalStreamHeader P hdr) of
        Inl e \<Rightarrow> (Inl e, w)
      | Inr payload \<Rightarrow>
          andThen (append_payload app payload w) (\<lambda>seq w. (Inr seq, w\<lparr>headerEmitted := True\<rparr>)))"

definition RegisterDescriptorW ::
  "('p, 'v, 'm) protobuf \<Rightarrow> 'p MessageDescriptor \<Rightarrow> int list \<Rightarrow> ('p, 'a) RecordWriter \<Rightarrow> 'p typeDefCache \<Rightarrow>
   (error + uint32) \<times> ('p, 'a) RecordWriter \<times> 'p typeDefCache" where
  "RegisterDescriptorW P md keyFields w cache =
     (case RegisterDescriptor P md keyFields (rwRegistry w) cache of
        (Inl e, r, cache) \<Rightarrow> (Inl e, w\<lparr>rwRegistry := r\<rparr>, cache)
      | (Inr def, r, cache) \<Rightarrow> (Inr (tdId def), w\<lparr>rwRegistry := r\<rparr>, cache))"

definition RegisterType ::
  "('p, 'v, 'm) protobuf \<Rightarrow> 'm \<Rightarrow> int list \<Rightarrow> ('p, 'a) RecordWriter \<Rightarrow> 'p typeDefCache \<Rightarrow>
   (error + uint32) \<times> ('p, 'a) RecordWriter \<times> 'p typeDefCache" where
  "RegisterType P msg keyFields w cache =
     (case RegisterMessage P msg keyFields (rwRegistry w) cache of
        (Inl e, r, cache) \<Rightarrow> (Inl e, w\<lparr>rwRegistry := r\<rparr>, cache)
      | (Inr def, r, cache) \<Rightarrow> (Inr (tdId def), w\<lparr>rwRegistry := r\<rparr>, cache))"

definition ensureAnnounced ::
  "('p, 'v, 'm) protobuf \<Rightarrow> 'a Append \<Rightarrow> nat \<Rightarrow> uint32 \<Rightarrow> ('p, 'a) RecordWriter \<Rightarrow> (error + unit) \<times> ('p, 'a) RecordWriter" where
  "ensureAnnounced P app now typeID w =
     andThen (ensureStreamHeaderLocked P app now w) (\<lambda>_ w.
       case LookupByID (rwRegistry w) typeID of
         None \<Rightarrow> (Inl ErrTypeNotRegistered, w)
       | Some (def, _) \<Rightarrow>
           if map_of (announced w) typeID = Some (tdFingerprint def) then (Inr (), w)
           else case frame TypeIDTypeDefinition (MarshalTypeDefinition P def) of
             Inl e \<Rightarrow> (Inl e, w)
           | Inr payload \<Rightarrow>
               andThen (append_payload app payload w) (\<lambda>_ w.
                 (Inr (), w\<lparr>announced := AList.update typeID (tdFingerprint def) (announced w)\<rparr>)))"

definition AppendOp ::
  "('p, 'v, 'm) protobuf \<Rightarrow> 'a Append \<Rightarrow> nat \<Rightarrow> OpRecord \<Rightarrow> ('p, 'a) RecordWriter \<Rightarrow> (error + uint64) \<times> ('p, 'a) RecordWriter" where
  "AppendOp P app now op w =
     andThen (ensureAnnounced P app now (orTypeId op) w) (\<lambda>_ w.
       case frame TypeIDOpRecord (MarshalOpRecord P op) of
         Inl e \<Rightarrow> (Inl e, w)
       | Inr payload \<Rightarrow> append_payload app payload w)"

definition append_framed ::
  "('p, 'v, 'm) protobuf \<Rightarrow> 'a Append \<Rightarrow> nat \<Rightarrow> error + bytes \<Rightarrow> ('p, 'a) RecordWriter \<Rightarrow> (error + uint64) \<times> ('p, 'a) RecordWriter" where
  \<comment> \<open>what the next three operations share: the frame is built before the header is written\<close>
  "append_framed P app now framed w =
     (case framed of
        Inl e \<Rightarrow> (Inl e, w)
      | Inr payload \<Rightarrow> andThen (ensureStreamHeaderLocked P app now w) (\<lambda>_ w. append_payload app payload w))"

definition AppendTxCommit ::
  "('p, 'v, 'm) protobuf \<Rightarrow> 'a Append \<Rightarrow> nat \<Rightarrow> TxCommit \<Rightarrow> ('p, 'a) RecordWriter \<Rightarrow> (error + uint64) \<times> ('p, 'a) RecordWriter" where
  "AppendTxCommit P app now commit w =
     append_framed P app now (frame TypeIDTxCommit (MarshalTxCommit P commit)) w"

definition AppendSnapshotPointer ::
  "('p, 'v, 'm) protobuf \<Rightarrow> 'a Append \<Rightarrow> nat \<Rightarrow> SnapshotPointer \<Rightarrow> ('p, 'a) RecordWriter \<Rightarrow>
   (error + uint64) \<times> ('p, 'a) RecordWriter" where
  "AppendSnapshotPointer P app now ptr w =
     append_framed P app now (frame TypeIDSnapshotPointer (MarshalSnapshotPointer P ptr)) w"

definition AppendPaddingBytes ::
  "('p, 'v, 'm) protobuf \<Rightarrow> 'a Append \<Rightarrow> nat \<Rightarrow> bytes \<Rightarrow> ('p, 'a) RecordWriter \<Rightarrow> (error + uint64) \<times> ('p, 'a) RecordWriter" where
  "AppendPaddingBytes P app now body w = append_framed P app now (EncodeFrame TypeIDPadding body) w"

definition AppendPadding ::
  "('p, 'v, 'm) protobuf \<Rightarrow> 'a Append \<Rightarrow> nat \<Rightarrow> nat \<Rightarrow> ('p, 'a) RecordWriter \<Rightarrow> (error + uint64) \<times> ('p, 'a) RecordWriter" where
  "AppendPadding P app now n w = AppendPaddingBytes P app now (replicate n 0) w"

definition AppendRaw ::
  "('p, 'v, 'm) protobuf \<Rightarrow> 'a Append \<Rightarrow> nat \<Rightarrow> uint32 \<Rightarrow> bytes \<Rightarrow> ('p, 'a) RecordWriter \<Rightarrow> (error + uint64) \<times> ('p, 'a) RecordWriter" where
  "AppendRaw P app now typeID body w =
     andThen (ensureStreamHeaderLocked P app now w) (\<lambda>_ w.
       andThen (if typeID \<ge> MinAppTypeID then ensureAnnounced P app now typeID w else (Inr (), w)) (\<lambda>_ w.
         case EncodeFrame typeID body of
           Inl e \<Rightarrow> (Inl e, w)
         | Inr payload \<Rightarrow> append_payload app payload w))"

end
