(* ===== verification/SdsStream.thy ===== *)
theory SdsStream
  imports SdsRecord
begin

text \<open>
  \<^verbatim>\<open>pkg/sds/types.go\<close>, \<^verbatim>\<open>writer.go\<close>, \<^verbatim>\<open>reader.go\<close> and \<^verbatim>\<open>wal.go\<close>: row changes and transactions on a stream. The
  writer appends an operation record for every change and a commit record for every transaction; the
  reader holds back the changes of a transaction until its commit record arrives.
\<close>

subsection \<open>Changes\<close>

record 'm Change =
  chSeq :: uint64
  chTypeID :: uint32
  chTypeName :: string
  chOp :: Op
  chTxID :: uint64
  chKey :: Key
  chRawKey :: bytes
  chRawVal :: bytes
  chRow :: "'m option"

subsection \<open>The writer\<close>

record ('p, 'a) Writer =
  recordWriter :: "('p, 'a) RecordWriter"
  nextTxID :: uint64

definition NewWriter :: "('p, 'a) RecordWriter \<Rightarrow> ('p, 'a) Writer" where
  \<comment> \<open>on a record writer with the options applied\<close>
  "NewWriter rw = \<lparr>recordWriter = rw, nextTxID = 0\<rparr>"

type_synonym ('p, 'a) wstate = "('p, 'a) Writer \<times> 'p typeDefCache"

definition resolveOrRegister ::
  "('p, 'v, 'm) protobuf \<Rightarrow> 'm \<Rightarrow> ('p, 'a) wstate \<Rightarrow> (error + 'p TypeDefinition) \<times> ('p, 'a) wstate" where
  "resolveOrRegister P msg = (\<lambda>(w, cache).
     let rw = recordWriter w
     in case LookupByName (rwRegistry rw) (mdName (MsgDescriptor P msg)) of
          Some (def, _) \<Rightarrow> (Inr def, w, cache)
        | None \<Rightarrow>
            (case RegisterMessage P msg [] (rwRegistry rw) cache of
               (r, reg, cache) \<Rightarrow> (r, w\<lparr>recordWriter := rw\<lparr>rwRegistry := reg\<rparr>\<rparr>, cache)))"

definition writeOp ::
  "('p, 'v, 'm) protobuf \<Rightarrow> 'a Append \<Rightarrow> nat \<Rightarrow> Op \<Rightarrow> uint64 \<Rightarrow> 'm \<Rightarrow> ('p, 'a) wstate \<Rightarrow> (error + uint64) \<times> ('p, 'a) wstate" where
  "writeOp P app now op tx msg s =
     andThen (resolveOrRegister P msg s) (\<lambda>def (w, cache).
       case SplitKeyAndNonKey P msg (tdKeyFields def) of
         Inl e \<Rightarrow> (Inl e, w, cache)
       | Inr (keyBytes, valBytes) \<Rightarrow>
           let opRec = \<lparr>orOp = op, orTypeId = tdId def, orTxId = tx, orKey = keyBytes,
                        orValue = if op \<noteq> DELETE then valBytes else []\<rparr>
           in case AppendOp P app now opRec (recordWriter w) of
                (r, rw) \<Rightarrow> (r, w\<lparr>recordWriter := rw\<rparr>, cache))"

definition Create ::
  "('p, 'v, 'm) protobuf \<Rightarrow> 'a Append \<Rightarrow> nat \<Rightarrow> 'm \<Rightarrow> ('p, 'a) wstate \<Rightarrow> (error + uint64) \<times> ('p, 'a) wstate" where
  "Create P app now msg = writeOp P app now CREATE 0 msg"

definition Insert ::
  "('p, 'v, 'm) protobuf \<Rightarrow> 'a Append \<Rightarrow> nat \<Rightarrow> 'm \<Rightarrow> ('p, 'a) wstate \<Rightarrow> (error + uint64) \<times> ('p, 'a) wstate" where
  "Insert P app now msg = writeOp P app now CREATE 0 msg"

definition Update ::
  "('p, 'v, 'm) protobuf \<Rightarrow> 'a Append \<Rightarrow> nat \<Rightarrow> 'm \<Rightarrow> ('p, 'a) wstate \<Rightarrow> (error + uint64) \<times> ('p, 'a) wstate" where
  "Update P app now msg = writeOp P app now UPDATE 0 msg"

definition Delete ::
  "('p, 'v, 'm) protobuf \<Rightarrow> 'a Append \<Rightarrow> nat \<Rightarrow> 'm \<Rightarrow> ('p, 'a) wstate \<Rightarrow> (error + uint64) \<times> ('p, 'a) wstate" where
  "Delete P app now msg = writeOp P app now DELETE 0 msg"

definition on_record_writer ::
  "(('p, 'a) RecordWriter \<Rightarrow> (error + uint64) \<times> ('p, 'a) RecordWriter) \<Rightarrow> ('p, 'a) wstate \<Rightarrow> (error + uint64) \<times> ('p, 'a) wstate" where
  \<comment> \<open>the methods that only call the one of the record writer\<close>
  "on_record_writer f = (\<lambda>(w, cache). case f (recordWriter w) of (r, rw) \<Rightarrow> (r, w\<lparr>recordWriter := rw\<rparr>, cache))"

subsection \<open>Transactions\<close>

record 'm Tx =
  txID :: uint64
  finished :: bool
  changes :: "'m Change list"
  firstWriteOp :: string
  opName :: string
  readSet :: "((string \<times> Key) \<times> 'm option) list"
  readPrefixes :: "(string \<times> bytes) list"

definition Begin :: "('p, 'a) Writer \<Rightarrow> 'm Tx \<times> ('p, 'a) Writer" where
  "Begin w =
     (\<lparr>txID = nextTxID w + 1, finished = False, changes = [], firstWriteOp = '''', opName = '''', readSet = [],
       readPrefixes = []\<rparr>, w\<lparr>nextTxID := nextTxID w + 1\<rparr>)"

definition SetOpName :: "string \<Rightarrow> 'm Tx \<Rightarrow> 'm Tx" where
  "SetOpName name tx = tx\<lparr>opName := name\<rparr>"

definition HasWrites :: "'m Tx \<Rightarrow> bool" where
  "HasWrites tx \<longleftrightarrow> firstWriteOp tx \<noteq> ''''"

definition RecordRead :: "string \<Rightarrow> Key \<Rightarrow> 'm option \<Rightarrow> 'm Tx \<Rightarrow> 'm Tx" where
  "RecordRead typeName key msg tx = tx\<lparr>readSet := AList.update (typeName, key) msg (readSet tx)\<rparr>"

definition RecordReadPrefix :: "string \<Rightarrow> bytes \<Rightarrow> 'm Tx \<Rightarrow> 'm Tx" where
  "RecordReadPrefix typeName prefix tx = tx\<lparr>readPrefixes := List.insert (typeName, prefix) (readPrefixes tx)\<rparr>"

definition HasReadPrefix :: "string \<Rightarrow> bytes \<Rightarrow> 'm Tx \<Rightarrow> bool" where
  "HasReadPrefix typeName prefix tx \<longleftrightarrow> (typeName, prefix) \<in> set (readPrefixes tx)"

definition LookupRead :: "string \<Rightarrow> Key \<Rightarrow> 'm Tx \<Rightarrow> 'm option \<times> bool" where
  "LookupRead typeName key tx =
     (case map_of (readSet tx) (typeName, key) of
        Some msg \<Rightarrow> (msg, True)
      | None \<Rightarrow> (None, list_ex (\<lambda>(n, pre). n = typeName \<and> take (length pre) (raw key) = pre) (readPrefixes tx)))"

fun Op_String :: "Op \<Rightarrow> string" where
  "Op_String CREATE = ''CREATE''"
| "Op_String UPDATE = ''UPDATE''"
| "Op_String DELETE = ''DELETE''"
| "Op_String (UnknownOp n) = (if n < 0 then ''-'' @ dec (nat (- n)) else dec (nat n))"

definition recordChange ::
  "('p, 'v, 'm) protobuf \<Rightarrow> uint64 \<Rightarrow> Op \<Rightarrow> 'm \<Rightarrow> 'm Tx \<Rightarrow> ('p, 'a) wstate \<Rightarrow> (error + 'm Tx) \<times> ('p, 'a) wstate" where
  "recordChange P seq op msg tx s =
     andThen (resolveOrRegister P msg s) (\<lambda>def s.
       case SplitKeyAndNonKey P msg (tdKeyFields def) of
         Inl e \<Rightarrow> (Inl e, s)
       | Inr (keyBytes, valBytes) \<Rightarrow>
           let ch = \<lparr>chSeq = seq, chTypeID = tdId def, chTypeName = tdName def, chOp = op, chTxID = txID tx,
                     chKey = NewKeyFromBytes keyBytes, chRawKey = keyBytes, chRawVal = valBytes, chRow = Some msg\<rparr>
           in (Inr (tx\<lparr>changes := changes tx @ [ch],
                       firstWriteOp := if firstWriteOp tx = '''' then Op_String op @ '' '' @ tdName def
                                       else firstWriteOp tx\<rparr>), s))"

definition tx_write ::
  "('p, 'v, 'm) protobuf \<Rightarrow> 'a Append \<Rightarrow> nat \<Rightarrow> Op \<Rightarrow> 'm \<Rightarrow> 'm Tx \<Rightarrow> ('p, 'a) wstate \<Rightarrow>
   (error + uint64) \<times> 'm Tx \<times> ('p, 'a) wstate" where
  \<comment> \<open>the common body of \<open>Insert\<close>, \<open>Create\<close>, \<open>Update\<close> and \<open>Delete\<close>\<close>
  "tx_write P app now op msg tx s =
     (if finished tx then (Inl (ErrMsg ''transaction already closed''), tx, s)
      else case writeOp P app now op (txID tx) msg s of
        (Inl e, s) \<Rightarrow> (Inl e, tx, s)
      | (Inr seq, s) \<Rightarrow>
          (case recordChange P seq op msg tx s of
             (Inl e, s) \<Rightarrow> (Inl (Panic ''sds: failed to record transaction change''), tx, s)
           | (Inr tx, s) \<Rightarrow> (Inr seq, tx, s)))"

definition Tx_Create ::
  "('p, 'v, 'm) protobuf \<Rightarrow> 'a Append \<Rightarrow> nat \<Rightarrow> 'm \<Rightarrow> 'm Tx \<Rightarrow> ('p, 'a) wstate \<Rightarrow> (error + uint64) \<times> 'm Tx \<times> ('p, 'a) wstate" where
  "Tx_Create P app now = tx_write P app now CREATE"

definition Tx_Insert ::
  "('p, 'v, 'm) protobuf \<Rightarrow> 'a Append \<Rightarrow> nat \<Rightarrow> 'm \<Rightarrow> 'm Tx \<Rightarrow> ('p, 'a) wstate \<Rightarrow> (error + uint64) \<times> 'm Tx \<times> ('p, 'a) wstate" where
  "Tx_Insert P app now = tx_write P app now CREATE"

definition Tx_Update ::
  "('p, 'v, 'm) protobuf \<Rightarrow> 'a Append \<Rightarrow> nat \<Rightarrow> 'm \<Rightarrow> 'm Tx \<Rightarrow> ('p, 'a) wstate \<Rightarrow> (error + uint64) \<times> 'm Tx \<times> ('p, 'a) wstate" where
  "Tx_Update P app now = tx_write P app now UPDATE"

definition Tx_Delete ::
  "('p, 'v, 'm) protobuf \<Rightarrow> 'a Append \<Rightarrow> nat \<Rightarrow> 'm \<Rightarrow> 'm Tx \<Rightarrow> ('p, 'a) wstate \<Rightarrow> (error + uint64) \<times> 'm Tx \<times> ('p, 'a) wstate" where
  "Tx_Delete P app now = tx_write P app now DELETE"

definition Commit ::
  "('p, 'v, 'm) protobuf \<Rightarrow> 'a Append \<Rightarrow> nat \<Rightarrow> 'm Tx \<Rightarrow> ('p, 'a) wstate \<Rightarrow> (error + uint64) \<times> 'm Tx \<times> ('p, 'a) wstate" where
  "Commit P app now tx = (\<lambda>(w, cache).
     if finished tx then (Inl (ErrMsg ''transaction already closed''), tx, w, cache)
     else
       let tx = tx\<lparr>finished := True\<rparr>
       in case AppendTxCommit P app now \<lparr>tcTxId = txID tx, tcCommitTime = now\<rparr> (recordWriter w) of
            (Inl e, rw) \<Rightarrow> (Inl e, tx, w\<lparr>recordWriter := rw\<rparr>, cache)
          | (Inr commitSeq, rw) \<Rightarrow>
              (Inr commitSeq, tx\<lparr>changes := map (\<lambda>c. c\<lparr>chSeq := commitSeq\<rparr>) (changes tx)\<rparr>, w\<lparr>recordWriter := rw\<rparr>, cache))"

subsection \<open>The reader\<close>

abbreviation ErrMissingStreamHeader :: error where "ErrMissingStreamHeader \<equiv> ErrMsg ''missing stream header record as first stream record''"
abbreviation ErrUnsupportedStreamVersion :: error where "ErrUnsupportedStreamVersion \<equiv> ErrMsg ''unsupported stream format version''"

record ('p, 'm) ChangeReader =
  crRegistry :: "'p Registry"
    \<comment> \<open>the one of its decoder\<close>
  pendingTx :: "(uint64 \<times> 'm Change list) list"
  safeSnapshotPosition :: uint64
  acceptUnversioned :: bool
  headerSeen :: bool
  firstRecordSeen :: bool
  streamHeader :: "StreamHeader option"

definition NewChangeReader :: "'p Registry \<Rightarrow> ('p, 'm) ChangeReader" where
  "NewChangeReader reg =
     \<lparr>crRegistry = reg, pendingTx = [], safeSnapshotPosition = 0, acceptUnversioned = False, headerSeen = False,
      firstRecordSeen = False, streamHeader = None\<rparr>"

definition NewChangeReaderWithOptions :: "bool \<Rightarrow> 'p Registry \<Rightarrow> ('p, 'm) ChangeReader" where
  "NewChangeReaderWithOptions accept reg = (NewChangeReader reg)\<lparr>acceptUnversioned := accept\<rparr>"

definition SetAcceptUnversioned :: "bool \<Rightarrow> ('p, 'm) ChangeReader \<Rightarrow> ('p, 'm) ChangeReader" where
  "SetAcceptUnversioned accept r = r\<lparr>acceptUnversioned := accept\<rparr>"

definition HasPending :: "('p, 'm) ChangeReader \<Rightarrow> bool" where
  "HasPending r \<longleftrightarrow> length (pendingTx r) > 0"

definition DiscardPending :: "('p, 'm) ChangeReader \<Rightarrow> 'm Change list \<times> ('p, 'm) ChangeReader" where
  "DiscardPending r = (sort_key chSeq (concat (map snd (pendingTx r))), r\<lparr>pendingTx := []\<rparr>)"

definition pending_of :: "uint64 \<Rightarrow> ('p, 'm) ChangeReader \<Rightarrow> 'm Change list" where
  \<comment> \<open>\<open>r.pendingTx[txID]\<close>\<close>
  "pending_of tx r = (case map_of (pendingTx r) tx of Some cs \<Rightarrow> cs | None \<Rightarrow> [])"

definition mark_safe :: "uint64 \<Rightarrow> ('p, 'm) ChangeReader \<Rightarrow> ('p, 'm) ChangeReader" where
  "mark_safe seq r = (if length (pendingTx r) = 0 then r\<lparr>safeSnapshotPosition := seq\<rparr> else r)"

definition check_first ::
  "uint64 \<Rightarrow> uint32 \<Rightarrow> ('p, 'm) ChangeReader \<Rightarrow> error option \<times> ('p, 'm) ChangeReader" where
  "check_first seq typeID r =
     (if firstRecordSeen r then (None, r)
      else
        let r = r\<lparr>firstRecordSeen := True\<rparr>
        in if seq = 1 then
             if typeID = TypeIDStreamHeader then (None, r\<lparr>headerSeen := True\<rparr>)
             else if \<not> acceptUnversioned r then (Some ErrMissingStreamHeader, r)
             else (None, r)
           else (None, r))"

definition op_change ::
  "('p, 'v, 'm) protobuf \<Rightarrow> uint64 \<Rightarrow> OpRecord \<Rightarrow> 'p Registry \<Rightarrow> error + 'm Change" where
  \<comment> \<open>the row of an operation record\<close>
  "op_change P seq opRec reg =
     (case LookupByID reg (orTypeId opRec) of
        None \<Rightarrow> Inl ErrTypeNotRegistered
      | Some (def, md) \<Rightarrow>
          (case ValidateKeyBytes P md (tdKeyFields def) (orKey opRec) of
             Some e \<Rightarrow> Inl e
           | None \<Rightarrow>
               (case ResolveMessageType reg (orTypeId opRec) of
                  Inl e \<Rightarrow> Inl e
                | Inr msgType \<Rightarrow>
                    (case MergeKeyAndNonKey P (New P msgType) (orKey opRec) (orValue opRec) of
                       Inl e \<Rightarrow> Inl e
                     | Inr rowMsg \<Rightarrow>
                         Inr \<lparr>chSeq = seq, chTypeID = orTypeId opRec, chTypeName = tdName def, chOp = orOp opRec,
                              chTxID = orTxId opRec, chKey = NewKeyFromBytes (orKey opRec), chRawKey = orKey opRec,
                              chRawVal = orValue opRec, chRow = Some rowMsg\<rparr>))))"

definition Feed ::
  "('p, 'v, 'm) protobuf \<Rightarrow> uint64 \<Rightarrow> bytes \<Rightarrow> ('p, 'm) ChangeReader \<Rightarrow> 'p typeDefCache \<Rightarrow>
   (error + 'm Change list) \<times> ('p, 'm) ChangeReader \<times> 'p typeDefCache" where
  "Feed P seq payload r cache =
     (case Decode P payload (crRegistry r) cache of
        (Inl e, reg, cache) \<Rightarrow> (Inl e, r\<lparr>crRegistry := reg\<rparr>, cache)
      | (Inr rec, reg, cache) \<Rightarrow>
          (case check_first seq (recTypeID rec) (r\<lparr>crRegistry := reg\<rparr>) of
             (Some e, r) \<Rightarrow> (Inl e, r, cache)
           | (None, r) \<Rightarrow>
               (case recMessage rec of
                  StreamHeaderMessage hdr \<Rightarrow>
                    if shFormatVersion hdr > StreamFormatVersion then (Inl ErrUnsupportedStreamVersion, r, cache)
                    else (Inr [], mark_safe seq (r\<lparr>streamHeader := Some hdr\<rparr>), cache)
                | TxCommitMessage commit \<Rightarrow>
                    (Inr (pending_of (tcTxId commit) r),
                     mark_safe seq (r\<lparr>pendingTx := AList.delete (tcTxId commit) (pendingTx r)\<rparr>), cache)
                | OpRecordMessage opRec \<Rightarrow>
                    (case op_change P seq opRec (crRegistry r) of
                       Inl e \<Rightarrow> (Inl e, r, cache)
                     | Inr change \<Rightarrow>
                         if orTxId opRec = 0 then (Inr [change], mark_safe seq r, cache)
                         else (Inr [], r\<lparr>pendingTx := AList.update (orTxId opRec) (pending_of (orTxId opRec) r @ [change])
                                          (pendingTx r)\<rparr>, cache))
                | _ \<Rightarrow> (Inr [], mark_safe seq r, cache))))"

subsection \<open>Reading a stream\<close>

fun FeedRecovered ::
  "('p, 'v, 'm) protobuf \<Rightarrow> uint64 \<Rightarrow> (uint64 \<times> bytes) list \<Rightarrow> ('p, 'm) ChangeReader \<Rightarrow> 'p typeDefCache \<Rightarrow>
   (error + 'm Change list) \<times> ('p, 'm) ChangeReader \<times> 'p typeDefCache" where
  \<comment> \<open>the recovered records as \<open>StreamSeq\<close> and \<open>Payload\<close>\<close>
  "FeedRecovered P fromSeq [] r cache = (Inr [], r, cache)"
| "FeedRecovered P fromSeq ((seq, payload) # recs) r cache =
     (if seq \<le> fromSeq then FeedRecovered P fromSeq recs r cache
      else case Feed P seq payload r cache of
        (Inl e, r, cache) \<Rightarrow> (Inl e, r, cache)
      | (Inr cs, r, cache) \<Rightarrow>
          (case FeedRecovered P fromSeq recs r cache of
             (Inl e, r, cache) \<Rightarrow> (Inl e, r, cache)
           | (Inr rest, r, cache) \<Rightarrow> (Inr (cs @ rest), r, cache)))"

type_synonym ('m, 'y) yield = "uint64 \<Rightarrow> 'm Change list \<Rightarrow> 'y \<Rightarrow> bool \<times> 'y"

datatype outcome = Exhausted uint64 | Stopped | Failed error
  \<comment> \<open>of a loop of the iterator: at its end with the current position, stopped by the consumer, or \<open>lastErr\<close>\<close>

fun read_loop ::
  "('p, 'v, 'm) protobuf \<Rightarrow> ('m, 'y) yield \<Rightarrow> bool \<Rightarrow> uint64 \<Rightarrow> (uint64 \<times> bytes) list \<Rightarrow> ('p, 'm) ChangeReader \<Rightarrow>
   'p typeDefCache \<Rightarrow> 'y \<Rightarrow> outcome \<times> ('p, 'm) ChangeReader \<times> 'p typeDefCache \<times> 'y" where
  \<comment> \<open>both loops of \<open>Read\<close>; only the one over recovered records skips those at or below the position\<close>
  "read_loop P yield skip currentSeq [] r cache y = (Exhausted currentSeq, r, cache, y)"
| "read_loop P yield skip currentSeq ((seq, payload) # recs) r cache y =
     (if skip \<and> seq \<le> currentSeq then read_loop P yield skip currentSeq recs r cache y
      else case Feed P seq payload r cache of
        (Inl e, r, cache) \<Rightarrow> (Failed e, r, cache, y)
      | (Inr cs, r, cache) \<Rightarrow>
          let currentSeq = (if seq > currentSeq then seq else currentSeq)
          in if cs \<noteq> [] then
               (case yield seq cs y of
                  (False, y) \<Rightarrow> (Stopped, r, cache, y)
                | (True, y) \<Rightarrow> read_loop P yield skip currentSeq recs r cache y)
             else read_loop P yield skip currentSeq recs r cache y)"

definition Read ::
  "('p, 'v, 'm) protobuf \<Rightarrow> (uint64 \<times> bytes) list \<Rightarrow> (uint64 \<Rightarrow> error + (uint64 \<times> bytes) list) option \<Rightarrow>
   ('m, 'y) yield \<Rightarrow> uint64 \<Rightarrow> ('p, 'm) ChangeReader \<Rightarrow> 'p typeDefCache \<Rightarrow> 'y \<Rightarrow>
   outcome \<times> ('p, 'm) ChangeReader \<times> 'p typeDefCache \<times> 'y" where
  \<comment> \<open>with the records that \<open>walclient.TailStream\<close> delivers after a position, if a target is configured\<close>
  "Read P recovered tail yield fromSeq r cache y =
     (case read_loop P yield True fromSeq recovered r cache y of
        (Exhausted currentSeq, r, cache, y) \<Rightarrow>
          (case tail of
             None \<Rightarrow> (Exhausted currentSeq, r, cache, y)
           | Some TailStream \<Rightarrow>
               (case TailStream currentSeq of
                  Inl e \<Rightarrow> (Failed e, r, cache, y)
                | Inr recs \<Rightarrow> read_loop P yield False currentSeq recs r cache y))
      | res \<Rightarrow> res)"

subsection \<open>Appending to the write-ahead log\<close>

datatype Level = Local | Witness | Permanent

definition WALAppender_Append ::
  "Level \<Rightarrow> 's Append \<Rightarrow> (uint64 \<Rightarrow> Level \<Rightarrow> bool \<Rightarrow> 's \<Rightarrow> error option \<times> 's) \<Rightarrow> 's Append" where
  \<comment> \<open>on the methods \<open>Append\<close> and \<open>Wait\<close> of a \<open>walclient.Stream\<close>\<close>
  "WALAppender_Append level app wait payload s =
     andThen (app payload s) (\<lambda>seq s.
       if level = Local then (Inr seq, s)
       else case wait seq level (level = Permanent) s of
         (Some e, s) \<Rightarrow> (Inl e, s)
       | (None, s) \<Rightarrow> (Inr seq, s))"
end
