(* ===== verification/SdsRun.thy ===== *)
theory SdsRun
  imports SdsStream
begin

text \<open>
  What a reader sees of the stream a writer has written. A client of the writer issues commands; the
  specification says which changes are committed by them, in which order, without looking at the
  stream. The invariant \<open>tracks\<close> relates the writer with a reader that has read all of its stream.
\<close>

subsection \<open>Assumptions on the library and the transport\<close>

definition formats_ok :: "('p, 'v, 'm) protobuf \<Rightarrow> bool" where
  \<comment> \<open>the messages of the format are read back as they were written\<close>
  "formats_ok P \<longleftrightarrow>
     (\<forall>x b. MarshalTypeDefinition P x = Inr b \<longrightarrow> UnmarshalTypeDefinition P b = Inr x) \<and>
     (\<forall>x b. MarshalOpRecord P x = Inr b \<longrightarrow> UnmarshalOpRecord P b = Inr x) \<and>
     (\<forall>x b. MarshalTxCommit P x = Inr b \<longrightarrow> UnmarshalTxCommit P b = Inr x) \<and>
     (\<forall>x b. MarshalSnapshotPointer P x = Inr b \<longrightarrow> UnmarshalSnapshotPointer P b = Inr x) \<and>
     (\<forall>x b. MarshalStreamHeader P x = Inr b \<longrightarrow> UnmarshalStreamHeader P b = Inr x)"

definition appender_ok :: "'a Append \<Rightarrow> ('a \<Rightarrow> (uint64 \<times> bytes) list) \<Rightarrow> bool" where
  \<comment> \<open>a successful append adds the payload under a positive number; one that fails may have added it\<close>
  "appender_ok app lg \<longleftrightarrow>
     (\<forall>p s r s'. app p s = (r, s') \<longrightarrow>
        (case r of
           Inr n \<Rightarrow> n > 0 \<and> lg s' = lg s @ [(n, p)]
         | Inl e \<Rightarrow> lg s' = lg s \<or> (\<exists>n > 0. lg s' = lg s @ [(n, p)])))"

subsection \<open>The specification\<close>

definition abs_change :: "('p, 'v, 'm) protobuf \<Rightarrow> 'm Change \<Rightarrow> (int \<Rightarrow> 'v option) Change" where
  "abs_change P c =
     \<lparr>chSeq = chSeq c, chTypeID = chTypeID c, chTypeName = chTypeName c, chOp = chOp c, chTxID = chTxID c, chKey = chKey c,
      chRawKey = chRawKey c, chRawVal = chRawVal c, chRow = map_option (fields_of P) (chRow c)\<rparr>"

definition written ::
  "('p, 'v, 'm) protobuf \<Rightarrow> 'p Registry \<Rightarrow> Op \<Rightarrow> uint64 \<Rightarrow> 'm \<Rightarrow> uint64 \<Rightarrow> (int \<Rightarrow> 'v option) Change" where
  \<comment> \<open>the change of an operation on a message, at a position; a deletion has only the fields of the key\<close>
  "written P reg op tx msg n =
     (case LookupByName reg (mdName (MsgDescriptor P msg)) of
        None \<Rightarrow> undefined
      | Some (def, _) \<Rightarrow>
          (case SplitKeyAndNonKey P msg (tdKeyFields def) of
             Inl _ \<Rightarrow> undefined
           | Inr (kb, vb) \<Rightarrow>
               \<lparr>chSeq = n, chTypeID = tdId def, chTypeName = tdName def, chOp = op, chTxID = tx, chKey = NewKeyFromBytes kb,
                chRawKey = kb, chRawVal = if op \<noteq> DELETE then vb else [],
                chRow = Some (if op \<noteq> DELETE then fields_of P msg else fields_of P msg |` set (tdKeyFields def))\<rparr>))"

datatype 'm command =
    Auto Op 'm
  | BeginTx
  | InTx nat Op 'm
  | CommitTx nat
  | Snapshot SnapshotPointer
  | Padding bytes

definition tx_id :: "nat \<Rightarrow> uint64" where
  \<comment> \<open>of a transaction, by its position among all that were begun\<close>
  "tx_id i = word_of_nat (Suc i)"

datatype effect = Lost | Logged uint64

type_synonym 'v committed = "(nat \<Rightarrow> (int \<Rightarrow> 'v option) Change list) \<times> (int \<Rightarrow> 'v option) Change list"
  \<comment> \<open>the changes of the open transactions, and the committed changes\<close>

fun spec_step :: "('p, 'v, 'm) protobuf \<Rightarrow> 'p Registry \<Rightarrow> 'm command \<times> effect \<Rightarrow> 'v committed \<Rightarrow> 'v committed" where
  "spec_step P reg (Auto op msg, Logged n) (pend, out) = (pend, out @ [written P reg op 0 msg n])"
| "spec_step P reg (InTx i op msg, Logged n) (pend, out) =
     (pend(i := pend i @ [written P reg op (tx_id i) msg n]), out)"
| "spec_step P reg (CommitTx i, Logged n) (pend, out) = (pend(i := []), out @ pend i)"
| "spec_step P reg _ s = s"

definition spec :: "('p, 'v, 'm) protobuf \<Rightarrow> 'p Registry \<Rightarrow> ('m command \<times> effect) list \<Rightarrow> 'v committed" where
  "spec P reg ces = fold (spec_step P reg) ces (\<lambda>_. [], [])"

subsection \<open>Executing commands\<close>

type_synonym ('p, 'a, 'm) client = "('p, 'a) wstate \<times> 'm Tx list"

definition exec1 ::
  "('p, 'v, 'm) protobuf \<Rightarrow> 'a Append \<Rightarrow> nat \<Rightarrow> 'm command \<Rightarrow> ('p, 'a, 'm) client \<Rightarrow> (error + uint64) \<times> ('p, 'a, 'm) client" where
  "exec1 P app now c = (\<lambda>(s, txs).
     case c of
       Auto op msg \<Rightarrow> (case writeOp P app now op 0 msg s of (r, s) \<Rightarrow> (r, s, txs))
     | BeginTx \<Rightarrow> (case Begin (fst s) of (tx, w) \<Rightarrow> (Inr 0, (w, snd s), txs @ [tx]))
     | InTx i op msg \<Rightarrow>
         if i < length txs
         then case tx_write P app now op msg (txs ! i) s of (r, tx, s) \<Rightarrow> (r, s, txs[i := tx])
         else (Inl (ErrMsg ''no such transaction''), s, txs)
     | CommitTx i \<Rightarrow>
         if i < length txs then case Commit P app now (txs ! i) s of (r, tx, s) \<Rightarrow> (r, s, txs[i := tx])
         else (Inl (ErrMsg ''no such transaction''), s, txs)
     | Snapshot ptr \<Rightarrow> (case on_record_writer (AppendSnapshotPointer P app now ptr) s of (r, s) \<Rightarrow> (r, s, txs))
     | Padding body \<Rightarrow> (case on_record_writer (AppendPaddingBytes P app now body) s of (r, s) \<Rightarrow> (r, s, txs)))"

fun exec ::
  "('p, 'v, 'm) protobuf \<Rightarrow> 'a Append \<Rightarrow> (nat \<times> 'm command) list \<Rightarrow> ('p, 'a, 'm) client \<Rightarrow>
   (error + uint64) list \<times> ('p, 'a, 'm) client" where
  "exec P app [] s = ([], s)"
| "exec P app ((now, c) # cs) s =
     (case exec1 P app now c s of (r, s) \<Rightarrow> case exec P app cs s of (rs, s) \<Rightarrow> (r # rs, s))"

fun explains :: "'m command \<Rightarrow> error + uint64 \<Rightarrow> effect \<Rightarrow> bool" where
  \<comment> \<open>what has been acknowledged is in the log\<close>
  "explains BeginTx r eff \<longleftrightarrow> eff = Lost"
| "explains c (Inr n) eff \<longleftrightarrow> eff = Logged n"
| "explains c (Inl e) eff \<longleftrightarrow> True"

subsection \<open>Registered types\<close>

definition valid_entry :: "('p, 'v, 'm) protobuf \<Rightarrow> 'p typeEntry \<Rightarrow> bool" where
  \<comment> \<open>a type that a reader without any types accepts; its messages have no required fields\<close>
  "valid_entry P e \<longleftrightarrow>
     (let def = teDef e; md = teDescriptor e in
        tdName def \<noteq> '''' \<and> tdFingerprint def \<noteq> [] \<and> tdDescriptors def \<noteq> None \<and>
        ComputeFingerprint P (tdDescriptors def) = Inr (tdFingerprint def) \<and>
        resolveMessageDescriptor P def = Inr md \<and> resolveMessageType P def md = Inr (teResolvedType e) \<and>
        check_key_fields md (tdKeyFields def) = None \<and>
        similar md (type_descriptor (teResolvedType e)) \<and> no_required md)"

definition valid_registry :: "('p, 'v, 'm) protobuf \<Rightarrow> 'p Registry \<Rightarrow> bool" where
  "valid_registry P reg \<longleftrightarrow> registry_ok reg \<and> (\<forall>i e. map_of (types reg) i = Some e \<longrightarrow> valid_entry P e)"

definition typed :: "('p, 'v, 'm) protobuf \<Rightarrow> 'p Registry \<Rightarrow> 'm \<Rightarrow> bool" where
  \<comment> \<open>a message of a registered type\<close>
  "typed P reg msg \<longleftrightarrow>
     (\<exists>def md. LookupByName reg (mdName (MsgDescriptor P msg)) = Some (def, md) \<and> similar (MsgDescriptor P msg) md)"

fun typed_command :: "('p, 'v, 'm) protobuf \<Rightarrow> 'p Registry \<Rightarrow> 'm command \<Rightarrow> bool" where
  "typed_command P reg (Auto op msg) \<longleftrightarrow> typed P reg msg"
| "typed_command P reg (InTx i op msg) \<longleftrightarrow> typed P reg msg"
| "typed_command P reg _ \<longleftrightarrow> True"

subsection \<open>What the reader decodes\<close>

lemma frameD: "frame t mb = Inr p \<Longrightarrow> \<exists>body. mb = Inr body \<and> SplitFrame p = Inr (t, body)"
  by (auto simp: frame_def split: sum.splits intro: SplitFrame_EncodeFrame)

lemma Decode_frames:
  assumes "formats_ok P"
  shows "frame TypeIDStreamHeader (MarshalStreamHeader P hdr) = Inr p \<Longrightarrow>
      \<exists>raw. Decode P p reg rc = (Inr \<lparr>recTypeID = TypeIDStreamHeader, recMessage = StreamHeaderMessage hdr, recOpRecord = None,
        recRaw = raw\<rparr>, reg, rc)"
    "frame TypeIDTxCommit (MarshalTxCommit P commit) = Inr p \<Longrightarrow>
      \<exists>raw. Decode P p reg rc = (Inr \<lparr>recTypeID = TypeIDTxCommit, recMessage = TxCommitMessage commit, recOpRecord = None,
        recRaw = raw\<rparr>, reg, rc)"
    "frame TypeIDSnapshotPointer (MarshalSnapshotPointer P ptr) = Inr p \<Longrightarrow>
      \<exists>raw. Decode P p reg rc = (Inr \<lparr>recTypeID = TypeIDSnapshotPointer, recMessage = SnapshotPointerMessage ptr,
        recOpRecord = None, recRaw = raw\<rparr>, reg, rc)"
    "EncodeFrame TypeIDPadding body = Inr p \<Longrightarrow>
      Decode P p reg rc = (Inr \<lparr>recTypeID = TypeIDPadding, recMessage = NilMessage, recOpRecord = None, recRaw = body\<rparr>, reg, rc)"
    "frame TypeIDOpRecord (MarshalOpRecord P op) = Inr p \<Longrightarrow> LookupByID reg (orTypeId op) \<noteq> None \<Longrightarrow>
      \<exists>raw. Decode P p reg rc = (Inr \<lparr>recTypeID = TypeIDOpRecord, recMessage = OpRecordMessage op, recOpRecord = Some op,
        recRaw = raw\<rparr>, reg, rc)"
    "frame TypeIDTypeDefinition (MarshalTypeDefinition P def) = Inr p \<Longrightarrow> Register P def reg rc = (None, reg', rc') \<Longrightarrow>
      \<exists>raw. Decode P p reg rc = (Inr \<lparr>recTypeID = TypeIDTypeDefinition, recMessage = TypeDefinitionMessage def,
        recOpRecord = None, recRaw = raw\<rparr>, reg', rc')"
  using assms
      apply (auto simp: Decode_def formats_ok_def TypeID_defs dest!: frameD) [3]
    apply (simp add: Decode_def SplitFrame_EncodeFrame TypeID_defs)
  using assms
   apply (auto simp: Decode_def formats_ok_def TypeID_defs dest!: frameD) [2]
  done

definition sub_registry :: "'p Registry \<Rightarrow> 'p Registry \<Rightarrow> bool" where
  "sub_registry rr reg \<longleftrightarrow> map_of (types rr) \<subseteq>\<^sub>m map_of (types reg) \<and> map_of (byName rr) \<subseteq>\<^sub>m map_of (byName reg)"

definition cached :: "'p Registry \<Rightarrow> 'p typeDefCache \<Rightarrow> bool" where
  \<comment> \<open>what a process has interned that only reads the stream\<close>
  "cached reg rc \<longleftrightarrow> (\<forall>k def. map_of rc k = Some def \<longrightarrow>
     (\<exists>i e. map_of (types reg) i = Some e \<and> teDef e = def \<and> k = typeDefKey def))"

lemma valid_registryD:
  assumes "valid_registry P reg" "map_of (types reg) i = Some e"
  shows "teId e = i" "tdId (teDef e) = i" "MinAppTypeID \<le> i" "map_of (byName reg) (tdName (teDef e)) = Some i" "valid_entry P e"
  using assms by (auto simp: valid_registry_def registry_ok_def)

lemma intern_cached:
  assumes "valid_registry P reg" "map_of (types reg) i = Some e" "cached reg rc"
  shows "internOrCloneTypeDef rc (teDef e) = teDef e"
proof (cases "map_of rc (typeDefKey (teDef e))")
  case (Some d)
  then obtain j e' where e': "map_of (types reg) j = Some e'" "teDef e' = d" "typeDefKey (teDef e) = typeDefKey d"
    using assms(3) unfolding cached_def by blast
  then have "j = i"
    using valid_registryD(4) [OF assms(1) e'(1)] valid_registryD(4) [OF assms(1,2)] by simp
  then show ?thesis using e' Some assms(2) by (simp add: internOrCloneTypeDef_def from_interned_def)
qed (simp add: internOrCloneTypeDef_def)

lemma map_le_update: "m \<subseteq>\<^sub>m m' \<Longrightarrow> m' k = Some v \<Longrightarrow> m(k \<mapsto> v) \<subseteq>\<^sub>m m'"
  by (auto simp: map_le_def)

lemma Register_announced:
  assumes reg: "valid_registry P reg" "map_of (types reg) i = Some e" and sub: "sub_registry rr reg" and "cached reg rc"
  shows "\<exists>rr' rc'. Register P (teDef e) rr rc = (None, rr', rc') \<and> sub_registry rr' reg \<and> cached reg rc' \<and>
    map_of (types rr) \<subseteq>\<^sub>m map_of (types rr') \<and> map_of (types rr') i = Some e"
proof -
  note e = valid_registryD [OF reg]
  define d where "d = teDef e"
  have v: "tdName d \<noteq> ''''" "tdFingerprint d \<noteq> []" "tdDescriptors d \<noteq> None"
      "ComputeFingerprint P (tdDescriptors d) = Inr (tdFingerprint d)" "resolveMessageDescriptor P d = Inr (teDescriptor e)"
      "resolveMessageType P d (teDescriptor e) = Inr (teResolvedType e)" "check_key_fields (teDescriptor e) (tdKeyFields d) = None"
    using e(5) by (simp_all add: valid_entry_def d_def Let_def)
  have id: "tdId d = i" "\<not> i < MinAppTypeID" using e by (simp_all add: d_def)
  have names: "(case map_of (byName rr) (tdName d) of Some j \<Rightarrow> j \<noteq> tdId d | None \<Rightarrow> False) = False"
    using sub e(2,4) by (force simp: sub_registry_def map_le_def d_def split: option.splits)
  show ?thesis
  proof (cases "map_of (types rr) i")
    case (Some e')
    then have "e' = e" using sub reg(2) by (force simp: sub_registry_def map_le_def)
    then show ?thesis
      using Some sub assms(4) v id names intern_cached [OF reg assms(4)]
      by (simp add: Register_def registerIntoSnapshot_def d_def [symmetric])
  next
    case None
    have vf: "verify_fingerprint P rc d = None" using v by (simp add: verify_fingerprint_def)
    have entry: "\<lparr>teId = i, teDef = d, teDescriptor = teDescriptor e, teResolvedType = teResolvedType e\<rparr> = e"
      using e(1) by (simp add: d_def)
    let ?rr = "rr\<lparr>types := AList.update i e (types rr), byName := AList.update (tdName d) i (byName rr)\<rparr>"
    have "\<exists>rr'. Register P d rr rc = (None, rr', maybeInternTypeDef d rc) \<and> types rr' = types ?rr \<and> byName rr' = byName ?rr"
      using v id names None vf intern_cached [OF reg assms(4)] entry
      by (auto simp: Register_def registerIntoSnapshot_def store_type_def d_def [symmetric])
    moreover have "cached reg (maybeInternTypeDef d rc)"
      using assms(4) reg(2) by (auto simp: cached_def maybeInternTypeDef_def LoadOrStore_def d_def split: if_splits)
    moreover have "map_of (types rr) \<subseteq>\<^sub>m map_of (types ?rr)"
      using None by (auto simp: map_le_def update_conv)
    moreover have "sub_registry ?rr reg"
      using sub reg(2) e(4) by (simp add: sub_registry_def update_conv' map_le_update d_def)
    ultimately show ?thesis by (auto simp: sub_registry_def update_conv d_def)
  qed
qed
subsection \<open>The writer and a reader of its stream\<close>

definition header_ok :: "StreamHeader option \<Rightarrow> bool" where
  "header_ok h \<longleftrightarrow> (case h of None \<Rightarrow> True | Some hdr \<Rightarrow> shFormatVersion hdr \<le> StreamFormatVersion)"

definition accepts :: "'p Registry \<Rightarrow> ('p, 'm) ChangeReader \<Rightarrow> ('p, 'm) ChangeReader \<Rightarrow> 'p typeDefCache \<Rightarrow> bool" where
  \<comment> \<open>what every record of the writer keeps of the reader\<close>
  "accepts reg r r' rc \<longleftrightarrow> sub_registry (crRegistry r') reg \<and> cached reg rc \<and> firstRecordSeen r' \<and>
     map_of (types (crRegistry r)) \<subseteq>\<^sub>m map_of (types (crRegistry r'))"

definition reads ::
  "('p, 'v, 'm) protobuf \<Rightarrow> 'p Registry \<Rightarrow> ('a \<Rightarrow> (uint64 \<times> bytes) list) \<Rightarrow> ('p, 'a) RecordWriter \<Rightarrow>
   ('p, 'm) ChangeReader \<Rightarrow> 'p typeDefCache \<Rightarrow> (int \<Rightarrow> 'v option) Change list \<Rightarrow> bool" where
  "reads P reg lg rw r rc out \<longleftrightarrow>
     rwRegistry rw = reg \<and> \<not> skipHeader rw \<and> header_ok (customHeader rw) \<and>
     (\<exists>cs. FeedRecovered P 0 (lg (rwAppender rw)) (NewChangeReader NewRegistry) [] = (Inr cs, r, rc) \<and>
           map (abs_change P) cs = out) \<and>
     sub_registry (crRegistry r) reg \<and> cached reg rc \<and> (headerEmitted rw \<longrightarrow> firstRecordSeen r) \<and>
     (\<forall>i fp. map_of (announced rw) i = Some fp \<longrightarrow> map_of (types (crRegistry r)) i \<noteq> None)"

lemma FeedRecovered_append:
  "FeedRecovered P pos (xs @ ys) r c =
     (case FeedRecovered P pos xs r c of
        (Inl e, r, c) \<Rightarrow> (Inl e, r, c)
      | (Inr cs, r, c) \<Rightarrow>
          (case FeedRecovered P pos ys r c of
             (Inl e, r, c) \<Rightarrow> (Inl e, r, c)
           | (Inr ds, r, c) \<Rightarrow> (Inr (cs @ ds), r, c)))"
  by (induction P pos xs r c rule: FeedRecovered.induct) (auto split: prod.splits sum.splits)

lemma reads_append:
  assumes "appender_ok app lg" "reads P reg lg rw r rc out" "append_payload app p rw = (res, rw')"
    and feed: "\<And>n. \<exists>ds r' rc'. Feed P n p r rc = (Inr ds, r', rc') \<and> accepts reg r r' rc'"
  shows "rw' = rw\<lparr>rwAppender := rwAppender rw'\<rparr>"
    "(\<exists>e. res = Inl e) \<and> reads P reg lg rw' r rc out \<or>
     (\<exists>n ds r' rc'. Feed P n p r rc = (Inr ds, r', rc') \<and> (res = Inr n \<or> (\<exists>e. res = Inl e)) \<and> accepts reg r r' rc' \<and>
        reads P reg lg rw' r' rc' (out @ map (abs_change P) ds))"
proof -
  obtain a where a: "app p (rwAppender rw) = (res, a)" and rw': "rw' = rw\<lparr>rwAppender := a\<rparr>"
    using assms(3) by (auto simp: append_payload_def split: prod.splits)
  then show "rw' = rw\<lparr>rwAppender := rwAppender rw'\<rparr>" by simp
  have "(\<exists>e. res = Inl e) \<and> lg a = lg (rwAppender rw) \<or>
      (\<exists>n > 0. (res = Inr n \<or> (\<exists>e. res = Inl e)) \<and> lg a = lg (rwAppender rw) @ [(n, p)])"
    using assms(1) a unfolding appender_ok_def by (cases res) fastforce+
  then consider (lost) e where "res = Inl e" "lg a = lg (rwAppender rw)"
    | (logged) n where "n > 0" "res = Inr n \<or> (\<exists>e. res = Inl e)" "lg a = lg (rwAppender rw) @ [(n, p)]"
    by blast
  then show "(\<exists>e. res = Inl e) \<and> reads P reg lg rw' r rc out \<or>
     (\<exists>n ds r' rc'. Feed P n p r rc = (Inr ds, r', rc') \<and> (res = Inr n \<or> (\<exists>e. res = Inl e)) \<and> accepts reg r r' rc' \<and>
        reads P reg lg rw' r' rc' (out @ map (abs_change P) ds))"
  proof cases
    case lost
    then show ?thesis using assms(2) by (simp add: reads_def rw')
  next
    case logged
    obtain ds r' rc' where f: "Feed P n p r rc = (Inr ds, r', rc')" "accepts reg r r' rc'" using feed by blast
    obtain cs where cs: "FeedRecovered P 0 (lg (rwAppender rw)) (NewChangeReader NewRegistry) [] = (Inr cs, r, rc)"
        "map (abs_change P) cs = out"
      using assms(2) by (auto simp: reads_def)
    have "FeedRecovered P 0 (lg a) (NewChangeReader NewRegistry) [] = (Inr (cs @ ds), r', rc')"
      using cs(1) f(1) logged(1,3) by (simp add: FeedRecovered_append word_gt_0)
    moreover have "map_of (types (crRegistry r')) i \<noteq> None" if "map_of (types (crRegistry r)) i \<noteq> None" for i
      using f(2) that by (auto simp: accepts_def map_le_def dom_def)
    ultimately have "reads P reg lg rw' r' rc' (out @ map (abs_change P) ds)"
      using assms(2) cs(2) f(2) unfolding reads_def rw' accepts_def by auto
    then show ?thesis using f logged(2) by blast
  qed
qed

lemma reads_step:
  assumes "appender_ok app lg" "reads P reg lg rw r rc out" "append_payload app p rw = (res, rw')"
    and feed: "\<And>n. \<exists>ds r' rc'. Feed P n p r rc = (Inr ds, r', rc') \<and> accepts reg r r' rc' \<and> Q n ds r' rc'"
  obtains (lost) e where "res = Inl e" "reads P reg lg rw' r rc out"
  | (logged) n ds r' rc' where "res = Inr n \<or> (\<exists>e. res = Inl e)" "Q n ds r' rc'" "accepts reg r r' rc'"
      "reads P reg lg rw' r' rc' (out @ map (abs_change P) ds)"
proof -
  have "\<exists>ds r' rc'. Feed P n p r rc = (Inr ds, r', rc') \<and> accepts reg r r' rc'" for n using feed by blast
  from reads_append(2) [OF assms(1-3) this]
  show thesis
  proof (elim disjE exE conjE)
    fix n ds r' rc'
    assume f: "Feed P n p r rc = (Inr ds, r', rc')" "accepts reg r r' rc'" "reads P reg lg rw' r' rc' (out @ map (abs_change P) ds)"
    have Q: "Q n ds r' rc'" using feed [of n] f(1) by auto
    show thesis if "res = Inr n" using logged [OF _ Q f(2,3)] that by blast
    show thesis if "res = Inl e" for e using logged [OF _ Q f(2,3)] that by blast
  qed (use lost in blast)
qed

subsection \<open>The records of the writer\<close>

lemma mark_safe_simps [simp]:
  "crRegistry (mark_safe n r) = crRegistry r" "pendingTx (mark_safe n r) = pendingTx r"
  "firstRecordSeen (mark_safe n r) = firstRecordSeen r" "pending_of tx (mark_safe n r) = pending_of tx r"
  by (simp_all add: mark_safe_def pending_of_def)

lemma check_first_seen [simp]: "firstRecordSeen r \<Longrightarrow> check_first n t r = (None, r)"
  by (simp add: check_first_def)

lemma check_first_header:
  "\<exists>r'. check_first n TypeIDStreamHeader r = (None, r') \<and> crRegistry r' = crRegistry r \<and> pendingTx r' = pendingTx r \<and>
     firstRecordSeen r'"
  by (simp add: check_first_def Let_def)

lemma Feed_header:
  assumes "formats_ok P" "frame TypeIDStreamHeader (MarshalStreamHeader P hdr) = Inr p" "shFormatVersion hdr \<le> StreamFormatVersion"
  shows "\<exists>r'. Feed P n p r rc = (Inr [], r', rc) \<and> crRegistry r' = crRegistry r \<and> pendingTx r' = pendingTx r \<and> firstRecordSeen r'"
  using Decode_frames(1) [OF assms(1,2), of "crRegistry r" rc] check_first_header [of n r] assms(3)
  by (auto simp: Feed_def)

lemma Feed_silent:
  assumes "Decode P p (crRegistry r) rc = (Inr rec, reg', rc')" "firstRecordSeen r"
    "recMessage rec = NilMessage \<or> (\<exists>ptr. recMessage rec = SnapshotPointerMessage ptr) \<or> (\<exists>d. recMessage rec = TypeDefinitionMessage d)"
  shows "\<exists>r'. Feed P n p r rc = (Inr [], r', rc') \<and> crRegistry r' = reg' \<and> pendingTx r' = pendingTx r \<and> firstRecordSeen r'"
  using assms by (auto simp: Feed_def)

lemma Feed_commit:
  assumes "formats_ok P" "frame TypeIDTxCommit (MarshalTxCommit P c) = Inr p" "firstRecordSeen r"
  shows "\<exists>r'. Feed P n p r rc = (Inr (pending_of (tcTxId c) r), r', rc) \<and> crRegistry r' = crRegistry r \<and>
    (\<forall>tx. pending_of tx r' = (if tx = tcTxId c then [] else pending_of tx r)) \<and> firstRecordSeen r'"
  using Decode_frames(2) [OF assms(1,2), of "crRegistry r" rc] assms(3)
  by (auto simp: Feed_def pending_of_def delete_conv)

lemma Feed_op:
  assumes "formats_ok P" "frame TypeIDOpRecord (MarshalOpRecord P op) = Inr p" "firstRecordSeen r"
    "op_change P n op (crRegistry r) = Inr c"
  shows "\<exists>r'. Feed P n p r rc = (Inr (if orTxId op = 0 then [c] else []), r', rc) \<and> crRegistry r' = crRegistry r \<and>
    (\<forall>tx. pending_of tx r' = (if tx = orTxId op \<and> tx \<noteq> 0 then pending_of tx r @ [c] else pending_of tx r)) \<and> firstRecordSeen r'"
proof -
  have "LookupByID (crRegistry r) (orTypeId op) \<noteq> None" using assms(4) by (auto simp: op_change_def split: option.splits)
  from Decode_frames(5) [OF assms(1,2) this, of rc] assms(3,4) show ?thesis
    by (auto simp: Feed_def pending_of_def update_conv)
qed
lemma ensureStreamHeader_reads:
  assumes "formats_ok P" "appender_ok app lg" "reads P reg lg rw r rc out" "ensureStreamHeaderLocked P app now rw = (res, rw')"
  shows "\<exists>r'. reads P reg lg rw' r' rc out \<and> pendingTx r' = pendingTx r \<and> (res = Inr () \<longrightarrow> headerEmitted rw')"
proof (cases "headerEmitted rw")
  case True
  then show ?thesis using assms(3,4) by (auto simp: ensureStreamHeaderLocked_def)
next
  case False
  define hdr where "hdr = (case customHeader rw of Some hdr \<Rightarrow> hdr
      | None \<Rightarrow> \<lparr>shFormatVersion = StreamFormatVersion, shCreatorVersion = DefaultCreatorVersion, shCreatedAt = now\<rparr>)"
  have sk: "\<not> skipHeader rw" and hdr: "shFormatVersion hdr \<le> StreamFormatVersion"
    using assms(3) by (auto simp: reads_def hdr_def header_ok_def split: option.splits)
  show ?thesis
  proof (cases "frame TypeIDStreamHeader (MarshalStreamHeader P hdr)")
    case (Inl e)
    then show ?thesis using assms(3,4) False sk by (auto simp: ensureStreamHeaderLocked_def hdr_def [symmetric])
  next
    case (Inr p)
    obtain ares rw1 where ap: "append_payload app p rw = (ares, rw1)" by fastforce
    have res: "(res, rw') = andThen (ares, rw1) (\<lambda>_ w. (Inr (), w\<lparr>headerEmitted := True\<rparr>))"
      using assms(4) False sk Inr ap by (simp add: ensureStreamHeaderLocked_def hdr_def [symmetric])
    have feed: "\<exists>ds r' rc'. Feed P n p r rc = (Inr ds, r', rc') \<and> accepts reg r r' rc' \<and>
        (ds = [] \<and> rc' = rc \<and> pendingTx r' = pendingTx r)" for n
      using Feed_header [OF assms(1) Inr hdr, of n r rc] assms(3) by (auto simp: accepts_def reads_def)
    from assms(2,3) ap feed show ?thesis
    proof (cases rule: reads_step)
      case (lost e)
      then show ?thesis using res by auto
    next
      case (logged n ds r' rc')
      then have "reads P reg lg (rw1\<lparr>headerEmitted := True\<rparr>) r' rc out" by (auto simp: reads_def accepts_def)
      then show ?thesis using logged res by (cases ares) auto
    qed
  qed
qed

lemma readsD:
  assumes "reads P reg lg rw r rc out"
  shows "rwRegistry rw = reg" "sub_registry (crRegistry r) reg" "cached reg rc" "headerEmitted rw \<Longrightarrow> firstRecordSeen r"
    "map_of (announced rw) i = Some fp \<Longrightarrow> map_of (types (crRegistry r)) i \<noteq> None"
  using assms by (auto simp: reads_def)

lemma reads_announced:
  assumes "reads P reg lg rw r rc out" "map_of (types (crRegistry r)) i \<noteq> None"
  shows "reads P reg lg (rw\<lparr>announced := AList.update i fp (announced rw)\<rparr>) r rc out"
  using assms unfolding reads_def by (simp add: update_conv)

lemma Feed_definition:
  assumes P: "formats_ok P" "valid_registry P reg" and reads: "reads P reg lg rw r rc out" "firstRecordSeen r"
    and e: "map_of (types reg) i = Some e" and p: "frame TypeIDTypeDefinition (MarshalTypeDefinition P (teDef e)) = Inr p"
  shows "\<exists>r' rc'. Feed P n p r rc = (Inr [], r', rc') \<and> accepts reg r r' rc' \<and> pendingTx r' = pendingTx r \<and>
    map_of (types (crRegistry r')) i \<noteq> None"
proof -
  obtain rr rc' where rg: "Register P (teDef e) (crRegistry r) rc = (None, rr, rc')" "sub_registry rr reg" "cached reg rc'"
      "map_of (types (crRegistry r)) \<subseteq>\<^sub>m map_of (types rr)" "map_of (types rr) i = Some e"
    using Register_announced [OF P(2) e readsD(2,3) [OF reads(1)]] by blast
  obtain raw where "Decode P p (crRegistry r) rc = (Inr \<lparr>recTypeID = TypeIDTypeDefinition, recMessage = TypeDefinitionMessage (teDef e),
        recOpRecord = None, recRaw = raw\<rparr>, rr, rc')"
    using Decode_frames(6) [OF P(1) p rg(1)] by blast
  from Feed_silent [OF this reads(2), of n] rg show ?thesis by (auto simp: accepts_def)
qed

lemma ensureAnnounced_reads:
  assumes P: "formats_ok P" "valid_registry P reg" "appender_ok app lg" and "reads P reg lg rw r rc out"
    "ensureAnnounced P app now i rw = (res, rw')"
  shows "\<exists>r' rc'. reads P reg lg rw' r' rc' out \<and> pendingTx r' = pendingTx r \<and>
    (res = Inr () \<longrightarrow> headerEmitted rw' \<and> map_of (types (crRegistry r')) i \<noteq> None)"
proof -
  obtain hres rw1 where h: "ensureStreamHeaderLocked P app now rw = (hres, rw1)" by fastforce
  obtain r1 where r1: "reads P reg lg rw1 r1 rc out" "pendingTx r1 = pendingTx r" "hres = Inr () \<longrightarrow> headerEmitted rw1"
    using ensureStreamHeader_reads [OF P(1,3) assms(4) h] by blast
  note reg = readsD(1) [OF r1(1)]
  show ?thesis
  proof (cases "hres = Inr () \<and> map_of (types reg) i \<noteq> None")
    case False
    then show ?thesis using r1 assms(5) h
      by (cases hres) (auto simp: ensureAnnounced_def reg LookupByID_def)
  next
    case True
    then obtain e where e: "map_of (types reg) i = Some e" and hr: "hres = Inr ()" by auto
    have seen: "firstRecordSeen r1" using r1 hr readsD(4) by blast
    define fp where "fp = tdFingerprint (teDef e)"
    define fr where "fr = frame TypeIDTypeDefinition (MarshalTypeDefinition P (teDef e))"
    have res: "(if map_of (announced rw1) i = Some fp then (Inr (), rw1)
        else case fr of Inl e \<Rightarrow> (Inl e, rw1) | Inr p \<Rightarrow> andThen (append_payload app p rw1) (\<lambda>_ w.
          (Inr (), w\<lparr>announced := AList.update i fp (announced w)\<rparr>))) = (res, rw')"
      unfolding fp_def fr_def using assms(5) h hr e by (simp add: ensureAnnounced_def reg LookupByID_def)
    show ?thesis
    proof (cases "map_of (announced rw1) i = Some fp")
      case True
      then have "rw' = rw1" using res by simp
      then show ?thesis using r1 hr readsD(5) [OF r1(1) True] by (intro exI [of _ r1] exI [of _ rc]) simp
    next
      case False
      show ?thesis
      proof (cases fr)
        case (Inl m)
        then have "res = Inl m" "rw' = rw1" using res False by simp_all
        then show ?thesis using r1 by (intro exI [of _ r1] exI [of _ rc]) simp
      next
        case (Inr p)
        obtain ares rw2 where ap: "append_payload app p rw1 = (ares, rw2)" by fastforce
        have feed: "\<exists>ds r' rc'. Feed P n p r1 rc = (Inr ds, r', rc') \<and> accepts reg r1 r' rc' \<and>
            (ds = [] \<and> pendingTx r' = pendingTx r1 \<and> map_of (types (crRegistry r')) i \<noteq> None)" for n
          using Feed_definition [OF P(1,2) r1(1) seen e Inr [unfolded fr_def], of n] by auto
        then have acc: "\<exists>ds r' rc'. Feed P n p r1 rc = (Inr ds, r', rc') \<and> accepts reg r1 r' rc'" for n by blast
        have rw2: "headerEmitted rw2"
          using r1(3) hr arg_cong [OF reads_append(1) [OF P(3) r1(1) ap acc], of headerEmitted] by simp
        from P(3) r1(1) ap feed show ?thesis
        proof (cases rule: reads_step)
          case (lost e)
          then have "res = Inl e" "rw' = rw2" using res ap False Inr by simp_all
          then show ?thesis using r1(2) lost by (intro exI [of _ r1] exI [of _ rc]) simp
        next
          case (logged n ds r' rc')
          then have out: "reads P reg lg rw2 r' rc' out" and i: "map_of (types (crRegistry r')) i \<noteq> None" by auto
          show ?thesis
          proof (cases ares)
            case (Inl e)
            then have "res = Inl e" "rw' = rw2" using res ap False \<open>fr = Inr p\<close> by simp_all
            then show ?thesis using r1(2) logged(2) out by (intro exI [of _ r'] exI [of _ rc']) simp
          next
            case (Inr m)
            then have "rw' = rw2\<lparr>announced := AList.update i fp (announced rw2)\<rparr>"
              using res ap False \<open>fr = Inr p\<close> by simp
            then show ?thesis
              using rw2 logged(2) r1(2) reads_announced [OF out i, of fp]
              by (intro exI [of _ r'] exI [of _ rc']) simp
          qed
        qed
      qed
    qed
  qed
qed

definition tracks ::
  "('p, 'v, 'm) protobuf \<Rightarrow> 'p Registry \<Rightarrow> ('a \<Rightarrow> (uint64 \<times> bytes) list) \<Rightarrow> ('p, 'a) RecordWriter \<Rightarrow>
   (uint64 \<Rightarrow> (int \<Rightarrow> 'v option) Change list) \<Rightarrow> (int \<Rightarrow> 'v option) Change list \<Rightarrow> bool" where
  "tracks P reg lg rw pend out \<longleftrightarrow>
     (\<exists>r rc. reads P reg lg rw r rc out \<and> (\<forall>tx. map (abs_change P) (pending_of tx r) = pend tx))"

definition acks :: "error + uint64 \<Rightarrow> effect \<Rightarrow> bool" where
  "acks res eff \<longleftrightarrow> (\<forall>n. res = Inr n \<longrightarrow> eff = Logged n)"

lemma op_change_written:
  assumes P: "messages_ok P" "valid_registry P reg" and sub: "sub_registry rr reg" "map_of (types rr) (tdId def) \<noteq> None"
    and msg: "LookupByName reg (mdName (MsgDescriptor P msg)) = Some (def, md)" "similar (MsgDescriptor P msg) md"
    and split: "SplitKeyAndNonKey P msg (tdKeyFields def) = Inr (kb, vb)"
  shows "\<exists>c. op_change P n \<lparr>orOp = op, orTypeId = tdId def, orTxId = tx, orKey = kb, orValue = if op \<noteq> DELETE then vb else []\<rparr> rr =
    Inr c \<and> abs_change P c = written P reg op tx msg n"
proof -
  have reg: "registry_ok reg" using P(2) by (simp add: valid_registry_def)
  obtain e where e: "map_of (types rr) (tdId def) = Some e" using sub(2) by blast
  have e': "map_of (types reg) (tdId def) = Some e" using sub(1) e by (force simp: sub_registry_def map_le_def)
  have d: "teDef e = def" "teDescriptor e = md"
    using msg(1) LookupByName_ok [OF reg] e' by (auto simp: LookupByID_def)
  have v: "similar md (type_descriptor (teResolvedType e))" "no_required md"
    using valid_registryD(5) [OF P(2) e'] by (simp_all add: valid_entry_def d Let_def)
  have sim: "similar (MsgDescriptor P msg) (type_descriptor (teResolvedType e))"
    using msg(2) v(1) by (simp add: similar_def)
  obtain row where row: "MergeKeyAndNonKey P (New P (teResolvedType e)) kb (if op \<noteq> DELETE then vb else []) = Inr row"
      "fields_of P row = (if op \<noteq> DELETE then fields_of P msg else fields_of P msg |` set (tdKeyFields def))"
    using Merge_Split [OF P(1) split sim] by (cases "op = DELETE") auto
  have "ValidateKeyBytes P md (tdKeyFields def) kb = None"
    by (rule ValidateKeyBytes_Split [OF P(1) split msg(2) v(2)])
  then show ?thesis
    using e d row msg(1) split
    by (simp add: op_change_def LookupByID_def ResolveMessageType_def abs_change_def written_def)
qed

lemma append_tracks:
  assumes "appender_ok app lg" "reads P reg lg rw r rc out" "append_payload app p rw = (res, rw')"
    and feed: "\<And>n. \<exists>ds r'. Feed P n p r rc = (Inr ds, r', rc) \<and> crRegistry r' = crRegistry r \<and> firstRecordSeen r' \<and>
      map (abs_change P) ds = new n \<and> (\<forall>tx. map (abs_change P) (pending_of tx r') = pend n tx)"
    and pend0: "\<And>tx. map (abs_change P) (pending_of tx r) = pend0 tx"
  shows "\<exists>eff. acks res eff \<and>
    (case eff of Lost \<Rightarrow> tracks P reg lg rw' pend0 out | Logged n \<Rightarrow> tracks P reg lg rw' (pend n) (out @ new n))"
proof -
  have "\<exists>ds r' rc'. Feed P n p r rc = (Inr ds, r', rc') \<and> accepts reg r r' rc' \<and>
      (map (abs_change P) ds = new n \<and> (\<forall>tx. map (abs_change P) (pending_of tx r') = pend n tx))" for n
    using feed [of n] readsD(2,3) [OF assms(2)] by (fastforce simp: accepts_def)
  from assms(1-3) this show ?thesis
  proof (cases rule: reads_step)
    case (lost e)
    then have "tracks P reg lg rw' pend0 out" using pend0 unfolding tracks_def by blast
    then show ?thesis using lost(1) by (intro exI [of _ Lost]) (simp add: acks_def)
  next
    case (logged n ds r' rc')
    then have "tracks P reg lg rw' (pend n) (out @ new n)" unfolding tracks_def by metis
    then show ?thesis using logged(1) by (intro exI [of _ "Logged n"]) (auto simp: acks_def)
  qed
qed

lemma AppendOp_tracks:
  assumes P: "formats_ok P" "messages_ok P" "valid_registry P reg" "appender_ok app lg" and tracks: "tracks P reg lg rw pend out"
    and msg: "LookupByName reg (mdName (MsgDescriptor P msg)) = Some (def, md)" "similar (MsgDescriptor P msg) md"
    and split: "SplitKeyAndNonKey P msg (tdKeyFields def) = Inr (kb, vb)"
    and op: "AppendOp P app now \<lparr>orOp = op, orTypeId = tdId def, orTxId = tx, orKey = kb, orValue = if op \<noteq> DELETE then vb else []\<rparr> rw =
      (res, rw')"
  shows "\<exists>eff. acks res eff \<and> (case eff of Lost \<Rightarrow> tracks P reg lg rw' pend out
    | Logged n \<Rightarrow> if tx = 0 then tracks P reg lg rw' pend (out @ [written P reg op 0 msg n])
        else tracks P reg lg rw' (pend(tx := pend tx @ [written P reg op tx msg n])) out)"
proof -
  define opRec where
    "opRec = \<lparr>orOp = op, orTypeId = tdId def, orTxId = tx, orKey = kb, orValue = if op \<noteq> DELETE then vb else []\<rparr>"
  obtain r rc where r: "reads P reg lg rw r rc out" "\<And>tx. map (abs_change P) (pending_of tx r) = pend tx"
    using tracks by (auto simp: tracks_def)
  obtain ares rw1 where ann: "ensureAnnounced P app now (tdId def) rw = (ares, rw1)" by fastforce
  obtain r1 rc1 where r1: "reads P reg lg rw1 r1 rc1 out" "pendingTx r1 = pendingTx r"
      "ares = Inr () \<longrightarrow> headerEmitted rw1 \<and> map_of (types (crRegistry r1)) (tdId def) \<noteq> None"
    using ensureAnnounced_reads [OF P(1,3,4) r(1) ann] by blast
  have pend1: "map (abs_change P) (pending_of tx r1) = pend tx" for tx
    using r(2) [of tx] r1(2) by (simp add: pending_of_def)
  have same: "tracks P reg lg rw1 pend out" using r1(1) pend1 by (auto simp: tracks_def)
  show ?thesis
  proof (cases "ares = Inr () \<and> (\<exists>p. frame TypeIDOpRecord (MarshalOpRecord P opRec) = Inr p)")
    case False
    then have "\<exists>e. res = Inl e" "rw' = rw1"
      using op ann unfolding opRec_def [symmetric]
      by (cases ares; auto simp: AppendOp_def opRec_def split: sum.splits)+
    then show ?thesis using same by (intro exI [of _ Lost]) (auto simp: acks_def)
  next
    case True
    then obtain p where p: "frame TypeIDOpRecord (MarshalOpRecord P opRec) = Inr p" and ar: "ares = Inr ()" by blast
    have ap: "append_payload app p rw1 = (res, rw')"
      using op ann p ar unfolding opRec_def [symmetric] by (simp add: AppendOp_def opRec_def)
    have seen: "firstRecordSeen r1" using r1 ar readsD(4) by blast
    have feed: "\<exists>ds r'. Feed P n p r1 rc1 = (Inr ds, r', rc1) \<and> crRegistry r' = crRegistry r1 \<and> firstRecordSeen r' \<and>
        map (abs_change P) ds = (if tx = 0 then [written P reg op 0 msg n] else []) \<and>
        (\<forall>t. map (abs_change P) (pending_of t r') =
          (if tx = 0 then pend else pend(tx := pend tx @ [written P reg op tx msg n])) t)" for n
    proof -
      obtain c where c: "op_change P n opRec (crRegistry r1) = Inr c" "abs_change P c = written P reg op tx msg n"
        using op_change_written [OF P(2,3) readsD(2) [OF r1(1)] _ msg split] r1(3) ar unfolding opRec_def by blast
      from Feed_op [OF P(1) p seen c(1), of rc1] c(2) pend1 show ?thesis
        by (auto simp: opRec_def)
    qed
    from append_tracks [OF P(4) r1(1) ap feed pend1] show ?thesis
      by (elim exE, rule_tac x = eff in exI, case_tac eff; cases "tx = 0") (simp_all add: fun_upd_def)
  qed
qed

lemma append_framed_tracks:
  assumes P: "formats_ok P" "appender_ok app lg" and tracks: "tracks P reg lg rw pend out"
    and fr: "append_framed P app now framed rw = (res, rw')"
    and feed: "\<And>p n r rc. framed = Inr p \<Longrightarrow> firstRecordSeen r \<Longrightarrow> \<exists>r'. Feed P n p r rc = (Inr (yields r), r', rc) \<and>
      crRegistry r' = crRegistry r \<and> firstRecordSeen r' \<and> (\<forall>tx. pending_of tx r' = (if clears tx then [] else pending_of tx r))"
    and yields: "\<And>r. (\<And>tx. map (abs_change P) (pending_of tx r) = pend tx) \<Longrightarrow> map (abs_change P) (yields r) = new"
  shows "\<exists>eff. acks res eff \<and> (case eff of Lost \<Rightarrow> tracks P reg lg rw' pend out
    | Logged n \<Rightarrow> tracks P reg lg rw' (\<lambda>tx. if clears tx then [] else pend tx) (out @ new))"
proof (cases framed)
  case (Inl e)
  then show ?thesis using fr tracks by (intro exI [of _ Lost]) (auto simp: acks_def append_framed_def)
next
  case (Inr p)
  obtain r rc where r: "reads P reg lg rw r rc out" "\<And>tx. map (abs_change P) (pending_of tx r) = pend tx"
    using tracks by (auto simp: tracks_def)
  obtain hres rw1 where h: "ensureStreamHeaderLocked P app now rw = (hres, rw1)" by fastforce
  obtain r1 where r1: "reads P reg lg rw1 r1 rc out" "pendingTx r1 = pendingTx r" "hres = Inr () \<longrightarrow> headerEmitted rw1"
    using ensureStreamHeader_reads [OF P(1,2) r(1) h] by blast
  have pend1: "map (abs_change P) (pending_of tx r1) = pend tx" for tx
    using r(2) [of tx] r1(2) by (simp add: pending_of_def)
  show ?thesis
  proof (cases hres)
    case (Inl e)
    then have "res = Inl e" "rw' = rw1" using fr h \<open>framed = Inr p\<close> by (simp_all add: append_framed_def)
    moreover have "tracks P reg lg rw1 pend out" using r1(1) pend1 by (auto simp: tracks_def)
    ultimately show ?thesis by (intro exI [of _ Lost]) (auto simp: acks_def)
  next
    case (Inr u)
    have ap: "append_payload app p rw1 = (res, rw')" using fr h Inr \<open>framed = Inr p\<close> by (simp add: append_framed_def)
    have seen: "firstRecordSeen r1" using r1 Inr readsD(4) by auto
    have "\<exists>ds r'. Feed P n p r1 rc = (Inr ds, r', rc) \<and> crRegistry r' = crRegistry r1 \<and> firstRecordSeen r' \<and>
        map (abs_change P) ds = new \<and> (\<forall>tx. map (abs_change P) (pending_of tx r') = (if clears tx then [] else pend tx))" for n
      using feed [OF \<open>framed = Inr p\<close> seen, of n rc] yields [of r1] pend1 by fastforce
    from append_tracks [OF P(2) r1(1) ap this pend1] show ?thesis .
  qed
qed
lemma AppendTxCommit_tracks:
  assumes "formats_ok P" "appender_ok app lg" "tracks P reg lg rw pend out" "AppendTxCommit P app now c rw = (res, rw')"
  shows "\<exists>eff. acks res eff \<and> (case eff of Lost \<Rightarrow> tracks P reg lg rw' pend out
    | Logged n \<Rightarrow> tracks P reg lg rw' (pend(tcTxId c := [])) (out @ pend (tcTxId c)))"
proof -
  from append_framed_tracks [OF assms(1-3) assms(4) [unfolded AppendTxCommit_def],
      where yields = "pending_of (tcTxId c)" and clears = "\<lambda>tx. tx = tcTxId c" and new = "pend (tcTxId c)"]
  have "\<exists>eff. acks res eff \<and> (case eff of Lost \<Rightarrow> tracks P reg lg rw' pend out
    | Logged n \<Rightarrow> tracks P reg lg rw' (\<lambda>tx. if tx = tcTxId c then [] else pend tx) (out @ pend (tcTxId c)))"
    using Feed_commit [OF assms(1)] by blast
  then show ?thesis unfolding fun_upd_def .
qed

lemma silent_tracks:
  assumes P: "formats_ok P" "appender_ok app lg" and tracks: "tracks P reg lg rw pend out"
    and fr: "append_framed P app now framed rw = (res, rw')"
    and dec: "\<And>p reg rc. framed = Inr p \<Longrightarrow> \<exists>rec. Decode P p reg rc = (Inr rec, reg, rc) \<and>
      (recMessage rec = NilMessage \<or> (\<exists>ptr. recMessage rec = SnapshotPointerMessage ptr))"
  shows "\<exists>eff. acks res eff \<and> tracks P reg lg rw' pend out"
proof -
  have feed: "\<exists>r'. Feed P n p r rc = (Inr [], r', rc) \<and> crRegistry r' = crRegistry r \<and> firstRecordSeen r' \<and>
      (\<forall>tx. pending_of tx r' = (if False then [] else pending_of tx r))"
    if fr: "framed = Inr p" and seen: "firstRecordSeen r" for p n r rc
  proof -
    obtain rec where rec: "Decode P p (crRegistry r) rc = (Inr rec, crRegistry r, rc)"
        "recMessage rec = NilMessage \<or> (\<exists>ptr. recMessage rec = SnapshotPointerMessage ptr)"
      using dec [OF fr] by blast
    from Feed_silent [OF rec(1) seen, of n] rec(2) show ?thesis by (auto simp: pending_of_def)
  qed
  from append_framed_tracks [OF P tracks fr, where yields = "\<lambda>_. []" and clears = "\<lambda>_. False" and new = "[]"] feed
  obtain eff where "acks res eff" "case eff of Lost \<Rightarrow> tracks P reg lg rw' pend out | Logged n \<Rightarrow> tracks P reg lg rw' (\<lambda>tx. if False then [] else pend tx) (out @ [])"
    by auto
  then show ?thesis by (cases eff) auto
qed

subsection \<open>The commands\<close>

definition by_id :: "nat \<Rightarrow> (nat \<Rightarrow> 'c list) \<Rightarrow> uint64 \<Rightarrow> 'c list" where
  \<comment> \<open>the changes of the first \<open>k\<close> transactions, by their ids\<close>
  "by_id k pend tx = (if 0 < unat tx \<and> unat tx \<le> k then pend (unat tx - 1) else [])"

definition client_ok ::
  "('p, 'v, 'm) protobuf \<Rightarrow> 'p Registry \<Rightarrow> ('a \<Rightarrow> (uint64 \<times> bytes) list) \<Rightarrow> ('p, 'a, 'm) client \<Rightarrow> 'v committed \<Rightarrow> bool" where
  "client_ok P reg lg c s \<longleftrightarrow>
     (case (c, s) of (((w, cache), txs), (pend, out)) \<Rightarrow>
        tracks P reg lg (recordWriter w) (by_id (length txs) pend) out \<and> (\<forall>i \<ge> length txs. pend i = []) \<and>
        Writer.nextTxID w = word_of_nat (length txs) \<and> map txID txs = map tx_id [0..<length txs])"

lemma word_tx: "n < 2 ^ 64 \<Longrightarrow> unat (word_of_nat n :: uint64) = n"
  by (simp add: unat_of_nat take_bit_nat_eq_self)

lemma word_tx_eq: "n < 2 ^ 64 \<Longrightarrow> word_of_nat n = (tx :: uint64) \<longleftrightarrow> unat tx = n"
  using word_tx by auto

lemma tracks_cong: "tracks P reg lg rw pend out \<Longrightarrow> (\<And>tx. pend tx = pend' tx) \<Longrightarrow> tracks P reg lg rw pend' out"
  by (simp add: tracks_def)

lemma writeOp_tracks:
  assumes P: "formats_ok P" "messages_ok P" "valid_registry P reg" "appender_ok app lg"
    and tracks: "tracks P reg lg (recordWriter w) pend out" and msg: "typed P reg msg"
    and op: "writeOp P app now op tx msg (w, cache) = (res, w', cache')"
  shows "nextTxID w' = nextTxID w" and "cache' = cache"
    and "\<exists>eff. acks res eff \<and> (case eff of Lost \<Rightarrow> tracks P reg lg (recordWriter w') pend out
      | Logged n \<Rightarrow> if tx = 0 then tracks P reg lg (recordWriter w') pend (out @ [written P reg op 0 msg n])
          else tracks P reg lg (recordWriter w') (pend(tx := pend tx @ [written P reg op tx msg n])) out)"
proof -
  obtain def md where def: "LookupByName reg (mdName (MsgDescriptor P msg)) = Some (def, md)" "similar (MsgDescriptor P msg) md"
    using msg by (auto simp: typed_def)
  have reg: "rwRegistry (recordWriter w) = reg" using tracks by (auto simp: tracks_def reads_def)
  define rec where "rec = (\<lambda>(kb, vb). \<lparr>orOp = op, orTypeId = tdId def, orTxId = tx, orKey = kb,
      orValue = if op \<noteq> DELETE then vb else []\<rparr>)"
  have w: "(case SplitKeyAndNonKey P msg (tdKeyFields def) of Inl e \<Rightarrow> (Inl e, w, cache)
      | Inr kv \<Rightarrow> (case AppendOp P app now (rec kv) (recordWriter w) of (r, rw) \<Rightarrow> (r, w\<lparr>recordWriter := rw\<rparr>, cache))) = (res, w', cache')"
    using op def(1) by (auto simp: writeOp_def resolveOrRegister_def reg rec_def split: sum.splits prod.splits)
  then show "nextTxID w' = nextTxID w" "cache' = cache"
    by (auto split: sum.splits prod.splits)
  show "\<exists>eff. acks res eff \<and> (case eff of Lost \<Rightarrow> tracks P reg lg (recordWriter w') pend out
      | Logged n \<Rightarrow> if tx = 0 then tracks P reg lg (recordWriter w') pend (out @ [written P reg op 0 msg n])
          else tracks P reg lg (recordWriter w') (pend(tx := pend tx @ [written P reg op tx msg n])) out)"
  proof (cases "SplitKeyAndNonKey P msg (tdKeyFields def)")
    case (Inl e)
    then show ?thesis using w tracks by (intro exI [of _ Lost]) (auto simp: acks_def)
  next
    case (Inr kv)
    obtain kb vb where kv: "kv = (kb, vb)" by (cases kv)
    obtain rw where ap: "AppendOp P app now (rec kv) (recordWriter w) = (res, rw)" "w' = w\<lparr>recordWriter := rw\<rparr>"
      using w Inr by (auto split: prod.splits)
    have rw: "recordWriter w' = rw" using ap(2) by simp
    show ?thesis
      using AppendOp_tracks [OF P tracks def Inr [unfolded kv] ap(1) [unfolded rec_def kv prod.case]]
      unfolding rw .
  qed
qed

lemma by_id_simps:
  assumes "k < 2 ^ 64" "i < k"
  shows "by_id k pend (tx_id i) = pend i"
    "(by_id k pend)(tx_id i := x) = by_id k (pend(i := x))"
    "tx_id i \<noteq> 0"
proof -
  have i: "unat (tx_id i) = Suc i" unfolding tx_id_def using assms by (intro word_tx) simp
  then show "by_id k pend (tx_id i) = pend i" using assms(2) by (simp add: by_id_def)
  show "tx_id i \<noteq> 0" using i by (metis unat_0 nat.distinct(1))
  have "tx_id i = tx \<longleftrightarrow> 0 < unat tx \<and> unat tx - 1 = i" for tx :: uint64
    unfolding tx_id_def using word_tx_eq [of "Suc i" tx] assms by auto
  then show "(by_id k pend)(tx_id i := x) = by_id k (pend(i := x))"
    using assms(2) by (intro ext) (simp add: by_id_def eq_commute [of _ "tx_id i"], arith)
qed

lemma recordChange_state:
  assumes "rwRegistry (recordWriter w) = reg" "typed P reg msg"
  shows "\<exists>x. recordChange P n op msg tx (w, cache) = (x, w, cache) \<and> (\<forall>tx'. x = Inr tx' \<longrightarrow> txID tx' = txID tx)"
  using assms by (auto simp: recordChange_def resolveOrRegister_def typed_def Let_def split: sum.splits prod.splits)

lemma tx_write_state:
  assumes "tx_write P app now op msg tx s = (r, tx', s')" "\<not> finished tx"
    and reg: "\<And>r w cache. writeOp P app now op (txID tx) msg s = (r, w, cache) \<Longrightarrow> rwRegistry (recordWriter w) = reg" "typed P reg msg"
  shows "\<exists>r'. writeOp P app now op (txID tx) msg s = (r', s') \<and> (\<forall>n. r = Inr n \<longrightarrow> r' = Inr n) \<and> txID tx' = txID tx"
proof -
  obtain r' w cache where w: "writeOp P app now op (txID tx) msg s = (r', w, cache)" by (metis prod_cases3)
  show ?thesis
  proof (cases r')
    case (Inl e)
    then show ?thesis using assms(1,2) w by (simp add: tx_write_def)
  next
    case (Inr n)
    obtain x where x: "recordChange P n op msg tx (w, cache) = (x, w, cache)" "\<forall>tx'. x = Inr tx' \<longrightarrow> txID tx' = txID tx"
      using recordChange_state [OF reg(1) [OF w] reg(2)] by blast
    then show ?thesis using assms(1,2) w Inr by (cases x) (auto simp: tx_write_def)
  qed
qed

lemma tracks_registry: "tracks P reg lg rw pend out \<Longrightarrow> rwRegistry rw = reg"
  by (auto simp: tracks_def reads_def)

lemma InTx_ok:
  assumes P: "formats_ok P" "messages_ok P" "valid_registry P reg" "appender_ok app lg"
    and ok: "client_ok P reg lg ((w, cache), txs) (pend, out)" and msg: "typed P reg msg" and i: "i < length txs" "length txs < 2 ^ 64"
    and tw: "tx_write P app now op msg (txs ! i) (w, cache) = (r, tx', s')"
  shows "\<exists>eff. acks r eff \<and> client_ok P reg lg (s', txs[i := tx']) (spec_step P reg (InTx i op msg, eff) (pend, out))"
proof (cases "finished (txs ! i)")
  case True
  then have "(r, tx', s') = (Inl (ErrMsg ''transaction already closed''), txs ! i, w, cache)" using tw by (simp add: tx_write_def)
  then show ?thesis using ok by (intro exI [of _ Lost]) (simp add: acks_def)
next
  case False
  have tr: "tracks P reg lg (recordWriter w) (by_id (length txs) pend) out" using ok by (simp add: client_ok_def)
  have id: "txID (txs ! i) = tx_id i"
    using ok i(1) nth_map [of i txs txID] by (simp add: client_ok_def)
  have w: "nextTxID w1 = nextTxID w \<and> cache1 = cache \<and> (\<exists>eff. acks r eff \<and> (case eff of Lost \<Rightarrow> tracks P reg lg (recordWriter w1) (by_id (length txs) pend) out
      | Logged n \<Rightarrow> tracks P reg lg (recordWriter w1) (by_id (length txs) (pend(i := pend i @ [written P reg op (tx_id i) msg n]))) out))"
    if "writeOp P app now op (txID (txs ! i)) msg (w, cache) = (r, w1, cache1)" for r w1 cache1
    using writeOp_tracks [OF P tr msg that] by_id_simps(3) [OF i(2,1)] unfolding id
    by (simp add: by_id_simps [OF i(2,1)] cong: effect.case_cong)
  have rg: "\<And>r w1 cache1. writeOp P app now op (txID (txs ! i)) msg (w, cache) = (r, w1, cache1) \<Longrightarrow>
      rwRegistry (recordWriter w1) = reg"
    by (drule w, elim conjE exE, case_tac eff) (auto dest: tracks_registry)
  have "\<exists>r'. writeOp P app now op (txID (txs ! i)) msg (w, cache) = (r', s') \<and> (\<forall>n. r = Inr n \<longrightarrow> r' = Inr n) \<and>
      txID tx' = txID (txs ! i)"
    by (rule tx_write_state [OF tw False _ msg]) (rule rg)
  then obtain r' w1 cache1 where s': "s' = (w1, cache1)" "writeOp P app now op (txID (txs ! i)) msg (w, cache) = (r', w1, cache1)"
      "\<forall>n. r = Inr n \<longrightarrow> r' = Inr n" "txID tx' = txID (txs ! i)"
    by (cases s') auto
  have ids: "map txID (txs[i := tx']) = map txID txs" using s'(4) by (metis list_update_id map_update)
  from w [OF s'(2)] obtain eff where eff: "acks r' eff" "case eff of Lost \<Rightarrow> tracks P reg lg (recordWriter w1) (by_id (length txs) pend) out
      | Logged n \<Rightarrow> tracks P reg lg (recordWriter w1) (by_id (length txs) (pend(i := pend i @ [written P reg op (tx_id i) msg n]))) out"
      "nextTxID w1 = nextTxID w"
    by blast
  have "acks r eff" using eff(1) s'(3) by (auto simp: acks_def)
  moreover have "client_ok P reg lg (s', txs[i := tx']) (spec_step P reg (InTx i op msg, eff) (pend, out))"
    using ok eff(2,3) i ids by (cases eff) (auto simp: client_ok_def s'(1))
  ultimately show ?thesis by blast
qed

lemma CommitTx_ok:
  assumes P: "formats_ok P" "appender_ok app lg" and ok: "client_ok P reg lg ((w, cache), txs) (pend, out)"
    and i: "i < length txs" "length txs < 2 ^ 64" and c: "Commit P app now (txs ! i) (w, cache) = (r, tx', s')"
  shows "\<exists>eff. acks r eff \<and> client_ok P reg lg (s', txs[i := tx']) (spec_step P reg (CommitTx i, eff) (pend, out))"
proof (cases "finished (txs ! i)")
  case True
  then have "(r, tx', s') = (Inl (ErrMsg ''transaction already closed''), txs ! i, w, cache)" using c by (simp add: Commit_def)
  then show ?thesis using ok by (intro exI [of _ Lost]) (simp add: acks_def)
next
  case False
  have tr: "tracks P reg lg (recordWriter w) (by_id (length txs) pend) out" using ok by (simp add: client_ok_def)
  have id: "txID (txs ! i) = tx_id i"
    using ok i(1) nth_map [of i txs txID] by (simp add: client_ok_def)
  obtain rw where ap: "AppendTxCommit P app now \<lparr>tcTxId = tx_id i, tcCommitTime = now\<rparr> (recordWriter w) = (r, rw)"
      and s': "s' = (w\<lparr>recordWriter := rw\<rparr>, cache)" "txID tx' = txID (txs ! i)"
    using c False id by (auto simp: Commit_def Let_def split: prod.splits sum.splits)
  have ids: "map txID (txs[i := tx']) = map txID txs" using s'(2) by (metis list_update_id map_update)
  from AppendTxCommit_tracks [OF P tr ap] obtain eff where eff: "acks r eff"
    "case eff of Lost \<Rightarrow> tracks P reg lg rw (by_id (length txs) pend) out
     | Logged n \<Rightarrow> tracks P reg lg rw (by_id (length txs) (pend(i := []))) (out @ pend i)"
    by (auto simp: by_id_simps [OF i(2,1)] cong: effect.case_cong)
  have "client_ok P reg lg (s', txs[i := tx']) (spec_step P reg (CommitTx i, eff) (pend, out))"
    using ok eff(2) i ids by (cases eff) (auto simp: client_ok_def s'(1))
  then show ?thesis using eff(1) by blast
qed

lemma on_record_writer_ok:
  assumes "client_ok P reg lg ((w, cache), txs) (pend, out)" "on_record_writer f (w, cache) = (r, s')"
    and "\<And>rw'. f (recordWriter w) = (r, rw') \<Longrightarrow>
      \<exists>eff. acks r eff \<and> tracks P reg lg rw' (by_id (length txs) pend) out"
  shows "\<exists>eff. acks r eff \<and> client_ok P reg lg (s', txs) (pend, out)"
  using assms by (fastforce simp: on_record_writer_def client_ok_def split: prod.splits)

lemma explains_acks: "c \<noteq> BeginTx \<Longrightarrow> acks r eff \<Longrightarrow> explains c r eff"
  by (cases c; cases r) (simp_all add: acks_def)

lemma exec1_ok:
  assumes P: "formats_ok P" "messages_ok P" "valid_registry P reg" "appender_ok app lg"
    and ok: "client_ok P reg lg cl s" and c: "typed_command P reg c" and len: "length (snd cl) + 1 < 2 ^ 64"
    and ex: "exec1 P app now c cl = (r, cl')"
  shows "\<exists>eff. explains c r eff \<and> client_ok P reg lg cl' (spec_step P reg (c, eff) s)" "length (snd cl') \<le> length (snd cl) + 1"
proof -
  obtain w cache txs pend out where cl: "cl = ((w, cache), txs)" "s = (pend, out)" by (metis prod.collapse)
  note ok = ok [unfolded cl] and len = len [unfolded cl snd_conv]
  have tr: "tracks P reg lg (recordWriter w) (by_id (length txs) pend) out" using ok by (simp add: client_ok_def)
  show "length (snd cl') \<le> length (snd cl) + 1"
    using ex by (auto simp: exec1_def cl split: command.splits prod.splits if_splits)
  show "\<exists>eff. explains c r eff \<and> client_ok P reg lg cl' (spec_step P reg (c, eff) s)"
  proof (cases c)
    case (Auto op msg)
    obtain w' cache' where w: "writeOp P app now op 0 msg (w, cache) = (r, w', cache')" "cl' = ((w', cache'), txs)"
      using ex by (auto simp: exec1_def cl Auto split: prod.splits)
    have "typed P reg msg" using c Auto by simp
    note wo = writeOp_tracks [OF P tr this w(1)]
    from wo(3) obtain eff where "acks r eff" "case eff of Lost \<Rightarrow> tracks P reg lg (recordWriter w') (by_id (length txs) pend) out
        | Logged n \<Rightarrow> tracks P reg lg (recordWriter w') (by_id (length txs) pend) (out @ [written P reg op 0 msg n])"
      by (auto cong: effect.case_cong)
    then show ?thesis
      using ok wo(1) w(2) explains_acks [of c r eff]
      by (intro exI [of _ eff]) (cases eff; simp add: client_ok_def Auto cl)
  next
    case BeginTx
    have "by_id (length txs + 1) pend = by_id (length txs) pend"
    proof
      fix tx show "by_id (length txs + 1) pend tx = by_id (length txs) pend tx"
        using ok by (cases "unat tx = length txs + 1") (auto simp: by_id_def client_ok_def)
    qed
    then show ?thesis
      using ex ok by (auto simp: exec1_def cl BeginTx Begin_def client_ok_def tx_id_def add.commute intro: exI [of _ Lost])
  next
    case (InTx i op msg)
    show ?thesis
    proof (cases "i < length txs")
      case True
      obtain tx' s' where t: "tx_write P app now op msg (txs ! i) (w, cache) = (r, tx', s')" "cl' = (s', txs[i := tx'])"
        using ex True by (auto simp: exec1_def cl InTx split: prod.splits)
      have "typed P reg msg" using c InTx by simp
      from InTx_ok [OF P ok this True _ t(1)] len explains_acks [of c r] show ?thesis by (auto simp: t(2) cl InTx)
    next
      case False
      then show ?thesis using ex ok by (intro exI [of _ Lost]) (auto simp: exec1_def cl InTx)
    qed
  next
    case (CommitTx i)
    show ?thesis
    proof (cases "i < length txs")
      case True
      obtain tx' s' where t: "Commit P app now (txs ! i) (w, cache) = (r, tx', s')" "cl' = (s', txs[i := tx'])"
        using ex True by (auto simp: exec1_def cl CommitTx split: prod.splits)
      from CommitTx_ok [OF P(1,4) ok True _ t(1)] len explains_acks [of c r] show ?thesis by (auto simp: t(2) cl CommitTx)
    next
      case False
      then show ?thesis using ex ok by (intro exI [of _ Lost]) (auto simp: exec1_def cl CommitTx)
    qed
  next
    case (Snapshot ptr)
    obtain s' where s': "on_record_writer (AppendSnapshotPointer P app now ptr) (w, cache) = (r, s')" "cl' = (s', txs)"
      using ex by (auto simp: exec1_def cl Snapshot split: prod.splits)
    have "\<exists>eff. acks r eff \<and> client_ok P reg lg (s', txs) (pend, out)"
      using on_record_writer_ok [OF ok s'(1)] silent_tracks [OF P(1,4) tr] Decode_frames(3) [OF P(1)]
      unfolding AppendSnapshotPointer_def by fastforce
    then show ?thesis using explains_acks [of c r] by (auto simp: s'(2) cl Snapshot)
  next
    case (Padding body)
    obtain s' where s': "on_record_writer (AppendPaddingBytes P app now body) (w, cache) = (r, s')" "cl' = (s', txs)"
      using ex by (auto simp: exec1_def cl Padding split: prod.splits)
    have "\<exists>eff. acks r eff \<and> client_ok P reg lg (s', txs) (pend, out)"
      using on_record_writer_ok [OF ok s'(1)] silent_tracks [OF P(1,4) tr] Decode_frames(4) [OF P(1)]
      unfolding AppendPaddingBytes_def by fastforce
    then show ?thesis using explains_acks [of c r] by (auto simp: s'(2) cl Padding)
  qed
qed

lemma exec_ok:
  assumes P: "formats_ok P" "messages_ok P" "valid_registry P reg" "appender_ok app lg"
    and "client_ok P reg lg cl s" "\<forall>(now, c) \<in> set cs. typed_command P reg c" "length (snd cl) + length cs < 2 ^ 64"
    and "exec P app cs cl = (rs, cl')"
  shows "\<exists>effs. length effs = length cs \<and> list_all2 (\<lambda>(c, r) eff. explains c r eff) (zip (map snd cs) rs) effs \<and>
    client_ok P reg lg cl' (fold (spec_step P reg) (zip (map snd cs) effs) s)"
  using assms(5-)
proof (induction cs arbitrary: cl s rs)
  case (Cons nc cs)
  obtain now c where nc: "nc = (now, c)" by (cases nc)
  obtain r cl1 where e1: "exec1 P app now c cl = (r, cl1)" by (cases "exec1 P app now c cl")
  obtain rs1 where e2: "exec P app cs cl1 = (rs1, cl')" "rs = r # rs1"
    using Cons.prems(4) e1 nc by (auto split: prod.splits)
  obtain eff where eff: "explains c r eff" "client_ok P reg lg cl1 (spec_step P reg (c, eff) s)"
    using exec1_ok(1) [OF P Cons.prems(1) _ _ e1] Cons.prems(2,3) nc by auto
  have "length (snd cl1) + length cs < 2 ^ 64"
    using exec1_ok(2) [OF P Cons.prems(1) _ _ e1] Cons.prems(2,3) nc by auto
  from Cons.IH [OF eff(2) _ this e2(1)] Cons.prems(2) obtain effs where
    "length effs = length cs" "list_all2 (\<lambda>(c, r) eff. explains c r eff) (zip (map snd cs) rs1) effs"
    "client_ok P reg lg cl' (fold (spec_step P reg) (zip (map snd cs) effs) (spec_step P reg (c, eff) s))"
    by auto
  then show ?case using eff(1) e2(2) by (intro exI [of _ "eff # effs"]) (simp add: nc)
qed auto

lemma fresh_client_ok:
  assumes "rwRegistry rw = reg" "\<not> headerEmitted rw" "\<not> skipHeader rw" "header_ok (customHeader rw)" "announced rw = []"
    "lg (rwAppender rw) = []"
  shows "client_ok P reg lg ((NewWriter rw, cache), []) (\<lambda>_. [], [])"
  using assms
  by (auto simp: client_ok_def tracks_def reads_def NewWriter_def NewChangeReader_def NewRegistry_def sub_registry_def cached_def
      pending_of_def by_id_def)

end
