(* ===== verification/SdsIndex.thy ===== *)
theory SdsIndex
  imports SdsStream
begin

text \<open>
  \<^verbatim>\<open>pkg/sds/index.go\<close> and \<^verbatim>\<open>pkg/sds/memtable/memtable.go\<close>: local indexes. The interface \<^verbatim>\<open>LocalIndex\<close> is a record
  of operations on a state, its contract the locale \<open>local_index\<close>, and the memory index an
  interpretation of it.
\<close>

subsection \<open>The interface\<close>

record ('p, 'm, 'i) LocalIndex =
  Position :: "'i \<Rightarrow> uint64"
  SetPosition :: "uint64 \<Rightarrow> 'i \<Rightarrow> error option \<times> 'i"
  IndexRegistry :: "'i \<Rightarrow> 'p Registry"
  SyncRegistry :: "'p Registry \<Rightarrow> 'i \<Rightarrow> 'p typeDefCache \<Rightarrow> error option \<times> 'i \<times> 'p typeDefCache"
  ApplyBatch :: "'m Change list \<Rightarrow> 'i \<Rightarrow> error option \<times> 'i"
  IndexGet :: "string \<Rightarrow> Key \<Rightarrow> 'i \<Rightarrow> error + 'm option"
  IndexScan :: "string \<Rightarrow> bytes \<Rightarrow> 'i \<Rightarrow> (error + 'm) list"

subsection \<open>Tables\<close>

record 'm MemTable =
  tableName :: string
  rows :: "(Key \<times> 'm) list"

definition NewTable :: "string \<Rightarrow> 'm MemTable" where
  "NewTable name = \<lparr>tableName = name, rows = []\<rparr>"

definition table_Get :: "Key \<Rightarrow> 'm MemTable \<Rightarrow> 'm option" where
  "table_Get key t = map_of (rows t) key"

definition table_Put :: "Key \<Rightarrow> 'm \<Rightarrow> 'm MemTable \<Rightarrow> 'm MemTable" where
  "table_Put key msg t = t\<lparr>rows := AList.update key msg (rows t)\<rparr>"

definition table_Delete :: "Key \<Rightarrow> 'm MemTable \<Rightarrow> 'm MemTable" where
  "table_Delete key t = t\<lparr>rows := AList.delete key (rows t)\<rparr>"

definition table_Rows :: "'m MemTable \<Rightarrow> 'm list" where
  "table_Rows t = map snd (sort_key (raw \<circ> fst) (rows t))"

definition table_Count :: "'m MemTable \<Rightarrow> nat" where
  "table_Count t = length (rows t)"

definition table_Clear :: "'m MemTable \<Rightarrow> 'm MemTable" where
  "table_Clear t = t\<lparr>rows := []\<rparr>"

subsection \<open>The store\<close>

record ('p, 'm) MemStore =
  msStreamID :: string
  msRegistry :: "'p Registry"
  tables :: "(string \<times> 'm MemTable) list"
  lastPosition :: uint64

definition NewMemStore :: "string \<Rightarrow> ('p, 'm) MemStore" where
  "NewMemStore streamID = \<lparr>msStreamID = streamID, msRegistry = NewRegistry, tables = [], lastPosition = 0\<rparr>"

definition mem_SetPosition :: "uint64 \<Rightarrow> ('p, 'm) MemStore \<Rightarrow> error option \<times> ('p, 'm) MemStore" where
  "mem_SetPosition pos m = (None, m\<lparr>lastPosition := pos\<rparr>)"

definition mem_SyncRegistry ::
  "('p, 'v, 'm) protobuf \<Rightarrow> 'p Registry \<Rightarrow> ('p, 'm) MemStore \<Rightarrow> 'p typeDefCache \<Rightarrow>
   error option \<times> ('p, 'm) MemStore \<times> 'p typeDefCache" where
  "mem_SyncRegistry P reg m cache =
     (case Import P (Export reg) (msRegistry m) cache of (e, r, cache) \<Rightarrow> (e, m\<lparr>msRegistry := r\<rparr>, cache))"

definition GetOrCreateTable :: "string \<Rightarrow> ('p, 'm) MemStore \<Rightarrow> ('p, 'm) MemStore" where
  "GetOrCreateTable name m =
     (if map_of (tables m) name = None then m\<lparr>tables := (name, NewTable name) # tables m\<rparr> else m)"

definition change_table :: "'p Registry \<Rightarrow> 'm Change \<Rightarrow> string" where
  \<comment> \<open>the name of the table, also in the other places that look it up\<close>
  "change_table reg change =
     (if chTypeName change = '''' then
        case LookupByID reg (chTypeID change) of Some (def, _) \<Rightarrow> tdName def | None \<Rightarrow> ''''
      else chTypeName change)"

definition change_key :: "'m Change \<Rightarrow> Key" where
  "change_key change =
     (if IsZero (chKey change) \<and> length (chRawKey change) > 0 then NewKeyFromBytes (chRawKey change) else chKey change)"

definition change_row ::
  "('p, 'v, 'm) protobuf \<Rightarrow> string \<Rightarrow> 'p Registry \<Rightarrow> 'm Change \<Rightarrow> error + 'm option" where
  "change_row P table reg change =
     (case chRow change of
        Some row \<Rightarrow> Inr (Some row)
      | None \<Rightarrow>
          if length (chRawKey change) > 0 \<or> length (chRawVal change) > 0 then
            (case (case LookupByName reg table of Some d \<Rightarrow> Some d | None \<Rightarrow> LookupByID reg (chTypeID change)) of
               None \<Rightarrow> Inr None
             | Some (def, _) \<Rightarrow>
                 (case ResolveMessageType reg (tdId def) of
                    Inl e \<Rightarrow> Inl e
                  | Inr msgType \<Rightarrow>
                      (case MergeKeyAndNonKey P (New P msgType) (chRawKey change) (chRawVal change) of
                         Inl e \<Rightarrow> Inl e
                       | Inr row \<Rightarrow> Inr (Some row))))
          else Inr None)"

record 'm resolvedChange =
  rcTable :: string
  rcOp :: Op
  rcKey :: Key
  rcRow :: "'m option"
  rcSeq :: uint64

definition resolve_change ::
  "('p, 'v, 'm) protobuf \<Rightarrow> 'm Change \<Rightarrow> ('p, 'm) MemStore \<Rightarrow> (error + 'm resolvedChange) \<times> ('p, 'm) MemStore" where
  "resolve_change P change m =
     (let table = change_table (msRegistry m) change
      in if table = '''' then (Inl (ErrMsg ''empty table name in change''), m)
         else
           let m = GetOrCreateTable table m;
               ok = (\<lambda>row. Inr \<lparr>rcTable = table, rcOp = chOp change, rcKey = change_key change, rcRow = row, rcSeq = chSeq change\<rparr>)
           in case chOp change of
                DELETE \<Rightarrow> (ok None, m)
              | UnknownOp _ \<Rightarrow> (Inl (ErrMsg ''unsupported op''), m)
              | _ \<Rightarrow>
                  (case change_row P table (msRegistry m) change of
                     Inl e \<Rightarrow> (Inl e, m)
                   | Inr None \<Rightarrow> (Inl (ErrMsg ''missing row message''), m)
                   | Inr (Some row) \<Rightarrow> (ok (Some row), m)))"

fun resolve_changes ::
  "('p, 'v, 'm) protobuf \<Rightarrow> 'm Change list \<Rightarrow> ('p, 'm) MemStore \<Rightarrow> (error + 'm resolvedChange list) \<times> ('p, 'm) MemStore" where
  "resolve_changes P [] m = (Inr [], m)"
| "resolve_changes P (change # chs) m =
     andThen (resolve_change P change m) (\<lambda>rc m.
       andThen (resolve_changes P chs m) (\<lambda>rcs m. (Inr (rc # rcs), m)))"

definition apply_resolved :: "'m resolvedChange \<Rightarrow> ('p, 'm) MemStore \<Rightarrow> ('p, 'm) MemStore" where
  "apply_resolved rc m =
     (let table = (case map_of (tables m) (rcTable rc) of Some t \<Rightarrow> t | None \<Rightarrow> NewTable (rcTable rc));
          table = (case rcRow rc of
             Some row \<Rightarrow> table_Put (rcKey rc) row table
           | None \<Rightarrow> table_Delete (rcKey rc) table)
      in m\<lparr>tables := AList.update (rcTable rc) table (tables m),
           lastPosition := if rcSeq rc > lastPosition m then rcSeq rc else lastPosition m\<rparr>)"

definition mem_ApplyBatch ::
  "('p, 'v, 'm) protobuf \<Rightarrow> 'm Change list \<Rightarrow> ('p, 'm) MemStore \<Rightarrow> error option \<times> ('p, 'm) MemStore" where
  \<comment> \<open>the tables are locked in the order of their names; the store is locked anyway\<close>
  "mem_ApplyBatch P chs m =
     (if chs = [] then (None, m)
      else case resolve_changes P chs m of
        (Inl e, m) \<Rightarrow> (Some e, m)
      | (Inr resolved, m) \<Rightarrow> (None, fold apply_resolved resolved m))"

definition mem_Apply ::
  "('p, 'v, 'm) protobuf \<Rightarrow> 'm Change \<Rightarrow> ('p, 'm) MemStore \<Rightarrow> error option \<times> ('p, 'm) MemStore" where
  "mem_Apply P change = mem_ApplyBatch P [change]"

definition mem_Get :: "string \<Rightarrow> Key \<Rightarrow> ('p, 'm) MemStore \<Rightarrow> error + 'm option" where
  "mem_Get table key m = (case map_of (tables m) table of None \<Rightarrow> Inr None | Some t \<Rightarrow> Inr (table_Get key t))"

definition has_prefix :: "bytes \<Rightarrow> Key \<Rightarrow> bool" where
  \<comment> \<open>\<open>len(keyPrefix) == 0 || bytes.HasPrefix(k.Bytes(), keyPrefix)\<close>\<close>
  "has_prefix pre k \<longleftrightarrow> pre = [] \<or> take (length pre) (raw k) = pre"

definition mem_Scan :: "string \<Rightarrow> bytes \<Rightarrow> ('p, 'm) MemStore \<Rightarrow> (error + 'm) list" where
  \<comment> \<open>what is yielded to a consumer that does not stop\<close>
  "mem_Scan table keyPrefix m =
     (case map_of (tables m) table of
        None \<Rightarrow> []
      | Some t \<Rightarrow> map (Inr \<circ> snd) (sort_key (raw \<circ> fst) (filter (\<lambda>(k, _). has_prefix keyPrefix k) (rows t))))"

definition mem_Count :: "string \<Rightarrow> ('p, 'm) MemStore \<Rightarrow> nat" where
  "mem_Count table m = (case map_of (tables m) table of None \<Rightarrow> 0 | Some t \<Rightarrow> table_Count t)"

definition mem_Tables :: "('p, 'm) MemStore \<Rightarrow> string list" where
  "mem_Tables m = sort (map fst (tables m))"

definition mem_Clear :: "('p, 'm) MemStore \<Rightarrow> ('p, 'm) MemStore" where
  "mem_Clear m = m\<lparr>tables := [], lastPosition := 0\<rparr>"

definition mem_index :: "('p, 'v, 'm) protobuf \<Rightarrow> ('p, 'm, ('p, 'm) MemStore) LocalIndex" where
  "mem_index P =
     \<lparr>Position = lastPosition, SetPosition = mem_SetPosition, IndexRegistry = msRegistry, SyncRegistry = mem_SyncRegistry P,
      ApplyBatch = mem_ApplyBatch P, IndexGet = mem_Get, IndexScan = mem_Scan\<rparr>"

subsection \<open>The contract\<close>

type_synonym 'm contents = "string \<Rightarrow> Key \<Rightarrow> 'm option"

definition apply_change :: "'m Change \<Rightarrow> 'm contents \<Rightarrow> 'm contents" where
  "apply_change c f =
     f(chTypeName c := (f (chTypeName c))(chKey c := (if chOp c = DELETE then None else chRow c)))"

definition proper :: "'m Change \<Rightarrow> bool" where
  \<comment> \<open>a change as transactions and readers make them\<close>
  "proper c \<longleftrightarrow> chTypeName c \<noteq> '''' \<and> (IsZero (chKey c) \<longrightarrow> chRawKey c = []) \<and>
     (chOp c = DELETE \<or> (chOp c = CREATE \<or> chOp c = UPDATE) \<and> chRow c \<noteq> None)"

definition max_seq :: "'m Change list \<Rightarrow> uint64 \<Rightarrow> uint64" where
  "max_seq cs pos = fold (\<lambda>c p. if chSeq c > p then chSeq c else p) cs pos"

locale local_index =
  fixes ix :: "('p, 'm, 'i) LocalIndex" and contents :: "'i \<Rightarrow> 'm contents" and good :: "'i \<Rightarrow> bool"
  assumes apply_batch: "good i \<Longrightarrow> list_all proper cs \<Longrightarrow> ApplyBatch ix cs i = (r, i') \<Longrightarrow>
      good i' \<and>
      (case r of
         None \<Rightarrow> contents i' = fold apply_change cs (contents i) \<and> Position ix i' = max_seq cs (Position ix i)
       | Some e \<Rightarrow> contents i' = contents i \<and> Position ix i' = Position ix i)"
    and index_get: "good i \<Longrightarrow> IndexGet ix t k i = Inr v \<Longrightarrow> v = contents i t k"
    and index_scan: "good i \<Longrightarrow> IndexScan ix t p i = map Inr ms \<Longrightarrow>
      \<exists>ks. sorted (map raw ks) \<and> distinct ks \<and> set ks = {k. has_prefix p k \<and> contents i t k \<noteq> None} \<and>
           ms = map (\<lambda>k. the (contents i t k)) ks"
begin

lemma apply_batch_twice:
  \<comment> \<open>where a batch ends does not matter\<close>
  assumes "good i" "list_all proper (cs @ ds)" "ApplyBatch ix cs i = (None, i1)" "ApplyBatch ix ds i1 = (None, i2)"
    "ApplyBatch ix (cs @ ds) i = (None, i3)"
  shows "contents i2 = contents i3" "Position ix i2 = Position ix i3"
  using apply_batch [OF assms(1) _ assms(3)] apply_batch [OF assms(1,2,5)] apply_batch [OF _ _ assms(4)] assms(2)
  by (simp_all add: max_seq_def)

end

subsection \<open>The memory index keeps it\<close>

definition mem_contents :: "('p, 'm) MemStore \<Rightarrow> 'm contents" where
  "mem_contents m t k = (case map_of (tables m) t of None \<Rightarrow> None | Some tb \<Rightarrow> map_of (rows tb) k)"

definition mem_ok :: "('p, 'm) MemStore \<Rightarrow> bool" where
  "mem_ok m \<longleftrightarrow> distinct (map fst (tables m)) \<and> (\<forall>t tb. map_of (tables m) t = Some tb \<longrightarrow> distinct (map fst (rows tb)))"

definition normal :: "('p, 'v, 'm) protobuf \<Rightarrow> 'p Registry \<Rightarrow> 'm Change \<Rightarrow> 'm Change" where
  \<comment> \<open>the change with its table, its key and its row filled in\<close>
  "normal P reg c =
     c\<lparr>chTypeName := change_table reg c, chKey := change_key c,
       chRow := case change_row P (change_table reg c) reg c of Inr r \<Rightarrow> r | Inl _ \<Rightarrow> None\<rparr>"

lemma GetOrCreateTable_simps [simp]:
  "mem_contents (GetOrCreateTable t m) = mem_contents m" "msRegistry (GetOrCreateTable t m) = msRegistry m"
  "lastPosition (GetOrCreateTable t m) = lastPosition m"
  by (auto simp: GetOrCreateTable_def mem_contents_def NewTable_def fun_eq_iff split: option.splits)

lemma mem_ok_GetOrCreate: "mem_ok m \<Longrightarrow> mem_ok (GetOrCreateTable t m)"
  by (auto simp: GetOrCreateTable_def mem_ok_def NewTable_def map_of_eq_None_iff)

definition resolves :: "('p, 'v, 'm) protobuf \<Rightarrow> 'p Registry \<Rightarrow> 'm Change \<Rightarrow> 'm resolvedChange \<Rightarrow> bool" where
  "resolves P reg c rc \<longleftrightarrow>
     (let n = normal P reg c in rcTable rc = chTypeName n \<and> rcKey rc = chKey n \<and> rcSeq rc = chSeq n \<and>
        rcRow rc = (if chOp n = DELETE then None else chRow n) \<and> (chOp n \<noteq> DELETE \<longrightarrow> chRow n \<noteq> None))"

lemma resolve_change_ok:
  assumes "resolve_change P c m = (r, m')" "mem_ok m"
  shows "mem_contents m' = mem_contents m" "msRegistry m' = msRegistry m" "lastPosition m' = lastPosition m" "mem_ok m'"
    "r = Inr rc \<Longrightarrow> resolves P (msRegistry m) c rc"
  using assms mem_ok_GetOrCreate [OF assms(2)]
  by (auto simp: resolve_change_def resolves_def normal_def Let_def split: if_splits Op.splits sum.splits option.splits)

lemma resolve_changes_ok:
  "resolve_changes P cs m = (r, m') \<Longrightarrow> mem_ok m \<Longrightarrow>
     mem_contents m' = mem_contents m \<and> msRegistry m' = msRegistry m \<and> lastPosition m' = lastPosition m \<and> mem_ok m' \<and>
     (\<forall>rcs. r = Inr rcs \<longrightarrow> list_all2 (resolves P (msRegistry m)) cs rcs)"
proof (induction P cs m arbitrary: r m' rule: resolve_changes.induct)
  case (2 P c cs m)
  obtain r1 m1 where c: "resolve_change P c m = (r1, m1)" by fastforce
  note ok = resolve_change_ok [OF c "2.prems"(2)]
  show ?case
  proof (cases r1)
    case (Inl e)
    then show ?thesis using ok(1-4) "2.prems"(1) c by auto
  next
    case (Inr rc)
    obtain r2 m2 where cs: "resolve_changes P cs m1 = (r2, m2)" by fastforce
    from "2.IH" [OF cs ok(4)] ok(1-3) ok(5) [OF Inr] show ?thesis
      using "2.prems"(1) c cs Inr by (cases r2) auto
  qed
qed simp

lemma apply_resolved_ok:
  assumes "mem_ok m" "resolves P reg c rc"
  shows "mem_ok (apply_resolved rc m)" "mem_contents (apply_resolved rc m) = apply_change (normal P reg c) (mem_contents m)"
    "lastPosition (apply_resolved rc m) = (if chSeq c > lastPosition m then chSeq c else lastPosition m)"
proof -
  define tb where "tb = (case map_of (tables m) (rcTable rc) of Some t \<Rightarrow> t | None \<Rightarrow> NewTable (rcTable rc))"
  define tb' where "tb' = (case rcRow rc of Some row \<Rightarrow> table_Put (rcKey rc) row tb | None \<Rightarrow> table_Delete (rcKey rc) tb)"
  have m': "apply_resolved rc m = m\<lparr>tables := AList.update (rcTable rc) tb' (tables m),
      lastPosition := if rcSeq rc > lastPosition m then rcSeq rc else lastPosition m\<rparr>"
    unfolding apply_resolved_def tb'_def tb_def Let_def by (rule refl)
  have d: "distinct (map fst (rows tb))"
    using assms(1) by (auto simp: tb_def mem_ok_def NewTable_def split: option.splits)
  then have d': "distinct (map fst (rows tb'))"
    by (auto simp: tb'_def table_Put_def table_Delete_def distinct_update distinct_delete split: option.splits)
  then show "mem_ok (apply_resolved rc m)"
    using assms(1) by (auto simp: m' mem_ok_def update_conv distinct_update split: if_splits)
  have old: "mem_contents m (rcTable rc) = map_of (rows tb)"
    by (auto simp: mem_contents_def tb_def NewTable_def fun_eq_iff split: option.splits)
  have "map_of (rows tb') = (map_of (rows tb))(rcKey rc := rcRow rc)"
    using d by (auto simp: tb'_def table_Put_def table_Delete_def update_conv' delete_conv' split: option.splits)
  then have "mem_contents (apply_resolved rc m) = (mem_contents m)(rcTable rc := (mem_contents m (rcTable rc))(rcKey rc := rcRow rc))"
    unfolding old by (intro ext) (simp add: m' mem_contents_def update_conv)
  then show "mem_contents (apply_resolved rc m) = apply_change (normal P reg c) (mem_contents m)"
    using assms(2) by (simp add: apply_change_def resolves_def Let_def)
  show "lastPosition (apply_resolved rc m) = (if chSeq c > lastPosition m then chSeq c else lastPosition m)"
    using assms(2) by (simp add: m' resolves_def normal_def Let_def)
qed

lemma fold_apply_resolved:
  assumes "list_all2 (resolves P reg) cs rcs" "mem_ok m"
  shows "mem_ok (fold apply_resolved rcs m) \<and>
    mem_contents (fold apply_resolved rcs m) = fold (apply_change \<circ> normal P reg) cs (mem_contents m) \<and>
    lastPosition (fold apply_resolved rcs m) = max_seq cs (lastPosition m)"
  using assms
  by (induction arbitrary: m rule: list_all2_induct) (simp_all add: apply_resolved_ok max_seq_def)

lemma mem_ApplyBatch_ok:
  assumes "mem_ok m" "mem_ApplyBatch P cs m = (r, m')"
  shows "mem_ok m'" and "case r of
      None \<Rightarrow> mem_contents m' = fold (apply_change \<circ> normal P (msRegistry m)) cs (mem_contents m) \<and>
        lastPosition m' = max_seq cs (lastPosition m)
    | Some e \<Rightarrow> mem_contents m' = mem_contents m \<and> lastPosition m' = lastPosition m"
proof -
  obtain r1 m1 where rs: "resolve_changes P cs m = (r1, m1)" by fastforce
  note ok = resolve_changes_ok [OF rs assms(1)]
  have "mem_ok m' \<and> (case r of
      None \<Rightarrow> mem_contents m' = fold (apply_change \<circ> normal P (msRegistry m)) cs (mem_contents m) \<and>
        lastPosition m' = max_seq cs (lastPosition m)
    | Some e \<Rightarrow> mem_contents m' = mem_contents m \<and> lastPosition m' = lastPosition m)"
  proof (cases "cs = []")
    case True
    then show ?thesis using assms by (simp add: mem_ApplyBatch_def max_seq_def)
  next
    case False
    then show ?thesis
      using assms(2) ok fold_apply_resolved [of P "msRegistry m" cs _ m1] rs
      by (cases r1) (auto simp: mem_ApplyBatch_def)
  qed
  then show "mem_ok m'" and "case r of
      None \<Rightarrow> mem_contents m' = fold (apply_change \<circ> normal P (msRegistry m)) cs (mem_contents m) \<and>
        lastPosition m' = max_seq cs (lastPosition m)
    | Some e \<Rightarrow> mem_contents m' = mem_contents m \<and> lastPosition m' = lastPosition m" by blast+
qed

lemma normal_proper: "proper c \<Longrightarrow> apply_change (normal P reg c) = apply_change c"
  by (auto simp: proper_def normal_def change_table_def change_key_def change_row_def apply_change_def fun_eq_iff
      split: option.splits)

lemma mem_ApplyBatch_proper:
  assumes "list_all proper cs"
  shows "fst (mem_ApplyBatch P cs m) = None"
proof -
  have "\<exists>rcs m'. resolve_changes P cs m = (Inr rcs, m')"
    using assms
  proof (induction P cs m rule: resolve_changes.induct)
    case (2 P c cs m)
    then have "\<exists>rc m'. resolve_change P c m = (Inr rc, m')"
      by (auto simp: resolve_change_def proper_def change_table_def change_row_def Let_def split: Op.splits)
    then obtain rc m1 where rc: "resolve_change P c m = (Inr rc, m1)" by blast
    obtain rcs m2 where "resolve_changes P cs m1 = (Inr rcs, m2)" using "2.IH" [of m1] "2.prems" by auto
    then show ?case using rc by simp
  qed simp
  then show ?thesis by (auto simp: mem_ApplyBatch_def)
qed
lemma fold_apply_normal: "list_all proper cs \<Longrightarrow> fold (apply_change \<circ> normal P reg) cs f = fold apply_change cs f"
  by (induction cs arbitrary: f) (simp_all add: normal_proper)

lemma mem_Scan_ok:
  assumes "mem_ok m" "mem_Scan t p m = map Inr ms"
  shows "\<exists>ks. sorted (map raw ks) \<and> distinct ks \<and> set ks = {k. has_prefix p k \<and> mem_contents m t k \<noteq> None} \<and>
    ms = map (\<lambda>k. the (mem_contents m t k)) ks"
proof (cases "map_of (tables m) t")
  case None
  then show ?thesis using assms(2) by (intro exI [of _ "[]"]) (simp add: mem_Scan_def mem_contents_def)
next
  case (Some tb)
  define es where "es = sort_key (raw \<circ> fst) (filter (\<lambda>(k, _). has_prefix p k) (rows tb))"
  have d: "distinct (map fst (rows tb))" using assms(1) Some by (simp add: mem_ok_def)
  have "map (Inr \<circ> snd) es = map (Inr :: _ \<Rightarrow> error + _) ms"
    using assms(2) Some by (simp add: mem_Scan_def es_def)
  then have ms: "ms = map snd es" by (metis map_map inj_Inr inj_map_eq_map)
  have mem: "(k, v) \<in> set es \<longleftrightarrow> has_prefix p k \<and> map_of (rows tb) k = Some v" for k v
    using d by (auto simp: es_def)
  have "sorted (map raw (map fst es))" by (simp add: es_def)
  moreover have "distinct (map fst es)"
  proof -
    have "distinct (map fst (filter (\<lambda>(k, _). has_prefix p k) (rows tb)))" using d by (simp add: distinct_map_filter)
    then show ?thesis unfolding es_def by (metis distinct_map distinct_sort set_sort)
  qed
  moreover have "set (map fst es) = {k. has_prefix p k \<and> mem_contents m t k \<noteq> None}"
    using Some mem by (force simp: mem_contents_def)
  moreover have "ms = map (\<lambda>k. the (mem_contents m t k)) (map fst es)"
    using Some mem by (auto simp: ms mem_contents_def)
  ultimately show ?thesis by blast
qed

interpretation mem_ix: local_index "mem_index P" mem_contents mem_ok
proof (unfold_locales, goal_cases)
  case (1 i cs r i')
  then show ?case
    using mem_ApplyBatch_ok [of i P cs r i'] by (cases r) (simp_all add: mem_index_def fold_apply_normal)
next
  case (2 i t k v)
  then show ?case by (simp add: mem_index_def mem_Get_def mem_contents_def table_Get_def split: option.splits)
next
  case (3 i t p ms)
  then show ?case using mem_Scan_ok [of i t p ms] by (simp add: mem_index_def)
qed

end
