(* ===== verification/SdsCache.thy ===== *)
theory SdsCache
  imports Prelude
begin

text \<open>
  \<^verbatim>\<open>pkg/sds/view/cache.go\<close>: the cache of rows. The doubly linked list with its map from keys to
  elements is the list of the elements, most recently used first, in which every key occurs once.
  The callback on eviction is only used for checks in tests and is left out; so are the accessors.
\<close>

record ('k, 'v) cacheElement =
  ceKey :: 'k
  ceValue :: 'v
  ceSize :: int

record ('k, 'v) LRUCache =
  capacity :: int
  maxBytes :: int
  curBytes :: int
  elems :: "('k, 'v) cacheElement list"
  hits :: uint64
  misses :: uint64

definition NewLRUCacheWithLimits :: "int \<Rightarrow> int \<Rightarrow> ('k, 'v) LRUCache" where
  "NewLRUCacheWithLimits cap maxb =
     \<lparr>capacity = if cap \<le> 0 \<and> maxb \<le> 0 then 1024 else cap, maxBytes = maxb, curBytes = 0, elems = [], hits = 0, misses = 0\<rparr>"

definition cache_find :: "'k \<Rightarrow> ('k, 'v) LRUCache \<Rightarrow> ('k, 'v) cacheElement option" where
  \<comment> \<open>\<open>c.items[key]\<close>\<close>
  "cache_find k c = find (\<lambda>e. ceKey e = k) (elems c)"

definition removeElement :: "'k \<Rightarrow> ('k, 'v) cacheElement list \<Rightarrow> ('k, 'v) cacheElement list" where
  "removeElement k es = filter (\<lambda>e. ceKey e \<noteq> k) es"

definition moveToFront :: "('k, 'v) cacheElement \<Rightarrow> ('k, 'v) cacheElement list \<Rightarrow> ('k, 'v) cacheElement list" where
  \<comment> \<open>\<open>removeElement\<close>, then \<open>pushFront\<close>\<close>
  "moveToFront e es = e # removeElement (ceKey e) es"

definition cache_Get :: "'k \<Rightarrow> ('k, 'v) LRUCache \<Rightarrow> 'v option \<times> ('k, 'v) LRUCache" where
  "cache_Get k c =
     (case cache_find k c of
        None \<Rightarrow> (None, c\<lparr>misses := misses c + 1\<rparr>)
      | Some e \<Rightarrow> (Some (ceValue e), c\<lparr>hits := hits c + 1, elems := moveToFront e (elems c)\<rparr>))"

definition cache_Peek :: "'k \<Rightarrow> ('k, 'v) LRUCache \<Rightarrow> 'v option" where
  "cache_Peek k c = map_option ceValue (cache_find k c)"

definition excess :: "('k, 'v) LRUCache \<Rightarrow> bool" where
  "excess c \<longleftrightarrow> elems c \<noteq> [] \<and>
     (capacity c > 0 \<and> int (length (elems c)) > capacity c \<or>
      maxBytes c > 0 \<and> curBytes c > maxBytes c \<and> length (elems c) > 0)"

function evictExcessLocked :: "('k, 'v) LRUCache \<Rightarrow> ('k, 'v) LRUCache" where
  "evictExcessLocked c =
     (if excess c
      then evictExcessLocked (c\<lparr>elems := butlast (elems c), curBytes := curBytes c - ceSize (last (elems c))\<rparr>)
      else c)"
  by auto
termination
  by (relation "measure (length \<circ> elems)") (auto simp: excess_def)

declare evictExcessLocked.simps [simp del]

definition cache_Put :: "('k \<Rightarrow> 'v \<Rightarrow> int) \<Rightarrow> 'k \<Rightarrow> 'v \<Rightarrow> ('k, 'v) LRUCache \<Rightarrow> ('k, 'v) LRUCache" where
  "cache_Put sizeFn k v c =
     (let sz = sizeFn k v
      in case cache_find k c of
           Some e \<Rightarrow>
             evictExcessLocked (c\<lparr>curBytes := curBytes c + (sz - ceSize e),
                                  elems := moveToFront (e\<lparr>ceValue := v, ceSize := sz\<rparr>) (elems c)\<rparr>)
         | None \<Rightarrow>
             evictExcessLocked (c\<lparr>curBytes := curBytes c + sz, elems := \<lparr>ceKey = k, ceValue = v, ceSize = sz\<rparr> # elems c\<rparr>))"

definition cache_Remove :: "'k \<Rightarrow> ('k, 'v) LRUCache \<Rightarrow> ('k, 'v) LRUCache" where
  "cache_Remove k c =
     (case cache_find k c of
        None \<Rightarrow> c
      | Some e \<Rightarrow> c\<lparr>elems := removeElement k (elems c), curBytes := curBytes c - ceSize e\<rparr>)"

definition cache_Clear :: "('k, 'v) LRUCache \<Rightarrow> ('k, 'v) LRUCache" where
  "cache_Clear c = c\<lparr>elems := [], curBytes := 0\<rparr>"

definition SetLimits :: "int \<Rightarrow> int \<Rightarrow> ('k, 'v) LRUCache \<Rightarrow> ('k, 'v) LRUCache" where
  "SetLimits cap maxb c = evictExcessLocked (c\<lparr>capacity := cap, maxBytes := maxb\<rparr>)"

subsection \<open>The cache stays within its limits\<close>

definition cache_wf :: "('k, 'v) LRUCache \<Rightarrow> bool" where
  "cache_wf c \<longleftrightarrow> distinct (map ceKey (elems c)) \<and> curBytes c = sum_list (map ceSize (elems c))"

definition within_limits :: "('k, 'v) LRUCache \<Rightarrow> bool" where
  "within_limits c \<longleftrightarrow> (capacity c > 0 \<longrightarrow> int (length (elems c)) \<le> capacity c) \<and> (maxBytes c > 0 \<longrightarrow> curBytes c \<le> maxBytes c)"

lemma find_key: "distinct (map ceKey es) \<Longrightarrow> find (\<lambda>e. ceKey e = k) es = Some e \<longleftrightarrow> e \<in> set es \<and> ceKey e = k"
  by (induction es) (auto simp: image_iff)

lemma cache_find_Some: "cache_wf c \<Longrightarrow> cache_find k c = Some e \<longleftrightarrow> e \<in> set (elems c) \<and> ceKey e = k"
  by (simp add: cache_find_def cache_wf_def find_key)

lemma cache_find_None: "cache_find k c = None \<longleftrightarrow> k \<notin> ceKey ` set (elems c)"
  by (auto simp: cache_find_def find_None_iff)

definition peek_list :: "('k, 'v) cacheElement list \<Rightarrow> 'k \<Rightarrow> 'v option" where
  "peek_list es = map_of (map (\<lambda>e. (ceKey e, ceValue e)) es)"

lemma cache_Peek_list: "cache_Peek k c = peek_list (elems c) k"
proof -
  have "map_option ceValue (find (\<lambda>e. ceKey e = k) es) = peek_list es k" for es
    by (induction es) (auto simp: peek_list_def)
  then show ?thesis by (simp add: cache_Peek_def cache_find_def)
qed

lemma peek_removeElement: "peek_list (removeElement k es) = (peek_list es)(k := None)"
  by (induction es) (auto simp: peek_list_def removeElement_def fun_eq_iff)

lemma sum_removeElement:
  "distinct (map ceKey es) \<Longrightarrow> e \<in> set es \<Longrightarrow> sum_list (map ceSize (removeElement (ceKey e) es)) = sum_list (map ceSize es) - ceSize e"
proof (induction es)
  case (Cons x es)
  show ?case
  proof (cases "ceKey x = ceKey e")
    case True
    then have "x = e" using Cons.prems by (auto simp: image_iff)
    moreover from this have "removeElement (ceKey e) es = es"
      using Cons.prems(1) by (simp add: removeElement_def filter_id_conv) (metis image_eqI)
    ultimately show ?thesis by (simp add: removeElement_def)
  next
    case False
    then show ?thesis using Cons by (auto simp: removeElement_def)
  qed
qed simp

lemma length_removeElement:
  "distinct (map ceKey es) \<Longrightarrow> e \<in> set es \<Longrightarrow> length (removeElement (ceKey e) es) + 1 = length es"
proof (induction es)
  case (Cons x es)
  show ?case
  proof (cases "ceKey x = ceKey e")
    case True
    then have "removeElement (ceKey e) es = es"
      using Cons.prems(1) by (simp add: removeElement_def filter_id_conv) (metis image_eqI)
    then show ?thesis using True by (simp add: removeElement_def)
  next
    case False
    then show ?thesis using Cons by (auto simp: removeElement_def)
  qed
qed simp

lemma removeElement_keys: "distinct (map ceKey es) \<Longrightarrow> distinct (map ceKey (removeElement k es))"
  "ceKey ` set (removeElement k es) = ceKey ` set es - {k}"
  by (auto simp: removeElement_def distinct_map_filter)

lemma evictExcess_ok:
  assumes "cache_wf c"
  shows "cache_wf (evictExcessLocked c) \<and> (within_limits (evictExcessLocked c)) \<and>
    (\<exists>n. elems (evictExcessLocked c) = take n (elems c)) \<and> capacity (evictExcessLocked c) = capacity c \<and>
    maxBytes (evictExcessLocked c) = maxBytes c"
  using assms
proof (induction c rule: evictExcessLocked.induct)
  case (1 c)
  show ?case
  proof (cases "excess c")
    case True
    let ?c = "c\<lparr>elems := butlast (elems c), curBytes := curBytes c - ceSize (last (elems c))\<rparr>"
    have ne: "elems c \<noteq> []" using True by (simp add: excess_def)
    obtain es e where es: "elems c = es @ [e]" using ne by (meson rev_exhaust)
    have "distinct (map ceKey (butlast (elems c)))" "sum_list (map ceSize (elems c)) =
        sum_list (map ceSize (butlast (elems c))) + ceSize (last (elems c))"
      using "1.prems" by (simp_all add: cache_wf_def es)
    then have "cache_wf ?c" using "1.prems" by (simp add: cache_wf_def)
    from "1.IH" [OF True this] obtain n where n: "elems (evictExcessLocked ?c) = take n (butlast (elems c))"
        "cache_wf (evictExcessLocked ?c)" "within_limits (evictExcessLocked ?c)"
        "capacity (evictExcessLocked ?c) = capacity c" "maxBytes (evictExcessLocked ?c) = maxBytes c"
      by auto
    have "take n (butlast (elems c)) = take (min n (length (elems c) - 1)) (elems c)"
      by (simp add: butlast_conv_take)
    then show ?thesis using n True by (simp add: evictExcessLocked.simps [of c]) blast
  next
    case False
    then have "within_limits c" using "1.prems" by (cases "elems c") (auto simp: excess_def within_limits_def cache_wf_def)
    then show ?thesis
      using False "1.prems" by (simp add: evictExcessLocked.simps [of c]) (intro exI [of _ "length (elems c)"], simp)
  qed
qed

lemma moveToFront_wf:
  assumes "cache_wf c" "cache_find k c = Some e" "ceKey e' = k"
  shows "cache_wf (c\<lparr>curBytes := curBytes c + (ceSize e' - ceSize e), elems := moveToFront e' (elems c)\<rparr>)"
proof -
  have e: "e \<in> set (elems c)" "ceKey e = k" using assms(1,2) by (simp_all add: cache_find_Some)
  then show ?thesis
    using assms(1,3) sum_removeElement [of "elems c" e] removeElement_keys(1) [of "elems c" k] removeElement_keys(2) [of k "elems c"]
    by (simp add: cache_wf_def moveToFront_def)
qed

lemma cache_Put_ok: "cache_wf c \<Longrightarrow> cache_wf (cache_Put sz k v c) \<and> within_limits (cache_Put sz k v c)"
proof (cases "cache_find k c")
  case None
  assume "cache_wf c"
  with None have "cache_wf (c\<lparr>curBytes := curBytes c + sz k v, elems := \<lparr>ceKey = k, ceValue = v, ceSize = sz k v\<rparr> # elems c\<rparr>)"
    by (simp add: cache_wf_def cache_find_None)
  from evictExcess_ok [OF this] None show ?thesis by (simp add: cache_Put_def Let_def)
next
  case (Some e)
  assume wf: "cache_wf c"
  then have "ceKey (e\<lparr>ceValue := v, ceSize := sz k v\<rparr>) = k" using Some by (simp add: cache_find_Some)
  from evictExcess_ok [OF moveToFront_wf [OF wf Some this]] Some show ?thesis by (simp add: cache_Put_def Let_def)
qed

lemma cache_Get_ok:
  assumes "cache_wf c" "cache_Get k c = (r, c')"
  shows "r = cache_Peek k c" "cache_wf c'" "within_limits c \<Longrightarrow> within_limits c'" "cache_Peek j c' = cache_Peek j c"
proof -
  show "r = cache_Peek k c" using assms(2) by (auto simp: cache_Get_def cache_Peek_def split: option.splits)
  have "cache_wf c' \<and> (within_limits c \<longrightarrow> within_limits c') \<and> cache_Peek j c' = cache_Peek j c"
  proof (cases "cache_find k c")
    case None
    then show ?thesis using assms by (auto simp: cache_Get_def cache_wf_def within_limits_def cache_Peek_list)
  next
    case (Some e)
    then have e: "e \<in> set (elems c)" "ceKey e = k" using assms(1) by (simp_all add: cache_find_Some)
    have c': "c' = c\<lparr>hits := hits c + 1, elems := moveToFront e (elems c)\<rparr>" using assms(2) Some by (simp add: cache_Get_def)
    have "cache_wf (c\<lparr>curBytes := curBytes c + (ceSize e - ceSize e), elems := moveToFront e (elems c)\<rparr>)"
      by (rule moveToFront_wf [OF assms(1) Some e(2)])
    then have wf: "cache_wf c'" by (simp add: c' cache_wf_def)
    have "length (removeElement (ceKey e) (elems c)) + 1 = length (elems c)"
      using assms(1) e(1) by (intro length_removeElement) (simp_all add: cache_wf_def)
    moreover have "peek_list (elems c) k = Some (ceValue e)"
      using Some by (simp add: cache_Peek_list [symmetric] cache_Peek_def)
    ultimately show ?thesis
      using wf e(2) peek_removeElement [of k "elems c"]
      by (auto simp: within_limits_def c' cache_Peek_list moveToFront_def peek_list_def)
  qed
  then show "cache_wf c'" "within_limits c \<Longrightarrow> within_limits c'" "cache_Peek j c' = cache_Peek j c" by blast+
qed

lemma cache_Remove_ok:
  assumes "cache_wf c"
  shows "cache_wf (cache_Remove k c)" "cache_Peek j (cache_Remove k c) = (if j = k then None else cache_Peek j c)"
    "within_limits c \<Longrightarrow> \<forall>e \<in> set (elems c). ceSize e \<ge> 0 \<Longrightarrow> within_limits (cache_Remove k c)"
proof -
  show "cache_wf (cache_Remove k c)"
    using assms sum_removeElement [of "elems c"] removeElement_keys(1) [of "elems c" k]
    by (auto simp: cache_Remove_def cache_wf_def split: option.splits dest!: cache_find_Some [OF assms, THEN iffD1])
  show "cache_Peek j (cache_Remove k c) = (if j = k then None else cache_Peek j c)"
    using peek_removeElement [of k "elems c"]
    by (cases "cache_find k c") (auto simp: cache_Remove_def cache_Peek_list, simp add: cache_Peek_list [symmetric] cache_Peek_def)
  show "within_limits c \<Longrightarrow> \<forall>e \<in> set (elems c). ceSize e \<ge> 0 \<Longrightarrow> within_limits (cache_Remove k c)"
    using length_filter_le [of "\<lambda>e. ceKey e \<noteq> k" "elems c"]
    by (auto simp: cache_Remove_def within_limits_def removeElement_def split: option.splits
        dest!: cache_find_Some [OF assms, THEN iffD1] intro: order_trans [of _ "int (length (elems c))"])
qed

lemma peek_take: "peek_list (take n es) \<subseteq>\<^sub>m peek_list es"
proof -
  have "peek_list es = peek_list (drop n es) ++ peek_list (take n es)"
    unfolding peek_list_def by (metis append_take_drop_id map_append map_of_append)
  then show ?thesis by (metis map_le_map_add)
qed

lemma cache_Put_le:
  assumes "cache_wf c"
  shows "(\<lambda>j. cache_Peek j (cache_Put sz k v c)) \<subseteq>\<^sub>m (\<lambda>j. cache_Peek j c)(k \<mapsto> v)"
proof -
  have evict: "(\<lambda>j. cache_Peek j (evictExcessLocked c')) \<subseteq>\<^sub>m (\<lambda>j. cache_Peek j c')" if "cache_wf c'" for c'
    using evictExcess_ok [OF that] peek_take by (auto simp: cache_Peek_list)
  show ?thesis
  proof (cases "cache_find k c")
    case None
    let ?c = "c\<lparr>curBytes := curBytes c + sz k v, elems := \<lparr>ceKey = k, ceValue = v, ceSize = sz k v\<rparr> # elems c\<rparr>"
    have "cache_wf ?c" using assms None by (simp add: cache_wf_def cache_find_None)
    from evict [OF this] show ?thesis
      using None by (simp add: cache_Put_def cache_Peek_list Let_def peek_list_def fun_upd_def)
  next
    case (Some e)
    let ?e = "e\<lparr>ceValue := v, ceSize := sz k v\<rparr>"
    have k: "ceKey ?e = k" using Some assms by (simp add: cache_find_Some)
    have "(\<lambda>j. cache_Peek j (c\<lparr>curBytes := curBytes c + (ceSize ?e - ceSize e), elems := moveToFront ?e (elems c)\<rparr>)) =
        (\<lambda>j. cache_Peek j c)(k \<mapsto> v)"
      using k peek_removeElement [of k "elems c"] by (auto simp: cache_Peek_list moveToFront_def peek_list_def fun_eq_iff)
    with evict [OF moveToFront_wf [OF assms Some k]] show ?thesis
      using Some by (simp add: cache_Put_def Let_def)
  qed
qed

end
