(* ===== verification/SdsView.thy ===== *)
theory SdsView
  imports SdsIndex SdsCache
begin

text \<open>
  \<^verbatim>\<open>pkg/sds/view/view.go\<close> and \<^verbatim>\<open>applier.go\<close>: a view of a local index. Committed changes are held in an overlay
  and in a queue, from which a worker applies them to the index in batches; reads look at the
  overlay, a cache and the index.

  The worker and the readers hold the mutex of the view only in parts: every part is an operation
  of its own, and the interleavings are sequences of them. The checks that rows are not modified,
  which only tests enable, the conditions on which writers and flushes wait, and the delays of the
  worker are left out. The function \<open>upd\<close> that keeps statistics up to date is an argument.
\<close>

subsection \<open>The state\<close>

type_synonym CacheKey = "string \<times> Key"

record 'm CachedRow =
  crMsg :: "'m option"
  crExists :: bool

definition CacheSizeFn :: "CacheKey \<Rightarrow> 'm CachedRow \<Rightarrow> int" where
  "CacheSizeFn k v = int (length (fst k) + length (raw (snd k)) + 96) + (if crExists v then 128 else 0)"

record 'm OverlayEntry =
  oeOp :: Op
  oeRow :: "'m option"
  oeSeq :: uint64
  oeSize :: int

record ('p, 'm, 'i) View =
  vIndex :: "'i option"
  vReg :: "'p Registry option"
  vCache :: "(CacheKey, 'm CachedRow) LRUCache"
  cacheDisabled :: bool
  unappliedBytes :: int
  overlay :: "(CacheKey \<times> 'm OverlayEntry) list"
  queue :: "'m Change list"
  appliedPos :: uint64
  batchSize :: int
  statsRow :: "'m option"
  loadErr :: "error option"
  failures :: uint64
  consecutiveErr :: uint32
  isDegraded :: bool

type_synonym 'm StatsUpdateFunc = "'m \<Rightarrow> 'm option \<Rightarrow> 'm option \<Rightarrow> error + 'm"
  \<comment> \<open>the statistics are modified in place: the new ones are the result\<close>

definition view_table :: "'p Registry option \<Rightarrow> 'm Change \<Rightarrow> string" where
  "view_table reg ch = (case reg of Some r \<Rightarrow> change_table r ch | None \<Rightarrow> chTypeName ch)"

definition normalized :: "'p Registry option \<Rightarrow> 'm Change \<Rightarrow> 'm Change" where
  "normalized reg ch = ch\<lparr>chTypeName := view_table reg ch, chKey := change_key ch\<rparr>"

definition cache_key :: "'m Change \<Rightarrow> CacheKey" where
  \<comment> \<open>of a change that is normalized\<close>
  "cache_key ch = (chTypeName ch, chKey ch)"

definition cache_row :: "'m Change \<Rightarrow> ('p, 'm, 'i) View \<Rightarrow> ('p, 'm, 'i) View" where
  \<comment> \<open>what is cached for a change that is in the index\<close>
  "cache_row ch v =
     (if cacheDisabled v then v
      else case chOp ch of
        DELETE \<Rightarrow> v\<lparr>vCache := cache_Put CacheSizeFn (cache_key ch) \<lparr>crMsg = None, crExists = False\<rparr> (vCache v)\<rparr>
      | UnknownOp _ \<Rightarrow> v
      | _ \<Rightarrow>
          (case chRow ch of
             Some row \<Rightarrow> v\<lparr>vCache := cache_Put CacheSizeFn (cache_key ch) \<lparr>crMsg = Some row, crExists = True\<rparr> (vCache v)\<rparr>
           | None \<Rightarrow> v\<lparr>vCache := cache_Remove (cache_key ch) (vCache v)\<rparr>))"

subsection \<open>Statistics\<close>

fun UpdateStatsFromChanges ::
  "('p, 'v, 'm) protobuf \<Rightarrow> 'm StatsUpdateFunc \<Rightarrow> 'p Registry option \<Rightarrow> (string \<Rightarrow> Key \<Rightarrow> error + 'm option) \<Rightarrow>
   (CacheKey \<times> 'm option) list \<Rightarrow> 'm Change list \<Rightarrow> 'm \<Rightarrow> error + 'm" where
  "UpdateStatsFromChanges P update reg beforeLookup latestInBatch [] stats = Inr stats"
| "UpdateStatsFromChanges P update reg beforeLookup latestInBatch (ch # chs) stats =
     (let typeName = view_table reg ch; key = change_key ch
      in if typeName = mdName (MsgDescriptor P stats)
         then UpdateStatsFromChanges P update reg beforeLookup latestInBatch chs stats
         else case (case map_of latestInBatch (typeName, key) of Some prev \<Rightarrow> Inr prev | None \<Rightarrow> beforeLookup typeName key) of
           Inl e \<Rightarrow> Inl e
         | Inr before \<Rightarrow>
             (case (if chOp ch = CREATE \<or> chOp ch = UPDATE then
                      case (chRow ch, reg) of
                        (None, Some r) \<Rightarrow>
                          if length (chRawKey ch) > 0 \<or> length (chRawVal ch) > 0 then
                            (case LookupByName r typeName of
                               None \<Rightarrow> Inl (ErrMsg ''type not in registry'')
                             | Some (def, _) \<Rightarrow>
                                 (case ResolveMessageType r (tdId def) of
                                    Inl e \<Rightarrow> Inl e
                                  | Inr msgType \<Rightarrow>
                                      (case MergeKeyAndNonKey P (New P msgType) (chRawKey ch) (chRawVal ch) of
                                         Inl e \<Rightarrow> Inl e
                                       | Inr target \<Rightarrow> Inr (Some target))))
                          else Inr None
                      | (row, _) \<Rightarrow> Inr row
                    else Inr None) of
                Inl e \<Rightarrow> Inl e
              | Inr after \<Rightarrow>
                  (case update stats before after of
                     Inl e \<Rightarrow> Inl e
                   | Inr stats \<Rightarrow>
                       UpdateStatsFromChanges P update reg beforeLookup (AList.update (typeName, key) after latestInBatch)
                         chs stats)))"

definition stats_change ::
  "('p, 'v, 'm) protobuf \<Rightarrow> 'p TypeDefinition \<Rightarrow> 'm \<Rightarrow> uint64 \<Rightarrow> error + 'm Change" where
  "stats_change P def stats seq =
     (case SplitKeyAndNonKey P stats (tdKeyFields def) of
        Inl e \<Rightarrow> Inl e
      | Inr (keyBytes, valBytes) \<Rightarrow>
          Inr \<lparr>chSeq = seq, chTypeID = tdId def, chTypeName = mdName (MsgDescriptor P stats), chOp = UPDATE, chTxID = 0,
               chKey = NewKeyFromBytes keyBytes, chRawKey = keyBytes, chRawVal = valBytes, chRow = Some stats\<rparr>)"

definition computeBatchStats ::
  "('p, 'v, 'm) protobuf \<Rightarrow> ('p, 'm, 'i) LocalIndex \<Rightarrow> 'm StatsUpdateFunc option \<Rightarrow> 'm Change list \<Rightarrow> 'm option \<Rightarrow> uint64 \<Rightarrow>
   ('p, 'm, 'i) View \<Rightarrow> error + 'm Change list \<times> 'm option" where
  "computeBatchStats P ix upd chs baseStats batchSeq v =
     (case (statsRow v, upd, vIndex v, baseStats) of
        (Some _, Some update, Some index, Some base) \<Rightarrow>
          (case (if chs = [] then Inr base
                 else UpdateStatsFromChanges P update (vReg v) (\<lambda>t k. IndexGet ix t k index) [] chs base) of
             Inl e \<Rightarrow> Inl e
           | Inr newStats \<Rightarrow>
               (case vReg v of
                  None \<Rightarrow> Inl (Panic ''nil pointer dereference'')
                | Some reg \<Rightarrow>
                    (case LookupByName reg (mdName (MsgDescriptor P newStats)) of
                       None \<Rightarrow> Inr (chs, baseStats)
                     | Some (def, _) \<Rightarrow>
                         (case stats_change P def newStats batchSeq of
                            Inl e \<Rightarrow> Inl e
                          | Inr statsChange \<Rightarrow> Inr (chs @ [statsChange], Some newStats)))))
      | _ \<Rightarrow> Inr (chs, baseStats))"

subsection \<open>Queueing changes\<close>

definition overlay_change :: "'m Change \<Rightarrow> ('p, 'm, 'i) View \<Rightarrow> ('p, 'm, 'i) View" where
  "overlay_change ch v =
     (let ck = cache_key ch;
          sz = int (length (chRawKey ch) + length (chRawVal ch) + 64);
          old = (case map_of (overlay v) ck of Some e \<Rightarrow> oeSize e | None \<Rightarrow> 0)
      in v\<lparr>unappliedBytes := unappliedBytes v - old + sz,
           overlay := AList.update ck \<lparr>oeOp = chOp ch, oeRow = chRow ch, oeSeq = chSeq ch, oeSize = sz\<rparr> (overlay v),
           vCache := if cacheDisabled v then vCache v else cache_Remove ck (vCache v)\<rparr>)"

definition enqueueLocked :: "'m Change list \<Rightarrow> ('p, 'm, 'i) View \<Rightarrow> ('p, 'm, 'i) View" where
  "enqueueLocked chs v = (if chs = [] then v else v\<lparr>queue := queue v @ chs\<rparr>)"

definition ApplyChanges :: "'m Change list \<Rightarrow> ('p, 'm, 'i) View \<Rightarrow> ('p, 'm, 'i) View" where
  \<comment> \<open>the changes are appended to the queue, and then appended to it again by \<open>enqueueLocked\<close>\<close>
  "ApplyChanges chs v =
     (if chs = [] then v
      else
        let ns = map (normalized (vReg v)) chs;
            v = fold overlay_change ns v;
            v = v\<lparr>queue := queue v @ ns\<rparr>
        in enqueueLocked ns v)"

subsection \<open>The worker\<close>

function cut_at :: "nat \<Rightarrow> nat \<Rightarrow> 'm Change list \<Rightarrow> nat" where
  \<comment> \<open>\<open>batchLimit\<close>, of which \<open>n\<close> is what has been counted: batches end where the sequence number changes\<close>
  "cut_at targetSize n [] = n"
| "cut_at targetSize n (c # cs) =
     (let n' = n + 1 + length (takeWhile (\<lambda>d. chSeq d = chSeq c) cs)
      in if n' \<ge> targetSize then n' else cut_at targetSize n' (dropWhile (\<lambda>d. chSeq d = chSeq c) cs))"
  by pat_completeness auto
termination
  by (relation "measure (length \<circ> snd \<circ> snd)") (simp_all add: length_dropWhile_le less_Suc_eq_le)

record 'm job =
  batchLimit :: nat
  batch :: "'m Change list"
  coalescedMap :: "(CacheKey \<times> 'm Change) list"
    \<comment> \<open>in the order in which the keys occur first\<close>
  batchMaxSeq :: uint64

definition coalesce :: "'m Change list \<Rightarrow> (CacheKey \<times> 'm Change) list" where
  "coalesce chs = fold (\<lambda>ch. AList.update (cache_key ch) ch) chs []"

definition defaultApplierBatchSize :: nat where "defaultApplierBatchSize = 100"

definition applier_cut :: "('p, 'm, 'i) View \<Rightarrow> 'm job option" where
  \<comment> \<open>the first part, with the mutex of the view held: nothing is changed\<close>
  "applier_cut v =
     (if queue v = [] then None
      else
        let n = cut_at (if batchSize v \<le> 0 then defaultApplierBatchSize else nat (batchSize v)) 0 (queue v);
            ns = map (normalized (vReg v)) (take n (queue v))
        in Some \<lparr>batchLimit = n, batch = take n (queue v), coalescedMap = coalesce ns, batchMaxSeq = max_seq ns 0\<rparr>)"

definition coalescedChanges :: "'m job \<Rightarrow> 'm Change list" where
  "coalescedChanges j = map (\<lambda>(_, ch). ch\<lparr>chSeq := batchMaxSeq j\<rparr>) (coalescedMap j)"

definition applier_apply ::
  "('p, 'v, 'm) protobuf \<Rightarrow> ('p, 'm, 'i) LocalIndex \<Rightarrow> 'm StatsUpdateFunc option \<Rightarrow> 'm job \<Rightarrow> ('p, 'm, 'i) View \<Rightarrow>
   error option \<times> ('p, 'm, 'i) View" where
  \<comment> \<open>the second part, with the mutex of the index held\<close>
  "applier_apply P ix upd j v =
     (case vIndex v of
        None \<Rightarrow> (None, v)
      | Some index \<Rightarrow>
          if coalescedChanges j = [] then (None, v)
          else case computeBatchStats P ix upd (batch j) (statsRow v) (batchMaxSeq j) v of
            Inl e \<Rightarrow> (Some e, v)
          | Inr (toApply, newStats) \<Rightarrow>
              let extra = (if length toApply > length (batch j) then [last toApply] else [])
              in case ApplyBatch ix (coalescedChanges j @ extra) index of
                (Some e, index) \<Rightarrow> (Some e, v\<lparr>vIndex := Some index\<rparr>)
              | (None, index) \<Rightarrow>
                  (None, v\<lparr>vIndex := Some index, statsRow := if upd \<noteq> None then newStats else statsRow v\<rparr>))"

definition defaultDegradedThreshold :: uint32 where "defaultDegradedThreshold = 3"

definition applier_failed :: "('p, 'm, 'i) View \<Rightarrow> ('p, 'm, 'i) View" where
  \<comment> \<open>the batch stays in the queue and is tried again\<close>
  "applier_failed v =
     v\<lparr>failures := failures v + 1, consecutiveErr := consecutiveErr v + 1,
       isDegraded := isDegraded v \<or> consecutiveErr v + 1 \<ge> defaultDegradedThreshold\<rparr>"

definition clean_overlay :: "'m job \<Rightarrow> CacheKey \<times> 'm Change \<Rightarrow> ('p, 'm, 'i) View \<Rightarrow> ('p, 'm, 'i) View" where
  "clean_overlay j = (\<lambda>(ck, ch) v.
     case map_of (overlay v) ck of
       None \<Rightarrow> v
     | Some e \<Rightarrow>
         if oeSeq e \<le> batchMaxSeq j
         then cache_row ch (v\<lparr>overlay := AList.delete ck (overlay v), unappliedBytes := max 0 (unappliedBytes v - oeSize e)\<rparr>)
         else v)"

definition applier_done :: "'m job \<Rightarrow> ('p, 'm, 'i) View \<Rightarrow> ('p, 'm, 'i) View" where
  \<comment> \<open>the third part, with the mutex of the view held\<close>
  "applier_done j v =
     (let v = v\<lparr>isDegraded := False, consecutiveErr := 0, queue := drop (batchLimit j) (queue v)\<rparr>;
          v = fold (clean_overlay j) (coalescedMap j) v
      in if batchMaxSeq j > appliedPos v then v\<lparr>appliedPos := batchMaxSeq j\<rparr> else v)"

subsection \<open>Reading\<close>

definition get_overlay :: "string \<Rightarrow> Key \<Rightarrow> ('p, 'm, 'i) View \<Rightarrow> 'm option option" where
  "get_overlay typeName key v =
     (case map_of (overlay v) (typeName, key) of
        None \<Rightarrow> None
      | Some e \<Rightarrow> Some (if oeOp e = DELETE then None else oeRow e))"

definition get_cache :: "string \<Rightarrow> Key \<Rightarrow> ('p, 'm, 'i) View \<Rightarrow> 'm option option \<times> ('p, 'm, 'i) View" where
  "get_cache typeName key v =
     (if cacheDisabled v then (None, v)
      else case cache_Get (typeName, key) (vCache v) of
        (None, c) \<Rightarrow> (None, v\<lparr>vCache := c\<rparr>)
      | (Some row, c) \<Rightarrow> (Some (if \<not> crExists row then None else crMsg row), v\<lparr>vCache := c\<rparr>))"

definition get_index :: "('p, 'm, 'i) LocalIndex \<Rightarrow> string \<Rightarrow> Key \<Rightarrow> ('p, 'm, 'i) View \<Rightarrow> error + 'm option" where
  "get_index ix typeName key v = (case vIndex v of None \<Rightarrow> Inr None | Some index \<Rightarrow> IndexGet ix typeName key index)"

definition get_fill :: "string \<Rightarrow> Key \<Rightarrow> 'm option \<Rightarrow> ('p, 'm, 'i) View \<Rightarrow> ('p, 'm, 'i) View" where
  "get_fill typeName key msg v =
     (if cacheDisabled v then v
      else v\<lparr>vCache := cache_Put CacheSizeFn (typeName, key) \<lparr>crMsg = msg, crExists = msg \<noteq> None\<rparr> (vCache v)\<rparr>)"

definition View_Get ::
  "('p, 'm, 'i) LocalIndex \<Rightarrow> string \<Rightarrow> Key \<Rightarrow> ('p, 'm, 'i) View \<Rightarrow> (error + 'm option) \<times> ('p, 'm, 'i) View" where
  \<comment> \<open>the four parts in a row, as they run when nothing else does\<close>
  "View_Get ix typeName key v =
     (case get_overlay typeName key v of
        Some r \<Rightarrow> (Inr r, v)
      | None \<Rightarrow>
          (case get_cache typeName key v of
             (Some r, v) \<Rightarrow> (Inr r, v)
           | (None, v) \<Rightarrow>
               if vIndex v = None then (Inr None, v)
               else case get_index ix typeName key v of
                 Inl e \<Rightarrow> (Inl e, v)
               | Inr msg \<Rightarrow> (Inr msg, get_fill typeName key msg v)))"

definition scan_key :: "('p, 'v, 'm) protobuf \<Rightarrow> int list \<Rightarrow> 'm \<Rightarrow> error + Key" where
  \<comment> \<open>the key of a row of the index; all of its bytes if there are no key fields\<close>
  "scan_key P keyFields msg =
     (case (if keyFields \<noteq> [] then ExtractKey P msg keyFields else Inr (MkKey [])) of
        Inl e \<Rightarrow> Inl e
      | Inr k \<Rightarrow>
          if IsZero k then
            (case CheckInitialized P msg of
               Some e \<Rightarrow> Inl e
             | None \<Rightarrow> (case Marshal P msg of Inl e \<Rightarrow> Inl e | Inr b \<Rightarrow> Inr (NewKeyFromBytes b)))
          else Inr k)"

fun scan_merge ::
  "('p, 'v, 'm) protobuf \<Rightarrow> int list \<Rightarrow> (Key \<times> 'm OverlayEntry) list \<Rightarrow> (error + 'm) list \<Rightarrow> (Key \<times> 'm) list \<Rightarrow>
   error + (Key \<times> 'm) list" where
  \<comment> \<open>the rows of the index that the overlay does not replace\<close>
  "scan_merge P keyFields snapshot [] merged = Inr merged"
| "scan_merge P keyFields snapshot (Inl e # rs) merged = Inl e"
| "scan_merge P keyFields snapshot (Inr msg # rs) merged =
     (case scan_key P keyFields msg of
        Inl e \<Rightarrow> Inl e
      | Inr k \<Rightarrow>
          scan_merge P keyFields snapshot rs
            (if IsZero k \<or> map_of snapshot k \<noteq> None then merged else AList.update k msg merged))"

definition View_ScanSlice ::
  "('p, 'v, 'm) protobuf \<Rightarrow> ('p, 'm, 'i) LocalIndex \<Rightarrow> string \<Rightarrow> bytes \<Rightarrow> ('p, 'm, 'i) View \<Rightarrow> error + 'm list" where
  \<comment> \<open>with \<open>Scan\<close>, which yields either an error or all rows\<close>
  "View_ScanSlice P ix typeName keyPrefix v =
     (let keyFields = (case vReg v of
            None \<Rightarrow> []
          | Some reg \<Rightarrow> (case LookupByName reg typeName of Some (def, _) \<Rightarrow> tdKeyFields def | None \<Rightarrow> []));
          snapshot = map (\<lambda>((_, k), e). (k, e)) (filter (\<lambda>((t, k), _). t = typeName \<and> has_prefix keyPrefix k) (overlay v));
          scanned = (case vIndex v of None \<Rightarrow> [] | Some index \<Rightarrow> IndexScan ix typeName keyPrefix index)
      in case scan_merge P keyFields snapshot scanned [] of
           Inl e \<Rightarrow> Inl e
         | Inr merged \<Rightarrow>
             Inr (map snd (sort_key (raw \<circ> fst)
               (fold (\<lambda>(k, e) merged. if oeOp e \<noteq> DELETE then (case oeRow e of Some row \<Rightarrow> AList.update k row merged | None \<Rightarrow> merged)
                                       else merged) snapshot merged))))"

subsection \<open>Applying changes at once\<close>

definition ApplyChangesSync ::
  "('p, 'v, 'm) protobuf \<Rightarrow> ('p, 'm, 'i) LocalIndex \<Rightarrow> 'm StatsUpdateFunc option \<Rightarrow> 'm Change list \<Rightarrow> ('p, 'm, 'i) View \<Rightarrow>
   error option \<times> ('p, 'm, 'i) View" where
  "ApplyChangesSync P ix upd chs v =
     (if chs = [] then (None, v)
      else
        let maxSeq = max_seq chs (appliedPos v)
        in case computeBatchStats P ix upd chs (statsRow v) maxSeq v of
             Inl e \<Rightarrow> (Some e, v)
           | Inr (toApply, newStats) \<Rightarrow>
               (case (case vIndex v of
                        None \<Rightarrow> (None, None)
                      | Some index \<Rightarrow> (case ApplyBatch ix toApply index of (e, index) \<Rightarrow> (e, Some index))) of
                  (Some e, index) \<Rightarrow> (Some e, v\<lparr>vIndex := index\<rparr>)
                | (None, index) \<Rightarrow>
                    let v = v\<lparr>vIndex := index, statsRow := if upd \<noteq> None then newStats else statsRow v\<rparr>;
                        v = fold (\<lambda>ch v. cache_row (normalized (vReg v) ch) v) chs v
                    in (None, if maxSeq > appliedPos v then v\<lparr>appliedPos := maxSeq\<rparr> else v)))"
subsection \<open>The index behind the view\<close>

fun stats_scan ::
  "'m StatsUpdateFunc \<Rightarrow> (error + 'm) list \<Rightarrow> bool \<times> 'm \<Rightarrow> error + bool \<times> 'm" where
  "stats_scan update [] s = Inr s"
| "stats_scan update (Inl e # rs) s = Inl e"
| "stats_scan update (Inr row # rs) (_, stats) =
     (case update stats None (Some row) of Inl e \<Rightarrow> Inl e | Inr stats \<Rightarrow> stats_scan update rs (True, stats))"

definition loadStatsLocked ::
  "('p, 'v, 'm) protobuf \<Rightarrow> ('p, 'm, 'i) LocalIndex \<Rightarrow> 'm StatsUpdateFunc option \<Rightarrow> ('p, 'm, 'i) View \<Rightarrow> 'p typeDefCache \<Rightarrow>
   error option \<times> ('p, 'm, 'i) View \<times> 'p typeDefCache" where
  "loadStatsLocked P ix upd v cache =
     (case (vIndex v, statsRow v, upd, vReg v) of
        (Some index, Some stats, Some update, Some reg) \<Rightarrow>
          (let statsTypeName = mdName (MsgDescriptor P stats)
           in case LookupByName reg statsTypeName of
                None \<Rightarrow> (None, v, cache)
              | Some (def, _) \<Rightarrow>
                  (case SyncRegistry ix reg index cache of
                     (Some e, index, cache) \<Rightarrow> (Some e, v\<lparr>vIndex := Some index\<rparr>, cache)
                   | (None, index, cache) \<Rightarrow>
                       let v = v\<lparr>vIndex := Some index\<rparr>
                       in case ExtractKey P stats (tdKeyFields def) of
                            Inl e \<Rightarrow> (Some e, v, cache)
                          | Inr statsKey \<Rightarrow>
                              (case IndexGet ix statsTypeName statsKey index of
                                 Inl e \<Rightarrow> (Some e, v, cache)
                               | Inr (Some msg) \<Rightarrow> (None, v\<lparr>statsRow := Some msg\<rparr>, cache)
                               | Inr None \<Rightarrow>
                                   (case stats_scan update
                                           (concat (map (\<lambda>tdef. IndexScan ix (tdName tdef) [] index)
                                             (filter (\<lambda>tdef. tdName tdef \<noteq> statsTypeName) (Export reg)))) (False, stats) of
                                      Inl e \<Rightarrow> (Some e, v, cache)
                                    | Inr (hasRows, newStats) \<Rightarrow>
                                        if hasRows \<or> Position ix index > 0 then
                                          (case stats_change P def newStats (Position ix index) of
                                             Inl e \<Rightarrow> (Some e, v, cache)
                                           | Inr statsChange \<Rightarrow>
                                               (case ApplyBatch ix [statsChange\<lparr>chTypeName := statsTypeName, chKey := statsKey\<rparr>] index of
                                                  (Some e, index) \<Rightarrow> (Some e, v\<lparr>vIndex := Some index\<rparr>, cache)
                                                | (None, index) \<Rightarrow>
                                                    (None, v\<lparr>vIndex := Some index, statsRow := Some newStats\<rparr>, cache)))
                                        else (None, v\<lparr>statsRow := Some newStats\<rparr>, cache)))))
      | _ \<Rightarrow> (None, v, cache))"

definition NewView ::
  "('p, 'v, 'm) protobuf \<Rightarrow> ('p, 'm, 'i) LocalIndex \<Rightarrow> 'm StatsUpdateFunc option \<Rightarrow> ('p, 'm, 'i) View \<Rightarrow> 'p typeDefCache \<Rightarrow>
   ('p, 'm, 'i) View \<times> 'p typeDefCache" where
  \<comment> \<open>\<open>New\<close>, from a view with the index and the options set\<close>
  "NewView P ix upd v cache =
     (let v = v\<lparr>vCache := NewLRUCacheWithLimits (capacity (vCache v)) (maxBytes (vCache v)), overlay := [], queue := [],
                unappliedBytes := 0, failures := 0, consecutiveErr := 0, isDegraded := False, loadErr := None\<rparr>
      in case vIndex v of
           None \<Rightarrow> (v, cache)
         | Some index \<Rightarrow>
             (case loadStatsLocked P ix upd (v\<lparr>appliedPos := Position ix index\<rparr>) cache of
                (e, v, cache) \<Rightarrow> (v\<lparr>loadErr := e\<rparr>, cache)))"

definition SetIndex ::
  "('p, 'v, 'm) protobuf \<Rightarrow> ('p, 'm, 'i) LocalIndex \<Rightarrow> 'm StatsUpdateFunc option \<Rightarrow> 'i option \<Rightarrow> ('p, 'm, 'i) View \<Rightarrow>
   'p typeDefCache \<Rightarrow> error option \<times> ('p, 'm, 'i) View \<times> 'p typeDefCache" where
  "SetIndex P ix upd index v cache =
     (let v = v\<lparr>vIndex := index, loadErr := None\<rparr>
      in case index of
           None \<Rightarrow> (None, v, cache)
         | Some i \<Rightarrow>
             (case loadStatsLocked P ix upd (v\<lparr>appliedPos := Position ix i\<rparr>) cache of
                (e, v, cache) \<Rightarrow> (e, v\<lparr>loadErr := e\<rparr>, cache)))"

definition trimQueueAndOverlayLocked :: "uint64 \<Rightarrow> ('p, 'm, 'i) View \<Rightarrow> ('p, 'm, 'i) View" where
  "trimQueueAndOverlayLocked newPos v =
     v\<lparr>queue := dropWhile (\<lambda>ch. chSeq ch \<le> newPos) (queue v),
       overlay := filter (\<lambda>(_, e). \<not> oeSeq e \<le> newPos) (overlay v),
       unappliedBytes := fold (\<lambda>(_, e) n. if oeSeq e \<le> newPos then max 0 (n - oeSize e) else n) (overlay v) (unappliedBytes v)\<rparr>"

definition Rebuild ::
  "('p, 'v, 'm) protobuf \<Rightarrow> ('p, 'm, 'i) LocalIndex \<Rightarrow> 'm StatsUpdateFunc option \<Rightarrow> (error + 'i option \<times> uint64) option \<Rightarrow>
   ('p, 'm, 'i) View \<Rightarrow> 'p typeDefCache \<Rightarrow> error option \<times> ('p, 'm, 'i) View \<times> 'p typeDefCache" where
  \<comment> \<open>with what \<open>rebuildFunc\<close> returns, if there is one; the worker does the same after an unrecoverable error\<close>
  "Rebuild P ix upd rebuilt v cache =
     (case rebuilt of
        None \<Rightarrow> (Some (ErrMsg ''no rebuild function configured''), v, cache)
      | Some (Inl e) \<Rightarrow> (Some e, v, cache)
      | Some (Inr (newIndex, newPos)) \<Rightarrow>
          (let v = v\<lparr>vIndex := newIndex, loadErr := None,
                     appliedPos := if newPos > appliedPos v then newPos else appliedPos v\<rparr>;
               (e, v, cache) = (if newIndex = None then (None, v, cache) else loadStatsLocked P ix upd v cache);
               v = trimQueueAndOverlayLocked newPos (v\<lparr>loadErr := e\<rparr>);
               v = v\<lparr>vCache := if cacheDisabled v then vCache v else cache_Clear (vCache v),
                     isDegraded := False, consecutiveErr := 0\<rparr>
           in (None, v, cache)))"

definition View_SyncRegistry ::
  "('p, 'v, 'm) protobuf \<Rightarrow> ('p, 'm, 'i) LocalIndex \<Rightarrow> 'p Registry \<Rightarrow> ('p, 'm, 'i) View \<Rightarrow> 'p typeDefCache \<Rightarrow>
   error option \<times> ('p, 'm, 'i) View \<times> 'p typeDefCache" where
  "View_SyncRegistry P ix reg v cache =
     (case Import P (Export reg) (case vReg v of Some r \<Rightarrow> r | None \<Rightarrow> NewRegistry) cache of
        (Some e, r, cache) \<Rightarrow> (Some e, v\<lparr>vReg := Some r\<rparr>, cache)
      | (None, r, cache) \<Rightarrow>
          let v = v\<lparr>vReg := Some r\<rparr>
          in case vIndex v of
               None \<Rightarrow> (None, v, cache)
             | Some index \<Rightarrow>
                 (case SyncRegistry ix reg index cache of (e, index, cache) \<Rightarrow> (e, v\<lparr>vIndex := Some index\<rparr>, cache)))"

definition View_Position :: "('p, 'm, 'i) LocalIndex \<Rightarrow> ('p, 'm, 'i) View \<Rightarrow> uint64" where
  "View_Position ix v =
     (case vIndex v of
        Some index \<Rightarrow> if Position ix index > appliedPos v then Position ix index else appliedPos v
      | None \<Rightarrow> appliedPos v)"

definition Lag :: "uint64 \<Rightarrow> ('p, 'm, 'i) View \<Rightarrow> uint64" where
  "Lag currentSeq v = (if currentSeq > appliedPos v then currentSeq - appliedPos v else 0)"
end
