(* ===== verification/SdsViewRun.thy ===== *)
theory SdsViewRun
  imports SdsView
begin

text \<open>
  What a view shows while its worker runs. An execution interleaves calls of \<open>ApplyChanges\<close>, the parts
  of the worker and reads; a read returns the row of the latest change. The lemmas are proved for
  every index that keeps the contract \<open>local_index\<close>.
\<close>

subsection \<open>The latest change of a row\<close>

definition last_for :: "CacheKey \<Rightarrow> 'm Change list \<Rightarrow> 'm Change option" where
  "last_for ck cs = find (\<lambda>c. cache_key c = ck) (rev cs)"

definition row_of :: "'m Change \<Rightarrow> 'm option" where
  "row_of c = (if chOp c = DELETE then None else chRow c)"

definition eff :: "CacheKey \<Rightarrow> 'm Change list \<Rightarrow> 'm option \<Rightarrow> 'm option" where
  "eff ck cs b = (case last_for ck cs of Some c \<Rightarrow> row_of c | None \<Rightarrow> b)"

lemma find_append: "find P (xs @ ys) = (case find P xs of Some x \<Rightarrow> Some x | None \<Rightarrow> find P ys)"
  by (induction xs) simp_all

lemma last_for_simps [simp]:
  "last_for ck [] = None"
  "last_for ck (c # cs) = (case last_for ck cs of Some d \<Rightarrow> Some d | None \<Rightarrow> if cache_key c = ck then Some c else None)"
  "last_for ck (cs @ ds) = (case last_for ck ds of Some d \<Rightarrow> Some d | None \<Rightarrow> last_for ck cs)"
  by (auto simp: last_for_def find_append split: option.splits)

lemma last_for_SomeD: "last_for ck cs = Some c \<Longrightarrow> c \<in> set cs \<and> cache_key c = ck"
  unfolding last_for_def by (auto simp: find_Some_iff) (metis nth_mem set_rev length_rev)

lemma last_for_None: "last_for ck cs = None \<longleftrightarrow> (\<forall>c \<in> set cs. cache_key c \<noteq> ck)"
  by (auto simp: last_for_def find_None_iff)

lemma apply_change_at: "apply_change c f t k = (if cache_key c = (t, k) then row_of c else f t k)"
  by (auto simp: apply_change_def cache_key_def row_of_def)

lemma fold_apply_change: "fold apply_change cs f t k = eff (t, k) cs (f t k)"
  by (induction cs arbitrary: f) (auto simp: eff_def apply_change_at split: option.splits)

lemma eff_append: "eff ck (cs @ ds) b = eff ck ds (eff ck cs b)"
  by (simp add: eff_def split: option.splits)

lemma eff_twice: "eff ck cs (eff ck cs b) = eff ck cs b"
  by (simp add: eff_def split: option.splits)

lemma eff_prefix: "eff ck (cs @ ds) (eff ck cs b) = eff ck (cs @ ds) b"
  by (simp add: eff_append eff_twice)

subsection \<open>Batches\<close>

lemma coalesce_eq: "map_of (coalesce cs) ck = last_for ck cs"
proof -
  have "map_of (fold (\<lambda>ch. AList.update (cache_key ch) ch) cs m) ck =
      (case last_for ck cs of Some c \<Rightarrow> Some c | None \<Rightarrow> map_of m ck)" for m
    by (induction cs arbitrary: m) (auto simp: update_conv split: option.splits)
  then show ?thesis by (simp add: coalesce_def split: option.splits)
qed

lemma distinct_coalesce: "distinct (map fst (coalesce cs))"
proof -
  have "distinct (map fst m) \<Longrightarrow> distinct (map fst (fold (\<lambda>ch. AList.update (cache_key ch) ch) cs m))" for m :: "(CacheKey \<times> _) list"
    by (induction cs arbitrary: m) (simp_all add: distinct_update)
  then show ?thesis by (simp add: coalesce_def)
qed

lemma last_for_coalesced:
  assumes "coalescedMap j = coalesce cs"
  shows "last_for ck (coalescedChanges j) = map_option (\<lambda>c. c\<lparr>chSeq := batchMaxSeq j\<rparr>) (last_for ck cs)"
proof -
  have keys: "cache_key c = k" if "(k, c) \<in> set (coalesce cs)" for k c
    using that distinct_coalesce [of cs] by (metis map_of_eq_Some_iff coalesce_eq last_for_SomeD)
  have gen: "last_for ck (map (\<lambda>(_, ch). ch\<lparr>chSeq := s\<rparr>) m) = map_option (\<lambda>c. c\<lparr>chSeq := s\<rparr>) (map_of m ck)"
    if "distinct (map fst m)" "\<And>k c. (k, c) \<in> set m \<Longrightarrow> cache_key c = k" for m :: "(CacheKey \<times> 'a Change) list" and s
    using that
  proof (induction m)
    case (Cons x m)
    obtain k c where x: "x = (k, c)" by (cases x)
    have k: "cache_key c = k" using Cons.prems(2) x by simp
    have "map_of m k = None" using Cons.prems(1) x by (simp add: map_of_eq_None_iff)
    moreover have "cache_key (c\<lparr>chSeq := s\<rparr>) = cache_key c" by (simp add: cache_key_def)
    ultimately show ?case
      using Cons k by (cases "ck = k"; cases "map_of m ck") (simp_all add: x)
  qed simp
  show ?thesis using gen [OF distinct_coalesce keys] by (simp add: coalescedChanges_def assms coalesce_eq)
qed

lemma eff_coalesced: "coalescedMap j = coalesce cs \<Longrightarrow> eff ck (coalescedChanges j) b = eff ck cs b"
  by (simp add: eff_def last_for_coalesced row_of_def split: option.splits)

lemma max_seq_Cons: "max_seq (d # cs) pos = max_seq cs (if chSeq d > pos then chSeq d else pos)"
  by (simp add: max_seq_def)

lemma max_seq_ge: "pos \<le> max_seq cs pos"
proof (induction cs arbitrary: pos)
  case (Cons d cs)
  have "pos \<le> (if chSeq d > pos then chSeq d else pos)" by (simp add: order_less_imp_le)
  then show ?case unfolding max_seq_Cons using Cons.IH by (rule order_trans)
qed (simp add: max_seq_def)

lemma max_seq_upper: "c \<in> set cs \<Longrightarrow> chSeq c \<le> max_seq cs pos"
proof (induction cs arbitrary: pos)
  case (Cons d cs)
  have "chSeq d \<le> (if chSeq d > pos then chSeq d else pos)" by (simp add: linorder_not_less)
  then have "chSeq d \<le> max_seq (d # cs) pos" unfolding max_seq_Cons using max_seq_ge by (rule order_trans)
  then show ?case using Cons by (auto simp: max_seq_Cons)
qed simp

lemma max_seq_attained: "max_seq cs pos = pos \<or> max_seq cs pos \<in> chSeq ` set cs"
proof (induction cs arbitrary: pos)
  case (Cons d cs)
  from Cons.IH [of "if chSeq d > pos then chSeq d else pos"] show ?case
    by (cases "chSeq d > pos") (auto simp: max_seq_Cons)
qed (simp add: max_seq_def)

lemma max_seq_less:
  assumes "\<forall>c \<in> set cs. chSeq c < n" "cs \<noteq> []"
  shows "max_seq cs 0 < n"
proof -
  have "chSeq (hd cs) < n" using assms by simp
  then have "0 < n" by (rule order_le_less_trans [rotated]) simp
  then show ?thesis using max_seq_attained [of cs 0] assms(1) by force
qed

lemma cut_boundary:
  assumes "sorted (map chSeq cs)"
  shows "\<exists>n. cut_at tgt m cs = m + n \<and> n \<le> length cs \<and> (cs \<noteq> [] \<longrightarrow> n > 0) \<and>
    (\<forall>c \<in> set (take n cs). \<forall>d \<in> set (drop n cs). chSeq c < chSeq d)"
  using assms
proof (induction tgt m cs rule: cut_at.induct)
  case (2 tgt m c cs)
  define same where "same = takeWhile (\<lambda>d. chSeq d = chSeq c) cs"
  define rest where "rest = dropWhile (\<lambda>d. chSeq d = chSeq c) cs"
  have cs: "cs = same @ rest" by (simp add: same_def rest_def)
  have same: "\<forall>d \<in> set same. chSeq d = chSeq c" by (auto simp: same_def dest: set_takeWhileD)
  have sorted_rest: "sorted (map chSeq rest)" using "2.prems" by (simp add: cs sorted_append)
  have later: "chSeq c < chSeq d" if "d \<in> set rest" for d
  proof -
    obtain r rs where r: "rest = r # rs" using \<open>d \<in> set rest\<close> by (cases rest) auto
    have "chSeq r \<noteq> chSeq c" using r by (simp add: rest_def dropWhile_eq_Cons_conv)
    moreover have "chSeq c \<le> chSeq r" using "2.prems" by (simp add: cs r)
    moreover have "chSeq r \<le> chSeq d" using sorted_rest \<open>d \<in> set rest\<close> r by auto
    ultimately show ?thesis by simp
  qed
  have cut: "cut_at tgt m (c # cs) = (if tgt \<le> m + 1 + length same then m + 1 + length same else cut_at tgt (m + 1 + length same) rest)"
    by (simp add: same_def rest_def Let_def)
  show ?case
  proof (cases "tgt \<le> m + 1 + length same")
    case True
    have "\<forall>x \<in> set (take (1 + length same) (c # cs)). \<forall>d \<in> set (drop (1 + length same) (c # cs)). chSeq x < chSeq d"
      using later same by (auto simp: cs)
    moreover have "1 + length same \<le> length (c # cs)" by (simp add: cs)
    ultimately show ?thesis unfolding cut using True by (intro exI [of _ "1 + length same"]) simp
  next
    case False
    from "2.IH" [OF refl _ sorted_rest [unfolded rest_def]] False
    obtain n where n: "cut_at tgt (m + 1 + length same) rest = m + 1 + length same + n" "n \<le> length rest"
        "\<forall>c \<in> set (take n rest). \<forall>d \<in> set (drop n rest). chSeq c < chSeq d"
      by (auto simp: same_def rest_def)
    have "\<forall>x \<in> set (take (1 + length same + n) (c # cs)). \<forall>d \<in> set (drop (1 + length same + n) (c # cs)). chSeq x < chSeq d"
      using later same n(3) by (auto simp: cs dest: in_set_dropD)
    moreover have "1 + length same + n \<le> length (c # cs)" using n(2) by (simp add: cs)
    ultimately show ?thesis unfolding cut using False n(1) by (intro exI [of _ "1 + length same + n"]) simp
  qed
qed simp

subsection \<open>Executions\<close>

datatype 'm phase = Idle | Cut "'m job" | Applied "'m job"
  \<comment> \<open>of the worker\<close>

inductive view_step ::
  "('p, 'v, 'm) protobuf \<Rightarrow> ('p, 'm, 'i) LocalIndex \<Rightarrow> 'm StatsUpdateFunc option \<Rightarrow>
   ('p, 'm, 'i) View \<times> 'm phase \<times> 'm Change list \<Rightarrow> ('p, 'm, 'i) View \<times> 'm phase \<times> 'm Change list \<Rightarrow> bool"
  for P ix upd where
  commit: "list_all proper chs \<Longrightarrow> (\<forall>c \<in> set chs. chSeq c = n) \<Longrightarrow> (\<forall>c \<in> set hist. chSeq c < n) \<Longrightarrow>
    view_step P ix upd (v, ph, hist) (ApplyChanges chs v, ph, hist @ chs)"
| worker_cut: "applier_cut v = Some j \<Longrightarrow> view_step P ix upd (v, Idle, hist) (v, Cut j, hist)"
| worker_apply: "applier_apply P ix upd j v = (None, v') \<Longrightarrow> view_step P ix upd (v, Cut j, hist) (v', Applied j, hist)"
| worker_fail: "applier_apply P ix upd j v = (Some e, v') \<Longrightarrow>
    view_step P ix upd (v, Cut j, hist) (applier_failed v', Idle, hist)"
| worker_done: "view_step P ix upd (v, Applied j, hist) (applier_done j v, Idle, hist)"
| read: "View_Get ix t k v = (r, v') \<Longrightarrow> view_step P ix upd (v, ph, hist) (v', ph, hist)"
  \<comment> \<open>the changes of a transaction have the number of its commit, which is above all earlier ones\<close>

definition overlay_of :: "('p, 'm, 'i) View \<Rightarrow> CacheKey \<Rightarrow> (Op \<times> 'm option \<times> uint64) option" where
  "overlay_of v ck = map_option (\<lambda>e. (oeOp e, oeRow e, oeSeq e)) (map_of (overlay v) ck)"

definition summary :: "'m Change \<Rightarrow> Op \<times> 'm option \<times> uint64" where
  "summary c = (chOp c, chRow c, chSeq c)"

definition shown :: "'m CachedRow \<Rightarrow> 'm option" where
  "shown row = (if crExists row then crMsg row else None)"

definition cached_of :: "('p, 'm, 'i) View \<Rightarrow> CacheKey \<Rightarrow> 'm option option" where
  "cached_of v ck =
     (if cacheDisabled v then None
      else map_option shown (cache_Peek ck (vCache v)))"

lemma overlay_fold:
  "overlay_of (fold overlay_change cs v) ck = (case last_for ck cs of Some c \<Rightarrow> Some (summary c) | None \<Rightarrow> overlay_of v ck)"
proof (induction cs arbitrary: v)
  case (Cons c cs)
  have "overlay_of (overlay_change c v) ck = (if cache_key c = ck then Some (summary c) else overlay_of v ck)"
    by (simp add: overlay_of_def overlay_change_def summary_def update_conv Let_def)
  then show ?case by (simp add: Cons split: option.splits)
qed simp

lemma overlay_change_simps [simp]:
  "queue (overlay_change c v) = queue v" "vIndex (overlay_change c v) = vIndex v" "vReg (overlay_change c v) = vReg v"
  "cacheDisabled (overlay_change c v) = cacheDisabled v" "statsRow (overlay_change c v) = statsRow v"
  by (simp_all add: overlay_change_def Let_def)

lemma overlay_fold_simps [simp]:
  "queue (fold overlay_change cs v) = queue v" "vIndex (fold overlay_change cs v) = vIndex v"
  "vReg (fold overlay_change cs v) = vReg v" "cacheDisabled (fold overlay_change cs v) = cacheDisabled v"
  "statsRow (fold overlay_change cs v) = statsRow v"
  by (induction cs arbitrary: v; simp)+

lemma cached_overlay_change:
  assumes "cache_wf (vCache v)"
  shows "cache_wf (vCache (overlay_change c v))"
    "cached_of (overlay_change c v) ck = (if cache_key c = ck then None else cached_of v ck)"
  using assms by (auto simp: overlay_change_def cached_of_def Let_def cache_Remove_ok)

lemma cached_overlay_fold:
  assumes "cache_wf (vCache v)"
  shows "cache_wf (vCache (fold overlay_change cs v)) \<and>
    cached_of (fold overlay_change cs v) ck = (if last_for ck cs = None then cached_of v ck else None)"
  using assms
  by (induction cs arbitrary: v) (auto simp: cached_overlay_change split: option.splits)

lemma cache_Put_SomeD:
  assumes "cache_wf c" "cache_Peek j (cache_Put sz k x c) = Some y"
  shows "j = k \<and> y = x \<or> cache_Peek j c = Some y"
  using cache_Put_le [OF assms(1), of sz k x] assms(2) unfolding map_le_def dom_def
  by (cases "j = k") (force simp del: split_paired_All)+

lemma cached_cache_row:
  assumes "cache_wf (vCache v)"
  shows "cache_wf (vCache (cache_row c v))"
    "cached_of (cache_row c v) ck = Some r \<Longrightarrow> proper c \<Longrightarrow> ck = cache_key c \<and> r = row_of c \<or> cached_of v ck = Some r"
proof -
  show "cache_wf (vCache (cache_row c v))"
    using assms by (auto simp: cache_row_def cache_Put_ok cache_Remove_ok split: Op.splits option.splits)
  assume r: "cached_of (cache_row c v) ck = Some r" and "proper c"
  then show "ck = cache_key c \<and> r = row_of c \<or> cached_of v ck = Some r"
  proof (cases "cacheDisabled v")
    case False
    have "\<exists>row. cache_row c v = v\<lparr>vCache := cache_Put CacheSizeFn (cache_key c) row (vCache v)\<rparr> \<and>
        shown row = row_of c"
      using False \<open>proper c\<close> by (auto simp: cache_row_def proper_def row_of_def shown_def split: Op.splits option.splits)
    then obtain row where row: "cache_row c v = v\<lparr>vCache := cache_Put CacheSizeFn (cache_key c) row (vCache v)\<rparr>"
        "shown row = row_of c"
      by blast
    show ?thesis
      using r False row cache_Put_SomeD [OF assms, of ck CacheSizeFn "cache_key c" row]
      by (auto simp: cached_of_def)
  qed (simp add: cached_of_def cache_row_def)
qed
subsection \<open>The invariant\<close>

definition job_ok :: "'m Change list \<Rightarrow> 'm job \<Rightarrow> bool" where
  "job_ok q j \<longleftrightarrow>
     (\<exists>later. q = batch j @ later \<and> batch j \<noteq> [] \<and> batchLimit j = length (batch j) \<and> coalescedMap j = coalesce (batch j) \<and>
        batchMaxSeq j = max_seq (batch j) 0 \<and> (\<forall>d \<in> set later. batchMaxSeq j < chSeq d))"

definition phase_ok :: "'m Change list \<Rightarrow> 'm contents \<Rightarrow> 'm phase \<Rightarrow> bool" where
  "phase_ok q f ph \<longleftrightarrow>
     (case ph of
        Idle \<Rightarrow> True
      | Cut j \<Rightarrow> job_ok q j
      | Applied j \<Rightarrow> job_ok q j \<and> (\<forall>t k c. last_for (t, k) (batch j) = Some c \<longrightarrow> f t k = row_of c))"

definition rows_ok :: "('p, 'm, 'i) View \<Rightarrow> 'm contents \<Rightarrow> bool" where
  \<comment> \<open>the overlay holds what is queued, the cache what is in the index and not queued\<close>
  "rows_ok v f \<longleftrightarrow> cache_wf (vCache v) \<and>
     (\<forall>ck. overlay_of v ck = map_option summary (last_for ck (queue v))) \<and>
     (\<forall>t k r. cached_of v (t, k) = Some r \<longrightarrow> last_for (t, k) (queue v) = None \<and> r = f t k)"

definition queue_ok :: "'m Change list \<Rightarrow> 'm Change list \<Rightarrow> 'm contents \<Rightarrow> 'm contents \<Rightarrow> bool" where
  "queue_ok q hist f0 f \<longleftrightarrow> list_all proper hist \<and> sorted (map chSeq q) \<and> set q \<subseteq> set hist \<and>
     (\<forall>t k. eff (t, k) q (f t k) = eff (t, k) hist (f0 t k))"

definition view_ok ::
  "('i \<Rightarrow> 'm contents) \<Rightarrow> ('i \<Rightarrow> bool) \<Rightarrow> 'm contents \<Rightarrow> ('p, 'm, 'i) View \<times> 'm phase \<times> 'm Change list \<Rightarrow> bool" where
  "view_ok contents good f0 = (\<lambda>(v, ph, hist).
     \<exists>i. vIndex v = Some i \<and> good i \<and> queue_ok (queue v) hist f0 (contents i) \<and> rows_ok v (contents i) \<and>
         phase_ok (queue v) (contents i) ph)"

lemma normalized_proper: "proper c \<Longrightarrow> normalized reg c = c"
  by (auto simp: normalized_def view_table_def change_table_def change_key_def proper_def split: option.splits)

lemma normalized_all: "list_all proper cs \<Longrightarrow> map (normalized reg) cs = cs"
  by (induction cs) (simp_all add: normalized_proper)

lemma ApplyChanges_proper:
  assumes "list_all proper cs"
  shows "ApplyChanges cs v = (fold overlay_change cs v)\<lparr>queue := queue v @ cs @ cs\<rparr>"
  using assms by (simp add: ApplyChanges_def enqueueLocked_def normalized_all Let_def)

lemma queue_ok_commit:
  assumes "queue_ok q hist f0 f" "list_all proper cs" "\<forall>c \<in> set cs. chSeq c = n" "\<forall>c \<in> set hist. chSeq c < n"
  shows "queue_ok (q @ cs @ cs) (hist @ cs) f0 f"
proof -
  have same: "sorted (map chSeq cs)"
    using assms(3) by (simp add: sorted_iff_nth_mono)
  have "chSeq c \<le> n" if "c \<in> set q" for c
    using that assms(1,4) by (auto simp: queue_ok_def intro: order_less_imp_le)
  then have "sorted (map chSeq (q @ cs @ cs))"
    using assms(1,3) same by (auto simp: queue_ok_def sorted_append)
  then show ?thesis
    using assms(1,2) by (auto simp: queue_ok_def eff_append eff_twice)
qed

lemma rows_ok_commit:
  assumes "rows_ok v f" "list_all proper cs"
  shows "rows_ok (ApplyChanges cs v) f"
proof -
  let ?v = "fold overlay_change cs v"
  have wf: "cache_wf (vCache v)" using assms(1) by (simp add: rows_ok_def)
  have upd [simp]: "overlay_of (?v\<lparr>queue := q\<rparr>) = overlay_of ?v" "cached_of (?v\<lparr>queue := q\<rparr>) = cached_of ?v" for q
    by (simp_all add: overlay_of_def cached_of_def fun_eq_iff)
  have cached: "last_for (t, k) (queue v @ cs @ cs) = None \<and> r = f t k" if "cached_of ?v (t, k) = Some r" for t k r
  proof -
    have "last_for (t, k) cs = None" "cached_of v (t, k) = Some r"
      using that cached_overlay_fold [OF wf, of cs "(t, k)"] by (simp_all split: if_splits)
    then show ?thesis using assms(1) by (simp add: rows_ok_def)
  qed
  have overlay: "overlay_of ?v ck = map_option summary (last_for ck (queue v @ cs @ cs))" for ck
    using assms(1) unfolding overlay_fold by (cases ck; cases "last_for ck cs") (simp_all add: rows_ok_def)
  have "cache_wf (vCache ?v)" using cached_overlay_fold [OF wf] by blast
  then show ?thesis
    using cached overlay unfolding ApplyChanges_proper [OF assms(2)] rows_ok_def by simp
qed

lemma job_ok_commit: "job_ok q j \<Longrightarrow> \<forall>d \<in> set cs. batchMaxSeq j < chSeq d \<Longrightarrow> job_ok (q @ cs) j"
  by (auto simp: job_ok_def)

lemma job_ok_max:
  assumes "job_ok q j" "set q \<subseteq> set hist" "\<forall>c \<in> set hist. chSeq c < n"
  shows "batchMaxSeq j < n"
proof -
  have j: "batch j \<noteq> []" "set (batch j) \<subseteq> set hist" "batchMaxSeq j = max_seq (batch j) 0"
    using assms(1,2) by (auto simp: job_ok_def)
  then have "\<forall>c \<in> set (batch j). chSeq c < n" using assms(3) by blast
  from max_seq_less [OF this j(1)] show ?thesis by (simp add: j(3))
qed

lemma job_ok_cut:
  assumes "applier_cut v = Some j" "list_all proper (queue v)" "sorted (map chSeq (queue v))"
  shows "job_ok (queue v) j"
proof -
  define tgt where "tgt = (if batchSize v \<le> 0 then defaultApplierBatchSize else nat (batchSize v))"
  obtain n where n: "cut_at tgt 0 (queue v) = n" "n \<le> length (queue v)" "queue v \<noteq> [] \<longrightarrow> n > 0"
      "\<forall>c \<in> set (take n (queue v)). \<forall>d \<in> set (drop n (queue v)). chSeq c < chSeq d"
    using cut_boundary [OF assms(3), of tgt 0] by auto
  have ne: "queue v \<noteq> []" using assms(1) by (auto simp: applier_cut_def)
  have "list_all proper (take n (queue v))"
    using assms(2) by (auto simp: list_all_iff dest: in_set_takeD)
  then have j: "j = \<lparr>batchLimit = n, batch = take n (queue v), coalescedMap = coalesce (take n (queue v)),
      batchMaxSeq = max_seq (take n (queue v)) 0\<rparr>"
    using assms(1) ne n(1) by (simp add: applier_cut_def Let_def tgt_def [symmetric] normalized_all)
  have "max_seq (take n (queue v)) 0 < chSeq d" if "d \<in> set (drop n (queue v))" for d
    using that n(3,4) ne by (intro max_seq_less) auto
  then show ?thesis
    unfolding job_ok_def by (intro exI [of _ "drop n (queue v)"]) (use n(3) ne in \<open>simp add: j n(2) min_absorb2\<close>)
qed
lemma clean_overlay_simps [simp]:
  "queue (clean_overlay j x v) = queue v" "vIndex (clean_overlay j x v) = vIndex v"
  "cacheDisabled (clean_overlay j x v) = cacheDisabled v"
  by (auto simp: clean_overlay_def cache_row_def split: prod.splits option.splits Op.splits)

lemma clean_fold_simps [simp]:
  "queue (fold (clean_overlay j) m v) = queue v" "vIndex (fold (clean_overlay j) m v) = vIndex v"
  by (induction m arbitrary: v; simp)+

definition removable :: "'m job \<Rightarrow> (Op \<times> 'm option \<times> uint64) option \<Rightarrow> bool" where
  "removable j e \<longleftrightarrow> (case e of None \<Rightarrow> False | Some (_, _, s) \<Rightarrow> s \<le> batchMaxSeq j)"

lemma overlay_cache_row [simp]: "overlay (cache_row c v) = overlay v"
  by (auto simp: cache_row_def split: Op.splits option.splits)

lemma clean_overlay_ok:
  assumes "cache_wf (vCache v)"
  shows "cache_wf (vCache (clean_overlay j (ck, c) v))"
    "overlay_of (clean_overlay j (ck, c) v) ck' = (if ck' = ck \<and> removable j (overlay_of v ck) then None else overlay_of v ck')"
    "proper c \<Longrightarrow> cache_key c = ck \<Longrightarrow> cached_of (clean_overlay j (ck, c) v) ck' = Some r \<Longrightarrow>
       cached_of v ck' = Some r \<or> ck' = ck \<and> removable j (overlay_of v ck) \<and> r = row_of c"
proof -
  show "cache_wf (vCache (clean_overlay j (ck, c) v))"
    using assms by (auto simp: clean_overlay_def intro!: cached_cache_row(1) split: option.splits)
  show "overlay_of (clean_overlay j (ck, c) v) ck' = (if ck' = ck \<and> removable j (overlay_of v ck) then None else overlay_of v ck')"
    by (auto simp: clean_overlay_def removable_def overlay_of_def delete_conv' split: option.splits)
  assume c: "proper c" "cache_key c = ck" and r: "cached_of (clean_overlay j (ck, c) v) ck' = Some r"
  define w where "w = (\<lambda>e :: 'a OverlayEntry. v\<lparr>overlay := AList.delete ck (overlay v), unappliedBytes := max 0 (unappliedBytes v - oeSize e)\<rparr>)"
  have w: "cached_of (w e) = cached_of v" "vCache (w e) = vCache v" for e
    by (simp_all add: w_def cached_of_def fun_eq_iff)
  show "cached_of v ck' = Some r \<or> ck' = ck \<and> removable j (overlay_of v ck) \<and> r = row_of c"
  proof (cases "removable j (overlay_of v ck)")
    case True
    then obtain e where "map_of (overlay v) ck = Some e" "oeSeq e \<le> batchMaxSeq j"
      by (auto simp: removable_def overlay_of_def split: option.splits)
    then have "clean_overlay j (ck, c) v = cache_row c (w e)" by (simp add: clean_overlay_def w_def)
    then show ?thesis
      using r True c cached_cache_row(2) [of "w e" c ck' r] assms by (auto simp: w)
  next
    case False
    then have "clean_overlay j (ck, c) v = v"
      by (auto simp: clean_overlay_def removable_def overlay_of_def split: option.splits)
    then show ?thesis using r by simp
  qed
qed

lemma clean_fold_ok:
  assumes "cache_wf (vCache v)" "distinct (map fst m)" "\<And>ck c. (ck, c) \<in> set m \<Longrightarrow> proper c \<and> cache_key c = ck"
  shows "cache_wf (vCache (fold (clean_overlay j) m v)) \<and>
    (\<forall>ck. overlay_of (fold (clean_overlay j) m v) ck =
      (if map_of m ck \<noteq> None \<and> removable j (overlay_of v ck) then None else overlay_of v ck)) \<and>
    (\<forall>ck r. cached_of (fold (clean_overlay j) m v) ck = Some r \<longrightarrow>
      cached_of v ck = Some r \<or> removable j (overlay_of v ck) \<and> (\<exists>c. map_of m ck = Some c \<and> r = row_of c))"
  using assms
proof (induction m arbitrary: v)
  case (Cons x m)
  obtain ck0 c where x: "x = (ck0, c)" by (cases x)
  let ?v = "clean_overlay j (ck0, c) v"
  have c: "proper c" "cache_key c = ck0" using Cons.prems(3) [of ck0 c] x by simp_all
  have m: "proper c \<and> cache_key c = ck" if "(ck, c) \<in> set m" for ck c
    by (rule Cons.prems(3)) (simp add: that)
  have tail: "distinct (map fst m)" using Cons.prems(2) by simp
  have none: "map_of m ck0 = None" using Cons.prems(2) x by (simp add: map_of_eq_None_iff)
  note one = clean_overlay_ok [OF Cons.prems(1), where j = j and ck = ck0 and c = c]
  have IH: "cache_wf (vCache (fold (clean_overlay j) m ?v))"
    "overlay_of (fold (clean_overlay j) m ?v) ck =
      (if map_of m ck \<noteq> None \<and> removable j (overlay_of ?v ck) then None else overlay_of ?v ck)"
    "cached_of (fold (clean_overlay j) m ?v) ck = Some r \<Longrightarrow>
      cached_of ?v ck = Some r \<or> removable j (overlay_of ?v ck) \<and> (\<exists>c. map_of m ck = Some c \<and> r = row_of c)" for ck r
    using Cons.IH [OF one(1) tail m] by blast+
  have overlay: "overlay_of (fold (clean_overlay j) (x # m) v) ck =
      (if map_of (x # m) ck \<noteq> None \<and> removable j (overlay_of v ck) then None else overlay_of v ck)" for ck
    using none by (cases "ck = ck0") (simp_all add: x IH(2) one(2))
  have cached: "cached_of v ck = Some r \<or> removable j (overlay_of v ck) \<and> (\<exists>c. map_of (x # m) ck = Some c \<and> r = row_of c)"
    if "cached_of (fold (clean_overlay j) (x # m) v) ck = Some r" for ck r
    using IH(3) [of ck r] that one(3) [OF c, where ck' = ck and r = r] none by (cases "ck = ck0") (auto simp: x one(2))
  show ?case using IH(1) overlay cached by (simp add: x del: split_paired_All)
qed simp

lemma rows_ok_done:
  assumes "rows_ok v f" "job_ok (queue v) j" "list_all proper (queue v)"
    "\<forall>t k c. last_for (t, k) (batch j) = Some c \<longrightarrow> f t k = row_of c"
  shows "rows_ok (applier_done j v) f" "queue (applier_done j v) = drop (batchLimit j) (queue v)"
    "vIndex (applier_done j v) = vIndex v"
proof -
  obtain later where later: "queue v = batch j @ later" "batchLimit j = length (batch j)" "coalescedMap j = coalesce (batch j)"
      "batchMaxSeq j = max_seq (batch j) 0" "\<forall>d \<in> set later. batchMaxSeq j < chSeq d"
    using assms(2) by (auto simp: job_ok_def)
  define w where "w = v\<lparr>isDegraded := False, consecutiveErr := 0, queue := drop (batchLimit j) (queue v)\<rparr>"
  define u where "u = fold (clean_overlay j) (coalesce (batch j)) w"
  have w: "overlay_of w = overlay_of v" "cached_of w = cached_of v" "vCache w = vCache v" "queue w = later" "vIndex w = vIndex v"
    by (simp_all add: w_def overlay_of_def cached_of_def fun_eq_iff later)
  have u: "queue u = later" "vIndex u = vIndex v" by (simp_all add: u_def w)
  have result: "applier_done j v = (if batchMaxSeq j > appliedPos u then u\<lparr>appliedPos := batchMaxSeq j\<rparr> else u)"
    by (simp add: applier_done_def Let_def u_def w_def later(3))
  show "queue (applier_done j v) = drop (batchLimit j) (queue v)" "vIndex (applier_done j v) = vIndex v"
    by (simp_all add: result u later)
  have wf: "cache_wf (vCache v)" using assms(1) by (simp add: rows_ok_def)
  have "proper c \<and> cache_key c = ck" if "(ck, c) \<in> set (coalesce (batch j))" for ck c
  proof -
    have "last_for ck (batch j) = Some c" unfolding coalesce_eq [symmetric] by (rule map_of_is_SomeI [OF distinct_coalesce that])
    then show ?thesis using last_for_SomeD [of ck "batch j" c] assms(3) by (simp add: later(1) list_all_iff)
  qed
  note fold = clean_fold_ok [where v = w and j = j and m = "coalesce (batch j)", folded u_def, unfolded w coalesce_eq, OF wf distinct_coalesce this]
  have clean: "cache_wf (vCache u)"
    "overlay_of u ck = (if last_for ck (batch j) \<noteq> None \<and> removable j (overlay_of v ck) then None else overlay_of v ck)"
    "cached_of u ck = Some r \<Longrightarrow>
      cached_of v ck = Some r \<or> removable j (overlay_of v ck) \<and> (\<exists>c. last_for ck (batch j) = Some c \<and> r = row_of c)" for ck r
    using fold by blast+
  have ov: "overlay_of v ck = map_option summary (last_for ck (batch j @ later))" for ck
    using assms(1) later(1) by (cases ck) (simp add: rows_ok_def)
  have gone: "removable j (overlay_of v ck) \<longleftrightarrow> last_for ck (batch j) \<noteq> None \<and> last_for ck later = None" for ck
  proof (cases "last_for ck later")
    case (Some d)
    then have "batchMaxSeq j < chSeq d" using later(5) last_for_SomeD by blast
    then show ?thesis using Some by (simp add: ov removable_def summary_def linorder_not_le)
  next
    case None
    have "chSeq c \<le> batchMaxSeq j" if "last_for ck (batch j) = Some c" for c
      using last_for_SomeD [OF that] max_seq_upper later(4) by metis
    then show ?thesis using None by (auto simp: ov removable_def summary_def split: option.splits)
  qed
  have overlay: "overlay_of u ck = map_option summary (last_for ck later)" for ck
    unfolding clean(2) using gone [of ck] ov [of ck] by (auto split: option.splits)
  have cached: "last_for (t, k) later = None \<and> r = f t k" if "cached_of u (t, k) = Some r" for t k r
    using clean(3) [OF that]
  proof
    assume "cached_of v (t, k) = Some r"
    then have "last_for (t, k) (queue v) = None \<and> r = f t k" using assms(1) by (simp add: rows_ok_def)
    then show ?thesis by (simp add: later(1) split: option.splits)
  next
    assume "removable j (overlay_of v (t, k)) \<and> (\<exists>c. last_for (t, k) (batch j) = Some c \<and> r = row_of c)"
    then show ?thesis using gone [of "(t, k)"] assms(4) by auto
  qed
  have "rows_ok u f" unfolding rows_ok_def using clean(1) overlay cached by (simp add: u)
  then show "rows_ok (applier_done j v) f"
    by (simp add: result rows_ok_def overlay_of_def cached_of_def)
qed
lemma applier_apply_plain:
  "applier_apply P ix None j v =
     (case vIndex v of
        None \<Rightarrow> (None, v)
      | Some i \<Rightarrow> if coalescedChanges j = [] then (None, v)
                  else (case ApplyBatch ix (coalescedChanges j) i of (e, i) \<Rightarrow> (e, v\<lparr>vIndex := Some i\<rparr>)))"
  by (auto simp: applier_apply_def computeBatchStats_def split: option.splits prod.splits)

lemma proper_coalesced:
  assumes "list_all proper (batch j)" "coalescedMap j = coalesce (batch j)"
  shows "list_all proper (coalescedChanges j)"
proof -
  have "proper c" if "(ck, c) \<in> set (coalesce (batch j))" for ck c
    using map_of_is_SomeI [OF distinct_coalesce that] last_for_SomeD [of ck "batch j" c] assms(1)
    by (simp add: coalesce_eq list_all_iff)
  moreover have "proper (c\<lparr>chSeq := s\<rparr>) = proper c" for c :: "'a Change" and s by (simp add: proper_def)
  ultimately show ?thesis unfolding coalescedChanges_def assms(2) list_all_iff by fastforce
qed

lemma rows_ok_apply:
  assumes "rows_ok v f" "\<And>t k. last_for (t, k) (queue v) = None \<Longrightarrow> f' t k = f t k"
  shows "rows_ok (v\<lparr>vIndex := i\<rparr>) f'"
  using assms by (simp add: rows_ok_def overlay_of_def cached_of_def)

context local_index
begin

lemma worker_apply_ok:
  assumes "view_ok contents good f0 (v, Cut j, hist)" "applier_apply P ix None j v = (r, v')"
  shows "view_ok contents good f0 (v', case r of None \<Rightarrow> Applied j | Some e \<Rightarrow> Cut j, hist)"
proof -
  obtain i where i: "vIndex v = Some i" "good i" "queue_ok (queue v) hist f0 (contents i)" "rows_ok v (contents i)" "job_ok (queue v) j"
    using assms(1) by (auto simp: view_ok_def phase_ok_def)
  obtain later where later: "queue v = batch j @ later" "coalescedMap j = coalesce (batch j)"
    using i(5) by (auto simp: job_ok_def)
  have "list_all proper (batch j)" using i(3) by (auto simp: queue_ok_def later(1) list_all_iff)
  note proper = proper_coalesced [OF this later(2)]
  define i' where "i' = (if coalescedChanges j = [] then i else snd (ApplyBatch ix (coalescedChanges j) i))"
  have v': "v' = v\<lparr>vIndex := Some i'\<rparr>" "r = (if coalescedChanges j = [] then None else fst (ApplyBatch ix (coalescedChanges j) i))"
    using assms(2) i(1) by (auto simp: applier_apply_plain i'_def split: if_splits prod.splits)
  have step: "good i' \<and> (case r of None \<Rightarrow> contents i' = fold apply_change (coalescedChanges j) (contents i) | Some e \<Rightarrow> contents i' = contents i)"
  proof (cases "coalescedChanges j = []")
    case False
    then have "ApplyBatch ix (coalescedChanges j) i = (r, i')" by (simp add: v'(2) i'_def)
    from apply_batch [OF i(2) proper this] show ?thesis by (simp split: option.splits)
  qed (simp add: v'(2) i'_def i(2))
  show ?thesis
  proof (cases r)
    case (Some e)
    have "rows_ok v' (contents i)" unfolding v' by (rule rows_ok_apply [OF i(4) refl])
    then show ?thesis using Some step i(3,5) by (simp add: view_ok_def phase_ok_def v'(1))
  next
    case None
    have c': "contents i' t k = eff (t, k) (batch j) (contents i t k)" for t k
      using step None by (simp add: fold_apply_change eff_coalesced [OF later(2)])
    have "rows_ok v' (contents i')"
      unfolding v' by (rule rows_ok_apply [OF i(4)]) (simp add: c' later(1) eff_def split: option.splits)
    moreover have "queue_ok (queue v') hist f0 (contents i')"
      using i(3) by (simp add: v'(1) queue_ok_def later(1) c' eff_prefix)
    moreover have "good i'" using step by blast
    moreover have "last_for (t, k) (batch j) = Some c \<Longrightarrow> contents i' t k = row_of c" for t k c
      by (simp add: c' eff_def)
    ultimately show ?thesis
      using None i(5) by (simp add: view_ok_def phase_ok_def v'(1))
  qed
qed

lemma fill_ok:
  \<comment> \<open>the cache may be replaced by one of which every row is in the index and not queued\<close>
  assumes "view_ok contents good f0 (v, ph, hist)" "vIndex v = Some i" "cache_wf c"
    "\<And>t k row. \<not> cacheDisabled v \<Longrightarrow> cache_Peek (t, k) c = Some row \<Longrightarrow>
        last_for (t, k) (queue v) = None \<and> shown row = contents i t k"
  shows "view_ok contents good f0 (v\<lparr>vCache := c\<rparr>, ph, hist)"
  using assms by (auto simp: view_ok_def rows_ok_def overlay_of_def cached_of_def)

lemma uncached_ok:
  \<comment> \<open>a read that finds nothing in the overlay\<close>
  assumes "view_ok contents good f0 (v, ph, hist)" "vIndex v = Some i" "last_for (t, k) (queue v) = None"
    "get_overlay t k v = None" "View_Get ix t k v = (r, v')"
  shows "view_ok contents good f0 (v', ph, hist) \<and> (\<forall>m. r = Inr m \<longrightarrow> m = contents i t k)"
proof (cases "cacheDisabled v")
  case True
  have "good i" using assms(1,2) by (auto simp: view_ok_def)
  then show ?thesis
    using assms True index_get
    by (auto simp: View_Get_def get_cache_def get_index_def get_fill_def split: sum.splits)
next
  case False
  have i: "good i" "cache_wf (vCache v)" using assms(1,2) by (auto simp: view_ok_def rows_ok_def)
  have cached: "last_for (t, k) (queue v) = None \<and> shown row = contents i t k"
    if "cache_Peek (t, k) (vCache v) = Some row" for t k row
    using assms(1,2) False that by (auto simp: view_ok_def rows_ok_def cached_of_def)
  obtain e c where c: "cache_Get (t, k) (vCache v) = (e, c)" by fastforce
  note get = cache_Get_ok [OF i(2) c]
  have kept: "view_ok contents good f0 (v\<lparr>vCache := c\<rparr>, ph, hist)"
    using get cached by (intro fill_ok [OF assms(1,2)]) simp_all
  have ix: "get_index ix t k (v\<lparr>vCache := c\<rparr>) = IndexGet ix t k i" by (simp add: get_index_def assms(2))
  consider row where "e = Some row" | err where "e = None" "IndexGet ix t k i = Inl err"
    | msg where "e = None" "IndexGet ix t k i = Inr msg"
    by (meson not_None_eq sum.exhaust)
  then show ?thesis
  proof cases
    case (1 row)
    then have "r = Inr (shown row)" "v' = v\<lparr>vCache := c\<rparr>"
      using assms(4,5) c False by (auto simp: View_Get_def get_cache_def shown_def)
    then show ?thesis using kept cached [of t k row] get(1) 1 by simp
  next
    case (2 err)
    then have "r = Inl err" "v' = v\<lparr>vCache := c\<rparr>"
      using assms(2,4,5) c False ix by (simp_all add: View_Get_def get_cache_def)
    then show ?thesis using kept by simp
  next
    case (3 msg)
    let ?row = "\<lparr>crMsg = msg, crExists = msg \<noteq> None\<rparr>"
    have v': "r = Inr msg" "v' = v\<lparr>vCache := cache_Put CacheSizeFn (t, k) ?row c\<rparr>"
      using assms(2,4,5) c False ix 3 by (simp_all add: View_Get_def get_cache_def get_fill_def)
    have msg: "msg = contents i t k" "shown ?row = msg" using index_get [OF i(1) 3(2)] by (simp_all add: shown_def)
    have "view_ok contents good f0 (v', ph, hist)" unfolding v'(2)
    proof (rule fill_ok [OF assms(1,2)])
      show "cache_wf (cache_Put CacheSizeFn (t, k) ?row c)" using cache_Put_ok [OF get(2)] by blast
      fix t' k' row assume "cache_Peek (t', k') (cache_Put CacheSizeFn (t, k) ?row c) = Some row"
      from cache_Put_SomeD [OF get(2) this] cached [of t' k' row]
      show "last_for (t', k') (queue v) = None \<and> shown row = contents i t' k'" using assms(3) msg get(4) by auto
    qed
    then show ?thesis using v'(1) msg by simp
  qed
qed

lemma read_ok:
  assumes "view_ok contents good f0 (v, ph, hist)" "View_Get ix t k v = (r, v')"
  shows "view_ok contents good f0 (v', ph, hist)" "r = Inr m \<Longrightarrow> m = eff (t, k) hist (f0 t k)"
proof -
  obtain i where i: "vIndex v = Some i" and now: "eff (t, k) (queue v) (contents i t k) = eff (t, k) hist (f0 t k)"
    and ov: "overlay_of v (t, k) = map_option summary (last_for (t, k) (queue v))"
    using assms(1) by (auto simp: view_ok_def queue_ok_def rows_ok_def)
  have "view_ok contents good f0 (v', ph, hist) \<and> (\<forall>m. r = Inr m \<longrightarrow> m = eff (t, k) hist (f0 t k))"
  proof (cases "last_for (t, k) (queue v)")
    case (Some c)
    then have "get_overlay t k v = Some (row_of c)"
      using ov by (auto simp: get_overlay_def overlay_of_def summary_def row_of_def split: option.splits)
    then show ?thesis using assms now Some by (auto simp: View_Get_def eff_def)
  next
    case None
    have "get_overlay t k v = None" using None ov by (simp add: get_overlay_def overlay_of_def)
    from uncached_ok [OF assms(1) i None this assms(2)] show ?thesis using now None by (simp add: eff_def)
  qed
  then show "view_ok contents good f0 (v', ph, hist)" "r = Inr m \<Longrightarrow> m = eff (t, k) hist (f0 t k)" by blast+
qed

lemma commit_ok:
  assumes "view_ok contents good f0 (v, ph, hist)" "list_all proper cs" "\<forall>c \<in> set cs. chSeq c = n" "\<forall>c \<in> set hist. chSeq c < n"
  shows "view_ok contents good f0 (ApplyChanges cs v, ph, hist @ cs)"
proof -
  obtain i where i: "vIndex v = Some i" "good i" "queue_ok (queue v) hist f0 (contents i)" "rows_ok v (contents i)"
      "phase_ok (queue v) (contents i) ph"
    using assms(1) by (auto simp: view_ok_def)
  have "job_ok (queue v @ cs @ cs) j" if "job_ok (queue v) j" for j
    using that job_ok_max [OF that _ assms(4)] i(3) assms(3) by (intro job_ok_commit) (auto simp: queue_ok_def)
  then have "phase_ok (queue v @ cs @ cs) (contents i) ph" using i(5) by (auto simp: phase_ok_def split: phase.splits)
  moreover have "queue (ApplyChanges cs v) = queue v @ cs @ cs" "vIndex (ApplyChanges cs v) = vIndex v"
    by (simp_all add: ApplyChanges_proper [OF assms(2)])
  ultimately show ?thesis
    using i queue_ok_commit [OF i(3) assms(2-4)] rows_ok_commit [OF i(4) assms(2)] by (simp add: view_ok_def)
qed

lemma done_ok:
  assumes "view_ok contents good f0 (v, Applied j, hist)"
  shows "view_ok contents good f0 (applier_done j v, Idle, hist)"
proof -
  obtain i where i: "vIndex v = Some i" "good i" "queue_ok (queue v) hist f0 (contents i)" "rows_ok v (contents i)"
      "job_ok (queue v) j" "\<forall>t k c. last_for (t, k) (batch j) = Some c \<longrightarrow> contents i t k = row_of c"
    using assms by (auto simp: view_ok_def phase_ok_def)
  obtain later where later: "queue v = batch j @ later" "batchLimit j = length (batch j)"
    using i(5) by (auto simp: job_ok_def)
  have "list_all proper (queue v)" using i(3) by (auto simp: queue_ok_def list_all_iff)
  note rows = rows_ok_done [OF i(4,5) this i(6)]
  have "eff (t, k) (batch j) (contents i t k) = contents i t k" for t k
    using i(6) by (simp add: eff_def split: option.splits)
  then have "queue_ok later hist f0 (contents i)"
    using i(3) by (simp add: queue_ok_def later(1) eff_append sorted_append)
  then show ?thesis using i(1,2) rows later by (simp add: view_ok_def phase_ok_def)
qed

theorem step_ok:
  assumes "view_step P ix None s s'" "view_ok contents good f0 s"
  shows "view_ok contents good f0 s'"
  using assms
proof cases
  case (commit chs n hist v ph)
  then show ?thesis using assms(2) commit_ok by blast
next
  case (worker_cut v j hist)
  then show ?thesis
    using assms(2) job_ok_cut [of v j] by (auto simp: view_ok_def phase_ok_def queue_ok_def list_all_iff)
next
  case (worker_apply j v v' hist)
  then show ?thesis using assms(2) worker_apply_ok [of f0 v j hist P None v'] by simp
next
  case (worker_fail j v e v' hist)
  then have "view_ok contents good f0 (v', Cut j, hist)"
    using assms(2) worker_apply_ok [of f0 v j hist P "Some e" v'] by simp
  then show ?thesis
    using worker_fail by (auto simp: view_ok_def phase_ok_def applier_failed_def rows_ok_def overlay_of_def cached_of_def)
next
  case (worker_done v j hist)
  then show ?thesis using assms(2) done_ok by blast
next
  case (read t k v r v' ph hist)
  then show ?thesis using assms(2) read_ok(1) by blast
qed

lemma loadStats_none: "loadStatsLocked P ix None v cache = (None, v, cache)"
  by (simp add: loadStatsLocked_def split: option.splits)

lemma new_ok:
  assumes "vIndex v = Some i" "good i"
  shows "view_ok contents good (contents i) (fst (NewView P ix None v cache), Idle, [])"
  using assms
  by (simp add: view_ok_def NewView_def loadStats_none Let_def queue_ok_def rows_ok_def phase_ok_def overlay_of_def
      cached_of_def NewLRUCacheWithLimits_def cache_wf_def cache_Peek_def cache_find_def)

theorem reads_latest:
  assumes "(view_step P ix None)\<^sup>*\<^sup>* (fst (NewView P ix None v0 cache), Idle, []) (v, ph, hist)" "vIndex v0 = Some i" "good i"
    "View_Get ix t k v = (Inr m, v')"
  shows "m = fold apply_change hist (contents i) t k"
proof -
  have "view_ok contents good (contents i) (v, ph, hist)"
    using assms(1) by (induction rule: rtranclp_induct) (use new_ok [OF assms(2,3)] step_ok in blast)+
  from read_ok(2) [OF this assms(4)] show ?thesis by (simp add: fold_apply_change)
qed

end

end
