(* ===== verification/SdsDemo.thy ===== *)
theory SdsDemo
  imports SdsRun SdsViewRun
begin

text \<open>
  A small instance of the protobuf library that keeps the laws assumed of it: messages whose fields hold
  one byte each, written as pairs of a number and a byte, and tables of the format's messages. Concrete
  runs of structured data streams are evaluated with it.
\<close>

subsection \<open>Messages\<close>

type_synonym demo_msg = "string MessageType \<times> (int \<Rightarrow> byte option)"

definition declared :: "string MessageType \<Rightarrow> int list" where
  "declared t = map fNumber (Fields (type_descriptor t))"

definition demo_Has :: "demo_msg \<Rightarrow> int \<Rightarrow> bool" where
  "demo_Has m n \<longleftrightarrow> n \<in> set (declared (fst m)) \<and> snd m n \<noteq> None"

definition demo_Marshal :: "demo_msg \<Rightarrow> error + bytes" where
  "demo_Marshal m =
     (let ns = filter (demo_Has m) (declared (fst m))
      in if list_all (\<lambda>n. 0 \<le> n \<and> n < 256) ns then Inr (concat (map (\<lambda>n. [word_of_int n, the (snd m n)]) ns))
         else Inl (ErrMsg ''field number''))"

fun pairs :: "bytes \<Rightarrow> (int \<times> byte) list" where
  "pairs (a # b # bs) = (uint a, b) # pairs bs"
| "pairs _ = []"

definition demo_Unmarshal :: "bool \<Rightarrow> bytes \<Rightarrow> demo_msg \<Rightarrow> error + demo_msg" where
  "demo_Unmarshal partial b m = Inr (fst m, snd m ++ map_of (pairs b))"

subsection \<open>The messages of the format\<close>

definition tab_marshal :: "'a list \<Rightarrow> 'a \<Rightarrow> error + bytes" where
  "tab_marshal tab x =
     (case find (\<lambda>i. tab ! i = x) [0..<length tab] of
        Some i \<Rightarrow> Inr [word_of_nat i]
      | None \<Rightarrow> Inl (ErrMsg ''too large''))"

definition tab_unmarshal :: "'a list \<Rightarrow> bytes \<Rightarrow> error + 'a" where
  "tab_unmarshal tab b =
     (case b of
        [i] \<Rightarrow> if unat i < length tab then Inr (tab ! unat i) else Inl (ErrMsg ''invalid'')
      | _ \<Rightarrow> Inl (ErrMsg ''invalid''))"

lemma tab_ok: "length tab \<le> 256 \<Longrightarrow> tab_marshal tab x = Inr b \<Longrightarrow> tab_unmarshal tab b = Inr x"
  by (auto simp: tab_marshal_def tab_unmarshal_def find_Some_iff unat_of_nat split: option.splits)

definition demo_field :: "int \<Rightarrow> FieldDescriptor" where
  "demo_field n = \<lparr>fNumber = n, fName = ''f'', fKind = Uint32Kind, fCardinality = Optional, fIsList = False, fIsMap = False,
     fMapKey = StringKind, fMapValue = (StringKind, ''''), fContainingOneof = None, fMessage = '''', fEnum = ''''\<rparr>"

definition demo_md :: "string MessageDescriptor" where
  "demo_md = \<lparr>mdName = ''T'', mdPool = [(''T'', \<lparr>miFields = [demo_field 1, demo_field 2], miReserved = []\<rparr>)],
     mdFile = File ''t.proto'' ''t.proto'' [], mdCompiled = False\<rparr>"

definition demo_def :: "string TypeDefinition" where
  "demo_def = \<lparr>tdId = 16, tdName = ''T'', tdFingerprint = replicate 32 0, tdDescriptors = Some [''t.proto''], tdKeyFields = [1]\<rparr>"

definition demo_row :: "byte \<Rightarrow> byte \<Rightarrow> demo_msg" where
  "demo_row k v = (DynamicType demo_md, [1 \<mapsto> k, 2 \<mapsto> v])"

definition demo_op :: "Op \<Rightarrow> uint64 \<Rightarrow> byte \<Rightarrow> byte \<Rightarrow> OpRecord" where
  "demo_op op tx k v = \<lparr>orOp = op, orTypeId = 16, orTxId = tx, orKey = [1, k], orValue = if op = DELETE then [] else [2, v]\<rparr>"

definition demo_proto :: "(string, byte, demo_msg) protobuf" where
  "demo_proto =
     \<lparr>Sum256 = (\<lambda>_. 0), deflate = id, inflate = (\<lambda>b. Inr (Inr b)),
      FileName = id, MarshalFileSet = (\<lambda>fs. Inr []),
      NewFiles = (\<lambda>fs. Inr (\<lambda>name. if name = ''T'' then Inr (Some demo_md) else Inl (ErrMsg ''not found''))),
      GlobalFiles = (\<lambda>_. None), GlobalTypes = (\<lambda>_. None),
      New = (\<lambda>t. (t, Map.empty)), MessageTypeOf = fst, Has = demo_Has, Get = (\<lambda>m n. the (snd m n)),
      SetField = (\<lambda>m n v. (fst m, (snd m)(n \<mapsto> v))), GetUnknown = (\<lambda>_. []), CheckInitialized = (\<lambda>_. None),
      Marshal = demo_Marshal, Unmarshal = demo_Unmarshal,
      MarshalTypeDefinition = tab_marshal [demo_def], UnmarshalTypeDefinition = tab_unmarshal [demo_def],
      MarshalOpRecord = tab_marshal [demo_op CREATE 1 5 6, demo_op UPDATE 0 7 8, demo_op DELETE 1 7 0],
      UnmarshalOpRecord = tab_unmarshal [demo_op CREATE 1 5 6, demo_op UPDATE 0 7 8, demo_op DELETE 1 7 0],
      MarshalTxCommit = tab_marshal [\<lparr>tcTxId = 1, tcCommitTime = 0\<rparr>],
      UnmarshalTxCommit = tab_unmarshal [\<lparr>tcTxId = 1, tcCommitTime = 0\<rparr>],
      MarshalSnapshotPointer = tab_marshal [], UnmarshalSnapshotPointer = tab_unmarshal [],
      MarshalStreamHeader = tab_marshal [\<lparr>shFormatVersion = 1, shCreatorVersion = DefaultCreatorVersion, shCreatedAt = 0\<rparr>],
      UnmarshalStreamHeader = tab_unmarshal [\<lparr>shFormatVersion = 1, shCreatorVersion = DefaultCreatorVersion, shCreatedAt = 0\<rparr>]\<rparr>"

subsection \<open>The laws\<close>

lemma demo_formats_ok: "formats_ok demo_proto"
  by (simp add: formats_ok_def demo_proto_def tab_ok)

lemma demo_fields_of: "fields_of demo_proto m n = (if n \<in> set (declared (fst m)) then snd m n else None)"
  by (simp add: fields_of_def demo_proto_def demo_Has_def)

lemma pairs_concat:
  "list_all (\<lambda>n. 0 \<le> n \<and> n < 256) ns \<Longrightarrow> pairs (concat (map (\<lambda>n. [word_of_int n, g n]) ns)) = map (\<lambda>n. (n, g n)) ns"
  by (induction ns) (simp_all add: uint_word_of_int)

lemma demo_Unmarshal_Marshal:
  assumes "demo_Marshal m = Inr b"
  shows "map_of (pairs b) = fields_of demo_proto m"
proof -
  let ?ns = "filter (demo_Has m) (declared (fst m))"
  have "pairs b = map (\<lambda>n. (n, the (snd m n))) ?ns"
    using assms by (auto simp: demo_Marshal_def Let_def pairs_concat split: if_splits)
  moreover have "map_of (map (\<lambda>n. (n, g n)) ns) n = (if n \<in> set ns then Some (g n) else None)" for g :: "int \<Rightarrow> byte" and ns n
    by (induction ns) auto
  ultimately show ?thesis by (auto simp: fun_eq_iff demo_fields_of demo_Has_def)
qed

lemma demo_proto_sel:
  "New demo_proto t = (t, Map.empty)" "MessageTypeOf demo_proto m = fst m" "Has demo_proto = demo_Has"
  "Get demo_proto m n = the (snd m n)" "SetField demo_proto m n v = (fst m, (snd m)(n \<mapsto> v))"
  "GetUnknown demo_proto m = []" "Marshal demo_proto = demo_Marshal" "Unmarshal demo_proto = demo_Unmarshal"
  by (simp_all add: demo_proto_def)

lemma demo_merge:
  assumes "Marshal demo_proto m = Inr b" "similar (MsgDescriptor demo_proto m) (MsgDescriptor demo_proto t)"
  shows "\<exists>t'. Unmarshal demo_proto True b t = Inr t' \<and> MessageTypeOf demo_proto t' = MessageTypeOf demo_proto t \<and>
    GetUnknown demo_proto t' = GetUnknown demo_proto t @ GetUnknown demo_proto m \<and>
    fields_of demo_proto t' = fields_of demo_proto t ++ fields_of demo_proto m \<and> Unmarshal demo_proto False b t = Inr t'"
proof -
  have b: "demo_Marshal m = Inr b" "declared (fst m) = declared (fst t)"
    using assms by (simp_all add: demo_proto_sel MsgDescriptor_def similar_def declared_def Fields_def)
  have "fields_of demo_proto (fst t, snd t ++ fields_of demo_proto m) = fields_of demo_proto t ++ fields_of demo_proto m"
    by (auto simp: fun_eq_iff demo_fields_of map_add_def b(2) split: option.splits)
  then show ?thesis by (simp add: demo_proto_sel demo_Unmarshal_def demo_Unmarshal_Marshal [OF b(1)])
qed

lemma demo_messages_ok: "messages_ok demo_proto"
  unfolding messages_ok_def
proof (intro conjI allI impI, goal_cases)
  case (1 m n)
  then show ?case by (auto simp: demo_proto_sel demo_Has_def declared_def MsgDescriptor_def)
next
  case (7 m m0 n)
  then have "n \<in> set (declared (fst m))" by (auto simp: demo_proto_sel demo_Has_def)
  then show ?case by (simp add: fun_eq_iff demo_fields_of demo_proto_sel)
next
  case (9 m t b)
  then show ?case using demo_merge [of m b t] by blast
qed (simp_all add: demo_proto_sel demo_Has_def demo_Unmarshal_def)

subsection \<open>A registry and a log\<close>

definition demo_reg :: "string Registry" where
  "demo_reg =
     \<lparr>types = [(16, \<lparr>teId = 16, teDef = demo_def, teDescriptor = demo_md, teResolvedType = DynamicType demo_md\<rparr>)],
      byName = [(''T'', 16)], nextID = 17\<rparr>"

definition demo_append :: "(uint64 \<times> bytes) list Append" where
  "demo_append p l = (let n = word_of_nat (length l) + 1 in if n = 0 then (Inl (ErrMsg ''full''), l) else (Inr n, l @ [(n, p)]))"

definition demo_rw :: "(string, (uint64 \<times> bytes) list) RecordWriter" where
  "demo_rw = (NewRecordWriter [])\<lparr>rwRegistry := demo_reg\<rparr>"

lemma demo_append_ok: "appender_ok demo_append (\<lambda>l. l)"
  by (auto simp: appender_ok_def demo_append_def Let_def word_gt_0 split: if_splits)

lemma demo_fingerprint: "ComputeFingerprint demo_proto (Some [''t.proto'']) = Inr (replicate 32 0)"
  by code_simp

lemma demo_reg_valid: "valid_registry demo_proto demo_reg"
proof -
  have "valid_entry demo_proto \<lparr>teId = 16, teDef = demo_def, teDescriptor = demo_md, teResolvedType = DynamicType demo_md\<rparr>"
    using demo_fingerprint
    by (simp add: valid_entry_def demo_def_def resolveMessageDescriptor_def resolveMessageType_def getOrCreateFiles_def
        FindDescriptorByName_def demo_proto_def check_key_fields_def first_error_def check_key_field_def List.map_filter_simps
        Fields_def demo_md_def info_def ByNumber_def demo_field_def type_descriptor_def similar_def no_required_def)
  then show ?thesis by (simp add: valid_registry_def registry_ok_def demo_reg_def demo_def_def MinAppTypeID_def)
qed

lemma demo_typed: "typed demo_proto demo_reg (demo_row k v)"
  by (simp add: typed_def LookupByName_def LookupByID_def demo_reg_def demo_row_def MsgDescriptor_def demo_proto_def type_descriptor_def demo_md_def
      similar_def)

definition demo_commands :: "(nat \<times> demo_msg command) list" where
  "demo_commands = [(0, BeginTx), (0, InTx 0 CREATE (demo_row 5 6)), (0, Auto UPDATE (demo_row 7 8)), (0, CommitTx 0)]"

definition demo_log :: "(nat \<times> demo_msg command) list \<Rightarrow> (error + uint64) list \<times> (uint64 \<times> bytes) list" where
  "demo_log cs =
     (case exec demo_proto demo_append cs ((NewWriter demo_rw, []), []) of
        (rs, (w, _), _) \<Rightarrow> (rs, rwAppender (recordWriter w)))"

lemma demo_run: "demo_log demo_commands = ([Inr 0, Inr 3, Inr 4, Inr 5], [(1, [6, 0]), (2, [1, 0]), (3, [5, 0]), (4, [5, 1]), (5, [2, 0])])"
  by code_simp

end
