(* ===== verification/SdsProps.thy ===== *)
theory SdsProps
  imports SdsDemo
begin

text \<open>
  The properties of structured data streams: what a reader sees of a stream, the registry, the memory
  index, the cache and the view.
\<close>

subsection \<open>Streams\<close>




subsection \<open>The registry\<close>

text \<open>C36: registries are well-formed: ids and names correspond, ids are not reserved ones, and every
  registration keeps that, whatever the definitions are. Looking a type up by its name is therefore
  looking it up by the id of its definition.\<close>

theorem registry_wellformed:
  assumes "registry_ok r"
  shows "registry_ok (fst (snd (Register P def r cache))) \<and> registry_ok (fst (snd (RegisterDescriptor P md kfs r cache))) \<and>
    registry_ok (fst (snd (Import P defs r cache))) \<and>
    (LookupByName r n = Some (d, m) \<longleftrightarrow> tdName d = n \<and> LookupByID r (tdId d) = Some (d, m))"
  using registry_ok_ops [OF assms] LookupByName_ok [OF assms] by blast

theorem registry_wellformed_witness:
  "registry_ok demo_reg \<and> registry_ok (fst (snd (RegisterDescriptor demo_proto demo_md [1] demo_reg []))) \<and> LookupByName demo_reg ''T'' = Some (demo_def, demo_md) \<and>
   LookupByID demo_reg 16 = Some (demo_def, demo_md)"
proof -
  have ok: "registry_ok demo_reg" using demo_reg_valid by (simp add: valid_registry_def)
  have "LookupByID demo_reg (tdId demo_def) = Some (demo_def, demo_md)"
    by (simp add: LookupByID_def demo_reg_def demo_def_def)
  then show ?thesis
    using ok registry_wellformed [OF ok, where P = demo_proto and def = demo_def and cache = "[]" and md = demo_md
        and kfs = "[1]" and defs = "[demo_def]" and n = "''T''" and d = demo_def and m = demo_md] by (simp add: demo_def_def)
qed

subsection \<open>The memory index\<close>

text \<open>the memory index applies a batch of changes as a whole: it accepts every batch of the changes
  that transactions and readers make, after it the rows are those of the changes in their order, and
  the position is the largest of the old one and the sequence numbers.\<close>

theorem memory_index_applies:
  assumes "mem_ok m" "list_all proper cs"
  shows "\<exists>m'. mem_ApplyBatch P cs m = (None, m') \<and> mem_ok m' \<and> lastPosition m' = max_seq cs (lastPosition m) \<and>
    (\<forall>t k. mem_Get t k m' = Inr (fold apply_change cs (mem_contents m) t k))"
proof -
  obtain m' where m': "mem_ApplyBatch P cs m = (None, m')"
    using mem_ApplyBatch_proper [OF assms(2), of P m] by (metis prod.collapse)
  then have "ApplyBatch (mem_index P) cs m = (None, m')" by (simp add: mem_index_def)
  from mem_ix.apply_batch [OF assms this] have "mem_ok m'" "mem_contents m' = fold apply_change cs (mem_contents m)"
      "lastPosition m' = max_seq cs (lastPosition m)"
    by (simp_all add: mem_index_def)
  moreover have "mem_Get t k m' = Inr (mem_contents m' t k)" for t k
    by (simp add: mem_Get_def mem_contents_def table_Get_def split: option.splits)
  ultimately show ?thesis using m' by simp
qed

definition demo_change :: "uint64 \<Rightarrow> Op \<Rightarrow> byte \<Rightarrow> byte \<Rightarrow> demo_msg Change" where
  "demo_change seq op k v = \<lparr>chSeq = seq, chTypeID = 16, chTypeName = ''T'', chOp = op, chTxID = 0, chKey = MkKey [1, k],
     chRawKey = [1, k], chRawVal = [2, v], chRow = Some (demo_row k v)\<rparr>"

lemma demo_proper: "proper (demo_change n CREATE k v)" "proper (demo_change n UPDATE k v)" "proper (demo_change n DELETE k v)"
  by (simp_all add: proper_def demo_change_def IsZero_def)

lemma demo_chSeq: "chSeq (demo_change n op k v) = n"
  by (simp add: demo_change_def)

definition demo_mem :: "(string, demo_msg) MemStore" where
  "demo_mem = NewMemStore ''s''"

lemma demo_mem_ok: "mem_ok demo_mem" "mem_contents demo_mem = (\<lambda>t k. None)"
  by (simp_all add: demo_mem_def NewMemStore_def mem_ok_def mem_contents_def fun_eq_iff)

theorem memory_index_applies_witness:
  "\<exists>m'. mem_ApplyBatch demo_proto [demo_change 3 CREATE 5 6, demo_change 4 UPDATE 5 9, demo_change 4 DELETE 7 0] demo_mem = (None, m') \<and>
     lastPosition m' = 4 \<and> mem_Get ''T'' (MkKey [1, 5]) m' = Inr (Some (demo_row 5 9)) \<and> mem_Get ''T'' (MkKey [1, 7]) m' = Inr None"
proof -
  have "list_all proper [demo_change 3 CREATE 5 6, demo_change 4 UPDATE 5 9, demo_change 4 DELETE 7 0]"
    by (simp add: demo_proper)
  from memory_index_applies [OF demo_mem_ok(1) this, of demo_proto] show ?thesis
    by (auto simp: demo_mem_ok(2) apply_change_def demo_change_def max_seq_def demo_mem_def NewMemStore_def)
qed

subsection \<open>Views\<close>

lemma applier_cut_job:
  assumes "applier_cut v = Some j" "list_all proper (queue v)"
  shows "list_all proper (batch j)" "coalescedMap j = coalesce (batch j)" "batchMaxSeq j = max_seq (batch j) 0"
proof -
  have all: "list_all proper (take n (queue v))" for n
    using assms(2) unfolding list_all_iff by (meson in_set_takeD)
  show "list_all proper (batch j)" "coalescedMap j = coalesce (batch j)" "batchMaxSeq j = max_seq (batch j) 0"
    using assms(1) by (auto simp: applier_cut_def Let_def all normalized_all [OF all] split: if_splits)
qed

lemma coalesce_Nil: "coalesce cs = [] \<Longrightarrow> cs = []"
  using coalesce_eq [of cs "cache_key (hd cs)"] last_for_None [of "cache_key (hd cs)" cs] by (cases cs) auto

lemma max_seq_max: "max_seq cs pos = max pos (max_seq cs 0)"
proof (induction cs arbitrary: pos)
  case (Cons c cs)
  show ?case
    unfolding max_seq_Cons Cons [of "if chSeq c > pos then chSeq c else pos"] Cons [of "if chSeq c > 0 then chSeq c else 0"]
    by (auto simp: max_def word_gt_0 linorder_not_less)
qed (simp add: max_seq_def)

lemma max_seq_const:
  assumes "cs \<noteq> []" "\<forall>c \<in> set cs. chSeq c = s"
  shows "max_seq cs pos = max pos s"
  using assms
proof (induction cs arbitrary: pos)
  case (Cons c cs)
  have c: "chSeq c = s" using Cons.prems(2) by simp
  have "max_seq cs pos' = (if cs = [] then pos' else max pos' s)" for pos'
    using Cons.IH Cons.prems(2) by (simp add: max_seq_def)
  then show ?case by (auto simp: max_seq_Cons c max_def)
qed simp

text \<open>C35: coalescing is an optimisation only. The batch that the worker of a view applies to the memory
  index has one change for every row, with the largest sequence number of the batch; the index has the
  same rows and the same position as if all changes of the batch had been applied in their order.\<close>

theorem coalesced_batch_equivalent:
  assumes "mem_ok m" "list_all proper (queue v)" "applier_cut v = Some j"
  shows "\<exists>m1 m2. mem_ApplyBatch P (coalescedChanges j) m = (None, m1) \<and> mem_ApplyBatch P (batch j) m = (None, m2) \<and>
    mem_contents m1 = mem_contents m2 \<and> lastPosition m1 = lastPosition m2"
proof -
  note sub = applier_cut_job(1) [OF assms(3,2)] and j = applier_cut_job(2,3) [OF assms(3,2)]
  have ok: "list_all proper (coalescedChanges j)" by (rule proper_coalesced [OF sub j(1)])
  obtain m1 m2 where m: "mem_ApplyBatch P (coalescedChanges j) m = (None, m1)" "mem_ApplyBatch P (batch j) m = (None, m2)"
    using mem_ApplyBatch_proper [OF ok, of P m] mem_ApplyBatch_proper [OF sub, of P m] by (metis prod.collapse)
  have 1: "mem_contents m1 = fold apply_change (coalescedChanges j) (mem_contents m)" "lastPosition m1 = max_seq (coalescedChanges j) (lastPosition m)"
    using mem_ix.apply_batch [OF assms(1) ok, of P None m1] m(1) by (simp_all add: mem_index_def)
  have 2: "mem_contents m2 = fold apply_change (batch j) (mem_contents m)" "lastPosition m2 = max_seq (batch j) (lastPosition m)"
    using mem_ix.apply_batch [OF assms(1) sub, of P None m2] m(2) by (simp_all add: mem_index_def)
  have "mem_contents m1 = mem_contents m2"
    by (simp add: 1(1) 2(1) fun_eq_iff fold_apply_change eff_coalesced [OF j(1)])
  moreover have "lastPosition m1 = lastPosition m2"
  proof (cases "coalescedChanges j = []")
    case True
    then have "batch j = []" by (intro coalesce_Nil) (simp add: coalescedChanges_def j(1))
    then show ?thesis using True 1(2) 2(2) by simp
  next
    case False
    have "\<forall>c \<in> set (coalescedChanges j). chSeq c = batchMaxSeq j" by (auto simp: coalescedChanges_def)
    from max_seq_const [OF False this] show ?thesis using 1(2) 2(2) max_seq_max [of "batch j" "lastPosition m"] by (simp add: j(2))
  qed
  ultimately show ?thesis using m by blast
qed

definition demo_view :: "(string, demo_msg, (string, demo_msg) MemStore) View" where
  "demo_view = \<lparr>vIndex = Some demo_mem, vReg = Some demo_reg, vCache = NewLRUCacheWithLimits 2 0, cacheDisabled = False,
     unappliedBytes = 0, overlay = [], queue = [], appliedPos = 0, batchSize = 0, statsRow = None, loadErr = None, failures = 0,
     consecutiveErr = 0, isDegraded = False\<rparr>"

theorem coalesced_batch_equivalent_witness:
  "\<exists>j m1 m2. applier_cut (demo_view\<lparr>queue := [demo_change 3 CREATE 5 6, demo_change 4 UPDATE 5 9]\<rparr>) = Some j \<and>
     length (coalescedChanges j) = 1 \<and> mem_ApplyBatch demo_proto (coalescedChanges j) demo_mem = (None, m1) \<and>
     mem_ApplyBatch demo_proto [demo_change 3 CREATE 5 6, demo_change 4 UPDATE 5 9] demo_mem = (None, m2) \<and>
     mem_contents m1 = mem_contents m2 \<and> lastPosition m1 = lastPosition m2"
proof -
  let ?cs = "[demo_change 3 CREATE 5 6, demo_change 4 UPDATE 5 9]"
  let ?v = "demo_view\<lparr>queue := ?cs\<rparr>"
  have proper: "list_all proper (queue ?v)" by (simp add: demo_proper)
  have "case applier_cut ?v of None \<Rightarrow> False | Some j \<Rightarrow> length (coalescedChanges j) = 1 \<and> batchLimit j = 2" by code_simp
  then obtain j where j: "applier_cut ?v = Some j" "length (coalescedChanges j) = 1" "batchLimit j = 2"
    by (auto split: option.splits)
  have "batch j = take (batchLimit j) (queue ?v)" using j(1) by (auto simp: applier_cut_def Let_def split: if_splits)
  then have "batch j = ?cs" by (simp add: j(3))
  then show ?thesis using coalesced_batch_equivalent [OF demo_mem_ok(1) proper j(1), of demo_proto] j(1,2) by auto
qed



subsection \<open>The cache\<close>

datatype ('k, 'v) cache_op = PutOp 'k 'v | GetOp 'k | RemoveOp 'k | ClearOp | LimitsOp int int

fun cache_exec :: "('k \<Rightarrow> 'v \<Rightarrow> int) \<Rightarrow> ('k, 'v) cache_op \<Rightarrow> ('k, 'v) LRUCache \<Rightarrow> ('k, 'v) LRUCache" where
  "cache_exec sz (PutOp k v) c = cache_Put sz k v c"
| "cache_exec sz (GetOp k) c = snd (cache_Get k c)"
| "cache_exec sz (RemoveOp k) c = cache_Remove k c"
| "cache_exec sz ClearOp c = cache_Clear c"
| "cache_exec sz (LimitsOp a b) c = SetLimits a b c"

fun store_exec :: "('k, 'v) cache_op \<Rightarrow> ('k \<Rightarrow> 'v option) \<Rightarrow> 'k \<Rightarrow> 'v option" where
  \<comment> \<open>a store without limits\<close>
  "store_exec (PutOp k v) m = m(k \<mapsto> v)"
| "store_exec (RemoveOp k) m = m(k := None)"
| "store_exec ClearOp m = Map.empty"
| "store_exec _ m = m"

definition cache_inv :: "('k, 'v) LRUCache \<Rightarrow> ('k \<Rightarrow> 'v option) \<Rightarrow> bool" where
  "cache_inv c m \<longleftrightarrow> cache_wf c \<and> within_limits c \<and> (\<forall>e \<in> set (elems c). 0 \<le> ceSize e) \<and> (\<lambda>k. cache_Peek k c) \<subseteq>\<^sub>m m"

lemma elems_evict: "set (elems (evictExcessLocked c)) \<subseteq> set (elems c)"
proof (induction c rule: evictExcessLocked.induct)
  case (1 c)
  then show ?case by (subst evictExcessLocked.simps) (auto dest: in_set_butlastD)
qed

lemma elems_Put: "e \<in> set (elems (cache_Put sz k v c)) \<Longrightarrow> e \<in> set (elems c) \<or> ceSize e = sz k v"
  unfolding cache_Put_def Let_def
  by (auto simp: moveToFront_def removeElement_def split: option.splits dest!: set_mp [OF elems_evict])

lemma elems_Get: "cache_wf c \<Longrightarrow> e \<in> set (elems (snd (cache_Get k c))) \<Longrightarrow> e \<in> set (elems c)"
  by (auto simp: cache_Get_def moveToFront_def removeElement_def cache_find_Some split: option.splits)

lemma elems_Remove: "e \<in> set (elems (cache_Remove k c)) \<Longrightarrow> e \<in> set (elems c)"
  by (auto simp: cache_Remove_def removeElement_def split: option.splits)

lemma cache_exec_inv:
  assumes "cache_inv c m" "\<And>k v. 0 \<le> sz k v"
  shows "cache_inv (cache_exec sz op c) (store_exec op m)"
proof -
  have c: "cache_wf c" "within_limits c" "\<forall>e \<in> set (elems c). 0 \<le> ceSize e" "(\<lambda>k. cache_Peek k c) \<subseteq>\<^sub>m m"
    using assms(1) by (simp_all add: cache_inv_def)
  show ?thesis
  proof (cases op)
    case (PutOp k v)
    have "(\<lambda>j. cache_Peek j c)(k \<mapsto> v) \<subseteq>\<^sub>m m(k \<mapsto> v)" using c(4) by (rule map_le_upd)
    moreover have "0 \<le> ceSize e" if "e \<in> set (elems (cache_Put sz k v c))" for e
      using elems_Put [OF that] c(3) assms(2) [of k v] by auto
    ultimately show ?thesis
      using cache_Put_ok [OF c(1), of sz k v] cache_Put_le [OF c(1), of sz k v]
      by (auto simp: cache_inv_def PutOp intro: map_le_trans)
  next
    case (GetOp k)
    obtain r c' where g: "cache_Get k c = (r, c')" by fastforce
    show ?thesis
      using cache_Get_ok [OF c(1) g] c elems_Get [OF c(1), of _ k] by (auto simp: cache_inv_def GetOp g)
  next
    case (RemoveOp k)
    have "(\<lambda>j. cache_Peek j (cache_Remove k c)) \<subseteq>\<^sub>m m(k := None)"
      using c(4) by (auto simp: cache_Remove_ok [OF c(1)] map_le_def)
    then show ?thesis
      using cache_Remove_ok(1,3) [OF c(1)] c(2,3) elems_Remove [of _ k c] by (auto simp: cache_inv_def RemoveOp)
  next
    case ClearOp
    then show ?thesis by (simp add: cache_inv_def cache_Clear_def cache_wf_def within_limits_def cache_Peek_def cache_find_def)
  next
    case (LimitsOp a b)
    let ?c = "c\<lparr>capacity := a, maxBytes := b\<rparr>"
    have wf: "cache_wf ?c" using c(1) by (simp add: cache_wf_def)
    obtain n where n: "elems (evictExcessLocked ?c) = take n (elems ?c)" using evictExcess_ok [OF wf] by blast
    have "(\<lambda>k. cache_Peek k (evictExcessLocked ?c)) \<subseteq>\<^sub>m m"
      using peek_take [of n "elems c"] c(4) by (auto simp: cache_Peek_list n intro: map_le_trans)
    then show ?thesis
      using evictExcess_ok [OF wf] c(3) elems_evict [of ?c] by (auto simp: cache_inv_def LimitsOp SetLimits_def)
  qed
qed

text \<open>the cache stays within its limits and never returns a wrong value. After any sequence of
  operations, with sizes that are not negative, it holds at most as many rows and bytes as its limits
  allow, the bytes it counts are the sizes of its rows, and what it holds for a key is what a store
  without limits holds.\<close>

theorem cache_bounded:
  assumes "\<And>k v. 0 \<le> sz k v" "c = fold (cache_exec sz) ops (NewLRUCacheWithLimits cap maxb)"
  shows "(capacity c > 0 \<longrightarrow> int (length (elems c)) \<le> capacity c) \<and> (maxBytes c > 0 \<longrightarrow> curBytes c \<le> maxBytes c) \<and>
    curBytes c = sum_list (map ceSize (elems c)) \<and>
    (\<forall>k v. fst (cache_Get k c) = Some v \<longrightarrow> fold store_exec ops Map.empty k = Some v)"
proof -
  have "cache_inv (fold (cache_exec sz) ops c0) (fold store_exec ops m0)" if "cache_inv c0 m0" for c0 :: "('a, 'b) LRUCache" and m0
    using that by (induction ops arbitrary: c0 m0) (simp_all add: cache_exec_inv assms(1))
  moreover have "cache_inv (NewLRUCacheWithLimits cap maxb) Map.empty"
    by (simp add: cache_inv_def NewLRUCacheWithLimits_def cache_wf_def within_limits_def cache_Peek_def cache_find_def)
  ultimately have inv: "cache_inv c (fold store_exec ops Map.empty)" by (simp add: assms(2))
  have "fold store_exec ops Map.empty k = Some v" if "fst (cache_Get k c) = Some v" for k v
  proof -
    have "cache_Peek k c = Some v" using that inv cache_Get_ok(1) [of c k] by (metis cache_inv_def prod.collapse)
    then show ?thesis using inv by (force simp: cache_inv_def map_le_def dom_def)
  qed
  then show ?thesis using inv unfolding cache_inv_def within_limits_def cache_wf_def by blast
qed

theorem cache_bounded_witness:
  "let c = fold (cache_exec (\<lambda>k v. 10)) [PutOp 1 ''a'', PutOp 2 ''b'', GetOp 1, PutOp (3 :: nat) ''c''] (NewLRUCacheWithLimits 2 25)
   in length (elems c) = 2 \<and> curBytes c = 20 \<and> fst (cache_Get 1 c) = Some ''a'' \<and> fst (cache_Get 2 c) = None \<and>
      fold store_exec [PutOp 1 ''a'', PutOp 2 ''b'', GetOp 1, PutOp (3 :: nat) ''c''] Map.empty 1 = Some ''a''"
proof -
  define c where "c = fold (cache_exec (\<lambda>k v. 10)) [PutOp 1 ''a'', PutOp 2 ''b'', GetOp 1, PutOp (3 :: nat) ''c''] (NewLRUCacheWithLimits 2 25)"
  have "length (elems c) = 2 \<and> curBytes c = 20 \<and> fst (cache_Get 1 c) = Some ''a'' \<and> fst (cache_Get 2 c) = None"
    unfolding c_def by code_simp
  moreover have "fst (cache_Get 1 c) = Some ''a'' \<longrightarrow>
      fold store_exec [PutOp 1 ''a'', PutOp 2 ''b'', GetOp 1, PutOp (3 :: nat) ''c''] Map.empty 1 = Some ''a''"
    using cache_bounded [OF _ c_def] by simp
  ultimately show ?thesis unfolding Let_def c_def by blast
qed

end
