(* ===== verification/VolumeMeta.thy ===== *)
theory VolumeMeta
  imports ObjectStore
begin

text \<open>
  \<^verbatim>\<open>pkg/objectfs/controller/volume.go\<close> and \<^verbatim>\<open>aggregator.go\<close>: the metadata of a volume. The rows of the metadata view,
  which reads return as of the last commit, are association lists, one for each type of row. A
  transaction collects what was read and what is to be written; a commit applies the writes.

  What is outside of the volume (the view, the stream, the clock) is a record of the outcomes of its
  calls in one operation. Staged file contents are kept as far as namespace operations change them.
  Notifications of watchers are left out, and so is the mutex of the volume: operations that hold
  it from their beginning to their end are single steps.
\<close>

subsection \<open>Rows\<close>

record Inode =
  inIno :: uint64
  inMode :: uint32
  inSize :: int
  inMtime :: nat
  inAtime :: nat
  inCtime :: nat
  inIsDir :: bool
  inSha256 :: string
  inEtag :: string
  inManifestSha256 :: string
  inContentSha256 :: string
  inChunkSize :: uint32
  inUid :: uint32
  inGid :: uint32
  inNlink :: uint32
  inSymlinkTarget :: string
  inRdev :: uint32
  inParentIno :: uint64
    \<comment> \<open>0 if it is not set\<close>
  inXattrCount :: uint32

definition new_inode :: "uint64 \<Rightarrow> Inode" where
  \<comment> \<open>the fields that a literal does not mention are zero\<close>
  "new_inode i = \<lparr>inIno = i, inMode = 0, inSize = 0, inMtime = 0, inAtime = 0, inCtime = 0, inIsDir = False, inSha256 = '''', inEtag = '''',
     inManifestSha256 = '''', inContentSha256 = '''', inChunkSize = 0, inUid = 0, inGid = 0, inNlink = 0, inSymlinkTarget = '''',
     inRdev = 0, inParentIno = 0, inXattrCount = 0\<rparr>"

record DirEntry =
  deParentIno :: uint64
  deName :: string
  deIno :: uint64
  deIsDir :: bool
  deMode :: uint32

record FileChunk =
  fcIno :: uint64
  fcIndex :: uint32
  fcSha256 :: string
  fcInlineData :: bytes

record XAttr =
  xaIno :: uint64
  xaName :: string
  xaValue :: bytes

datatype row = RInode Inode | RDirEntry DirEntry | RFileChunk FileChunk | RXAttr XAttr

datatype row_key = KInode uint64 | KDirEntry uint64 string | KFileChunk uint64 uint32 | KXAttr uint64 string
  \<comment> \<open>the fields of the primary key\<close>

datatype key_prefix = PInode | PDirEntry uint64 | PFileChunk uint64 | PXAttr uint64

fun key_of :: "row \<Rightarrow> row_key" where
  "key_of (RInode r) = KInode (inIno r)"
| "key_of (RDirEntry r) = KDirEntry (deParentIno r) (deName r)"
| "key_of (RFileChunk r) = KFileChunk (fcIno r) (fcIndex r)"
| "key_of (RXAttr r) = KXAttr (xaIno r) (xaName r)"

fun in_prefix :: "key_prefix \<Rightarrow> row_key \<Rightarrow> bool" where
  "in_prefix PInode (KInode _) \<longleftrightarrow> True"
| "in_prefix (PDirEntry i) (KDirEntry j _) \<longleftrightarrow> i = j"
| "in_prefix (PFileChunk i) (KFileChunk j _) \<longleftrightarrow> i = j"
| "in_prefix (PXAttr i) (KXAttr j _) \<longleftrightarrow> i = j"
| "in_prefix _ _ \<longleftrightarrow> False"

record tables =
  inodes :: "(uint64 \<times> Inode) list"
  entries :: "((uint64 \<times> string) \<times> DirEntry) list"
  fchunks :: "((uint64 \<times> uint32) \<times> FileChunk) list"
  xattrs :: "((uint64 \<times> string) \<times> XAttr) list"

fun view_get :: "tables \<Rightarrow> row_key \<Rightarrow> row option" where
  "view_get t (KInode i) = map_option RInode (map_of (inodes t) i)"
| "view_get t (KDirEntry p n) = map_option RDirEntry (map_of (entries t) (p, n))"
| "view_get t (KFileChunk i n) = map_option RFileChunk (map_of (fchunks t) (i, n))"
| "view_get t (KXAttr i n) = map_option RXAttr (map_of (xattrs t) (i, n))"

definition view_put :: "row \<Rightarrow> tables \<Rightarrow> tables" where
  "view_put r t =
     (case r of
        RInode x \<Rightarrow> t\<lparr>inodes := AList.update (inIno x) x (inodes t)\<rparr>
      | RDirEntry x \<Rightarrow> t\<lparr>entries := AList.update (deParentIno x, deName x) x (entries t)\<rparr>
      | RFileChunk x \<Rightarrow> t\<lparr>fchunks := AList.update (fcIno x, fcIndex x) x (fchunks t)\<rparr>
      | RXAttr x \<Rightarrow> t\<lparr>xattrs := AList.update (xaIno x, xaName x) x (xattrs t)\<rparr>)"

definition view_delete :: "row_key \<Rightarrow> tables \<Rightarrow> tables" where
  "view_delete k t =
     (case k of
        KInode i \<Rightarrow> t\<lparr>inodes := AList.delete i (inodes t)\<rparr>
      | KDirEntry p n \<Rightarrow> t\<lparr>entries := AList.delete (p, n) (entries t)\<rparr>
      | KFileChunk i n \<Rightarrow> t\<lparr>fchunks := AList.delete (i, n) (fchunks t)\<rparr>
      | KXAttr i n \<Rightarrow> t\<lparr>xattrs := AList.delete (i, n) (xattrs t)\<rparr>)"

datatype tx_op = InsertRow row | UpdateRow row | DeleteRow row_key

fun apply_write :: "tx_op \<Rightarrow> tables \<Rightarrow> tables" where
  "apply_write (InsertRow r) t = view_put r t"
| "apply_write (UpdateRow r) t = view_put r t"
| "apply_write (DeleteRow k) t = view_delete k t"

fun written_key :: "tx_op \<Rightarrow> row_key" where
  "written_key (InsertRow r) = key_of r"
| "written_key (UpdateRow r) = key_of r"
| "written_key (DeleteRow k) = k"

fun after_image :: "tx_op \<Rightarrow> row option" where
  "after_image (InsertRow r) = Some r"
| "after_image (UpdateRow r) = Some r"
| "after_image (DeleteRow k) = None"

subsection \<open>Statistics\<close>

record VolumeStats =
  maxIno :: uint64
  inodesFile :: int
  inodesDir :: int
  inodesSymlink :: int
  inodesOther :: int
  logicalBytes :: int
  fileChunks :: int

definition S_IFMT :: uint32 where "S_IFMT = 0xF000"
definition S_IFREG :: uint32 where "S_IFREG = 0x8000"
definition S_IFDIR :: uint32 where "S_IFDIR = 0x4000"
definition S_IFLNK :: uint32 where "S_IFLNK = 0xA000"
definition S_IFIFO :: uint32 where "S_IFIFO = 0x1000"
definition S_IFSOCK :: uint32 where "S_IFSOCK = 0xC000"
definition S_IFCHR :: uint32 where "S_IFCHR = 0x2000"
definition S_IFBLK :: uint32 where "S_IFBLK = 0x6000"

lemmas S_IF_defs = S_IFMT_def S_IFREG_def S_IFDIR_def S_IFLNK_def S_IFIFO_def S_IFSOCK_def S_IFCHR_def S_IFBLK_def

unbundle bit_operations_syntax

datatype inode_kind = KFile | KDir | KSymlink | KOther

definition inodeType :: "Inode \<Rightarrow> inode_kind" where
  "inodeType r =
     (let mode = inMode r
      in if inIsDir r \<or> mode AND S_IFMT = S_IFDIR then KDir
         else if length (inSymlinkTarget r) > 0 \<or> mode AND S_IFMT = S_IFLNK then KSymlink
         else if mode AND S_IFMT = S_IFREG \<or> mode AND (S_IFCHR OR S_IFBLK OR S_IFIFO OR S_IFSOCK) = 0 then KFile
         else KOther)"

fun adjustInodeCount :: "inode_kind \<Rightarrow> int \<Rightarrow> VolumeStats \<Rightarrow> VolumeStats" where
  "adjustInodeCount KFile delta s = s\<lparr>inodesFile := inodesFile s + delta\<rparr>"
| "adjustInodeCount KDir delta s = s\<lparr>inodesDir := inodesDir s + delta\<rparr>"
| "adjustInodeCount KSymlink delta s = s\<lparr>inodesSymlink := inodesSymlink s + delta\<rparr>"
| "adjustInodeCount KOther delta s = s\<lparr>inodesOther := inodesOther s + delta\<rparr>"

fun UpdateStatsForInodeChange :: "Inode option \<Rightarrow> Inode option \<Rightarrow> VolumeStats \<Rightarrow> VolumeStats" where
  "UpdateStatsForInodeChange None (Some a) s =
     (let s = (if inIno a > maxIno s then s\<lparr>maxIno := inIno a\<rparr> else s);
          s = adjustInodeCount (inodeType a) 1 s
      in if inodeType a = KFile \<and> inSize a > 0 then s\<lparr>logicalBytes := logicalBytes s + inSize a\<rparr> else s)"
| "UpdateStatsForInodeChange (Some b) (Some a) s =
     (let s = (if inodeType b \<noteq> inodeType a then adjustInodeCount (inodeType a) 1 (adjustInodeCount (inodeType b) (-1) s) else s)
      in if inodeType a = KFile then s\<lparr>logicalBytes := logicalBytes s + (inSize a - inSize b)\<rparr> else s)"
| "UpdateStatsForInodeChange (Some b) None s =
     (let s = adjustInodeCount (inodeType b) (-1) s
      in if inodeType b = KFile \<and> inSize b > 0 then s\<lparr>logicalBytes := logicalBytes s - inSize b\<rparr> else s)"
| "UpdateStatsForInodeChange None None s = s"

fun UpdateStatsForFileChunkChange :: "FileChunk option \<Rightarrow> FileChunk option \<Rightarrow> VolumeStats \<Rightarrow> VolumeStats" where
  "UpdateStatsForFileChunkChange None (Some _) s = s\<lparr>fileChunks := fileChunks s + 1\<rparr>"
| "UpdateStatsForFileChunkChange (Some _) None s = s\<lparr>fileChunks := fileChunks s - 1\<rparr>"
| "UpdateStatsForFileChunkChange _ _ s = s"

definition type_error :: "error" where
  "type_error = ErrMsg ''unexpected message type for stats update''"

definition UpdateVolumeStats :: "row option \<Rightarrow> row option \<Rightarrow> VolumeStats \<Rightarrow> error + VolumeStats" where
  "UpdateVolumeStats before after s =
     (case (before, after) of
        (None, None) \<Rightarrow> Inr s
      | (None, Some (RInode a)) \<Rightarrow> Inr (UpdateStatsForInodeChange None (Some a) s)
      | (Some (RInode b), Some (RInode a)) \<Rightarrow> Inr (UpdateStatsForInodeChange (Some b) (Some a) s)
      | (Some (RInode b), None) \<Rightarrow> Inr (UpdateStatsForInodeChange (Some b) None s)
      | (_, Some (RInode a)) \<Rightarrow> Inl type_error
      | (None, Some (RFileChunk a)) \<Rightarrow> Inr (UpdateStatsForFileChunkChange None (Some a) s)
      | (Some (RFileChunk b), Some (RFileChunk a)) \<Rightarrow> Inr (UpdateStatsForFileChunkChange (Some b) (Some a) s)
      | (Some (RFileChunk b), None) \<Rightarrow> Inr (UpdateStatsForFileChunkChange (Some b) None s)
      | (_, Some (RFileChunk a)) \<Rightarrow> Inl type_error
      | _ \<Rightarrow> Inr s)"

definition countStatsFromIndex :: "tables \<Rightarrow> VolumeStats" where
  "countStatsFromIndex t =
     fold (\<lambda>(_, c). UpdateStatsForFileChunkChange None (Some c)) (fchunks t)
       (fold (\<lambda>(_, r). UpdateStatsForInodeChange None (Some r)) (inodes t)
         \<lparr>maxIno = 0, inodesFile = 0, inodesDir = 0, inodesSymlink = 0, inodesOther = 0, logicalBytes = 0, fileChunks = 0\<rparr>)"

subsection \<open>The state\<close>

abbreviation ENOENT :: error where "ENOENT \<equiv> ErrMsg ''ENOENT''"
abbreviation ENOTDIR :: error where "ENOTDIR \<equiv> ErrMsg ''ENOTDIR''"
abbreviation EISDIR :: error where "EISDIR \<equiv> ErrMsg ''EISDIR''"
abbreviation EEXIST :: error where "EEXIST \<equiv> ErrMsg ''EEXIST''"
abbreviation EINVAL :: error where "EINVAL \<equiv> ErrMsg ''EINVAL''"
abbreviation EPERM :: error where "EPERM \<equiv> ErrMsg ''EPERM''"
abbreviation ENOTEMPTY :: error where "ENOTEMPTY \<equiv> ErrMsg ''ENOTEMPTY''"
abbreviation ENAMETOOLONG :: error where "ENAMETOOLONG \<equiv> ErrMsg ''ENAMETOOLONG''"
abbreviation ENODATA :: error where "ENODATA \<equiv> ErrMsg ''ENODATA''"
abbreviation ENOTSUP :: error where "ENOTSUP \<equiv> ErrMsg ''ENOTSUP''"
abbreviation E2BIG :: error where "E2BIG \<equiv> ErrMsg ''E2BIG''"

definition MaxNameLength :: nat where "MaxNameLength = 255"
definition MaxXAttrNameLength :: nat where "MaxXAttrNameLength = 255"
definition MaxXAttrValueLength :: nat where "MaxXAttrValueLength = 65536"
definition DefaultInodeStride :: uint64 where "DefaultInodeStride = 8"

record stagedChunkReference =
  srPackID :: uint64
  srLength :: int

record metaTx =
  txReads :: "(row_key \<times> row option) list"
  txPrefixes :: "key_prefix list"
  txOps :: "tx_op list"

record Volume =
  rootInodeID :: uint64
  nextInode :: uint64
  maxInlineLen :: int
  vChunkSize :: uint32
  vRows :: tables
    \<comment> \<open>what the metadata view returns\<close>
  lastCommitSeq :: uint64
  liveStats :: "VolumeStats option"
  dirParents :: "(uint64 \<times> uint64) list"
  nextFh :: uint64
  handles :: "(uint64 \<times> uint64) list"
  openInodes :: "(uint64 \<times> int) list"
  stagedChunks :: "(uint64 \<times> (nat \<times> stagedChunkReference) list) list"
  stagedSizes :: "(uint64 \<times> int) list"
  stagedMtimes :: "(uint64 \<times> nat) list"
  stagedBytes :: int
  packRefs :: "(uint64 \<times> int) list"
    \<comment> \<open>\<open>liveReferences\<close> of the packs\<close>
  vTx :: metaTx
    \<comment> \<open>the transaction of the operation that holds the mutex\<close>

record outcomes =
  \<comment> \<open>of the calls of one operation: errors of the view when a row or a prefix is read, of the stream when the
     \<open>n\<close>-th operation is appended, at the commit and while waiting for durability\<close>
  now :: nat
  backpressure :: "error option"
  getError :: "row_key \<Rightarrow> error option"
  scanError :: "key_prefix \<Rightarrow> error option"
  writeError :: "nat \<Rightarrow> error option"
  commitResult :: "error + uint64"
  waitError :: "error option"
  putBlobs :: "(string \<times> bytes) list \<Rightarrow> error option"
    \<comment> \<open>of the blob store\<close>

subsection \<open>Transactions\<close>

definition beginTx :: "Volume \<Rightarrow> Volume" where
  "beginTx v = v\<lparr>vTx := \<lparr>txReads = [], txPrefixes = [], txOps = []\<rparr>\<rparr>"

definition checkReadAllowed :: "bool \<Rightarrow> Volume \<Rightarrow> (error + unit) \<times> Volume" where
  \<comment> \<open>the flag says that the read is part of the transaction\<close>
  "checkReadAllowed t v =
     (if t \<and> txOps (vTx v) \<noteq> [] then (Inl (Panic ''read after transaction buffered write''), v) else (Inr (), v))"

definition recordRead :: "bool \<Rightarrow> row_key \<Rightarrow> row option \<Rightarrow> Volume \<Rightarrow> Volume" where
  "recordRead t k r v = (if t then v\<lparr>vTx := (vTx v)\<lparr>txReads := AList.update k r (txReads (vTx v))\<rparr>\<rparr> else v)"

definition recordReadPrefix :: "bool \<Rightarrow> key_prefix \<Rightarrow> Volume \<Rightarrow> Volume" where
  "recordReadPrefix t p v = (if t then v\<lparr>vTx := (vTx v)\<lparr>txPrefixes := List.insert p (txPrefixes (vTx v))\<rparr>\<rparr> else v)"

definition lookupRead :: "metaTx \<Rightarrow> row_key \<Rightarrow> row option option" where
  "lookupRead tx k =
     (case map_of (txReads tx) k of
        Some r \<Rightarrow> Some r
      | None \<Rightarrow> if list_ex (\<lambda>p. in_prefix p k) (txPrefixes tx) then Some None else None)"

definition tx_append :: "outcomes \<Rightarrow> tx_op \<Rightarrow> Volume \<Rightarrow> (error + unit) \<times> Volume" where
  \<comment> \<open>\<open>tx.Insert\<close>, \<open>tx.Update\<close>, \<open>tx.Delete\<close>\<close>
  "tx_append io w v =
     (case writeError io (length (txOps (vTx v))) of
        Some e \<Rightarrow> (Inl e, v)
      | None \<Rightarrow> (Inr (), v\<lparr>vTx := (vTx v)\<lparr>txOps := txOps (vTx v) @ [w]\<rparr>\<rparr>))"

fun tx_appends :: "outcomes \<Rightarrow> tx_op list \<Rightarrow> Volume \<Rightarrow> (error + unit) \<times> Volume" where
  "tx_appends io [] v = (Inr (), v)"
| "tx_appends io (w # ws) v = andThen (tx_append io w v) (\<lambda>_ v. tx_appends io ws v)"

definition getSQLiteRow :: "outcomes \<Rightarrow> bool \<Rightarrow> row_key \<Rightarrow> Volume \<Rightarrow> (error + row option) \<times> Volume" where
  "getSQLiteRow io t k v =
     andThen (checkReadAllowed t v) (\<lambda>_ v.
       case getError io k of
         Some e \<Rightarrow> (Inl e, v)
       | None \<Rightarrow> (Inr (view_get (vRows v) k), recordRead t k (view_get (vRows v) k) v))"

fun prefix_rows :: "tables \<Rightarrow> key_prefix \<Rightarrow> row list" where
  "prefix_rows t PInode = map (RInode \<circ> snd) (inodes t)"
| "prefix_rows t (PDirEntry i) = map (RDirEntry \<circ> snd) (filter (\<lambda>((p, _), _). p = i) (entries t))"
| "prefix_rows t (PFileChunk i) = map (RFileChunk \<circ> snd) (filter (\<lambda>((p, _), _). p = i) (fchunks t))"
| "prefix_rows t (PXAttr i) = map (RXAttr \<circ> snd) (filter (\<lambda>((p, _), _). p = i) (xattrs t))"

definition scanLimitSQLiteRows :: "outcomes \<Rightarrow> bool \<Rightarrow> key_prefix \<Rightarrow> nat \<Rightarrow> Volume \<Rightarrow> (error + row list) \<times> Volume" where
  \<comment> \<open>the rows of a scan are in no particular order; the prefix of all inodes is empty and not recorded\<close>
  "scanLimitSQLiteRows io t p limit v =
     andThen (checkReadAllowed t v) (\<lambda>_ v.
       case scanError io p of
         Some e \<Rightarrow> (Inl e, v)
       | None \<Rightarrow>
           let allMsgs = prefix_rows (vRows v) p;
               truncated = limit > 0 \<and> length allMsgs > limit;
               msgs = (if truncated then take limit allMsgs else allMsgs);
               v = (if p \<noteq> PInode \<and> \<not> truncated then recordReadPrefix t p v else v)
           in (Inr msgs, fold (\<lambda>r. recordRead t (key_of r) (Some r)) msgs v))"

definition scanSQLiteRows :: "outcomes \<Rightarrow> bool \<Rightarrow> key_prefix \<Rightarrow> Volume \<Rightarrow> (error + row list) \<times> Volume" where
  "scanSQLiteRows io t p v = scanLimitSQLiteRows io t p 0 v"

fun stats_loop :: "metaTx \<Rightarrow> tx_op list \<Rightarrow> (row_key \<times> row option) list \<Rightarrow> VolumeStats \<Rightarrow> error + VolumeStats" where
  \<comment> \<open>\<open>UpdateStatsFromChanges\<close> with the rows the transaction has read; an error of the loop is a panic of its caller\<close>
  "stats_loop tx [] latest s = Inr s"
| "stats_loop tx (w # ws) latest s =
     (case (case map_of latest (written_key w) of Some r \<Rightarrow> Some r | None \<Rightarrow> lookupRead tx (written_key w)) of
        None \<Rightarrow> Inl (Panic ''key written but never read'')
      | Some before \<Rightarrow>
          (case UpdateVolumeStats before (after_image w) s of
             Inl _ \<Rightarrow> Inl (Panic ''volume stats update failed'')
           | Inr s \<Rightarrow> stats_loop tx ws (AList.update (written_key w) (after_image w) latest) s))"

definition applyTxChanges :: "Volume \<Rightarrow> (error + unit) \<times> Volume" where
  "applyTxChanges v =
     andThen (case liveStats v of
                None \<Rightarrow> (Inr (), v)
              | Some s \<Rightarrow>
                  (case stats_loop (vTx v) (txOps (vTx v)) [] s of
                     Inl e \<Rightarrow> (Inl e, v)
                   | Inr s \<Rightarrow> (Inr (), v\<lparr>liveStats := Some s\<rparr>)))
       (\<lambda>_ v. (Inr (), v\<lparr>vRows := fold apply_write (txOps (vTx v)) (vRows v)\<rparr>))"

definition commitTx :: "outcomes \<Rightarrow> Volume \<Rightarrow> (error + uint64) \<times> Volume" where
  "commitTx io v =
     (case commitResult io of
        Inl e \<Rightarrow> (Inl e, v)
      | Inr commitSeq \<Rightarrow> andThen (applyTxChanges v) (\<lambda>_ v. (Inr commitSeq, v)))"

definition makeWaitFn :: "uint64 \<Rightarrow> Volume \<Rightarrow> Volume" where
  "makeWaitFn commitSeq v = (if commitSeq > lastCommitSeq v then v\<lparr>lastCommitSeq := commitSeq\<rparr> else v)"

definition await :: "outcomes \<Rightarrow> uint64 \<Rightarrow> 'a \<Rightarrow> Volume \<Rightarrow> (error + 'a) \<times> Volume" where
  \<comment> \<open>the end of an operation: nothing is taken back if the wait for durability fails\<close>
  "await io commitSeq r v = (if commitSeq = 0 then (Inr r, v) else case waitError io of Some e \<Rightarrow> (Inl e, v) | None \<Rightarrow> (Inr r, v))"

subsection \<open>Inodes and directory entries\<close>

definition normalizeInodeID :: "Volume \<Rightarrow> uint64 \<Rightarrow> uint64" where
  "normalizeInodeID v i = (if i = 0 then if rootInodeID v \<noteq> 0 then rootInodeID v else 1 else i)"

definition allocInode :: "Volume \<Rightarrow> uint64 \<times> Volume" where
  "allocInode v =
     (let ino = nextInode v;
          v = v\<lparr>nextInode := nextInode v + DefaultInodeStride\<rparr>
      in (ino, recordReadPrefix True (PFileChunk ino) (recordRead True (KInode ino) None v)))"

definition ensureInodeChunksLoaded :: "outcomes \<Rightarrow> bool \<Rightarrow> Inode \<Rightarrow> Volume \<Rightarrow> (error + unit) \<times> Volume" where
  \<comment> \<open>of an inode just loaded; the contents that are loaded with it are used by reads of data only\<close>
  "ensureInodeChunksLoaded io t r v =
     andThen (checkReadAllowed t v) (\<lambda>_ v.
       let v = recordReadPrefix t (PFileChunk (inIno r)) v
       in if inIsDir r \<or> inSize r = 0 then (Inr (), v)
          else andThen (scanSQLiteRows io t (PFileChunk (inIno r)) v) (\<lambda>_ v. (Inr (), v)))"

definition getOrLoadInode :: "outcomes \<Rightarrow> bool \<Rightarrow> uint64 \<Rightarrow> Volume \<Rightarrow> (error + Inode) \<times> Volume" where
  "getOrLoadInode io t i v =
     (let i = normalizeInodeID v i
      in andThen (getSQLiteRow io t (KInode i) v) (\<lambda>m v.
           case m of
             None \<Rightarrow> (Inl ENOENT, v)
           | Some (RInode r) \<Rightarrow>
               let v = (if inIsDir r \<and> inParentIno r \<noteq> 0 then v\<lparr>dirParents := AList.update (inIno r) (inParentIno r) (dirParents v)\<rparr> else v)
               in andThen (ensureInodeChunksLoaded io t r v) (\<lambda>_ v. (Inr r, v))
           | Some _ \<Rightarrow> (Inl (Panic ''interface conversion''), v)))"

definition getDirEntry :: "outcomes \<Rightarrow> bool \<Rightarrow> uint64 \<Rightarrow> string \<Rightarrow> Volume \<Rightarrow> (error + DirEntry option) \<times> Volume" where
  "getDirEntry io t p n v =
     andThen (getSQLiteRow io t (KDirEntry p n) v) (\<lambda>m v.
       case m of
         None \<Rightarrow> (Inr None, v)
       | Some (RDirEntry d) \<Rightarrow> (Inr (Some d), v)
       | Some _ \<Rightarrow> (Inl (Panic ''interface conversion''), v))"

definition hasOpenHandles :: "Volume \<Rightarrow> uint64 \<Rightarrow> bool" where
  "hasOpenHandles v i \<longleftrightarrow> (case map_of (openInodes v) i of Some n \<Rightarrow> n > 0 | None \<Rightarrow> False)"

fun chunk_index :: "row \<Rightarrow> uint32" where
  \<comment> \<open>of a row of a scan of chunks\<close>
  "chunk_index (RFileChunk c) = fcIndex c"
| "chunk_index _ = 0"

fun xattr_name :: "row \<Rightarrow> string" where
  "xattr_name (RXAttr x) = xaName x"
| "xattr_name _ = []"

definition deleteInodeRows :: "outcomes \<Rightarrow> uint64 \<Rightarrow> Volume \<Rightarrow> (error + unit) \<times> Volume" where
  "deleteInodeRows io i v =
     andThen (scanSQLiteRows io True (PFileChunk i) v) (\<lambda>chunkMsgs v.
     andThen (scanSQLiteRows io True (PXAttr i) v) (\<lambda>xattrMsgs v.
       tx_appends io (DeleteRow (KInode i) # map (DeleteRow \<circ> KFileChunk i \<circ> chunk_index) chunkMsgs
         @ map (DeleteRow \<circ> KXAttr i \<circ> xattr_name) xattrMsgs) v))"
end
