(* ===== verification/VolumeOps.thy ===== *)
theory VolumeOps
  imports VolumeMeta
begin

text \<open>
  \<^verbatim>\<open>pkg/objectfs/controller/volume.go\<close>: the operations of a volume on its namespace. Each operation is one step, since it holds
  the mutex of the volume, but for \<^verbatim>\<open>Unlink\<close>, which takes it twice. The wait for durability at the end
  of an operation, without the mutex, changes nothing.

  The loop of \<^verbatim>\<open>Rename\<close> over the ancestors of a directory need not end; it is a partial function, and an operation
  that does not return is represented by a \<open>Panic\<close> of its own.
\<close>

subsection \<open>Reading\<close>

record EntryAttr =
  eaInode :: Inode
  eaName :: string
  eaRedirectUrl :: string
  eaStreamPosition :: uint64

definition toEntryAttr :: "Volume \<Rightarrow> Inode \<Rightarrow> string \<Rightarrow> string \<Rightarrow> EntryAttr" where
  "toEntryAttr v row name redirectURL =
     (let ino = inIno row;
          name = (if name = '''' \<and> (ino = rootInodeID v \<or> ino = 1) then ''/'' else name);
          row = (if rootInodeID v \<noteq> 0 \<and> ino = rootInodeID v \<and> rootInodeID v \<noteq> 1 then row\<lparr>inIno := 1\<rparr> else row)
      in \<lparr>eaInode = row, eaName = name, eaRedirectUrl = redirectURL, eaStreamPosition = lastCommitSeq v\<rparr>)"

definition loadEntryAttr :: "outcomes \<Rightarrow> bool \<Rightarrow> uint64 \<Rightarrow> string \<Rightarrow> Volume \<Rightarrow> (error + EntryAttr) \<times> Volume" where
  \<comment> \<open>\<open>toEntryAttrLocked\<close>\<close>
  "loadEntryAttr io t i name v = andThen (getOrLoadInode io t i v) (\<lambda>row v. (Inr (toEntryAttr v row name ''''), v))"

definition GetAttr :: "outcomes \<Rightarrow> uint64 \<Rightarrow> Volume \<Rightarrow> (error + EntryAttr) \<times> Volume" where
  "GetAttr io i v = loadEntryAttr io False (normalizeInodeID v i) '''' v"

definition GetXAttr :: "outcomes \<Rightarrow> uint64 \<Rightarrow> string \<Rightarrow> Volume \<Rightarrow> (error + bytes) \<times> Volume" where
  "GetXAttr io i name v =
     (if length name > MaxXAttrNameLength then (Inl ENAMETOOLONG, v)
      else if HasPrefix name ''system.'' then (Inl ENOTSUP, v)
      else let i = normalizeInodeID v i
           in andThen (getOrLoadInode io False i v) (\<lambda>_ v.
              andThen (getSQLiteRow io False (KXAttr i name) v) (\<lambda>msg v.
                case msg of
                  None \<Rightarrow> (Inl ENODATA, v)
                | Some (RXAttr x) \<Rightarrow> (Inr (xaValue x), v)
                | Some _ \<Rightarrow> (Inl (Panic ''interface conversion''), v))))"

definition ListXAttr :: "outcomes \<Rightarrow> uint64 \<Rightarrow> Volume \<Rightarrow> (error + row list) \<times> Volume" where
  "ListXAttr io i v =
     (let i = normalizeInodeID v i
      in andThen (getOrLoadInode io False i v) (\<lambda>_ v. scanSQLiteRows io False (PXAttr i) v))"

definition Lookup :: "outcomes \<Rightarrow> uint64 \<Rightarrow> string \<Rightarrow> Volume \<Rightarrow> (error + EntryAttr) \<times> Volume" where
  "Lookup io p name v =
     (if length name > MaxNameLength then (Inl ENAMETOOLONG, v)
      else let p = normalizeInodeID v p
           in if name = ''.'' then loadEntryAttr io False p ''.'' v
              else if name = ''..''
              then if p = rootInodeID v \<or> p = 1 then loadEntryAttr io False (rootInodeID v) ''..'' v
                   else andThen (getOrLoadInode io False p v) (\<lambda>row v.
                          if \<not> inIsDir row then (Inl ENOTDIR, v)
                          else let pIno = inParentIno row;
                                   pIno = (if pIno = 0 then case_option 0 id (map_of (dirParents v) p) else pIno);
                                   pIno = (if pIno = 0 then rootInodeID v else pIno)
                               in loadEntryAttr io False pIno ''..'' v)
              else andThen (getDirEntry io False p name v) (\<lambda>de v.
                     case de of
                       None \<Rightarrow> (Inl ENOENT, v)
                     | Some de \<Rightarrow> loadEntryAttr io False (deIno de) name v))"

fun readdir_loop :: "outcomes \<Rightarrow> (string \<times> DirEntry) list \<Rightarrow> string list \<Rightarrow> Volume \<Rightarrow> (error + EntryAttr list) \<times> Volume" where
  "readdir_loop io entriesMap [] v = (Inr [], v)"
| "readdir_loop io entriesMap (name # names) v =
     (case map_of entriesMap name of
        None \<Rightarrow> (Inl (Panic ''nil map entry''), v)
      | Some de \<Rightarrow>
          andThen (loadEntryAttr io False (deIno de) name v) (\<lambda>attr v.
          andThen (readdir_loop io entriesMap names v) (\<lambda>attrs v. (Inr (attr # attrs), v))))"

fun row_entry :: "row \<Rightarrow> DirEntry list" where
  \<comment> \<open>the entry of a row of a scan of entries\<close>
  "row_entry (RDirEntry d) = [d]"
| "row_entry _ = []"

definition ReadDir :: "outcomes \<Rightarrow> uint64 \<Rightarrow> Volume \<Rightarrow> (error + EntryAttr list) \<times> Volume" where
  "ReadDir io i v =
     (let i = normalizeInodeID v i
      in andThen (getOrLoadInode io False i v) (\<lambda>row v.
           if \<not> inIsDir row then (Inl ENOTDIR, v)
           else andThen (scanSQLiteRows io False (PDirEntry i) v) (\<lambda>entryMsgs v.
             let des = concat (map row_entry entryMsgs);
                 entriesMap = fold (\<lambda>de. AList.update (deName de) de) des []
             in readdir_loop io entriesMap (sort (map deName des)) v)))"

definition Readlink :: "outcomes \<Rightarrow> uint64 \<Rightarrow> Volume \<Rightarrow> (error + string) \<times> Volume" where
  "Readlink io i v =
     andThen (getOrLoadInode io False (normalizeInodeID v i) v) (\<lambda>row v.
       if inMode row AND S_IFMT \<noteq> S_IFLNK \<and> inSymlinkTarget row = '''' then (Inl EINVAL, v)
       else (Inr (inSymlinkTarget row), v))"

definition cleanParts :: "string \<Rightarrow> string list" where
  \<comment> \<open>the components of \<open>path.Clean("/" + p)\<close>\<close>
  "cleanParts p =
     rev (fold (\<lambda>part acc. if part = '''' \<or> part = ''.'' then acc else if part = ''..'' then drop 1 acc else part # acc)
            (Split p ''/'') [])"

fun resolve_loop :: "outcomes \<Rightarrow> string list \<Rightarrow> uint64 \<Rightarrow> Volume \<Rightarrow> (error + uint64 \<times> uint64 \<times> string) \<times> Volume" where
  "resolve_loop io [] cur v = (Inr (cur, 0, ''''), v)"
| "resolve_loop io (part # parts) cur v =
     (if length part > MaxNameLength then (Inl ENAMETOOLONG, v)
      else andThen (getDirEntry io False cur part v) (\<lambda>de v.
        case de of
          None \<Rightarrow> (Inl ENOENT, v)
        | Some de \<Rightarrow>
            if parts = [] then (Inr (deIno de, cur, part), v)
            else if \<not> deIsDir de then (Inl ENOTDIR, v)
            else resolve_loop io parts (deIno de) v))"

definition resolvePath :: "outcomes \<Rightarrow> string \<Rightarrow> Volume \<Rightarrow> (error + uint64 \<times> uint64 \<times> string) \<times> Volume" where
  "resolvePath io p v = resolve_loop io (cleanParts p) (rootInodeID v) v"

definition ResolvePath :: "outcomes \<Rightarrow> string \<Rightarrow> Volume \<Rightarrow> (error + uint64) \<times> Volume" where
  "ResolvePath io p v = andThen (resolvePath io p v) (\<lambda>(i, _, _) v. (Inr i, v))"

subsection \<open>Changing attributes\<close>

definition checkBackpressure :: "outcomes \<Rightarrow> Volume \<Rightarrow> (error + unit) \<times> Volume" where
  "checkBackpressure io v = (case backpressure io of Some e \<Rightarrow> (Inl e, v) | None \<Rightarrow> (Inr (), v))"

definition SetAttr ::
  "outcomes \<Rightarrow> uint64 \<Rightarrow> uint32 option \<Rightarrow> uint32 option \<Rightarrow> uint32 option \<Rightarrow> nat option \<Rightarrow> bool \<Rightarrow> nat option \<Rightarrow> bool \<Rightarrow>
   nat option \<Rightarrow> bool \<Rightarrow> Volume \<Rightarrow> (error + EntryAttr) \<times> Volume" where
  "SetAttr io i mode uid gid atime atimeNow mtime mtimeNow ctime ctimeNow v =
     andThen (checkBackpressure io (beginTx v)) (\<lambda>_ v.
     let i = normalizeInodeID v i
     in andThen (getOrLoadInode io True i v) (\<lambda>row v.
        if \<not> (mode \<noteq> None \<or> uid \<noteq> None \<or> gid \<noteq> None \<or> atimeNow \<or> atime \<noteq> None \<or> mtimeNow \<or> mtime \<noteq> None \<or> ctimeNow \<or> ctime \<noteq> None)
        then loadEntryAttr io True i '''' v
        else let row = (case mode of Some m \<Rightarrow> row\<lparr>inMode := (inMode row AND NOT 0xFFF) OR (m AND 0xFFF)\<rparr> | None \<Rightarrow> row);
                 row = (case uid of Some u \<Rightarrow> row\<lparr>inUid := u\<rparr> | None \<Rightarrow> row);
                 row = (case gid of Some g \<Rightarrow> row\<lparr>inGid := g\<rparr> | None \<Rightarrow> row);
                 row = (if atimeNow then row\<lparr>inAtime := now io\<rparr> else case atime of Some a \<Rightarrow> row\<lparr>inAtime := a\<rparr> | None \<Rightarrow> row);
                 row = (if mtimeNow then row\<lparr>inMtime := now io\<rparr> else case mtime of Some m \<Rightarrow> row\<lparr>inMtime := m\<rparr> | None \<Rightarrow> row);
                 row = (if ctimeNow then row\<lparr>inCtime := now io\<rparr> else case ctime of Some c \<Rightarrow> row\<lparr>inCtime := c\<rparr> | None \<Rightarrow> row\<lparr>inCtime := now io\<rparr>)
             in andThen (tx_appends io [UpdateRow (RInode row)] v) (\<lambda>_ v.
                andThen (commitTx io v) (\<lambda>commitSeq v.
                  let v = makeWaitFn commitSeq v in await io commitSeq (toEntryAttr v row '''' '''') v))))"

datatype xattr_flags = FLAGS_NONE | FLAGS_CREATE | FLAGS_REPLACE

definition SetXAttr :: "outcomes \<Rightarrow> uint64 \<Rightarrow> string \<Rightarrow> bytes \<Rightarrow> xattr_flags \<Rightarrow> Volume \<Rightarrow> (error + unit) \<times> Volume" where
  "SetXAttr io i name val flags v =
     (if length name > MaxXAttrNameLength then (Inl ENAMETOOLONG, v)
      else if HasPrefix name ''system.'' then (Inl ENOTSUP, v)
      else if length val > MaxXAttrValueLength then (Inl E2BIG, v)
      else andThen (checkBackpressure io (beginTx v)) (\<lambda>_ v.
        let i = normalizeInodeID v i
        in andThen (getOrLoadInode io True i v) (\<lambda>row v.
           andThen (getSQLiteRow io True (KXAttr i name) v) (\<lambda>msg v.
             let present = (msg \<noteq> None)
             in if flags = FLAGS_CREATE \<and> present then (Inl EEXIST, v)
                else if flags = FLAGS_REPLACE \<and> \<not> present then (Inl ENODATA, v)
                else let row = row\<lparr>inCtime := now io\<rparr>;
                         row = (if present then row else row\<lparr>inXattrCount := inXattrCount row + 1\<rparr>);
                         xattrMsg = RXAttr \<lparr>xaIno = i, xaName = name, xaValue = val\<rparr>
                     in andThen (tx_appends io [if present then UpdateRow xattrMsg else InsertRow xattrMsg, UpdateRow (RInode row)] v) (\<lambda>_ v.
                        andThen (commitTx io v) (\<lambda>commitSeq v.
                          await io commitSeq () (makeWaitFn commitSeq v)))))))"

definition RemoveXAttr :: "outcomes \<Rightarrow> uint64 \<Rightarrow> string \<Rightarrow> Volume \<Rightarrow> (error + unit) \<times> Volume" where
  "RemoveXAttr io i name v =
     (if length name > MaxXAttrNameLength then (Inl ENAMETOOLONG, v)
      else if HasPrefix name ''system.'' then (Inl ENOTSUP, v)
      else andThen (checkBackpressure io (beginTx v)) (\<lambda>_ v.
        let i = normalizeInodeID v i
        in andThen (getOrLoadInode io True i v) (\<lambda>row v.
           andThen (getSQLiteRow io True (KXAttr i name) v) (\<lambda>msg v.
             if msg = None then (Inl ENODATA, v)
             else let row = row\<lparr>inCtime := now io, inXattrCount := (if inXattrCount row > 0 then inXattrCount row - 1 else 0)\<rparr>
                  in andThen (tx_appends io [DeleteRow (KXAttr i name), UpdateRow (RInode row)] v) (\<lambda>_ v.
                     andThen (commitTx io v) (\<lambda>commitSeq v.
                       await io commitSeq () (makeWaitFn commitSeq v)))))))"

subsection \<open>Creating entries\<close>

definition bad_name :: "string \<Rightarrow> bool" where
  "bad_name name \<longleftrightarrow> name = '''' \<or> name = ''.'' \<or> name = ''..''"

definition touch_dir :: "outcomes \<Rightarrow> Inode \<Rightarrow> Inode" where
  \<comment> \<open>the times of a directory whose entries change\<close>
  "touch_dir io row = row\<lparr>inMtime := now io, inCtime := now io\<rparr>"

definition undo_parent :: "uint64 \<Rightarrow> (error + 'a) \<times> Volume \<Rightarrow> (error + 'a) \<times> Volume" where
  "undo_parent i r = (case r of (Inl e, v) \<Rightarrow> (Inl e, v\<lparr>dirParents := AList.delete i (dirParents v)\<rparr>) | (Inr x, v) \<Rightarrow> (Inr x, v))"

definition Mkdir :: "outcomes \<Rightarrow> uint64 \<Rightarrow> string \<Rightarrow> uint32 \<Rightarrow> uint32 \<Rightarrow> uint32 \<Rightarrow> Volume \<Rightarrow> (error + EntryAttr) \<times> Volume" where
  "Mkdir io p name mode uid gid v =
     (if length name > MaxNameLength then (Inl ENAMETOOLONG, v)
      else andThen (checkBackpressure io (beginTx v)) (\<lambda>_ v.
        let p = normalizeInodeID v p
        in if bad_name name then (Inl EINVAL, v)
           else andThen (getOrLoadInode io True p v) (\<lambda>parent v.
             if \<not> inIsDir parent then (Inl ENOTDIR, v)
             else andThen (getDirEntry io True p name v) (\<lambda>de v.
               if de \<noteq> None then (Inl EEXIST, v)
               else let mode = (if mode = 0 then 0x1ED else mode) OR S_IFDIR;
                        setgid = (inMode parent AND 0x400 \<noteq> 0);
                        gid = (if setgid then inGid parent else gid);
                        mode = (if setgid then mode OR 0x400 else mode);
                        (child, v) = allocInode v;
                        parent = touch_dir io (parent\<lparr>inNlink := (if inNlink parent < 2 then 2 else inNlink parent) + 1\<rparr>);
                        v = v\<lparr>dirParents := AList.update child p (dirParents v)\<rparr>;
                        childMsg = (new_inode child)\<lparr>inMode := mode, inMtime := now io, inAtime := now io, inCtime := now io,
                          inUid := uid, inGid := gid, inIsDir := True, inNlink := 2, inParentIno := p\<rparr>;
                        entryMsg = \<lparr>deParentIno = p, deName = name, deIno = child, deIsDir = True, deMode = mode\<rparr>
                    in andThen (undo_parent child
                         (andThen (tx_appends io [InsertRow (RInode childMsg), InsertRow (RDirEntry entryMsg), UpdateRow (RInode parent)] v) (\<lambda>_ v.
                            commitTx io v))) (\<lambda>commitSeq v.
                         let v = makeWaitFn commitSeq v in await io commitSeq (toEntryAttr v childMsg name '''') v)))))"

definition numChunks :: "nat \<Rightarrow> bytes \<Rightarrow> nat" where
  "numChunks cs data = (length data + cs - 1) div cs"

definition chunk_pieces :: "nat \<Rightarrow> bytes \<Rightarrow> (nat \<times> bytes) list" where
  "chunk_pieces cs data = map (\<lambda>i. (i, take cs (drop (i * cs) data))) [0..<numChunks cs data]"

definition chunk_hashes :: "lib \<Rightarrow> nat \<Rightarrow> bytes \<Rightarrow> (uint32 \<times> string) list" where
  \<comment> \<open>\<open>childInode.Chunks\<close>; the order in which the map is traversed is the order of the chunks\<close>
  "chunk_hashes L cs data = fold (\<lambda>(i, b). AList.update (word_of_nat i) (sha_hex (Sum256 L b))) (chunk_pieces cs data) []"

definition chunk_blobs :: "lib \<Rightarrow> nat \<Rightarrow> bytes \<Rightarrow> (string \<times> bytes) list" where
  "chunk_blobs L cs data = fold (\<lambda>(_, b). AList.update (sha_hex (Sum256 L b)) b) (chunk_pieces cs data) []"

definition upload_blobs :: "outcomes \<Rightarrow> (string \<times> bytes) list \<Rightarrow> Volume \<Rightarrow> (error + unit) \<times> Volume" where
  "upload_blobs io blobs v = (case (if blobs \<noteq> [] then putBlobs io blobs else None) of Some e \<Rightarrow> (Inl e, v) | None \<Rightarrow> (Inr (), v))"

definition inline_chunk :: "uint64 \<Rightarrow> bytes \<Rightarrow> tx_op" where
  "inline_chunk i data = InsertRow (RFileChunk \<lparr>fcIno = i, fcIndex = 0, fcSha256 = '''', fcInlineData = data\<rparr>)"

definition hashed_chunk :: "uint64 \<Rightarrow> uint32 \<times> string \<Rightarrow> tx_op" where
  "hashed_chunk i c = InsertRow (RFileChunk \<lparr>fcIno = i, fcIndex = fst c, fcSha256 = snd c, fcInlineData = []\<rparr>)"

definition overwrite_file ::
  "lib \<Rightarrow> outcomes \<Rightarrow> string \<Rightarrow> uint32 \<Rightarrow> bytes \<Rightarrow> uint32 \<Rightarrow> uint32 \<Rightarrow> string \<Rightarrow> Inode \<Rightarrow> Inode \<Rightarrow> Volume \<Rightarrow> (error + EntryAttr) \<times> Volume" where
  "overwrite_file L io name mode data uid gid hashStr parent child v =
     (let cs = (if inChunkSize child = 0 then if vChunkSize v = 0 then 64 * 1024 else vChunkSize v else inChunkSize child);
          inl = (int (length data) \<le> maxInlineLen v);
          child = child\<lparr>inMode := mode, inSize := int (length data), inMtime := now io, inCtime := now io, inUid := uid, inGid := gid,
            inChunkSize := cs, inContentSha256 := hashStr, inSha256 := ''''\<rparr>;
          child = (if inl then child\<lparr>inManifestSha256 := ''''\<rparr> else child);
          parent = touch_dir io parent;
          i = inIno child
      in andThen (scanSQLiteRows io True (PFileChunk i) v) (\<lambda>chunkMsgs v.
         andThen (if inl
                  then tx_appends io (map (DeleteRow \<circ> KFileChunk i \<circ> chunk_index) chunkMsgs @ (if length data > 0 then [inline_chunk i data] else [])) v
                  else let chunks = chunk_hashes L (unat cs) data
                       in andThen (upload_blobs io (chunk_blobs L (unat cs) data) v) (\<lambda>_ v.
                            tx_appends io
                              (map (DeleteRow \<circ> KFileChunk i) (filter (\<lambda>n. map_of chunks n = None) (map chunk_index chunkMsgs))
                               @ map (hashed_chunk i) chunks) v)) (\<lambda>_ v.
         andThen (tx_appends io [UpdateRow (RInode child), UpdateRow (RInode parent)] v) (\<lambda>_ v.
         andThen (commitTx io v) (\<lambda>commitSeq v.
           let v = makeWaitFn commitSeq v in await io commitSeq (toEntryAttr v child name '''') v)))))"

definition CreateFile ::
  "lib \<Rightarrow> outcomes \<Rightarrow> uint64 \<Rightarrow> string \<Rightarrow> uint32 \<Rightarrow> bytes \<Rightarrow> uint32 \<Rightarrow> uint32 \<Rightarrow> uint32 \<Rightarrow> Volume \<Rightarrow> (error + EntryAttr) \<times> Volume" where
  "CreateFile L io p name mode initialContent uid gid rdev v =
     (if length name > MaxNameLength then (Inl ENAMETOOLONG, v)
      else andThen (checkBackpressure io (beginTx v)) (\<lambda>_ v.
        let p = normalizeInodeID v p
        in if bad_name name then (Inl EINVAL, v)
           else andThen (getOrLoadInode io True p v) (\<lambda>parent v.
             if \<not> inIsDir parent then (Inl ENOTDIR, v)
             else andThen (getDirEntry io True p name v) (\<lambda>de v.
               let mode = (if mode AND S_IFMT = 0 then (if mode AND 0x1FF = 0 then mode OR 0x1A4 else mode) OR S_IFREG else mode);
                   fileType = mode AND S_IFMT
               in if fileType \<notin> {S_IFREG, S_IFIFO, S_IFSOCK, S_IFCHR, S_IFBLK} then (Inl EINVAL, v)
                  else let gid = (if inMode parent AND 0x400 \<noteq> 0 then inGid parent else gid);
                           hashStr = (if fileType = S_IFREG \<and> length initialContent > 0 then sha_hex (Sum256 L initialContent) else '''');
                           data = (if fileType = S_IFREG then initialContent else [])
                       in case de of
                            Some de \<Rightarrow>
                              andThen (getOrLoadInode io True (deIno de) v) (\<lambda>child v.
                                if inIsDir child then (Inl EISDIR, v)
                                else if fileType \<noteq> S_IFREG \<or> inMode child AND S_IFMT \<noteq> S_IFREG then (Inl EEXIST, v)
                                else overwrite_file L io name mode data uid gid hashStr parent child v)
                          | None \<Rightarrow>
                              let (i, v) = allocInode v;
                                  parent = touch_dir io parent;
                                  cs = (if vChunkSize v = 0 then 64 * 1024 else vChunkSize v);
                                  child = (new_inode i)\<lparr>inMode := mode, inSize := int (length data), inMtime := now io, inAtime := now io,
                                    inCtime := now io, inUid := uid, inGid := gid, inNlink := 1, inChunkSize := cs, inRdev := rdev, inContentSha256 := hashStr\<rparr>;
                                  entryMsg = \<lparr>deParentIno = p, deName = name, deIno = i, deIsDir = False, deMode = mode\<rparr>
                              in andThen (if fileType = S_IFREG
                                          then if int (length data) \<le> maxInlineLen v
                                               then tx_appends io (if length data > 0 then [inline_chunk i data] else []) v
                                               else andThen (upload_blobs io (chunk_blobs L (unat cs) data) v) (\<lambda>_ v.
                                                      tx_appends io (map (hashed_chunk i) (chunk_hashes L (unat cs) data)) v)
                                          else (Inr (), v)) (\<lambda>_ v.
                                 andThen (tx_appends io [InsertRow (RInode child), InsertRow (RDirEntry entryMsg), UpdateRow (RInode parent)] v) (\<lambda>_ v.
                                 andThen (commitTx io v) (\<lambda>commitSeq v.
                                   let v = makeWaitFn commitSeq v in await io commitSeq (toEntryAttr v child name '''') v)))))))"
definition Symlink :: "outcomes \<Rightarrow> uint64 \<Rightarrow> string \<Rightarrow> string \<Rightarrow> uint32 \<Rightarrow> uint32 \<Rightarrow> Volume \<Rightarrow> (error + EntryAttr) \<times> Volume" where
  "Symlink io p name target uid gid v =
     (if length name > MaxNameLength then (Inl ENAMETOOLONG, v)
      else andThen (checkBackpressure io (beginTx v)) (\<lambda>_ v.
        let p = normalizeInodeID v p
        in if bad_name name then (Inl EINVAL, v)
           else andThen (getOrLoadInode io True p v) (\<lambda>parent v.
             if \<not> inIsDir parent then (Inl ENOTDIR, v)
             else andThen (getDirEntry io True p name v) (\<lambda>de v.
               if de \<noteq> None then (Inl EEXIST, v)
               else let mode = 0x1FF OR S_IFLNK;
                        gid = (if inMode parent AND 0x400 \<noteq> 0 then inGid parent else gid);
                        (i, v) = allocInode v;
                        parent = touch_dir io parent;
                        child = (new_inode i)\<lparr>inMode := mode, inSize := int (length target), inMtime := now io, inAtime := now io,
                          inCtime := now io, inUid := uid, inGid := gid, inNlink := 1, inSymlinkTarget := target\<rparr>;
                        entryMsg = \<lparr>deParentIno = p, deName = name, deIno = i, deIsDir = False, deMode = mode\<rparr>
                    in andThen (tx_appends io [InsertRow (RInode child), InsertRow (RDirEntry entryMsg), UpdateRow (RInode parent)] v) (\<lambda>_ v.
                       andThen (commitTx io v) (\<lambda>commitSeq v.
                         let v = makeWaitFn commitSeq v in await io commitSeq (toEntryAttr v child name '''') v))))))"

definition Link :: "outcomes \<Rightarrow> uint64 \<Rightarrow> uint64 \<Rightarrow> string \<Rightarrow> Volume \<Rightarrow> (error + EntryAttr) \<times> Volume" where
  "Link io old p name v =
     (if length name > MaxNameLength then (Inl ENAMETOOLONG, v)
      else andThen (checkBackpressure io (beginTx v)) (\<lambda>_ v.
        let old = normalizeInodeID v old; p = normalizeInodeID v p
        in if bad_name name then (Inl EINVAL, v)
           else andThen (getOrLoadInode io True old v) (\<lambda>row v.
             if inIsDir row \<or> inMode row AND S_IFMT = S_IFDIR then (Inl EPERM, v)
             else andThen (getOrLoadInode io True p v) (\<lambda>parent v.
               if \<not> inIsDir parent then (Inl ENOTDIR, v)
               else andThen (getDirEntry io True p name v) (\<lambda>de v.
                 if de \<noteq> None then (Inl EEXIST, v)
                 else let row = row\<lparr>inNlink := (if inNlink row = 0 then 1 else inNlink row) + 1, inCtime := now io\<rparr>;
                          parent = touch_dir io parent;
                          entryMsg = \<lparr>deParentIno = p, deName = name, deIno = inIno row, deIsDir = False, deMode = inMode row\<rparr>
                      in andThen (tx_appends io [UpdateRow (RInode row), InsertRow (RDirEntry entryMsg), UpdateRow (RInode parent)] v) (\<lambda>_ v.
                         andThen (commitTx io v) (\<lambda>commitSeq v.
                           let v = makeWaitFn commitSeq v in await io commitSeq (toEntryAttr v row name '''') v)))))))"

subsection \<open>Removing entries\<close>

definition dropPackReference :: "uint64 \<Rightarrow> Volume \<Rightarrow> Volume" where
  "dropPackReference packID v =
     (case map_of (packRefs v) packID of
        None \<Rightarrow> v
      | Some n \<Rightarrow> v\<lparr>packRefs := AList.update packID (n - 1) (packRefs v)\<rparr>)"

definition dropStagedChunks :: "uint64 \<Rightarrow> Volume \<Rightarrow> Volume" where
  "dropStagedChunks i v =
     (case map_of (stagedChunks v) i of
        None \<Rightarrow> v
      | Some chunks \<Rightarrow>
          (fold (\<lambda>(_, ref) v. dropPackReference (srPackID ref) (v\<lparr>stagedBytes := stagedBytes v - srLength ref\<rparr>)) chunks v)
            \<lparr>stagedChunks := AList.delete i (stagedChunks v), stagedSizes := AList.delete i (stagedSizes v),
             stagedMtimes := AList.delete i (stagedMtimes v)\<rparr>)"

definition less_nlink :: "outcomes \<Rightarrow> Inode \<Rightarrow> Inode" where
  "less_nlink io row = row\<lparr>inNlink := (if inNlink row > 1 then inNlink row - 1 else 0), inCtime := now io\<rparr>"

definition unlink_find :: "outcomes \<Rightarrow> uint64 \<Rightarrow> string \<Rightarrow> Volume \<Rightarrow> (error + uint64) \<times> Volume" where
  \<comment> \<open>first part, under the mutex\<close>
  "unlink_find io p name v =
     andThen (getDirEntry io False p name v) (\<lambda>de v.
       case de of
         None \<Rightarrow> (Inl ENOENT, v)
       | Some de \<Rightarrow>
           andThen (getOrLoadInode io False (deIno de) v) (\<lambda>child v.
             if inIsDir child then (Inl EISDIR, v) else (Inr (inIno child), v)))"

definition unlink_entry :: "outcomes \<Rightarrow> uint64 \<Rightarrow> string \<Rightarrow> uint64 \<Rightarrow> Volume \<Rightarrow> (error + uint64) \<times> Volume" where
  \<comment> \<open>second part, under the mutex; the inode is the one the first part has found\<close>
  "unlink_entry io p name childID v =
     andThen (checkBackpressure io (beginTx v)) (\<lambda>_ v.
     andThen (getDirEntry io True p name v) (\<lambda>de v.
       if de = None then (Inl ENOENT, v)
       else andThen (getOrLoadInode io True childID v) (\<lambda>child v.
         let child = less_nlink io child
         in andThen (getOrLoadInode io True p v) (\<lambda>parent v.
            let parent = touch_dir io parent
            in andThen (if inNlink child = 0 \<and> \<not> hasOpenHandles v childID then deleteInodeRows io childID v
                        else tx_appends io [UpdateRow (RInode child)] v) (\<lambda>_ v.
               andThen (tx_appends io [DeleteRow (KDirEntry p name), UpdateRow (RInode parent)] v) (\<lambda>_ v.
               andThen (commitTx io v) (\<lambda>commitSeq v.
                 await io commitSeq commitSeq (makeWaitFn commitSeq v))))))))"

definition Unlink :: "outcomes \<Rightarrow> uint64 \<Rightarrow> string \<Rightarrow> Volume \<Rightarrow> (error + uint64) \<times> Volume" where
  \<comment> \<open>when nothing happens between its parts\<close>
  "Unlink io p name v =
     (if length name > MaxNameLength then (Inl ENAMETOOLONG, v)
      else let p = normalizeInodeID v p
           in andThen (unlink_find io p name v) (\<lambda>childID v.
                unlink_entry io p name childID (dropStagedChunks childID v)))"

definition Rmdir :: "outcomes \<Rightarrow> uint64 \<Rightarrow> string \<Rightarrow> Volume \<Rightarrow> (error + uint64) \<times> Volume" where
  "Rmdir io p name v =
     (if length name > MaxNameLength then (Inl ENAMETOOLONG, v)
      else andThen (checkBackpressure io (beginTx v)) (\<lambda>_ v.
        let p = normalizeInodeID v p
        in andThen (getDirEntry io True p name v) (\<lambda>de v.
             case de of
               None \<Rightarrow> (Inl ENOENT, v)
             | Some de \<Rightarrow>
                 let childID = deIno de
                 in andThen (getOrLoadInode io True childID v) (\<lambda>child v.
                      if \<not> inIsDir child then (Inl ENOTDIR, v)
                      else andThen (scanLimitSQLiteRows io True (PDirEntry childID) 1 v) (\<lambda>subEntries v.
                        if subEntries \<noteq> [] then (Inl ENOTEMPTY, v)
                        else let v = v\<lparr>dirParents := AList.delete childID (dirParents v)\<rparr>
                             in andThen (getOrLoadInode io True p v) (\<lambda>parent v.
                                let parent = touch_dir io (if inNlink parent > 2 then parent\<lparr>inNlink := inNlink parent - 1\<rparr> else parent)
                                in andThen (deleteInodeRows io childID v) (\<lambda>_ v.
                                   andThen (tx_appends io [DeleteRow (KDirEntry p name), UpdateRow (RInode parent)] v) (\<lambda>_ v.
                                   andThen (commitTx io v) (\<lambda>commitSeq v.
                                     await io commitSeq commitSeq (makeWaitFn commitSeq v))))))))))"

subsection \<open>Renaming\<close>

partial_function (option) into_own_subtree :: "uint64 \<Rightarrow> (uint64 \<times> uint64) list \<Rightarrow> uint64 \<Rightarrow> uint64 \<Rightarrow> bool option" where
  \<comment> \<open>the walk from the new parent to the root: whether it meets the directory that is moved\<close>
  "into_own_subtree root parents child cur =
     (if cur = 0 \<or> cur = root then Some False
      else if cur = child then Some True
      else case map_of parents cur of
             None \<Rightarrow> Some False
           | Some pIno \<Rightarrow> if pIno = cur then Some False else into_own_subtree root parents child pIno)"

declare into_own_subtree.simps [code]

definition rename_target_ops :: "outcomes \<Rightarrow> Volume \<Rightarrow> uint64 \<Rightarrow> Inode \<Rightarrow> row list \<Rightarrow> tx_op list" where
  \<comment> \<open>what happens to the inode that the new name had before\<close>
  "rename_target_ops io v targetID target targetChunkMsgs =
     (if inIsDir target then [DeleteRow (KInode (inIno target))]
      else if inNlink target = 0
      then if hasOpenHandles v targetID then [UpdateRow (RInode target)]
           else DeleteRow (KInode (inIno target)) # map (DeleteRow \<circ> KFileChunk targetID \<circ> chunk_index) targetChunkMsgs
      else [UpdateRow (RInode target)])"

definition rename_check_dir :: "outcomes \<Rightarrow> uint64 \<Rightarrow> uint64 \<Rightarrow> uint64 \<Rightarrow> (uint64 \<times> Inode) option \<Rightarrow> Volume \<Rightarrow> (error + unit) \<times> Volume" where
  \<comment> \<open>the conditions for moving a directory, and its new parent in the map of parents\<close>
  "rename_check_dir io oldParent newParent child target v =
     andThen (case target of
                None \<Rightarrow> (Inr (), v)
              | Some (targetID, row) \<Rightarrow>
                  if \<not> inIsDir row then (Inl ENOTDIR, v)
                  else andThen (scanLimitSQLiteRows io True (PDirEntry targetID) 1 v) (\<lambda>subEntries v.
                         if subEntries \<noteq> [] then (Inl ENOTEMPTY, v) else (Inr (), v))) (\<lambda>_ v.
       if newParent \<noteq> oldParent
       then case into_own_subtree (rootInodeID v) (dirParents v) child newParent of
              None \<Rightarrow> (Inl (Panic ''does not return''), v)
            | Some True \<Rightarrow> (Inl EINVAL, v)
            | Some False \<Rightarrow> (Inr (), v\<lparr>dirParents := AList.update child newParent (dirParents v)\<rparr>)
       else (Inr (), v))"

definition fewer_links :: "Inode \<Rightarrow> Inode" where
  "fewer_links row = (if inNlink row > 2 then row\<lparr>inNlink := inNlink row - 1\<rparr> else row)"

definition more_links :: "Inode \<Rightarrow> Inode" where
  "more_links row = row\<lparr>inNlink := (if inNlink row < 2 then 2 else inNlink row) + 1\<rparr>"

definition Rename :: "outcomes \<Rightarrow> uint64 \<Rightarrow> string \<Rightarrow> uint64 \<Rightarrow> string \<Rightarrow> Volume \<Rightarrow> (error + EntryAttr) \<times> Volume" where
  "Rename io oldP oldName newP newName v =
     (if length oldName > MaxNameLength \<or> length newName > MaxNameLength then (Inl ENAMETOOLONG, v)
      else andThen (checkBackpressure io (beginTx v)) (\<lambda>_ v.
      let oldP = normalizeInodeID v oldP; newP = normalizeInodeID v newP
      in if bad_name oldName \<or> bad_name newName then (Inl EINVAL, v)
      else andThen (getDirEntry io True oldP oldName v) (\<lambda>oldDe v.
      case oldDe of None \<Rightarrow> (Inl ENOENT, v) | Some oldDe \<Rightarrow>
      andThen (getOrLoadInode io True newP v) (\<lambda>newParent v.
      if \<not> inIsDir newParent then (Inl ENOTDIR, v)
      else andThen (getDirEntry io True newP newName v) (\<lambda>targetDe v.
      andThen (getOrLoadInode io True (deIno oldDe) v) (\<lambda>child v.
      andThen (getOrLoadInode io True oldP v) (\<lambda>oldParent v.
      andThen (case targetDe of
                 None \<Rightarrow> (Inr (None, []), v)
               | Some de \<Rightarrow>
                   andThen (getOrLoadInode io True (deIno de) v) (\<lambda>target v.
                     if \<not> inIsDir target \<and> inNlink target \<le> 1 \<and> \<not> hasOpenHandles v (deIno de)
                     then andThen (scanSQLiteRows io True (PFileChunk (deIno de)) v) (\<lambda>msgs v. (Inr (Some (deIno de, target), msgs), v))
                     else (Inr (Some (deIno de, target), []), v))) (\<lambda>(target, targetChunkMsgs) v.
      andThen (if inIsDir child then rename_check_dir io oldP newP (inIno child) target v
               else case target of
                      Some (_, row) \<Rightarrow> if inIsDir row then (Inl EISDIR, v) else (Inr (), v)
                    | None \<Rightarrow> (Inr (), v)) (\<lambda>_ v.
      let moved = (inIsDir child \<and> newP \<noteq> oldP);
          oldParent = touch_dir io (if moved then fewer_links oldParent else oldParent);
          newParent = touch_dir io (if moved \<and> target = None then more_links newParent
                                    else if inIsDir child \<and> newP = oldP \<and> target \<noteq> None then fewer_links newParent else newParent);
          child = (if inIsDir child then child\<lparr>inParentIno := newP\<rparr> else child)\<lparr>inCtime := now io\<rparr>;
          v = (case target of Some (targetID, row) \<Rightarrow> if inIsDir row then v\<lparr>dirParents := AList.delete targetID (dirParents v)\<rparr> else v | None \<Rightarrow> v);
          targetOps = (case target of
                         None \<Rightarrow> []
                       | Some (targetID, row) \<Rightarrow>
                           DeleteRow (KDirEntry newP newName) #
                           rename_target_ops io v targetID (if inIsDir row then row else less_nlink io row) targetChunkMsgs);
          entryMsg = \<lparr>deParentIno = newP, deName = newName, deIno = inIno child, deIsDir = inIsDir child, deMode = inMode child\<rparr>
      in andThen (tx_appends io (DeleteRow (KDirEntry oldP oldName) # targetOps @
                    [InsertRow (RDirEntry entryMsg), UpdateRow (RInode child), UpdateRow (RInode oldParent)]
                    @ (if newP \<noteq> oldP then [UpdateRow (RInode newParent)] else [])) v) (\<lambda>_ v.
         andThen (commitTx io v) (\<lambda>commitSeq v.
           let v = makeWaitFn commitSeq v in await io commitSeq (toEntryAttr v child newName '''') v)))))))))))"

subsection \<open>Handles\<close>

definition AllocFh :: "uint64 \<Rightarrow> Volume \<Rightarrow> uint64 \<times> Volume" where
  "AllocFh i v =
     (let i = normalizeInodeID v i; fh = nextFh v + 1
      in (fh, v\<lparr>nextFh := fh, handles := AList.update fh i (handles v),
                openInodes := AList.update i (case_option 0 id (map_of (openInodes v) i) + 1) (openInodes v)\<rparr>))"

definition Open :: "outcomes \<Rightarrow> uint64 \<Rightarrow> Volume \<Rightarrow> (error + uint64 \<times> EntryAttr \<times> uint64) \<times> Volume" where
  \<comment> \<open>without the barrier of close-to-open volumes\<close>
  "Open io i v =
     (let i = normalizeInodeID v i
      in andThen (getOrLoadInode io False i v) (\<lambda>row v.
           let attr = toEntryAttr v row '''' ''''; pos = lastCommitSeq v; (fh, v) = AllocFh i v
           in (Inr (fh, attr, pos), v)))"

definition release_handle :: "uint64 \<Rightarrow> uint64 \<Rightarrow> Volume \<Rightarrow> (uint64 \<times> bool) \<times> Volume" where
  \<comment> \<open>under the mutex of the handles: the inode, and whether it was its last handle\<close>
  "release_handle i fh v =
     (let (i, v) = (if fh \<noteq> 0 then case map_of (handles v) fh of
                                    Some ino \<Rightarrow> (ino, v\<lparr>handles := AList.delete fh (handles v)\<rparr>)
                                  | None \<Rightarrow> (i, v)
                    else (i, v));
          n = case_option 0 id (map_of (openInodes v) i)
      in if n > 1 then ((i, False), v\<lparr>openInodes := AList.update i (n - 1) (openInodes v)\<rparr>)
         else ((i, True), v\<lparr>openInodes := AList.delete i (openInodes v)\<rparr>))"

definition Release :: "outcomes \<Rightarrow> uint64 \<Rightarrow> uint64 \<Rightarrow> Volume \<Rightarrow> (error + unit) \<times> Volume" where
  "Release io i fh v =
     (let v = beginTx v;
          ((i, lastOne), v) = release_handle (normalizeInodeID v i) fh v
      in if \<not> lastOne then (Inr (), v)
         else case getOrLoadInode io True i v of
                (Inl (Panic m), v) \<Rightarrow> (Inl (Panic m), v)
              | (Inl e, v) \<Rightarrow> (Inr (), v)
              | (Inr row, v) \<Rightarrow>
                  if \<not> inIsDir row \<and> inNlink row = 0
                  then andThen (deleteInodeRows io i v) (\<lambda>_ v.
                       andThen (commitTx io v) (\<lambda>commitSeq v.
                         await io commitSeq () (makeWaitFn commitSeq v)))
                  else (Inr (), v))"

subsection \<open>Loading a volume\<close>

fun orphan_inos :: "row list \<Rightarrow> uint64 list" where
  "orphan_inos [] = []"
| "orphan_inos (RInode r # rs) = (if \<not> inIsDir r \<and> inNlink r = 0 then inIno r # orphan_inos rs else orphan_inos rs)"
| "orphan_inos (_ # rs) = orphan_inos rs"

fun orphan_chunks :: "outcomes \<Rightarrow> uint64 list \<Rightarrow> Volume \<Rightarrow> (error + (uint64 \<times> row list) list) \<times> Volume" where
  "orphan_chunks io [] v = (Inr [], v)"
| "orphan_chunks io (i # is) v =
     andThen (scanSQLiteRows io True (PFileChunk i) v) (\<lambda>msgs v.
     andThen (orphan_chunks io is v) (\<lambda>rest v. (Inr ((i, msgs) # rest), v)))"

definition cleanOrphanInodes :: "outcomes \<Rightarrow> Volume \<Rightarrow> (error + nat) \<times> Volume" where
  "cleanOrphanInodes io v =
     andThen (scanSQLiteRows io True PInode (beginTx v)) (\<lambda>msgs v.
       let orphanInos = orphan_inos msgs
       in if orphanInos = [] then (Inr 0, v)
          else andThen (orphan_chunks io orphanInos v) (\<lambda>orphanChunks v.
               andThen (tx_appends io
                          (concat (map (\<lambda>(i, msgs). DeleteRow (KInode i) # map (DeleteRow \<circ> KFileChunk i \<circ> chunk_index) msgs) orphanChunks)) v) (\<lambda>_ v.
               andThen (commitTx io v) (\<lambda>commitSeq v.
                 await io commitSeq (length orphanInos) (makeWaitFn commitSeq v)))))"

definition initNextInodeFromStats :: "uint64 \<Rightarrow> Volume \<Rightarrow> Volume" where
  \<comment> \<open>when live statistics are there\<close>
  "initNextInodeFromStats highestReplayedIno v =
     (let maxI = (case liveStats v of Some s \<Rightarrow> maxIno s | None \<Rightarrow> 0);
          maxI = (if highestReplayedIno > maxI then highestReplayedIno else maxI);
          nxt = ((maxI + DefaultInodeStride) div DefaultInodeStride) * DefaultInodeStride;
          v = (if maxI > 0 \<and> nxt > nextInode v then v\<lparr>nextInode := nxt\<rparr> else v)
      in if nextInode v < DefaultInodeStride then v\<lparr>nextInode := DefaultInodeStride\<rparr> else v)"

definition root_inode :: "nat \<Rightarrow> Inode" where
  "root_inode t = (new_inode 1)\<lparr>inMode := 0x1ED OR S_IFDIR, inMtime := t, inIsDir := True, inNlink := 2\<rparr>"

definition init_root :: "outcomes \<Rightarrow> Volume \<Rightarrow> (error + unit) \<times> Volume" where
  \<comment> \<open>when there was neither an index nor a snapshot\<close>
  "init_root io v =
     (case getError io (KInode 1) of
        Some e \<Rightarrow> (Inl e, v)
      | None \<Rightarrow>
          (Inr (), v\<lparr>vRows := (if view_get (vRows v) (KInode 1) = None then view_put (RInode (root_inode (now io))) (vRows v) else vRows v),
                     rootInodeID := 1, nextInode := DefaultInodeStride, dirParents := AList.update 1 1 (dirParents v)\<rparr>))"
definition new_volume :: Volume where
  \<comment> \<open>before anything is loaded\<close>
  "new_volume = \<lparr>rootInodeID = 1, nextInode = DefaultInodeStride, maxInlineLen = 4096, vChunkSize = 64 * 1024,
     vRows = \<lparr>inodes = [], entries = [], fchunks = [], xattrs = []\<rparr>, lastCommitSeq = 0, liveStats = None, dirParents = [],
     nextFh = 0, handles = [], openInodes = [], stagedChunks = [], stagedSizes = [], stagedMtimes = [], stagedBytes = 0,
     packRefs = [], vTx = \<lparr>txReads = [], txPrefixes = [], txOps = []\<rparr>\<rparr>"

definition initLiveStats :: "VolumeStats option \<Rightarrow> Volume \<Rightarrow> Volume" where
  \<comment> \<open>from the statistics of the view\<close>
  "initLiveStats viewStats v =
     v\<lparr>liveStats := Some (case viewStats of
          Some s \<Rightarrow> s
        | None \<Rightarrow> \<lparr>maxIno = 0, inodesFile = 0, inodesDir = 0, inodesSymlink = 0, inodesOther = 0, logicalBytes = 0, fileChunks = 0\<rparr>)\<rparr>"

definition load_volume :: "outcomes \<Rightarrow> VolumeStats option \<Rightarrow> uint64 \<Rightarrow> Volume \<Rightarrow> Volume" where
  \<comment> \<open>the end of \<open>loadFromBackendMetadataLocked\<close>; an error of the cleanup is only logged\<close>
  "load_volume io viewStats highestReplayedIno v =
     initNextInodeFromStats highestReplayedIno (snd (cleanOrphanInodes io (initLiveStats viewStats v)))"
end
