(* ===== verification/VolumeLib.thy ===== *)
theory VolumeLib
  imports VolumeOps
begin

text \<open>
  Lemmas on the metadata of a volume: what writes do to rows, that statistics kept along with
  transactions are those of a recount, and rules for the steps of an operation. An operation reads first
  (\<open>reading\<close>), and every key it writes must be one it has read; then a commit cannot fail after the stream has accepted it.
\<close>

subsection \<open>Rows\<close>

lemma view_get_put [simp]: "view_get (view_put r t) k = (if k = key_of r then Some r else view_get t k)"
  by (cases r; cases k) (auto simp: view_put_def update_conv')

lemma view_get_delete [simp]: "view_get (view_delete k' t) k = (if k = k' then None else view_get t k)"
  by (cases k'; cases k) (auto simp: view_delete_def delete_conv')

lemma view_get_apply [simp]:
  "view_get (apply_write w t) k = (if k = written_key w then after_image w else view_get t k)"
  by (cases w) auto

lemma view_get_deletes:
  "view_get (fold apply_write (map (DeleteRow \<circ> f) xs) t) k = (if k \<in> f ` set xs then None else view_get t k)"
  by (induction xs arbitrary: t) auto

fun row_fine :: "row \<Rightarrow> bool" where
  "row_fine (RInode r) \<longleftrightarrow> inSize r \<ge> 0"
| "row_fine _ \<longleftrightarrow> True"

definition tables_ok :: "tables \<Rightarrow> bool" where
  "tables_ok t \<longleftrightarrow> distinct (map fst (inodes t)) \<and> distinct (map fst (entries t)) \<and> distinct (map fst (fchunks t)) \<and> distinct (map fst (xattrs t)) \<and>
     (\<forall>k r. view_get t k = Some r \<longrightarrow> key_of r = k \<and> row_fine r)"

definition write_ok :: "tables \<Rightarrow> tx_op \<Rightarrow> bool" where
  \<comment> \<open>a write keeps the kind of an inode\<close>
  "write_ok t w \<longleftrightarrow>
     (case after_image w of
        Some (RInode a) \<Rightarrow> inSize a \<ge> 0 \<and> (case view_get t (KInode (inIno a)) of Some (RInode b) \<Rightarrow> inodeType b = inodeType a | _ \<Rightarrow> True)
      | _ \<Rightarrow> True)"

fun writes_ok :: "tables \<Rightarrow> tx_op list \<Rightarrow> bool" where
  "writes_ok t [] \<longleftrightarrow> True"
| "writes_ok t (w # ws) \<longleftrightarrow> write_ok t w \<and> writes_ok (apply_write w t) ws"

lemma tables_ok_apply:
  assumes "tables_ok t" "write_ok t w"
  shows "tables_ok (apply_write w t)"
proof -
  have "row_fine r" if "after_image w = Some r" for r
    using assms(2) that by (cases r) (auto simp: write_ok_def)
  moreover have "after_image w = Some r \<Longrightarrow> key_of r = written_key w" for r
    by (cases w) auto
  ultimately have "\<forall>k r. view_get (apply_write w t) k = Some r \<longrightarrow> key_of r = k \<and> row_fine r"
    using assms(1) by (auto simp: tables_ok_def)
  moreover have "distinct (map fst (inodes (apply_write w t))) \<and> distinct (map fst (entries (apply_write w t))) \<and>
      distinct (map fst (fchunks (apply_write w t))) \<and> distinct (map fst (xattrs (apply_write w t)))"
    using assms(1) by (cases w) (auto simp: tables_ok_def view_put_def view_delete_def distinct_update distinct_delete split: row.splits row_key.splits)
  ultimately show ?thesis
    by (simp add: tables_ok_def)
qed

lemma tables_ok_fold: "tables_ok t \<Longrightarrow> writes_ok t ws \<Longrightarrow> tables_ok (fold apply_write ws t)"
  by (induction ws arbitrary: t) (auto simp: tables_ok_apply)

lemma view_get_key: "tables_ok t \<Longrightarrow> view_get t k = Some r \<Longrightarrow> key_of r = k"
  by (simp add: tables_ok_def)

lemma prefix_rows_view:
  assumes "tables_ok t"
  shows "r \<in> set (prefix_rows t p) \<longleftrightarrow> view_get t (key_of r) = Some r \<and> in_prefix p (key_of r)"
proof -
  have key: "\<And>k r. view_get t k = Some r \<Longrightarrow> key_of r = k" and d: "distinct (map fst (inodes t))" "distinct (map fst (entries t))"
    "distinct (map fst (fchunks t))" "distinct (map fst (xattrs t))"
    using assms by (auto simp: tables_ok_def)
  have i: "(k, x) \<in> set (inodes t) \<longleftrightarrow> map_of (inodes t) (inIno x) = Some x \<and> k = inIno x" for k x
    using key [of "KInode k" "RInode x"] d(1) by (auto simp: map_of_eq_Some_iff)
  have e: "(k, x) \<in> set (entries t) \<longleftrightarrow> map_of (entries t) (deParentIno x, deName x) = Some x \<and> k = (deParentIno x, deName x)" for k x
    using key [of "KDirEntry (fst k) (snd k)" "RDirEntry x"] d(2) by (auto simp: map_of_eq_Some_iff)
  have c: "(k, x) \<in> set (fchunks t) \<longleftrightarrow> map_of (fchunks t) (fcIno x, fcIndex x) = Some x \<and> k = (fcIno x, fcIndex x)" for k x
    using key [of "KFileChunk (fst k) (snd k)" "RFileChunk x"] d(3) by (auto simp: map_of_eq_Some_iff)
  have x: "(k, x) \<in> set (xattrs t) \<longleftrightarrow> map_of (xattrs t) (xaIno x, xaName x) = Some x \<and> k = (xaIno x, xaName x)" for k x
    using key [of "KXAttr (fst k) (snd k)" "RXAttr x"] d(4) by (auto simp: map_of_eq_Some_iff)
  show ?thesis
  proof (cases p)
    case PInode
    then show ?thesis
      by (cases r) (auto simp: image_iff Bex_def i)
  next
    case (PDirEntry j)
    then show ?thesis
      by (cases r) (auto simp: image_iff Bex_def e)
  next
    case (PFileChunk j)
    then show ?thesis
      by (cases r) (auto simp: image_iff Bex_def c)
  next
    case (PXAttr j)
    then show ?thesis
      by (cases r) (auto simp: image_iff Bex_def x)
  qed
qed

subsection \<open>Statistics\<close>

lemma sum_list_update:
  fixes f :: "'a \<times> 'b \<Rightarrow> int"
  assumes "distinct (map fst al)"
  shows "sum_list (map f (AList.update k x al)) = sum_list (map f al) + f (k, x) - (case map_of al k of None \<Rightarrow> 0 | Some y \<Rightarrow> f (k, y))"
  using assms by (induction al) (auto split: option.splits)

lemma sum_list_delete:
  fixes f :: "'a \<times> 'b \<Rightarrow> int"
  assumes "distinct (map fst al)"
  shows "sum_list (map f (AList.delete k al)) = sum_list (map f al) - (case map_of al k of None \<Rightarrow> 0 | Some y \<Rightarrow> f (k, y))"
  using assms by (induction al) (auto simp: AList.delete_eq split: option.splits, force dest: map_of_SomeD)

definition kind_count :: "inode_kind \<Rightarrow> tables \<Rightarrow> int" where
  "kind_count K t = sum_list (map (\<lambda>(_, r). if inodeType r = K then 1 else 0) (inodes t))"

definition file_bytes :: "tables \<Rightarrow> int" where
  "file_bytes t = sum_list (map (\<lambda>(_, r). if inodeType r = KFile then inSize r else 0) (inodes t))"

definition chunk_count :: "tables \<Rightarrow> int" where
  "chunk_count t = sum_list (map (\<lambda>_. 1) (fchunks t))"

definition stats_match :: "VolumeStats \<Rightarrow> tables \<Rightarrow> bool" where
  "stats_match s t \<longleftrightarrow> inodesFile s = kind_count KFile t \<and> inodesDir s = kind_count KDir t \<and> inodesSymlink s = kind_count KSymlink t \<and>
     inodesOther s = kind_count KOther t \<and> logicalBytes s = file_bytes t \<and> fileChunks s = chunk_count t \<and>
     (\<forall>i r. map_of (inodes t) i = Some r \<longrightarrow> i \<le> maxIno s)"

lemma kind_count_put:
  assumes "tables_ok t"
  shows "kind_count K (view_put (RInode a) t) =
    kind_count K t + (if inodeType a = K then 1 else 0) - (case map_of (inodes t) (inIno a) of Some b \<Rightarrow> if inodeType b = K then 1 else 0 | None \<Rightarrow> 0)"
    and "file_bytes (view_put (RInode a) t) =
    file_bytes t + (if inodeType a = KFile then inSize a else 0) - (case map_of (inodes t) (inIno a) of Some b \<Rightarrow> if inodeType b = KFile then inSize b else 0 | None \<Rightarrow> 0)"
    and "kind_count K (view_delete (KInode i) t) = kind_count K t - (case map_of (inodes t) i of Some b \<Rightarrow> if inodeType b = K then 1 else 0 | None \<Rightarrow> 0)"
    and "file_bytes (view_delete (KInode i) t) = file_bytes t - (case map_of (inodes t) i of Some b \<Rightarrow> if inodeType b = KFile then inSize b else 0 | None \<Rightarrow> 0)"
    and "chunk_count (view_put (RFileChunk c) t) = chunk_count t + 1 - (case map_of (fchunks t) (fcIno c, fcIndex c) of Some b \<Rightarrow> 1 | None \<Rightarrow> 0)"
    and "chunk_count (view_delete (KFileChunk i n) t) = chunk_count t - (case map_of (fchunks t) (i, n) of Some b \<Rightarrow> 1 | None \<Rightarrow> 0)"
  using assms
  by (simp_all add: tables_ok_def kind_count_def file_bytes_def chunk_count_def view_put_def view_delete_def sum_list_update sum_list_delete split: option.splits)

lemma map_of_inode: "tables_ok t \<Longrightarrow> map_of (inodes t) i = Some r \<Longrightarrow> inIno r = i \<and> inSize r \<ge> 0"
  unfolding tables_ok_def by (elim conjE allE [of _ "KInode i"] allE [of _ "RInode r"]) simp

lemma count_other [simp]:
  "chunk_count (view_put (RInode a) t) = chunk_count t" "chunk_count (view_delete (KInode i) t) = chunk_count t"
  "kind_count K (view_put (RFileChunk c) t) = kind_count K t" "kind_count K (view_delete (KFileChunk i n) t) = kind_count K t"
  "file_bytes (view_put (RFileChunk c) t) = file_bytes t" "file_bytes (view_delete (KFileChunk i n) t) = file_bytes t"
  "inodes (view_put (RFileChunk c) t) = inodes t" "inodes (view_delete (KFileChunk i n) t) = inodes t"
  by (simp_all add: chunk_count_def kind_count_def file_bytes_def view_put_def view_delete_def)

lemma inode_put_match:
  assumes "tables_ok t" "stats_match s t" "inSize a \<ge> 0" "\<And>b. map_of (inodes t) (inIno a) = Some b \<Longrightarrow> inodeType b = inodeType a"
  shows "stats_match (UpdateStatsForInodeChange (map_of (inodes t) (inIno a)) (Some a) s) (view_put (RInode a) t)"
proof (cases "map_of (inodes t) (inIno a)")
  case None
  have "i \<le> (if inIno a > maxIno s then inIno a else maxIno s)" if "map_of (inodes (view_put (RInode a) t)) i = Some r" for i r
  proof (cases "i = inIno a")
    case False
    then have "i \<le> maxIno s"
      using that assms(2) by (auto simp: view_put_def update_conv' stats_match_def)
    then show ?thesis
      by (simp add: order_less_imp_le order_le_less_trans)
  qed (simp add: linorder_not_less)
  with None show ?thesis
    using assms(1-3) by (cases "inodeType a"; cases "inIno a > maxIno s") (auto simp: stats_match_def Let_def kind_count_put)
next
  case (Some b)
  have "\<forall>i r. map_of (inodes (view_put (RInode a) t)) i = Some r \<longrightarrow> i \<le> maxIno s"
    using assms(2) Some by (auto simp: view_put_def update_conv' stats_match_def)
  with Some assms(4) [OF Some] show ?thesis
    using assms(1-3) by (cases "inodeType a") (auto simp: stats_match_def Let_def kind_count_put)
qed

lemma inode_delete_match:
  assumes "tables_ok t" "stats_match s t"
  shows "stats_match (UpdateStatsForInodeChange (map_of (inodes t) i) None s) (view_delete (KInode i) t)"
proof -
  have "\<forall>j r. map_of (inodes (view_delete (KInode i) t)) j = Some r \<longrightarrow> j \<le> maxIno s"
    using assms(2) by (auto simp: view_delete_def delete_conv' stats_match_def)
  moreover have "map_of (inodes t) i = Some b \<Longrightarrow> inSize b \<ge> 0" for b
    using map_of_inode [OF assms(1)] by blast
  ultimately show ?thesis
    using assms by (cases "map_of (inodes t) i"; cases "inodeType (the (map_of (inodes t) i))")
      (force simp: stats_match_def Let_def kind_count_put)+
qed

lemma stats_match_other [simp]:
  "stats_match s (view_put (RDirEntry d) t) = stats_match s t" "stats_match s (view_delete (KDirEntry i n) t) = stats_match s t"
  "stats_match s (view_put (RXAttr x) t) = stats_match s t" "stats_match s (view_delete (KXAttr i n) t) = stats_match s t"
  by (simp_all add: stats_match_def chunk_count_def kind_count_def file_bytes_def view_put_def view_delete_def)

lemma stats_step:
  assumes "tables_ok t" "write_ok t w" "stats_match s t"
  shows "\<exists>s'. UpdateVolumeStats (view_get t (written_key w)) (after_image w) s = Inr s' \<and> stats_match s' (apply_write w t)"
proof -
  have put: ?thesis if w: "w = InsertRow r \<or> w = UpdateRow r" for r
  proof (cases r)
    case (RInode a)
    have "\<And>b. map_of (inodes t) (inIno a) = Some b \<Longrightarrow> inodeType b = inodeType a" "inSize a \<ge> 0"
      using assms(2) w RInode by (auto simp: write_ok_def)
    from inode_put_match [OF assms(1,3) this(2,1)] show ?thesis
      using w RInode by (cases "map_of (inodes t) (inIno a)") (auto simp: UpdateVolumeStats_def)
  next
    case (RFileChunk c)
    then show ?thesis
      using assms(1,3) w by (cases "map_of (fchunks t) (fcIno c, fcIndex c)")
        (auto simp: UpdateVolumeStats_def stats_match_def kind_count_put)
  qed (use assms(3) w in \<open>auto simp: UpdateVolumeStats_def split: option.splits row.splits\<close>)
  have del: ?thesis if w: "w = DeleteRow k" for k
  proof (cases k)
    case (KInode i)
    from inode_delete_match [OF assms(1,3), of i] show ?thesis
      using w KInode by (cases "map_of (inodes t) i") (auto simp: UpdateVolumeStats_def)
  next
    case (KFileChunk i n)
    then show ?thesis
      using assms(1,3) w by (cases "map_of (fchunks t) (i, n)")
        (auto simp: UpdateVolumeStats_def stats_match_def kind_count_put)
  qed (use assms(3) w in \<open>auto simp: UpdateVolumeStats_def split: option.splits row.splits\<close>)
  show ?thesis
    using put del by (cases w) blast+
qed

definition before_image :: "(row_key \<times> row option) list \<Rightarrow> metaTx \<Rightarrow> row_key \<Rightarrow> row option option" where
  "before_image latest tx k = (case map_of latest k of Some r \<Rightarrow> Some r | None \<Rightarrow> lookupRead tx k)"

lemma stats_loop_match:
  assumes "tables_ok t" "writes_ok t ws" "stats_match s t" "\<forall>k \<in> written_key ` set ws. before_image latest tx k = Some (view_get t k)"
  shows "\<exists>s'. stats_loop tx ws latest s = Inr s' \<and> stats_match s' (fold apply_write ws t)"
  using assms
proof (induction ws arbitrary: t s latest)
  case (Cons w ws)
  let ?k = "written_key w"
  obtain s' where s': "UpdateVolumeStats (view_get t ?k) (after_image w) s = Inr s'" "stats_match s' (apply_write w t)"
    using stats_step [of t w s] Cons.prems by auto
  have "before_image latest tx ?k = Some (view_get t ?k)"
    using Cons.prems(4) by simp
  moreover have "\<exists>s''. stats_loop tx ws (AList.update ?k (after_image w) latest) s' = Inr s'' \<and> stats_match s'' (fold apply_write ws (apply_write w t))"
    using Cons.prems s'(2) by (intro Cons.IH) (auto simp: tables_ok_apply before_image_def update_conv')
  ultimately show ?case
    using s'(1) by (auto simp: before_image_def)
qed simp

definition adds_inodes :: "VolumeStats \<Rightarrow> (uint64 \<times> Inode) list \<Rightarrow> VolumeStats \<Rightarrow> bool" where
  "adds_inodes s xs s' \<longleftrightarrow>
     inodesFile s' = inodesFile s + sum_list (map (\<lambda>(_, r). if inodeType r = KFile then 1 else 0) xs) \<and>
     inodesDir s' = inodesDir s + sum_list (map (\<lambda>(_, r). if inodeType r = KDir then 1 else 0) xs) \<and>
     inodesSymlink s' = inodesSymlink s + sum_list (map (\<lambda>(_, r). if inodeType r = KSymlink then 1 else 0) xs) \<and>
     inodesOther s' = inodesOther s + sum_list (map (\<lambda>(_, r). if inodeType r = KOther then 1 else 0) xs) \<and>
     logicalBytes s' = logicalBytes s + sum_list (map (\<lambda>(_, r). if inodeType r = KFile then inSize r else 0) xs) \<and>
     fileChunks s' = fileChunks s \<and> maxIno s \<le> maxIno s' \<and> (\<forall>i \<in> fst ` set xs. i \<le> maxIno s')"

lemma fold_inode_stats:
  assumes "\<forall>(i, r) \<in> set xs. inSize r \<ge> 0 \<and> inIno r = i"
  shows "adds_inodes s xs (fold (\<lambda>(_, r). UpdateStatsForInodeChange None (Some r)) xs s)"
  using assms
proof (induction xs arbitrary: s)
  case (Cons x xs)
  define s1 where "s1 = UpdateStatsForInodeChange None (Some (snd x)) s"
  have "adds_inodes s [x] s1"
    using Cons.prems by (cases x; cases "inodeType (snd x)") (auto simp: adds_inodes_def s1_def Let_def linorder_not_less order_less_imp_le)
  moreover have "adds_inodes s1 xs (fold (\<lambda>(_, r). UpdateStatsForInodeChange None (Some r)) xs s1)"
    using Cons.prems by (intro Cons.IH) simp
  ultimately have "adds_inodes s (x # xs) (fold (\<lambda>(_, r). UpdateStatsForInodeChange None (Some r)) xs s1)"
    by (auto simp: adds_inodes_def)
  then show ?case
    unfolding s1_def by (cases x) (simp del: UpdateStatsForInodeChange.simps)
qed (simp add: adds_inodes_def)

lemma fold_chunk_stats:
  "fold (\<lambda>(_, c). UpdateStatsForFileChunkChange None (Some c)) xs s = s\<lparr>fileChunks := fileChunks s + sum_list (map (\<lambda>_. 1) xs)\<rparr>"
  by (induction xs arbitrary: s) auto

lemma count_match:
  assumes "tables_ok t"
  shows "stats_match (countStatsFromIndex t) t"
proof -
  have "\<forall>(i, r) \<in> set (inodes t). inSize r \<ge> 0 \<and> inIno r = i"
    using assms map_of_inode [OF assms] by (auto simp: tables_ok_def)
  note adds = fold_inode_stats [OF this, of "\<lparr>maxIno = 0, inodesFile = 0, inodesDir = 0, inodesSymlink = 0, inodesOther = 0, logicalBytes = 0, fileChunks = 0\<rparr>"]
  then have "\<forall>i \<in> fst ` set (inodes t). i \<le> maxIno (countStatsFromIndex t)"
    by (simp add: countStatsFromIndex_def adds_inodes_def fold_chunk_stats)
  then have "i \<le> maxIno (countStatsFromIndex t)" if "map_of (inodes t) i = Some r" for i r
    using that by (force dest: map_of_SomeD)
  with adds show ?thesis
    by (simp add: countStatsFromIndex_def stats_match_def adds_inodes_def fold_chunk_stats kind_count_def file_bytes_def chunk_count_def)
qed

lemma stats_match_unique: "stats_match s t \<Longrightarrow> stats_match s' t \<Longrightarrow> s\<lparr>maxIno := 0\<rparr> = s'\<lparr>maxIno := 0\<rparr>"
  by (simp add: stats_match_def)

subsection \<open>Transactions\<close>

definition is_panic :: "error \<Rightarrow> bool" where
  "is_panic e \<longleftrightarrow> (case e of Panic _ \<Rightarrow> True | _ \<Rightarrow> False)"

lemma is_panic_simps [simp]: "is_panic (Panic m)" "\<not> is_panic (ErrMsg m)"
  by (simp_all add: is_panic_def)

definition calm :: "outcomes \<Rightarrow> bool" where
  \<comment> \<open>calls fail by returning errors\<close>
  "calm io \<longleftrightarrow> (\<forall>e. backpressure io = Some e \<or> waitError io = Some e \<or> commitResult io = Inl e \<longrightarrow> \<not> is_panic e) \<and>
     (\<forall>k e. getError io k = Some e \<longrightarrow> \<not> is_panic e) \<and> (\<forall>p e. scanError io p = Some e \<longrightarrow> \<not> is_panic e) \<and>
     (\<forall>n e. writeError io n = Some e \<longrightarrow> \<not> is_panic e) \<and> (\<forall>b e. putBlobs io b = Some e \<longrightarrow> \<not> is_panic e)"

definition tx_sound :: "Volume \<Rightarrow> bool" where
  "tx_sound v \<longleftrightarrow> (\<forall>k r. lookupRead (vTx v) k = Some r \<longrightarrow> r = view_get (vRows v) k)"

definition covers :: "Volume \<Rightarrow> row_key set" where
  "covers v = {k. lookupRead (vTx v) k \<noteq> None}"

definition stats_ok :: "Volume \<Rightarrow> bool" where
  "stats_ok v \<longleftrightarrow> (\<forall>s. liveStats v = Some s \<longrightarrow> stats_match s (vRows v))"

lemma andThen_assoc: "andThen (andThen r f) g = andThen r (\<lambda>x v. andThen (f x v) g)"
  by (simp add: andThen_def split: prod.splits sum.splits)

lemma tx_appends_append:
  "tx_appends io (us @ ws) v = andThen (tx_appends io us v) (\<lambda>_ v. tx_appends io ws v)"
  by (induction us arbitrary: v) (simp_all add: andThen_def split: prod.splits sum.splits)

lemma tx_appends_cases:
  assumes "calm io"
  shows "(\<exists>e ops. \<not> is_panic e \<and> tx_appends io ws v = (Inl e, v\<lparr>vTx := (vTx v)\<lparr>txOps := ops\<rparr>\<rparr>)) \<or>
    tx_appends io ws v = (Inr (), v\<lparr>vTx := (vTx v)\<lparr>txOps := txOps (vTx v) @ ws\<rparr>\<rparr>)"
proof (induction ws arbitrary: v)
  case (Cons w ws)
  show ?case
  proof (cases "writeError io (length (txOps (vTx v)))")
    case None
    with Cons [of "v\<lparr>vTx := (vTx v)\<lparr>txOps := txOps (vTx v) @ [w]\<rparr>\<rparr>"] show ?thesis
      by (auto simp: tx_append_def)
  next
    case (Some e)
    then have "tx_appends io (w # ws) v = (Inl e, v\<lparr>vTx := (vTx v)\<lparr>txOps := txOps (vTx v)\<rparr>\<rparr>)" "\<not> is_panic e"
      using assms by (auto simp: tx_append_def calm_def)
    then show ?thesis
      by blast
  qed
qed simp

definition commit_result :: "Volume \<Rightarrow> tx_op list \<Rightarrow> (error + uint64) \<times> Volume \<Rightarrow> bool" where
  \<comment> \<open>nothing has happened, or all writes have been made and the statistics are right\<close>
  "commit_result v ws r \<longleftrightarrow>
     (\<exists>e tx. \<not> is_panic e \<and> r = (Inl e, v\<lparr>vTx := tx\<rparr>)) \<or>
     (\<exists>seq tx s. r = (Inr seq, v\<lparr>vTx := tx, liveStats := s, vRows := fold apply_write ws (vRows v)\<rparr>) \<and>
        stats_ok (v\<lparr>vTx := tx, liveStats := s, vRows := fold apply_write ws (vRows v)\<rparr>))"

lemma commit_cases:
  assumes "calm io" "txOps (vTx v) = []" "tx_sound v" "tables_ok (vRows v)" "stats_ok v" "writes_ok (vRows v) ws" "written_key ` set ws \<subseteq> covers v"
  shows "commit_result v ws (andThen (tx_appends io ws v) (\<lambda>_ v. commitTx io v))"
proof -
  let ?v = "v\<lparr>vTx := (vTx v)\<lparr>txOps := ws\<rparr>\<rparr>"
  have "lookupRead (vTx ?v) k = lookupRead (vTx v) k" for k
    by (simp add: lookupRead_def)
  then have "\<forall>k \<in> written_key ` set ws. before_image [] (vTx ?v) k = Some (view_get (vRows v) k)"
    using assms(3,7) unfolding before_image_def tx_sound_def covers_def by fastforce
  then have stats: "\<exists>s'. stats_loop (vTx ?v) ws [] s = Inr s' \<and> stats_match s' (fold apply_write ws (vRows v))" if "liveStats v = Some s" for s
    using assms(4-6) that by (intro stats_loop_match) (auto simp: stats_ok_def)
  consider (err) e where "commitResult io = Inl e" | (seq) seq where "commitResult io = Inr seq"
    by (cases "commitResult io") auto
  then have c: "commit_result v ws (commitTx io ?v)"
  proof cases
    case err
    then show ?thesis
      using assms(1) by (auto simp: commitTx_def calm_def commit_result_def)
  next
    case seq
    show ?thesis
    proof (cases "liveStats v")
      case None
      then have "commitTx io ?v = (Inr seq, v\<lparr>vTx := vTx ?v, liveStats := None, vRows := fold apply_write ws (vRows v)\<rparr>)"
        using seq by (simp add: commitTx_def applyTxChanges_def)
      then show ?thesis
        unfolding commit_result_def by (intro disjI2) (force simp: stats_ok_def)
    next
      case (Some s)
      from stats [OF Some] obtain s' where "stats_loop (vTx ?v) ws [] s = Inr s'" "stats_match s' (fold apply_write ws (vRows v))"
        by blast
      then have "commitTx io ?v = (Inr seq, v\<lparr>vTx := vTx ?v, liveStats := Some s', vRows := fold apply_write ws (vRows v)\<rparr>)"
        "stats_ok (v\<lparr>vTx := vTx ?v, liveStats := Some s', vRows := fold apply_write ws (vRows v)\<rparr>)"
        using seq Some by (simp_all add: commitTx_def applyTxChanges_def stats_ok_def)
      then show ?thesis
        unfolding commit_result_def by blast
    qed
  qed
  from tx_appends_cases [OF assms(1), of ws v] show ?thesis
  proof
    assume "\<exists>e ops. \<not> is_panic e \<and> tx_appends io ws v = (Inl e, v\<lparr>vTx := (vTx v)\<lparr>txOps := ops\<rparr>\<rparr>)"
    then obtain e ops where "\<not> is_panic e" "tx_appends io ws v = (Inl e, v\<lparr>vTx := (vTx v)\<lparr>txOps := ops\<rparr>\<rparr>)"
      by blast
    then show ?thesis
      unfolding commit_result_def by (intro disjI1 exI [of _ e]) auto
  qed (use c assms(2) in simp)
qed

end
