(* ===== verification/VolumeFindings.thy ===== *)
theory VolumeFindings
  imports VolumeLib PackProps
begin

text \<open>
  Sequences of operations in which no call fails and after which the namespace of a volume is broken. They
  are evaluated on a new volume with its root.
\<close>

definition steady :: outcomes where
  \<comment> \<open>no call fails\<close>
  "steady = \<lparr>now = 0, backpressure = None, getError = (\<lambda>_. None), scanError = (\<lambda>_. None), writeError = (\<lambda>_. None),
     commitResult = Inr 1, waitError = None, putBlobs = (\<lambda>_. None)\<rparr>"

definition empty_volume :: Volume where
  "empty_volume = snd (init_root steady new_volume)"

definition reopened :: "Volume \<Rightarrow> Volume" where
  \<comment> \<open>as another process loads it\<close>
  "reopened v = new_volume\<lparr>vRows := vRows v, nextInode := nextInode v\<rparr>"

definition mkdirs :: "(uint64 \<times> string) list \<Rightarrow> Volume \<Rightarrow> Volume" where
  "mkdirs ds v = fold (\<lambda>(p, n) v. snd (Mkdir steady p n 0 0 0 v)) ds v"

definition parent_of :: "Volume \<Rightarrow> uint64 \<Rightarrow> uint64" where
  "parent_of v i = case_option 0 inParentIno (map_of (inodes (vRows v)) i)"

definition closed_walk :: "uint64 \<Rightarrow> (uint64 \<times> uint64) list \<Rightarrow> uint64 \<Rightarrow> uint64 set \<Rightarrow> bool" where
  "closed_walk root parents child S \<longleftrightarrow>
     (\<forall>i \<in> S. i \<noteq> 0 \<and> i \<noteq> root \<and> i \<noteq> child \<and> (\<exists>p \<in> S. map_of parents i = Some p \<and> p \<noteq> i))"

lemma own_subtree_loops:
  assumes "closed_walk root parents child S" "cur \<in> S"
  shows "into_own_subtree root parents child cur = None"
proof -
  have "closed_walk root parents child S \<longrightarrow> cur \<notin> S" if "into_own_subtree root parents child cur = Some b" for b
    using that
  proof (rule into_own_subtree.raw_induct [rotated, where P = "\<lambda>r ps c i _. closed_walk r ps c S \<longrightarrow> i \<notin> S"], intro impI notI)
    fix f :: "uint64 \<Rightarrow> (uint64 \<times> uint64) list \<Rightarrow> uint64 \<Rightarrow> uint64 \<Rightarrow> bool option" and r ps c i b
    assume IH: "\<And>r ps c i b. f r ps c i = Some b \<Longrightarrow> closed_walk r ps c S \<longrightarrow> i \<notin> S"
      and b: "(if i = 0 \<or> i = r then Some False else if i = c then Some True
        else case map_of ps i of None \<Rightarrow> Some False | Some p \<Rightarrow> if p = i then Some False else f r ps c p) = Some b"
      and S: "closed_walk r ps c S" "i \<in> S"
    then obtain p where "p \<in> S" "map_of ps i = Some p" "p \<noteq> i" "i \<noteq> 0" "i \<noteq> r" "i \<noteq> c"
      by (auto simp: closed_walk_def)
    with IH [of r ps c p] b S(1) show False
      by auto
  qed
  with assms show ?thesis
    by (cases "into_own_subtree root parents child cur") auto
qed

text \<open>C38: The check of \<^verbatim>\<open>Rename\<close> that a directory is not moved below itself follows a map of parents that
  a restarted controller has not filled. In a running volume moving \<open>a\<close> into \<open>a/b/c\<close> is refused. After a restart it succeeds and makes the
  three directories a cycle that cannot be reached from the root. When their inodes have been looked up, the
  walk with which the move of another directory \<open>d\<close> into the cycle begins never ends, with the mutex of the volume held.\<close>

theorem rename_into_own_subtree:
  "(let v = mkdirs [(1, ''a''), (8, ''b''), (16, ''c''), (1, ''d'')] empty_volume;
        v' = snd (Rename steady 1 ''a'' 24 ''a'' (reopened v));
        seen = fold (\<lambda>i v. snd (GetAttr steady i v)) [8, 16, 24, 32] v'
    in fst (Rename steady 1 ''a'' 24 ''a'' v) = Inl EINVAL \<and> \<not> isl (fst (Rename steady 1 ''a'' 24 ''a'' (reopened v))) \<and>
       map (parent_of v') [8, 16, 24] = [24, 8, 16] \<and> fst (ResolvePath steady ''/a'' v') = Inl ENOENT \<and>
       into_own_subtree (rootInodeID seen) (dirParents seen) 32 24 = None)"
proof -
  define v where "v = mkdirs [(1, ''a''), (8, ''b''), (16, ''c''), (1, ''d'')] empty_volume"
  define r where "r = Rename steady 1 ''a'' 24 ''a'' (reopened v)"
  define seen where "seen = fold (\<lambda>i v. snd (GetAttr steady i v)) [8, 16, 24, 32] (snd r)"
  have "let v = mkdirs [(1, ''a''), (8, ''b''), (16, ''c''), (1, ''d'')] empty_volume; r = Rename steady 1 ''a'' 24 ''a'' (reopened v);
      seen = fold (\<lambda>i v. snd (GetAttr steady i v)) [8, 16, 24, 32] (snd r)
    in fst (Rename steady 1 ''a'' 24 ''a'' v) = Inl EINVAL \<and> \<not> isl (fst r) \<and> map (parent_of (snd r)) [8, 16, 24] = [24, 8, 16] \<and>
       fst (ResolvePath steady ''/a'' (snd r)) = Inl ENOENT \<and>
       rootInodeID seen = 1 \<and> map (map_of (dirParents seen)) [8, 16, 24] = [Some 24, Some 8, Some 16]"
    by code_simp
  then have run: "fst (Rename steady 1 ''a'' 24 ''a'' v) = Inl EINVAL \<and> \<not> isl (fst r) \<and> map (parent_of (snd r)) [8, 16, 24] = [24, 8, 16] \<and>
       fst (ResolvePath steady ''/a'' (snd r)) = Inl ENOENT \<and>
       rootInodeID seen = 1 \<and> map (map_of (dirParents seen)) [8, 16, 24] = [Some 24, Some 8, Some 16]"
    unfolding Let_def v_def [symmetric] r_def [symmetric] seen_def [symmetric] .
  then have "closed_walk (rootInodeID seen) (dirParents seen) 32 {8, 16, 24}"
    by (simp add: closed_walk_def)
  then have "into_own_subtree (rootInodeID seen) (dirParents seen) 32 24 = None"
    by (rule own_subtree_loops) simp
  with run show ?thesis
    unfolding Let_def v_def [symmetric] r_def [symmetric] seen_def [symmetric] by blast
qed

definition one_file :: Volume where
  \<comment> \<open>with a file \<open>f\<close> of three bytes\<close>
  "one_file = empty_volume\<lparr>vRows := fold view_put
     [RInode ((new_inode 8)\<lparr>inMode := 0x81A4, inSize := 3, inNlink := 1\<rparr>),
      RDirEntry \<lparr>deParentIno = 1, deName = ''f'', deIno = 8, deIsDir = False, deMode = 0x81A4\<rparr>,
      RFileChunk \<lparr>fcIno = 8, fcIndex = 0, fcSha256 = '''', fcInlineData = [1, 2, 3]\<rparr>] (vRows empty_volume)\<rparr>"



end
