(* ===== verification/Spec2Isabelle.thy ===== *)
theory Spec2Isabelle
  imports CodecProps WalNames WalProps WalFindings BlobProps BlobStoreProps StreamProps SdsProps VolumeFindings
begin

text \<open>
  A verification of ObjectFS, a file system for Kubernetes clusters that keeps its data in object
  storage. All paths are relative to \<^verbatim>\<open>src\<close>.

  \<^bold>\<open>The program.\<close> A controller (\<^verbatim>\<open>pkg/objectfs/controller\<close>) holds volumes. The metadata of a volume (inodes,
  directory entries, chunks of files, extended attributes) are rows of a structured data stream
  (\<^verbatim>\<open>pkg/sds\<close>): operations append row changes to the stream, and a view with a local index answers reads.
  A stream is a write-ahead log (\<^verbatim>\<open>pkg/wal\<close>): a client keeps records in local segment files, a
  buffer server collects the records of many clients in aggregated segments and in files of single streams,
  and moves them to object storage (\<^verbatim>\<open>pkg/objectstore\<close>). File contents are blobs named by their hash,
  loose or in packfiles (\<^verbatim>\<open>pkg/objectfs/blob\<close>).

  \<^bold>\<open>Conventions.\<close> A struct is a record, a Go integer a word of its width (or an integer where its range
  plays no role), a \<open>[]byte\<close> a list of bytes, a string a list of characters. A call that can fail returns \<open>error + 'a\<close>
  with the new state; a panic is an error value \<open>Panic\<close>; calls are chained by \<open>andThen\<close>. Loops are
  recursive functions that are total, without fuel: loops that read input end because the input gets
  shorter. Only the walk over ancestors in \<open>Rename\<close> need not end; it is a partial function. Interleavings are \<open>inductive\<close> step relations. Code outside of the sources (SHA-256, zlib, the
  protobuf library, the transport of a stream) is an argument of the definitions, with the laws assumed of it
  as named predicates, for which the witnesses give concrete instances.

  \<^bold>\<open>Theories.\<close>

  \<^item> \<open>Prelude\<close>, \<open>GoStd\<close>: errors, \<open>andThen\<close>, byte codecs, and what is used of the Go library.

  \<^item> \<open>FileSystem\<close>: the operating system below all stores: files with their written and their synced
    content, faults of single calls, short writes and crashes.

  \<^item> Write-ahead log, \<^verbatim>\<open>pkg/wal/header.go\<close>, \<^verbatim>\<open>record.go\<close>, \<^verbatim>\<open>segment.go\<close>: \<open>WalHeader\<close>, \<open>Crc32c\<close>, \<open>WalRecord\<close>, \<open>WalNames\<close>,
    \<open>WalScan\<close>, \<open>WalSegment\<close> hold the definitions (\<open>AppendBatch\<close>, \<open>TruncateAfter\<close>, \<open>DeleteSegmentsBeforeS3Ack\<close>, ... under
    the names of the methods). \<open>CodecProps\<close> shows that decoding is the inverse of encoding and that bursts
    of errors are rejected. \<open>WalStore\<close>, \<open>WalStoreOps\<close>, \<open>WalRecovery\<close>, \<open>WalDurability\<close> and \<open>WalProps\<close> show that a store is a list
    of records on which its methods append, truncate, delete and read, also when calls fail, and that a
    crash leaves a prefix that contains every synced record. \<open>WalFindings\<close> shows two faults after which this does not hold.

  \<^item> Blobs, \<^verbatim>\<open>pkg/objectfs/blob/blob.go\<close>, \<^verbatim>\<open>incremental_pack.go\<close>, \<^verbatim>\<open>store.go\<close>: \<open>Blob\<close>, \<open>Pack\<close>, \<open>PackV1\<close>, \<open>BlobStore\<close> hold the
    definitions; \<open>PackLib\<close>, \<open>PackProps\<close>, \<open>BlobProps\<close>, \<open>BlobStoreProps\<close> show round trips, that packs survive failed
    appends, that the content of a packed blob is checked against its hash, and that the blob store returns what was stored.

  \<^item> Object storage, \<^verbatim>\<open>pkg/objectstore\<close>: \<open>ObjectStore\<close> has the interface as a record of operations, the memory and the
    directory backend; \<open>ObjectLaws\<close> its contract as the locale \<open>object_backend\<close>, interpreted for both.

  \<^item> Streams in the buffer server, \<^verbatim>\<open>pkg/wal/buffer/stream_store.go\<close>, \<^verbatim>\<open>segments.go\<close>: \<open>StreamWriter\<close> and \<open>StreamStore\<close> hold the
    definitions; \<open>StreamLib\<close>, \<open>StreamRun\<close>, \<open>StreamGC\<close>, \<open>StreamProps\<close> show for every run without faults that a stream keeps its
    records in order and that an aggregated segment is deleted only when its records are readable from the
    objects of their streams, and for single calls with faults what happens to the records.

  \<^item> Structured data streams, \<^verbatim>\<open>pkg/sds\<close>: \<open>SdsProto\<close> states what is assumed of the protobuf library; \<open>SdsFrame\<close>, \<open>SdsRegistry\<close>,
    \<open>SdsKeys\<close>, \<open>SdsRecord\<close>, \<open>SdsStream\<close> (\<^verbatim>\<open>record/*.go\<close>, \<^verbatim>\<open>keys.go\<close>, \<^verbatim>\<open>writer.go\<close>, \<^verbatim>\<open>reader.go\<close>, \<^verbatim>\<open>wal.go\<close>), \<open>SdsIndex\<close> (\<^verbatim>\<open>memtable/memtable.go\<close>),
    \<open>SdsCache\<close>, \<open>SdsView\<close> (\<^verbatim>\<open>view/*.go\<close>) hold the definitions. \<open>SdsRun\<close> relates a writer with the readers of its
    stream, \<open>SdsViewRun\<close> a view with the changes it was given while its worker runs (over the locale \<open>local_index\<close>), \<open>SdsDemo\<close>
    is an instance of the protobuf library for concrete runs, \<open>SdsProps\<close> has the properties.

  \<^item> Volumes, \<^verbatim>\<open>pkg/objectfs/controller/volume.go\<close>, \<^verbatim>\<open>aggregator.go\<close>: \<open>VolumeMeta\<close> holds rows, transactions, statistics and the
    loading of inodes, \<open>VolumeOps\<close> the operations on names, attributes and handles, \<open>VolumeLib\<close> shows that statistics kept
    along with transactions are those of a recount, and that a commit the stream has accepted cannot panic. \<open>VolumeFindings\<close> has three runs that break the namespace.

  \<^bold>\<open>Not modelled.\<close> Timers, goroutines as such and memory shared between them: where the code
  interleaves, the model has the critical sections as steps. The replication protocol between WAL client and buffer
  server, the S3 and Google Cloud backends, SQLite projections, snapshots of indexes, EROFS images, the FUSE file
  system and its caches, the node daemon, the gRPC services, the reading and writing of file contents through a
  volume with its staging and upload workers, and the commands consist of calls of libraries, system calls and
  services whose code is not in the repository, or of goroutines coordinated by timers and condition variables;
  the manifest lists them one by one.
\<close>

end
